(* ===== verification/Prelude.thy ===== *)
theory Prelude
  imports Main "HOL-Library.Word" "HOL-Library.Monad_Syntax"
begin

text \<open>
  Shared vocabulary of the development: bytes and machine words, byte buffers
  (\<open>memcpy\<close> into and out of a buffer), little-endian encoding, C strings, the kernel's
  error numbers, and the generic lemmas on lists that the component theories share.

  Conventions used by every theory. A C function that can reach undefined behaviour (an access
  outside an object, a NULL dereference, a double free) has an \<open>option\<close> result, and
  \<^const>\<open>None\<close> is exactly that outcome; an error code returned by the code is an ordinary
  value (\<open>int\<close>, or the left of a sum where the code returns a buffer on success).
  The word size is that of the code: \<open>unsigned int\<close> is \<open>32 word\<close>, with the wrap-around
  of its arithmetic. Struct images in memory are little-endian.
\<close>

type_synonym byte = "8 word"
type_synonym u16 = "16 word"
type_synonym u32 = "32 word"
type_synonym u64 = "64 word"

named_theorems buf_simps \<open>reading and writing byte buffers\<close>
named_theorems wire_simps \<open>decoding what was encoded\<close>

section \<open>Error numbers (linux/errno.h)\<close>

abbreviation (input) ENOENT :: int where "ENOENT \<equiv> 2"
abbreviation (input) EINTR :: int where "EINTR \<equiv> 4"
abbreviation (input) EIO :: int where "EIO \<equiv> 5"
abbreviation (input) EAGAIN :: int where "EAGAIN \<equiv> 11"
abbreviation (input) ENOMEM :: int where "ENOMEM \<equiv> 12"
abbreviation (input) EACCES :: int where "EACCES \<equiv> 13"
abbreviation (input) EFAULT :: int where "EFAULT \<equiv> 14"
abbreviation (input) EBUSY :: int where "EBUSY \<equiv> 16"
abbreviation (input) ENODEV :: int where "ENODEV \<equiv> 19"
abbreviation (input) EINVAL :: int where "EINVAL \<equiv> 22"
abbreviation (input) ENOTTY :: int where "ENOTTY \<equiv> 25"
abbreviation (input) ENOSPC :: int where "ENOSPC \<equiv> 28"

section \<open>Byte buffers\<close>

text \<open>\<open>memcpy(dst, buf + off, n)\<close> and \<open>memcpy(buf + off, xs, length xs)\<close>.\<close>

definition get_bytes :: "nat \<Rightarrow> nat \<Rightarrow> 'a list \<Rightarrow> 'a list" where
  "get_bytes off n bs = take n (drop off bs)"

definition put_bytes :: "nat \<Rightarrow> 'a list \<Rightarrow> 'a list \<Rightarrow> 'a list" where
  "put_bytes off xs bs = take off bs @ xs @ drop (off + length xs) bs"

lemma length_get_bytes [simp, buf_simps]:
  "off + n \<le> length bs \<Longrightarrow> length (get_bytes off n bs) = n"
  by (simp add: get_bytes_def)

lemma length_put_bytes [simp, buf_simps]:
  "off + length xs \<le> length bs \<Longrightarrow> length (put_bytes off xs bs) = length bs"
  by (simp add: put_bytes_def)

lemma nth_get_bytes:
  "off + n \<le> length bs \<Longrightarrow> i < n \<Longrightarrow> get_bytes off n bs ! i = bs ! (off + i)"
  by (simp add: get_bytes_def)

lemma nth_put_bytes:
  "off + length xs \<le> length bs \<Longrightarrow> i < length bs \<Longrightarrow>
   put_bytes off xs bs ! i =
     (if off \<le> i \<and> i < off + length xs then xs ! (i - off) else bs ! i)"
  by (auto simp: put_bytes_def nth_append min_def)

lemma get_put_same [simp, buf_simps]:
  "off + length xs \<le> length bs \<Longrightarrow> n = length xs \<Longrightarrow> get_bytes off n (put_bytes off xs bs) = xs"
  by (simp add: get_bytes_def put_bytes_def)

lemma get_put_disjoint [buf_simps]:
  assumes "off + length xs \<le> length bs" "o' + n \<le> length bs"
    and "o' + n \<le> off \<or> off + length xs \<le> o'"
  shows "get_bytes o' n (put_bytes off xs bs) = get_bytes o' n bs"
  using assms by (intro nth_equalityI) (auto simp: nth_get_bytes nth_put_bytes)

lemma get_put_inside [buf_simps]:
  assumes "b + length xs \<le> length bs" "b \<le> o'" "o' + n \<le> b + length xs"
  shows "get_bytes o' n (put_bytes b xs bs) = get_bytes (o' - b) n xs"
  using assms by (intro nth_equalityI) (auto simp: nth_get_bytes nth_put_bytes)

lemma put_put_same [simp, buf_simps]:
  "off + length xs \<le> length bs \<Longrightarrow> length ys = length xs \<Longrightarrow>
   put_bytes off ys (put_bytes off xs bs) = put_bytes off ys bs"
  by (simp add: put_bytes_def)

lemma put_put_append:
  assumes "off + length xs \<le> length bs" "o' = off + length xs"
  shows "put_bytes o' ys (put_bytes off xs bs) = put_bytes off (xs @ ys) bs"
proof (cases "xs = []")
  case False
  then have "off < length bs" using assms by (cases xs) auto
  then show ?thesis using assms by (simp add: put_bytes_def min_def add.commute add.left_commute)
qed (use assms in \<open>simp add: put_bytes_def\<close>)

lemma put_get_same [simp, buf_simps]:
  "off + n \<le> length bs \<Longrightarrow> put_bytes off (get_bytes off n bs) bs = bs"
  by (intro nth_equalityI) (auto simp: nth_put_bytes nth_get_bytes)

lemma get_bytes_all [simp]: "get_bytes 0 (length bs) bs = bs"
  by (simp add: get_bytes_def)

text \<open>The same with the bounds of the object: a copy that leaves it has no result.\<close>

definition mem_get :: "nat \<Rightarrow> nat \<Rightarrow> 'a list \<Rightarrow> 'a list option" where
  "mem_get off n bs = (if off + n \<le> length bs then Some (get_bytes off n bs) else None)"

definition mem_put :: "nat \<Rightarrow> 'a list \<Rightarrow> 'a list \<Rightarrow> 'a list option" where
  "mem_put off xs bs = (if off + length xs \<le> length bs then Some (put_bytes off xs bs) else None)"

lemma mem_get_Some [simp]:
  "mem_get off n bs = Some r \<longleftrightarrow> off + n \<le> length bs \<and> r = get_bytes off n bs"
  by (auto simp: mem_get_def)

lemma mem_put_Some [simp]:
  "mem_put off xs bs = Some r \<longleftrightarrow> off + length xs \<le> length bs \<and> r = put_bytes off xs bs"
  by (auto simp: mem_put_def)

section \<open>Little-endian numbers\<close>

fun le_bytes :: "nat \<Rightarrow> nat \<Rightarrow> byte list" where
  "le_bytes 0 n = []"
| "le_bytes (Suc k) n = of_nat n # le_bytes k (n div 256)"

fun le_nat :: "byte list \<Rightarrow> nat" where
  "le_nat [] = 0"
| "le_nat (b # bs) = unat b + 256 * le_nat bs"

lemma length_le_bytes [simp]: "length (le_bytes k n) = k"
  by (induction k arbitrary: n) auto

lemma le_nat_le_bytes [wire_simps]: "le_nat (le_bytes k n) = n mod 256 ^ k"
proof (induction k arbitrary: n)
  case 0
  then show ?case by simp
next
  case (Suc k)
  have "unat (of_nat n :: byte) = n mod 256"
    by (simp add: unat_of_nat)
  then show ?case
    by (simp add: Suc.IH mod_mult2_eq)
qed

lemma le_nat_bound: "le_nat bs < 256 ^ length bs"
proof (induction bs)
  case (Cons b bs)
  have "unat b < 256" using unsigned_less [of b] by simp
  then have "unat b + 256 * le_nat bs < 256 + 256 * le_nat bs" by simp
  also have "\<dots> \<le> 256 * 256 ^ length bs" using Cons by simp
  finally show ?case by simp
qed simp

lemma le_bytes_le_nat [wire_simps]: "length bs = k \<Longrightarrow> le_bytes k (le_nat bs) = bs"
proof (induction bs arbitrary: k)
  case (Cons b bs)
  have b: "unat b < 256" using unsigned_less [of b] by simp
  obtain k' where k: "k = Suc k'" using Cons.prems by (cases k) auto
  have wrap: "(256 :: byte) = 0" by (simp add: word_eq_iff_unsigned)
  have "(of_nat (unat b + 256 * le_nat bs) :: byte) = b" by (simp add: wrap)
  moreover have "(unat b + 256 * le_nat bs) div 256 = le_nat bs" using b by simp
  ultimately show ?case using Cons.IH [of k'] Cons.prems k by simp
qed simp

definition le32 :: "u32 \<Rightarrow> byte list" where
  "le32 w = le_bytes 4 (unat w)"

definition un_le32 :: "byte list \<Rightarrow> u32" where
  "un_le32 bs = of_nat (le_nat bs)"

lemma length_le32 [simp]: "length (le32 w) = 4"
  by (simp add: le32_def)

lemma un_le32_le32 [simp, wire_simps]: "un_le32 (le32 w) = w"
proof -
  have "unat w < 2 ^ 32" using unsigned_less [of w] by simp
  then show ?thesis
    by (simp add: un_le32_def le32_def le_nat_le_bytes)
qed

lemma le32_un_le32 [simp, wire_simps]: "length bs = 4 \<Longrightarrow> le32 (un_le32 bs) = bs"
proof -
  assume l: "length bs = 4"
  have "le_nat bs < 2 ^ 32" using le_nat_bound [of bs] l by simp
  then have "unat (un_le32 bs) = le_nat bs"
    by (simp add: un_le32_def unat_of_nat)
  then show ?thesis by (simp add: le32_def le_bytes_le_nat l)
qed

lemma le_bytes_0 [simp]: "le_bytes k 0 = replicate k 0"
  by (induction k) auto

lemma le32_0 [simp]: "le32 0 = replicate 4 0"
  by (simp add: le32_def)

lemma le_bytes_add: "le_bytes (j + k) n = le_bytes j n @ le_bytes k (n div 256 ^ j)"
  by (induction j arbitrary: n) (simp_all add: div_mult2_eq)

text \<open>An array of \<open>unsigned int\<close> in memory.\<close>

definition le32s :: "u32 list \<Rightarrow> byte list" where
  "le32s ws = concat (map le32 ws)"

fun un_le32s :: "nat \<Rightarrow> byte list \<Rightarrow> u32 list" where
  "un_le32s 0 bs = []"
| "un_le32s (Suc n) bs = un_le32 (take 4 bs) # un_le32s n (drop 4 bs)"

lemma length_le32s [simp]: "length (le32s ws) = 4 * length ws"
  by (induction ws) (auto simp: le32s_def)

lemma length_un_le32s [simp]: "length (un_le32s n bs) = n"
  by (induction n arbitrary: bs) auto

lemma un_le32s_le32s [wire_simps]: "n = length ws \<Longrightarrow> un_le32s n (le32s ws @ r) = ws"
  by (induction ws arbitrary: n) (auto simp: le32s_def)

lemma le32s_un_le32s [wire_simps]: "length bs = 4 * n \<Longrightarrow> le32s (un_le32s n bs) = bs"
proof (induction n arbitrary: bs)
  case (Suc n)
  then show ?case
    using Suc.IH [of "drop 4 bs"] by (simp add: le32s_def)
qed (simp add: le32s_def)

lemma le32s_zeros [simp]: "le32s (replicate n 0) = replicate (4 * n) 0"
  by (induction n) (simp_all add: le32s_def replicate_add)

section \<open>Pointers to objects of their own\<close>

text \<open>NULL, a live object, or dangling after the object was freed.\<close>

datatype 'a ptr = Null | Obj 'a | Dangling

section \<open>C strings\<close>

definition str :: "string \<Rightarrow> byte list" where
  "str s = map of_char s"

text \<open>
  The string held by a \<open>char\<close> array: the bytes before the first NUL;
  \<^const>\<open>None\<close> where there is none, so that \<open>strcmp\<close> or \<open>strlen\<close> would run past the array.
\<close>

definition cstr :: "byte list \<Rightarrow> byte list option" where
  "cstr bs = (if 0 \<in> set bs then Some (takeWhile (\<lambda>b. b \<noteq> 0) bs) else None)"

text \<open>
  \<open>strcmp(a, s) == 0\<close> for a \<open>char\<close> array \<open>a\<close> and a terminated string \<open>s\<close>: the comparison
  stops at the first difference; \<^const>\<open>None\<close> when it runs past the end of the array.
\<close>

fun strcmp_eq :: "byte list \<Rightarrow> byte list \<Rightarrow> bool option" where
  "strcmp_eq [] s = None"
| "strcmp_eq (a # as) [] = Some (a = 0)"
| "strcmp_eq (a # as) (c # cs) = (if a = c then strcmp_eq as cs else Some False)"

lemma strcmp_eq_cstr: "cstr a = Some t \<Longrightarrow> 0 \<notin> set s \<Longrightarrow> strcmp_eq a s = Some (t = s)"
  by (induction a s arbitrary: t rule: strcmp_eq.induct)
    (auto simp: cstr_def split: if_splits)

text \<open>\<open>strncpy(dst, s, n)\<close> of the string \<open>s\<close>: at most \<open>n\<close> bytes, padded with NULs to \<open>n\<close>.\<close>

definition strncpy :: "nat \<Rightarrow> byte list \<Rightarrow> byte list \<Rightarrow> byte list" where
  "strncpy n s dst = take n (s @ replicate n 0) @ drop n dst"

lemma length_strncpy [simp]: "n \<le> length dst \<Longrightarrow> length (strncpy n s dst) = length dst"
  by (simp add: strncpy_def)

lemma cstr_append_nul [simp]: "0 \<notin> set s \<Longrightarrow> cstr (s @ 0 # r) = Some s"
  by (auto simp: cstr_def takeWhile_append)

lemma cstr_Some_no_nul: "cstr bs = Some s \<Longrightarrow> 0 \<notin> set s"
  by (auto simp: cstr_def dest: set_takeWhileD split: if_splits)

section \<open>Words and lists updated by index\<close>

lemma unat32_less: "unat (w :: u32) < 4294967296"
  using unsigned_less [of w, where ?'a = nat] by simp

lemma unat_eq_imp_of_nat: "unat w = n \<Longrightarrow> w = of_nat n"
  by auto


lemma small_not_minus_one: "k < 2 ^ 31 \<Longrightarrow> (word_of_int (int k) :: u32) \<noteq> -1"
proof
  assume k: "k < 2 ^ 31" and "(word_of_int (int k) :: u32) = -1"
  then have "(of_nat (Suc k) :: u32) = 0" by simp
  then have "unat (of_nat (Suc k) :: u32) = 0" by (metis unat_0)
  then show False using k by (simp add: unat_of_nat del: of_nat_Suc)
qed

lemma list_update_take_drop:
  "i < length xs \<Longrightarrow> xs[i := x] = take i xs @ x # drop (Suc i) xs"
  by (simp add: upd_conv_take_nth_drop)

lemma put_bytes_Cons:
  "k < length bs \<Longrightarrow> put_bytes (Suc k) xs (bs[k := x]) = put_bytes k (x # xs) bs"
  by (simp add: put_bytes_def list_update_take_drop min_def add.commute)

lemma map_upt_update:
  "i < n \<Longrightarrow> (\<And>j. j < n \<Longrightarrow> j \<noteq> i \<Longrightarrow> f j = g j) \<Longrightarrow> map f [0..<n] = (map g [0..<n])[i := f i]"
  by (intro nth_equalityI) (auto simp: nth_list_update)

end
