(* ===== verification/Sfs_Layout.thy ===== *)
theory Sfs_Layout
  imports Prelude
begin

text \<open>
  The on-disk data of the Simula file system (\<open>real_sfs_ds.h\<close>, and with other type names
  \<open>sfs_ds.h\<close>): the super block and the file entry as records, their byte images (512 and 64
  bytes), and the round trips between the two.
\<close>

section \<open>Constants\<close>

definition SIMULA_FS_TYPE :: u32 where "SIMULA_FS_TYPE = 0x13090D15"
definition SIMULA_FS_BLOCK_SIZE :: nat where [simp]: "SIMULA_FS_BLOCK_SIZE = 512"
definition SIMULA_FS_ENTRY_SIZE :: nat where [simp]: "SIMULA_FS_ENTRY_SIZE = 64"

text \<open>\<open>(SIMULA_FS_ENTRY_SIZE - (16 + 3 * 4)) / 4\<close>\<close>

definition SIMULA_FS_DATA_BLOCK_CNT :: nat where
  [code_unfold, simp]: "SIMULA_FS_DATA_BLOCK_CNT = 9"

section \<open>Structures\<close>

record sfs_super_block =
  sb_type :: u32
  sb_block_size :: u32
  sb_partition_size :: u32
  sb_entry_size :: u32
  sb_entry_table_size :: u32
  sb_entry_table_block_start :: u32
  sb_entry_count :: u32
  sb_data_block_start :: u32
  sb_reserved :: "u32 list"

record sfs_file_entry =
  fe_name :: "byte list"
  fe_size :: u32
  fe_timestamp :: u32
  fe_perms :: u32
  fe_blocks :: "u32 list"

definition wf_sb :: "sfs_super_block \<Rightarrow> bool" where
  "wf_sb sb \<longleftrightarrow> length (sb_reserved sb) = SIMULA_FS_BLOCK_SIZE div 4 - 8"

definition wf_fe :: "sfs_file_entry \<Rightarrow> bool" where
  "wf_fe fe \<longleftrightarrow> length (fe_name fe) = 16 \<and> length (fe_blocks fe) = SIMULA_FS_DATA_BLOCK_CNT"

section \<open>Byte images\<close>

definition encode_sb :: "sfs_super_block \<Rightarrow> byte list" where
  "encode_sb sb =
     le32 (sb_type sb) @ le32 (sb_block_size sb) @ le32 (sb_partition_size sb) @
     le32 (sb_entry_size sb) @ le32 (sb_entry_table_size sb) @
     le32 (sb_entry_table_block_start sb) @ le32 (sb_entry_count sb) @
     le32 (sb_data_block_start sb) @ le32s (sb_reserved sb)"

definition decode_sb :: "byte list \<Rightarrow> sfs_super_block" where
  "decode_sb bs =
     \<lparr>sb_type = un_le32 (get_bytes 0 4 bs), sb_block_size = un_le32 (get_bytes 4 4 bs),
      sb_partition_size = un_le32 (get_bytes 8 4 bs), sb_entry_size = un_le32 (get_bytes 12 4 bs),
      sb_entry_table_size = un_le32 (get_bytes 16 4 bs),
      sb_entry_table_block_start = un_le32 (get_bytes 20 4 bs),
      sb_entry_count = un_le32 (get_bytes 24 4 bs),
      sb_data_block_start = un_le32 (get_bytes 28 4 bs),
      sb_reserved = un_le32s 120 (drop 32 bs)\<rparr>"

definition encode_fe :: "sfs_file_entry \<Rightarrow> byte list" where
  "encode_fe fe =
     fe_name fe @ le32 (fe_size fe) @ le32 (fe_timestamp fe) @ le32 (fe_perms fe) @
     le32s (fe_blocks fe)"

definition decode_fe :: "byte list \<Rightarrow> sfs_file_entry" where
  "decode_fe bs =
     \<lparr>fe_name = get_bytes 0 16 bs, fe_size = un_le32 (get_bytes 16 4 bs),
      fe_timestamp = un_le32 (get_bytes 20 4 bs), fe_perms = un_le32 (get_bytes 24 4 bs),
      fe_blocks = un_le32s SIMULA_FS_DATA_BLOCK_CNT (drop 28 bs)\<rparr>"

section \<open>Offsets\<close>

text \<open>
  The word in the four bytes at an offset, the lowest first: what a field of type \<open>byte4_t\<close> at
  that offset of a structure in memory has as its value.
\<close>

definition u32_at :: "byte list \<Rightarrow> nat \<Rightarrow> u32" where
  "u32_at bs p = of_nat (unat (bs ! p) + 2 ^ 8 * unat (bs ! (p + 1)) + 2 ^ 16 * unat (bs ! (p + 2)) +
     2 ^ 24 * unat (bs ! (p + 3)))"

lemma get_four: "p + 4 \<le> length bs \<Longrightarrow> get_bytes p 4 bs = [bs ! p, bs ! (p + 1), bs ! (p + 2), bs ! (p + 3)]"
  by (intro nth_equalityI) (auto simp: get_bytes_def nth_Cons numeral_nat split: nat.split)

lemma un_le32_at: "p + 4 \<le> length bs \<Longrightarrow> un_le32 (get_bytes p 4 bs) = u32_at bs p"
  unfolding get_four un_le32_def u32_at_def
  by (intro arg_cong [of _ _ of_nat]) (simp add: algebra_simps)

lemma u32_at_drop: "k \<le> length bs \<Longrightarrow> u32_at (drop k bs) p = u32_at bs (k + p)"
  by (simp add: u32_at_def add.assoc)

lemma un_le32s_at: "4 * n \<le> length bs \<Longrightarrow> un_le32s n bs = map (\<lambda>i. u32_at bs (4 * i)) [0..<n]"
proof (induction n arbitrary: bs)
  case (Suc n)
  have "un_le32 (take 4 bs) = u32_at bs 0" using un_le32_at [of 0 bs] Suc.prems by (simp add: get_bytes_def)
  moreover have "un_le32s n (drop 4 bs) = map (\<lambda>i. u32_at bs (4 * Suc i)) [0..<n]"
    using Suc.IH [of "drop 4 bs"] Suc.prems by (simp add: u32_at_drop)
  moreover have "[0..<Suc n] = 0 # map Suc [0..<n]" by (simp only: upt_conv_Cons zero_less_Suc map_Suc_upt)
  ultimately show ?case by simp
qed simp

text \<open>The fields at the offsets the C structures give them.\<close>

lemma decode_fe_offsets:
  assumes "length bs = 64"
  shows "decode_fe bs =
    \<lparr>fe_name = take 16 bs, fe_size = u32_at bs 16, fe_timestamp = u32_at bs 20, fe_perms = u32_at bs 24,
     fe_blocks = map (\<lambda>i. u32_at bs (28 + 4 * i)) [0..<9]\<rparr>"
  using assms by (simp add: decode_fe_def un_le32_at un_le32s_at u32_at_drop) (simp add: get_bytes_def)

lemma decode_sb_offsets:
  assumes "length bs = 512"
  shows "decode_sb bs =
    \<lparr>sb_type = u32_at bs 0, sb_block_size = u32_at bs 4, sb_partition_size = u32_at bs 8,
     sb_entry_size = u32_at bs 12, sb_entry_table_size = u32_at bs 16,
     sb_entry_table_block_start = u32_at bs 20, sb_entry_count = u32_at bs 24,
     sb_data_block_start = u32_at bs 28, sb_reserved = map (\<lambda>i. u32_at bs (32 + 4 * i)) [0..<120]\<rparr>"
  using assms by (simp add: decode_sb_def un_le32_at un_le32s_at u32_at_drop del: upt_rec_numeral upt_Suc)

section \<open>Round trips\<close>

lemma length_encode_sb [simp]: "wf_sb sb \<Longrightarrow> length (encode_sb sb) = 512"
  by (simp add: encode_sb_def wf_sb_def)

lemma length_encode_fe [simp]: "wf_fe fe \<Longrightarrow> length (encode_fe fe) = 64"
  by (simp add: encode_fe_def wf_fe_def)

lemma wf_decode_sb [simp]: "wf_sb (decode_sb bs)"
  by (simp add: wf_sb_def decode_sb_def)

lemma wf_decode_fe [simp]: "64 \<le> length bs \<Longrightarrow> wf_fe (decode_fe bs)"
  by (simp add: wf_fe_def decode_fe_def get_bytes_def)

lemma decode_encode_fe [simp, wire_simps]: "wf_fe fe \<Longrightarrow> decode_fe (encode_fe fe) = fe"
  using un_le32s_le32s [of 9 "fe_blocks fe" "[]"]
  by (cases fe) (simp add: decode_fe_def encode_fe_def wf_fe_def get_bytes_def)

lemma decode_encode_sb [simp, wire_simps]: "wf_sb sb \<Longrightarrow> decode_sb (encode_sb sb) = sb"
  using un_le32s_le32s [of 120 "sb_reserved sb" "[]"]
  by (cases sb) (simp add: decode_sb_def encode_sb_def wf_sb_def get_bytes_def)

lemma bytes_in_words:
  "a + b \<le> length bs \<Longrightarrow> get_bytes a b bs @ drop (a + b) bs = drop a bs"
  by (metis append_take_drop_id drop_drop get_bytes_def add.commute)

lemma encode_decode_fe [wire_simps]: "length bs = 64 \<Longrightarrow> encode_fe (decode_fe bs) = bs"
  using bytes_in_words [of 0 16 bs] bytes_in_words [of 16 4 bs] bytes_in_words [of 20 4 bs]
    bytes_in_words [of 24 4 bs]
  by (simp add: encode_fe_def decode_fe_def le32s_un_le32s)

lemma encode_decode_sb [wire_simps]: "length bs = 512 \<Longrightarrow> encode_sb (decode_sb bs) = bs"
  using bytes_in_words [of 0 4 bs] bytes_in_words [of 4 4 bs] bytes_in_words [of 8 4 bs]
    bytes_in_words [of 12 4 bs] bytes_in_words [of 16 4 bs] bytes_in_words [of 20 4 bs]
    bytes_in_words [of 24 4 bs] bytes_in_words [of 28 4 bs]
  by (simp add: encode_sb_def decode_sb_def le32s_un_le32s)

section \<open>Names and blocks of an entry\<close>

text \<open>
  An entry is in use when the first byte of its name is not NUL (\<open>!fe.name[0]\<close> is the code's
  test for a free one). The name is the C string in the array; \<^const>\<open>None\<close> when the array
  holds no NUL.
\<close>

definition fe_live :: "sfs_file_entry \<Rightarrow> bool" where
  "fe_live fe \<longleftrightarrow> fe_name fe ! 0 \<noteq> 0"

definition fe_fname :: "sfs_file_entry \<Rightarrow> byte list option" where
  "fe_fname fe = cstr (fe_name fe)"

definition zero_fe :: sfs_file_entry where
  "zero_fe = \<lparr>fe_name = replicate 16 0, fe_size = 0, fe_timestamp = 0, fe_perms = 0,
     fe_blocks = replicate SIMULA_FS_DATA_BLOCK_CNT 0\<rparr>"

lemma wf_zero_fe [simp]: "wf_fe zero_fe"
  by (simp add: wf_fe_def zero_fe_def)

lemma zero_fe_free [simp]: "\<not> fe_live zero_fe"
  by (simp add: fe_live_def zero_fe_def)

lemma encode_zero_fe: "encode_fe zero_fe = replicate 64 0"
  by (simp add: encode_fe_def zero_fe_def flip: replicate_add)

lemma decode_zeros: "decode_fe (replicate 64 0) = zero_fe"
  using decode_encode_fe [OF wf_zero_fe] by (simp add: encode_zero_fe)

text \<open>The blocks an entry refers to: the non-zero numbers of its block array.\<close>

definition owned :: "sfs_file_entry \<Rightarrow> u32 list" where
  "owned fe = filter (\<lambda>b. b \<noteq> 0) (fe_blocks fe)"

lemma owned_zero_fe [simp]: "owned zero_fe = []"
  by (simp add: owned_def zero_fe_def)

end
