(* ===== verification/Sfs_Device.thy ===== *)
theory Sfs_Device
  imports Sfs_Layout
begin

text \<open>
  The block-device access of the kernel module (\<open>7_nov12/RealSFSInAction/real_sfs_ops.c\<close>):
  \<open>read_sb_from_real_sfs\<close>, \<open>read_from_real_sfs\<close> and \<open>write_to_real_sfs\<close>, over the kernel's
  buffer cache, which is not part of this repository. The cache is a parameter
  \<open>bdev_ops\<close>; the locale \<open>buffer_cache\<close> states the documented behaviour the code
  relies on (a buffer holds one device block, what is written into a buffer is what the next
  \<open>sb_bread\<close> of that block sees, other blocks keep their contents).

  On top of them: the entry table as the list of decoded entries, and the two facts every
  operation rests on, that an entry read is an element of that list and that an entry written
  replaces that element and nothing else.
\<close>

section \<open>The buffer cache\<close>

text \<open>
  \<open>bd_block_size\<close> is \<open>sb->s_bdev->bd_block_size\<close>; \<open>sb_bread\<close> returns the buffer's data or
  \<^const>\<open>None\<close> for NULL; \<open>bh_write d b off xs\<close> is the device after \<open>xs\<close> was copied to
  \<open>bh->b_data + off\<close> of block \<open>b\<close> and the buffer marked dirty.
\<close>

record 'd bdev_ops =
  bd_block_size :: u32
  sb_bread :: "'d \<Rightarrow> u32 \<Rightarrow> byte list option"
  bh_write :: "'d \<Rightarrow> u32 \<Rightarrow> nat \<Rightarrow> byte list \<Rightarrow> 'd"

locale buffer_cache =
  fixes ops :: "'d bdev_ops"
  assumes block_size_pos: "0 < unat (bd_block_size ops)"
    and bread_length: "sb_bread ops d b = Some bs \<Longrightarrow> length bs = unat (bd_block_size ops)"
    and bread_write_same:
      "sb_bread ops d b = Some bs \<Longrightarrow> off + length xs \<le> length bs \<Longrightarrow>
       sb_bread ops (bh_write ops d b off xs) b = Some (put_bytes off xs bs)"
    and bread_write_other:
      "sb_bread ops d b = Some bs \<Longrightarrow> off + length xs \<le> length bs \<Longrightarrow> b' \<noteq> b \<Longrightarrow>
       sb_bread ops (bh_write ops d b off xs) b' = sb_bread ops d b'"

section \<open>The mounted file system\<close>

text \<open>
  \<open>sfs_info_t\<close>: the device behind \<open>vfs_sb\<close>, the cached super block, the array of used-block
  flags, the spin lock (held or not), and whether \<open>vfs_sb->s_fs_info\<close> points to this structure.
\<close>

record 'd sfs_info =
  si_dev :: 'd
  si_sb :: sfs_super_block
  si_used :: "byte list ptr"
  si_lock :: bool
  si_registered :: bool

definition read_sb_from_real_sfs ::
  "'d bdev_ops \<Rightarrow> 'd sfs_info \<Rightarrow> (int + sfs_super_block) option" where
  "read_sb_from_real_sfs ops info =
     (case sb_bread ops (si_dev info) 0 of
        None \<Rightarrow> Some (Inl (- EIO))
      | Some b \<Rightarrow>
          if SIMULA_FS_BLOCK_SIZE \<le> length b
          then Some (Inr (decode_sb (get_bytes 0 SIMULA_FS_BLOCK_SIZE b)))
          else None)"

definition read_from_real_sfs ::
  "'d bdev_ops \<Rightarrow> 'd sfs_info \<Rightarrow> u32 \<Rightarrow> u32 \<Rightarrow> u32 \<Rightarrow> (int + byte list) option" where
  "read_from_real_sfs ops info block offset len =
     (let block_size = sb_block_size (si_sb info);
          bd = bd_block_size ops;
          abs = block * block_size + offset;
          blk = abs div bd;
          off = abs mod bd
      in if bd = 0 then None
         else if off + len > bd then Some (Inl (- EINVAL))
         else case sb_bread ops (si_dev info) blk of
             None \<Rightarrow> Some (Inl (- EIO))
           | Some b \<Rightarrow>
               if unat off + unat len \<le> length b
               then Some (Inr (get_bytes (unat off) (unat len) b))
               else None)"

definition write_to_real_sfs ::
  "'d bdev_ops \<Rightarrow> 'd sfs_info \<Rightarrow> u32 \<Rightarrow> u32 \<Rightarrow> byte list \<Rightarrow> u32 \<Rightarrow> (int \<times> 'd sfs_info) option" where
  "write_to_real_sfs ops info block offset buf len =
     (let block_size = sb_block_size (si_sb info);
          bd = bd_block_size ops;
          abs = block * block_size + offset;
          blk = abs div bd;
          off = abs mod bd
      in if bd = 0 then None
         else if off + len > bd then Some (- EINVAL, info)
         else case sb_bread ops (si_dev info) blk of
             None \<Rightarrow> Some (- EIO, info)
           | Some b \<Rightarrow>
               if unat off + unat len \<le> length b \<and> unat len \<le> length buf
               then Some (0, info\<lparr>si_dev :=
                      bh_write ops (si_dev info) blk (unat off) (take (unat len) buf)\<rparr>)
               else None)"

text \<open>
  The calls \<open>read_from_real_sfs(info, info->sb.entry_table_block_start, i * sizeof(sfs_file_entry_t),
  &fe, sizeof(sfs_file_entry_t))\<close> and their writing counterpart. The product is a \<open>size_t\<close>
  cut to the 32 bits of \<open>byte4_t\<close>.
\<close>

definition read_entry :: "'d bdev_ops \<Rightarrow> 'd sfs_info \<Rightarrow> int \<Rightarrow> (int + sfs_file_entry) option" where
  "read_entry ops info i =
     map_option (map_sum id decode_fe)
       (read_from_real_sfs ops info (sb_entry_table_block_start (si_sb info))
          (word_of_int (i * int SIMULA_FS_ENTRY_SIZE)) 64)"

definition write_entry ::
  "'d bdev_ops \<Rightarrow> 'd sfs_info \<Rightarrow> int \<Rightarrow> sfs_file_entry \<Rightarrow> (int \<times> 'd sfs_info) option" where
  "write_entry ops info i fe =
     write_to_real_sfs ops info (sb_entry_table_block_start (si_sb info))
       (word_of_int (i * int SIMULA_FS_ENTRY_SIZE)) (encode_fe fe) 64"

section \<open>Geometry\<close>

text \<open>
  The table starts at a byte address divisible by the entry size, device blocks hold whole
  entries, and no address in the table exceeds 32 bits.
\<close>

definition entry_addr :: "sfs_super_block \<Rightarrow> nat \<Rightarrow> nat" where
  "entry_addr sb i = unat (sb_entry_table_block_start sb) * unat (sb_block_size sb) + 64 * i"

definition geom_ok :: "u32 \<Rightarrow> sfs_super_block \<Rightarrow> bool" where
  "geom_ok bd sb \<longleftrightarrow> 0 < unat bd \<and> 64 dvd unat bd \<and> 64 dvd entry_addr sb 0 \<and>
     entry_addr sb (unat (sb_entry_count sb)) \<le> 2 ^ 32"

definition slot_blk :: "u32 \<Rightarrow> sfs_super_block \<Rightarrow> nat \<Rightarrow> u32" where
  "slot_blk bd sb i = of_nat (entry_addr sb i div unat bd)"

definition slot_off :: "u32 \<Rightarrow> sfs_super_block \<Rightarrow> nat \<Rightarrow> nat" where
  "slot_off bd sb i = entry_addr sb i mod unat bd"

lemma entry_addr_Suc: "entry_addr sb i = entry_addr sb 0 + 64 * i"
  by (simp add: entry_addr_def)

lemma entry_addr_lt:
  assumes "geom_ok bd sb" "i < unat (sb_entry_count sb)"
  shows "entry_addr sb i + 64 \<le> 2 ^ 32"
  using assms by (simp add: geom_ok_def entry_addr_def)

lemma dvd_mod_gap:
  assumes "64 dvd a" "64 dvd (b::nat)" "0 < b"
  shows "a mod b + 64 \<le> b"
proof -
  obtain p q where p: "a = 64 * p" and q: "b = 64 * q" using assms(1,2) by (auto elim!: dvdE)
  have "p mod q < q" using assms(3) q by simp
  then show ?thesis by (simp add: p q mult_mod_right [symmetric])
qed

lemma slot_off_gap:
  assumes "geom_ok bd sb"
  shows "slot_off bd sb i + 64 \<le> unat bd"
  unfolding slot_off_def
proof (rule dvd_mod_gap)
  show "64 dvd entry_addr sb i"
    using assms by (simp add: geom_ok_def entry_addr_Suc [of _ i])
qed (use assms in \<open>auto simp: geom_ok_def\<close>)

lemma slot_distinct:
  assumes g: "geom_ok bd sb" and ij: "i \<noteq> j"
    and i: "i < unat (sb_entry_count sb)" and j: "j < unat (sb_entry_count sb)"
    and blk: "slot_blk bd sb i = slot_blk bd sb j"
  shows "slot_off bd sb i + 64 \<le> slot_off bd sb j \<or> slot_off bd sb j + 64 \<le> slot_off bd sb i"
proof -
  let ?a = "entry_addr sb i" and ?b = "entry_addr sb j" and ?d = "unat bd"
  have "?a div ?d < 2 ^ 32" "?b div ?d < 2 ^ 32"
    using entry_addr_lt [OF g i] entry_addr_lt [OF g j] div_le_dividend [of ?a ?d]
      div_le_dividend [of ?b ?d] by linarith+
  then have "?a div ?d = ?b div ?d"
    using arg_cong [OF blk, of unat] by (simp add: slot_blk_def unat_of_nat)
  then have same: "?a - ?a mod ?d = ?b - ?b mod ?d"
    by (simp add: minus_mod_eq_mult_div)
  have "?a mod ?d \<le> ?a" "?b mod ?d \<le> ?b" by (rule mod_less_eq_dividend)+
  moreover have "?a + 64 \<le> ?b \<or> ?b + 64 \<le> ?a"
    using ij by (auto simp: entry_addr_def)
  ultimately show ?thesis using same unfolding slot_off_def by linarith
qed

end
