(* ===== verification/Sfs_Table.thy ===== *)
theory Sfs_Table
  imports Sfs_Device
begin

text \<open>
  The entry table as a list of file entries, and how \<open>read_entry\<close> and \<open>write_entry\<close> act on
  it. Everything after this theory talks about the table, never about device addresses.
\<close>

definition entry :: "'d bdev_ops \<Rightarrow> 'd sfs_info \<Rightarrow> nat \<Rightarrow> sfs_file_entry" where
  "entry ops info i =
     (let bd = bd_block_size ops; sb = si_sb info
      in decode_fe (get_bytes (slot_off bd sb i) 64
           (the (sb_bread ops (si_dev info) (slot_blk bd sb i)))))"

definition entry_cnt :: "'d sfs_info \<Rightarrow> nat" where
  "entry_cnt info = unat (sb_entry_count (si_sb info))"

definition table :: "'d bdev_ops \<Rightarrow> 'd sfs_info \<Rightarrow> sfs_file_entry list" where
  "table ops info = map (entry ops info) [0..<entry_cnt info]"

text \<open>The geometry is sound and every block of the table can be read.\<close>

definition table_ok :: "'d bdev_ops \<Rightarrow> 'd sfs_info \<Rightarrow> bool" where
  "table_ok ops info \<longleftrightarrow> geom_ok (bd_block_size ops) (si_sb info) \<and>
     (\<forall>i < entry_cnt info.
        sb_bread ops (si_dev info) (slot_blk (bd_block_size ops) (si_sb info) i) \<noteq> None)"

lemma length_table [simp]: "length (table ops info) = entry_cnt info"
  by (simp add: table_def)

lemma nth_table [simp]: "i < entry_cnt info \<Longrightarrow> table ops info ! i = entry ops info i"
  by (simp add: table_def)

lemma entry_cnt_cong [simp]: "entry_cnt (info\<lparr>si_dev := d\<rparr>) = entry_cnt info"
  by (simp add: entry_cnt_def)

lemma table_si_used [simp]:
  "table ops (info\<lparr>si_used := u\<rparr>) = table ops info"
  "table ops (info\<lparr>si_lock := l\<rparr>) = table ops info"
  "table ops (info\<lparr>si_registered := r\<rparr>) = table ops info"
  by (simp_all add: table_def entry_def entry_cnt_def)

lemma table_ok_si_used [simp]:
  "table_ok ops (info\<lparr>si_used := u\<rparr>) = table_ok ops info"
  "table_ok ops (info\<lparr>si_lock := l\<rparr>) = table_ok ops info"
  "table_ok ops (info\<lparr>si_registered := r\<rparr>) = table_ok ops info"
  by (simp_all add: table_ok_def entry_cnt_def)

lemma entry_abs:
  assumes g: "geom_ok bd sb" and i: "i < unat (sb_entry_count sb)"
  defines "a \<equiv> sb_entry_table_block_start sb * sb_block_size sb + of_nat i * 64"
  shows "unat a = entry_addr sb i" "a div bd = slot_blk bd sb i" "unat (a mod bd) = slot_off bd sb i"
proof -
  have "a = of_nat (entry_addr sb i)"
    by (simp add: a_def entry_addr_def)
  then show u: "unat a = entry_addr sb i"
    using entry_addr_lt [OF g i] by (simp add: unat_of_nat)
  show "unat (a mod bd) = slot_off bd sb i"
    by (simp add: unat_mod_distrib u slot_off_def)
  have "unat (a div bd) = entry_addr sb i div unat bd"
    by (simp add: unat_div_distrib u)
  then show "a div bd = slot_blk bd sb i"
    by (simp add: slot_blk_def unat_eq_imp_of_nat)
qed

lemma entry_len_ok:
  assumes g: "geom_ok bd sb" and i: "i < unat (sb_entry_count sb)"
  shows "\<not> (sb_entry_table_block_start sb * sb_block_size sb + of_nat i * 64) mod bd + 64 > bd"
proof -
  let ?o = "(sb_entry_table_block_start sb * sb_block_size sb + of_nat i * 64) mod bd"
  have "unat ?o + 64 \<le> unat bd"
    using slot_off_gap [OF g] entry_abs(3) [OF g i] by simp
  moreover from this have "unat (?o + 64) = unat ?o + 64"
    using unat32_less [of bd] by (subst unat_add_lem [THEN iffD1]) simp_all
  ultimately show ?thesis by (simp add: word_less_nat_alt)
qed

context buffer_cache
begin

lemma read_entry_table:
  assumes "table_ok ops info" "i < entry_cnt info"
  shows "read_entry ops info (int i) = Some (Inr (entry ops info i))"
proof -
  let ?sb = "si_sb info"
  have g: "geom_ok (bd_block_size ops) ?sb" and i: "i < unat (sb_entry_count ?sb)"
    using assms by (simp_all add: table_ok_def entry_cnt_def)
  obtain b where b: "sb_bread ops (si_dev info) (slot_blk (bd_block_size ops) ?sb i) = Some b"
    using assms by (auto simp: table_ok_def)
  show ?thesis
    using bread_length [OF b] slot_off_gap [OF g, of i] block_size_pos
    by (simp add: read_entry_def read_from_real_sfs_def Let_def entry_abs [OF g i] entry_def
        entry_len_ok [OF g i, simplified] b unat_gt_0 [symmetric] linorder_not_less)
qed

lemma wf_entry:
  assumes "table_ok ops info" "i < entry_cnt info"
  shows "wf_fe (entry ops info i)"
proof -
  obtain b where b: "sb_bread ops (si_dev info)
      (slot_blk (bd_block_size ops) (si_sb info) i) = Some b"
    using assms by (auto simp: table_ok_def)
  have "slot_off (bd_block_size ops) (si_sb info) i + 64 \<le> length b"
    using assms(1) slot_off_gap bread_length [OF b] by (simp add: table_ok_def)
  then show ?thesis by (simp add: entry_def b)
qed

lemma write_entry_table:
  assumes ok: "table_ok ops info" and i: "i < entry_cnt info" and wf: "wf_fe fe"
  obtains info' where "write_entry ops info (int i) fe = Some (0, info')"
    and "table ops info' = (table ops info)[i := fe]" and "table_ok ops info'"
    and "si_sb info' = si_sb info" and "si_used info' = si_used info"
    and "si_lock info' = si_lock info" and "si_registered info' = si_registered info"
proof -
  let ?sb = "si_sb info" and ?bd = "bd_block_size ops"
  have g: "geom_ok ?bd ?sb" and i': "i < unat (sb_entry_count ?sb)"
    using ok i by (simp_all add: table_ok_def entry_cnt_def)
  obtain b where b: "sb_bread ops (si_dev info) (slot_blk ?bd ?sb i) = Some b"
    using ok i by (auto simp: table_ok_def)
  have len: "slot_off ?bd ?sb i + length (encode_fe fe) \<le> length b"
    using bread_length [OF b] slot_off_gap [OF g, of i] wf by simp
  let ?d = "bh_write ops (si_dev info) (slot_blk ?bd ?sb i) (slot_off ?bd ?sb i) (encode_fe fe)"
  let ?info = "info\<lparr>si_dev := ?d\<rparr>"
  have rd: "sb_bread ops ?d (slot_blk ?bd ?sb j) =
      (if slot_blk ?bd ?sb j = slot_blk ?bd ?sb i
       then Some (put_bytes (slot_off ?bd ?sb i) (encode_fe fe) b)
       else sb_bread ops (si_dev info) (slot_blk ?bd ?sb j))" for j
    using bread_write_same [OF b len] bread_write_other [OF b len] by simp
  have "write_entry ops info (int i) fe = Some (0, ?info)"
    using len wf block_size_pos
    by (simp add: write_entry_def write_to_real_sfs_def Let_def entry_abs [OF g i']
        entry_len_ok [OF g i', simplified] b unat_gt_0 [symmetric] linorder_not_less)
  moreover have "table ops ?info = (table ops info)[i := fe]"
  proof -
    have here: "entry ops ?info i = fe"
      using len wf by (simp add: entry_def rd)
    have "entry ops ?info j = entry ops info j" if j: "j < entry_cnt info" "j \<noteq> i" for j
    proof (cases "slot_blk ?bd ?sb j = slot_blk ?bd ?sb i")
      case True
      have "get_bytes (slot_off ?bd ?sb j) 64 (put_bytes (slot_off ?bd ?sb i) (encode_fe fe) b) =
          get_bytes (slot_off ?bd ?sb j) 64 b"
        using slot_distinct [OF g j(2) _ i' True] j(1) slot_off_gap [OF g, of j] bread_length [OF b] len wf
        by (intro get_put_disjoint) (auto simp: entry_cnt_def)
      then show ?thesis by (simp add: entry_def rd b True)
    qed (simp add: entry_def rd)
    then show ?thesis
      using here i by (simp add: table_def map_upt_update [where f = "entry ops ?info"])
  qed
  moreover have "table_ok ops ?info"
    using ok by (simp add: table_ok_def rd)
  ultimately show ?thesis by (rule that) simp_all
qed

end

end
