(* ===== verification/Sfs_Ops.thy ===== *)
theory Sfs_Ops
  imports Sfs_Table
begin

text \<open>
  The operations of the kernel module on the mounted file system
  (\<open>7_nov12/RealSFSInAction/real_sfs_ops.c\<close>), one definition per function, with the loops as
  functions of their own. Out parameters are returned; \<open>vmalloc\<close>, the clock and the
  \<open>filldir\<close> callback are parameters. Loop counters are natural numbers; the C code counts in
  \<open>int\<close>, so an index above \<open>2 ^ 31\<close> is an access outside the array.
\<close>

section \<open>The used-block flags\<close>

definition used_at :: "byte list ptr \<Rightarrow> nat \<Rightarrow> byte option" where
  "used_at p i = (case p of Obj u \<Rightarrow> if i < length u \<and> i < 2 ^ 31 then Some (u ! i) else None
     | _ \<Rightarrow> None)"

definition set_used :: "nat \<Rightarrow> byte \<Rightarrow> 'd sfs_info \<Rightarrow> 'd sfs_info option" where
  "set_used i v info =
     (case si_used info of
        Obj u \<Rightarrow> if i < length u \<and> i < 2 ^ 31
          then Some (info\<lparr>si_used := Obj (u[i := v])\<rparr>) else None
      | _ \<Rightarrow> None)"

text \<open>\<open>spin_lock\<close> on a lock that is held does not return: \<^const>\<open>None\<close>.\<close>

definition spin_lock :: "'d sfs_info \<Rightarrow> 'd sfs_info option" where
  "spin_lock info = (if si_lock info then None else Some (info\<lparr>si_lock := True\<rparr>))"

definition spin_unlock :: "'d sfs_info \<Rightarrow> 'd sfs_info" where
  "spin_unlock info = info\<lparr>si_lock := False\<rparr>"

function scan_free :: "byte list ptr \<Rightarrow> nat \<Rightarrow> nat \<Rightarrow> nat option option" where
  "scan_free p i n =
     (if i < n then
        (case used_at p i of
           None \<Rightarrow> None
         | Some v \<Rightarrow> if v = 0 then Some (Some i) else scan_free p (Suc i) n)
      else Some None)"
  by pat_completeness auto
termination
  by (relation "measure (\<lambda>(p, i, n). n - i)") auto

declare scan_free.simps [simp del]

definition sfs_get_data_block :: "'d sfs_info \<Rightarrow> (int \<times> 'd sfs_info) option" where
  "sfs_get_data_block info = do {
     info1 \<leftarrow> spin_lock info;
     r \<leftarrow> scan_free (si_used info1) (unat (sb_data_block_start (si_sb info1)))
            (unat (sb_partition_size (si_sb info1)));
     case r of
       Some i \<Rightarrow> do {
         info2 \<leftarrow> set_used i 1 info1;
         Some (int i, spin_unlock info2)
       }
     | None \<Rightarrow> Some (-1, spin_unlock info1)
   }"

definition sfs_put_data_block :: "'d sfs_info \<Rightarrow> u32 \<Rightarrow> 'd sfs_info option" where
  "sfs_put_data_block info i = do {
     info1 \<leftarrow> spin_lock info;
     info2 \<leftarrow> set_used (unat i) 0 info1;
     Some (spin_unlock info2)
   }"

section \<open>Mounting\<close>

text \<open>\<open>for (; i < hi; i++) used_blocks[i] = v\<close>, \<open>n\<close> iterations from \<open>i\<close>.\<close>

fun fill_used :: "byte list \<Rightarrow> nat \<Rightarrow> nat \<Rightarrow> byte \<Rightarrow> byte list option" where
  "fill_used u i 0 v = Some u"
| "fill_used u i (Suc n) v =
     (if i < length u \<and> i < 2 ^ 31 then fill_used (u[i := v]) (Suc i) n v else None)"

fun mark_blocks :: "byte list \<Rightarrow> u32 list \<Rightarrow> byte list option" where
  "mark_blocks u [] = Some u"
| "mark_blocks u (b # bs) =
     (if b = 0 then Some u
      else if unat b < length u then mark_blocks (u[unat b := 1]) bs else None)"

fun mark_entries :: "'d bdev_ops \<Rightarrow> 'd sfs_info \<Rightarrow> nat list \<Rightarrow> byte list \<Rightarrow> (int + byte list) option" where
  "mark_entries ops info [] u = Some (Inr u)"
| "mark_entries ops info (i # is) u = do {
     r \<leftarrow> read_entry ops info (int i);
     case r of
       Inl e \<Rightarrow> Some (Inl (- ENOMEM))
     | Inr fe \<Rightarrow>
         if \<not> fe_live fe then mark_entries ops info is u
         else do {
           u' \<leftarrow> mark_blocks u (fe_blocks fe);
           mark_entries ops info is u'
         }
   }"

definition init_browsing ::
  "'d bdev_ops \<Rightarrow> (u32 \<Rightarrow> byte list option) \<Rightarrow> 'd sfs_info \<Rightarrow> (int \<times> 'd sfs_info) option" where
  "init_browsing ops vmalloc info = do {
     r \<leftarrow> read_sb_from_real_sfs ops info;
     case r of
       Inl e \<Rightarrow> Some (- EIO, info)
     | Inr sb \<Rightarrow>
         let info = info\<lparr>si_sb := sb\<rparr> in
         if sb_type sb \<noteq> SIMULA_FS_TYPE then Some (- EINVAL, info)
         else (case vmalloc (sb_partition_size sb) of
           None \<Rightarrow> Some (- ENOMEM, info)
         | Some mem \<Rightarrow>
             let d = unat (sb_data_block_start sb); p = unat (sb_partition_size sb) in do {
               u1 \<leftarrow> fill_used mem 0 d 1;
               u2 \<leftarrow> fill_used u1 d (p - d) 0;
               m \<leftarrow> mark_entries ops info [0..<entry_cnt info] u2;
               (case m of
                  Inl e \<Rightarrow> Some (e, info)
                | Inr u \<Rightarrow> Some (0, info\<lparr>si_used := Obj u, si_registered := True, si_lock := False\<rparr>))
             })
   }"

definition shut_browsing :: "'d sfs_info \<Rightarrow> 'd sfs_info option" where
  "shut_browsing info =
     (case si_used info of
        Null \<Rightarrow> Some info
      | Obj u \<Rightarrow> Some (info\<lparr>si_used := Dangling\<rparr>)
      | Dangling \<Rightarrow> None)"

section \<open>Listing\<close>

datatype dtype = DT_REG | DT_DIR

text \<open>
  The callback gets its own state, the name (of \<open>strlen\<close> bytes), the file position, the inode
  number and the type, and returns its new state and whether it wants no more entries.
\<close>

type_synonym 'e filldir = "'e \<Rightarrow> byte list \<Rightarrow> int \<Rightarrow> int \<Rightarrow> dtype \<Rightarrow> 'e \<times> bool"

fun list_loop ::
  "'d bdev_ops \<Rightarrow> 'd sfs_info \<Rightarrow> 'e filldir \<Rightarrow> nat list \<Rightarrow> int \<Rightarrow> 'e \<Rightarrow> (int \<times> int \<times> 'e) option" where
  "list_loop ops info filldir [] pos e = Some (0, pos, e)"
| "list_loop ops info filldir (ino # inos) pos e = do {
     r \<leftarrow> read_entry ops info (int ino);
     case r of
       Inl err \<Rightarrow> Some (-1, pos, e)
     | Inr fe \<Rightarrow>
         if \<not> fe_live fe then list_loop ops info filldir inos pos e
         else do {
           name \<leftarrow> fe_fname fe;
           let (e', over) = filldir e name pos (int ino + 1) DT_REG;
           if over then Some (1, pos, e')
           else list_loop ops info filldir inos (pos + 1) e'
         }
   }"

definition sfs_list ::
  "'d bdev_ops \<Rightarrow> 'd sfs_info \<Rightarrow> 'e filldir \<Rightarrow> int \<Rightarrow> 'e \<Rightarrow> (int \<times> int \<times> 'e) option" where
  "sfs_list ops info filldir pos e = list_loop ops info filldir [0..<entry_cnt info] pos e"

section \<open>Creating, looking up, removing\<close>

text \<open>The scan of \<open>sfs_create\<close>: \<open>Inl\<close> is its early \<open>return -1\<close>.\<close>

fun create_loop ::
  "'d bdev_ops \<Rightarrow> 'd sfs_info \<Rightarrow> byte list \<Rightarrow> nat list \<Rightarrow> int \<Rightarrow> sfs_file_entry \<Rightarrow>
   (sfs_file_entry + int \<times> sfs_file_entry) option" where
  "create_loop ops info fn [] free_ino fe = Some (Inr (free_ino, fe))"
| "create_loop ops info fn (ino # inos) free_ino fe = do {
     r \<leftarrow> read_entry ops info (int ino);
     case r of
       Inl err \<Rightarrow> Some (Inl fe)
     | Inr fe \<Rightarrow>
         if \<not> fe_live fe
         then create_loop ops info fn inos (if free_ino = -1 then int ino else free_ino) fe
         else do {
           same \<leftarrow> strcmp_eq (fe_name fe) fn;
           if same then Some (Inl fe) else create_loop ops info fn inos free_ino fe
         }
   }"

definition fresh_fe :: "byte list \<Rightarrow> u32 \<Rightarrow> int \<Rightarrow> sfs_file_entry \<Rightarrow> sfs_file_entry" where
  "fresh_fe fn now perms fe =
     fe\<lparr>fe_name := (strncpy 15 fn (fe_name fe))[15 := 0], fe_size := 0, fe_timestamp := now,
        fe_perms := word_of_int perms, fe_blocks := replicate SIMULA_FS_DATA_BLOCK_CNT 0\<rparr>"

definition sfs_create ::
  "'d bdev_ops \<Rightarrow> u32 \<Rightarrow> 'd sfs_info \<Rightarrow> byte list \<Rightarrow> int \<Rightarrow> sfs_file_entry \<Rightarrow>
   (int \<times> 'd sfs_info \<times> sfs_file_entry) option" where
  "sfs_create ops now info fn perms fe = do {
     r \<leftarrow> create_loop ops info fn [0..<entry_cnt info] (-1) fe;
     case r of
       Inl fe \<Rightarrow> Some (-1, info, fe)
     | Inr (free_ino, fe) \<Rightarrow>
         if free_ino = -1 then Some (-1, info, fe)
         else let fe = fresh_fe fn now perms fe in do {
           (ret, info') \<leftarrow> write_entry ops info free_ino fe;
           if ret = -1 then Some (-1, info', fe) else Some (free_ino + 1, info', fe)
         }
   }"

fun lookup_loop ::
  "'d bdev_ops \<Rightarrow> 'd sfs_info \<Rightarrow> byte list \<Rightarrow> nat list \<Rightarrow> sfs_file_entry \<Rightarrow>
   (int \<times> sfs_file_entry) option" where
  "lookup_loop ops info fn [] fe = Some (-1, fe)"
| "lookup_loop ops info fn (ino # inos) fe = do {
     r \<leftarrow> read_entry ops info (int ino);
     case r of
       Inl err \<Rightarrow> Some (-1, fe)
     | Inr fe \<Rightarrow>
         if \<not> fe_live fe then lookup_loop ops info fn inos fe
         else do {
           same \<leftarrow> strcmp_eq (fe_name fe) fn;
           if same then Some (int ino + 1, fe) else lookup_loop ops info fn inos fe
         }
   }"

definition sfs_lookup ::
  "'d bdev_ops \<Rightarrow> 'd sfs_info \<Rightarrow> byte list \<Rightarrow> sfs_file_entry \<Rightarrow> (int \<times> sfs_file_entry) option" where
  "sfs_lookup ops info fn fe = lookup_loop ops info fn [0..<entry_cnt info] fe"

fun put_blocks :: "'d sfs_info \<Rightarrow> u32 list \<Rightarrow> 'd sfs_info option" where
  "put_blocks info [] = Some info"
| "put_blocks info (b # bs) =
     (if b = 0 then Some info
      else do { info' \<leftarrow> sfs_put_data_block info b; put_blocks info' bs })"

definition sfs_remove ::
  "'d bdev_ops \<Rightarrow> 'd sfs_info \<Rightarrow> byte list \<Rightarrow> (int \<times> 'd sfs_info) option" where
  "sfs_remove ops info fn = do {
     (vfs_ino, fe) \<leftarrow> sfs_lookup ops info fn zero_fe;
     if vfs_ino = -1 then Some (-1, info)
     else do {
       info1 \<leftarrow> put_blocks info (fe_blocks fe);
       (ret, info2) \<leftarrow> write_entry ops info1 (vfs_ino - 1) zero_fe;
       if ret = -1 then Some (-1, info2) else Some (vfs_ino, info2)
     }
   }"

section \<open>Reading and updating one entry\<close>

definition sfs_get_file_entry ::
  "'d bdev_ops \<Rightarrow> 'd sfs_info \<Rightarrow> int \<Rightarrow> sfs_file_entry \<Rightarrow> (int \<times> sfs_file_entry) option" where
  "sfs_get_file_entry ops info vfs_ino fe = do {
     r \<leftarrow> read_entry ops info (vfs_ino - 1);
     case r of Inl e \<Rightarrow> Some (-1, fe) | Inr fe' \<Rightarrow> Some (0, fe')
   }"

text \<open>The loop of \<open>sfs_update\<close> over \<open>blocks[i]\<close>, \<open>i < SIMULA_FS_DATA_BLOCK_CNT\<close>.\<close>

fun drop_blocks :: "'d sfs_info \<Rightarrow> u32 list \<Rightarrow> nat list \<Rightarrow> ('d sfs_info \<times> u32 list) option" where
  "drop_blocks info bs [] = Some (info, bs)"
| "drop_blocks info bs (i # is) =
     (if bs ! i \<noteq> 0 then do {
        info' \<leftarrow> sfs_put_data_block info (bs ! i);
        drop_blocks info' (bs[i := 0]) is
      } else drop_blocks info bs is)"

definition sfs_update ::
  "'d bdev_ops \<Rightarrow> 'd sfs_info \<Rightarrow> int \<Rightarrow> int option \<Rightarrow> int option \<Rightarrow> int option \<Rightarrow>
   (int \<times> 'd sfs_info) option" where
  "sfs_update ops info vfs_ino sz timestamp perms = do {
     (ret, fe) \<leftarrow> sfs_get_file_entry ops info vfs_ino zero_fe;
     if ret = -1 then Some (-1, info)
     else
       let fe = (case sz of Some s \<Rightarrow> fe\<lparr>fe_size := word_of_int s\<rparr> | None \<Rightarrow> fe);
           fe = (case timestamp of Some t \<Rightarrow> fe\<lparr>fe_timestamp := word_of_int t\<rparr> | None \<Rightarrow> fe);
           fe = (case perms of
                   Some p \<Rightarrow> if p \<le> 7 then fe\<lparr>fe_perms := word_of_int p\<rparr> else fe
                 | None \<Rightarrow> fe);
           bs = sb_block_size (si_sb info);
           i = unat ((fe_size fe + bs - 1) div bs)
       in if bs = 0 \<or> 2 ^ 31 \<le> i then None
          else do {
            (info1, blks) \<leftarrow> drop_blocks info (fe_blocks fe) [i..<SIMULA_FS_DATA_BLOCK_CNT];
            write_entry ops info1 (vfs_ino - 1) (fe\<lparr>fe_blocks := blks\<rparr>)
          }
   }"

definition sfs_update_file_entry ::
  "'d bdev_ops \<Rightarrow> 'd sfs_info \<Rightarrow> int \<Rightarrow> sfs_file_entry \<Rightarrow> (int \<times> 'd sfs_info) option" where
  "sfs_update_file_entry ops info vfs_ino fe = write_entry ops info (vfs_ino - 1) fe"

end
