(* ===== verification/Sfs_Used.thy ===== *)
theory Sfs_Used
  imports Sfs_Ops
begin

text \<open>
  Facts on the used-block flags: what allocating a block, freeing blocks and clearing the tail
  of a block array do to them, stated without the lock and without the loops.
\<close>

text \<open>The flags are a live array, one per block of the partition, and the lock is free.\<close>

definition used_ok :: "'d sfs_info \<Rightarrow> byte list \<Rightarrow> bool" where
  "used_ok info u \<longleftrightarrow> si_used info = Obj u \<and> \<not> si_lock info \<and>
     length u = unat (sb_partition_size (si_sb info)) \<and> length u \<le> 2 ^ 31"

abbreviation data_start :: "'d sfs_info \<Rightarrow> nat" where
  "data_start info \<equiv> unat (sb_data_block_start (si_sb info))"

abbreviation part_size :: "'d sfs_info \<Rightarrow> nat" where
  "part_size info \<equiv> unat (sb_partition_size (si_sb info))"

definition clear_used :: "u32 list \<Rightarrow> byte list \<Rightarrow> byte list" where
  "clear_used bs u = fold (\<lambda>b u. u[unat b := 0]) bs u"

lemma length_clear_used [simp]: "length (clear_used bs u) = length u"
  by (induction bs arbitrary: u) (auto simp: clear_used_def)

lemma clear_used_simps [simp]:
  "clear_used [] u = u"
  "clear_used (b # bs) u = clear_used bs (u[unat b := 0])"
  by (simp_all add: clear_used_def)

lemma nth_clear_used:
  "k < length u \<Longrightarrow> clear_used bs u ! k = (if k \<in> unat ` set bs then 0 else u ! k)"
  by (induction bs arbitrary: u) (auto simp: nth_list_update)

lemma used_ok_update [simp]:
  "used_ok info u \<Longrightarrow> length v = length u \<Longrightarrow> used_ok (info\<lparr>si_used := Obj v\<rparr>) v"
  by (simp add: used_ok_def)

lemma lock_roundtrip:
  "\<not> si_lock info \<Longrightarrow> spin_unlock (info\<lparr>si_lock := True, si_used := v\<rparr>) = info\<lparr>si_used := v\<rparr>"
  "\<not> si_lock info \<Longrightarrow> spin_unlock (info\<lparr>si_lock := True\<rparr>) = info"
  "\<not> si_lock info \<Longrightarrow> spin_unlock (info\<lparr>si_used := v, si_lock := True\<rparr>) = info\<lparr>si_used := v\<rparr>"
  by (cases info; simp add: spin_unlock_def)+

lemma scan_free_find:
  "n \<le> length u \<Longrightarrow> n \<le> 2 ^ 31 \<Longrightarrow> scan_free (Obj u) i n = Some (find (\<lambda>k. u ! k = 0) [i..<n])"
proof (induction "Obj u" i n rule: scan_free.induct)
  case (1 i n)
  show ?case
  proof (cases "i < n")
    case True
    then show ?thesis
      using 1 by (subst scan_free.simps) (simp add: used_at_def upt_conv_Cons)
  next
    case False
    then show ?thesis by (subst scan_free.simps) simp
  qed
qed

lemma get_data_block_eq:
  assumes "used_ok info u"
  shows "sfs_get_data_block info =
    Some (case find (\<lambda>i. u ! i = 0) [data_start info..<part_size info] of
            Some i \<Rightarrow> (int i, info\<lparr>si_used := Obj (u[i := 1])\<rparr>)
          | None \<Rightarrow> (-1, info))"
proof (cases "find (\<lambda>i. u ! i = 0) [data_start info..<part_size info]")
  case None
  then show ?thesis
    using assms by (simp add: sfs_get_data_block_def spin_lock_def used_ok_def scan_free_find
        lock_roundtrip)
next
  case (Some i)
  then have "i < part_size info"
    by (auto simp: find_Some_iff)
  then show ?thesis
    using assms Some by (simp add: sfs_get_data_block_def spin_lock_def used_ok_def scan_free_find
        set_used_def lock_roundtrip)
qed

lemma put_data_block_eq:
  assumes "used_ok info u" "unat b < length u"
  shows "sfs_put_data_block info b = Some (info\<lparr>si_used := Obj (u[unat b := 0])\<rparr>)"
  using assms
  by (simp add: sfs_put_data_block_def spin_lock_def used_ok_def set_used_def lock_roundtrip)

lemma put_blocks_eq:
  assumes "used_ok info u" "\<And>b. b \<in> set bs \<Longrightarrow> b \<noteq> 0 \<Longrightarrow> unat b < length u"
  shows "put_blocks info bs =
    Some (info\<lparr>si_used := Obj (clear_used (takeWhile (\<lambda>b. b \<noteq> 0) bs) u)\<rparr>)"
  using assms
proof (induction bs arbitrary: info u)
  case Nil
  then show ?case by (cases info) (simp add: used_ok_def)
next
  case (Cons b bs)
  show ?case
  proof (cases "b = 0")
    case True
    then show ?thesis using Cons.prems(1) by (cases info) (simp add: used_ok_def)
  next
    case False
    let ?info = "info\<lparr>si_used := Obj (u[unat b := 0])\<rparr>"
    have "put_blocks ?info bs = Some (?info\<lparr>si_used :=
        Obj (clear_used (takeWhile (\<lambda>b. b \<noteq> 0) bs) (u[unat b := 0]))\<rparr>)"
      using Cons.prems by (intro Cons.IH) auto
    then show ?thesis
      using False Cons.prems by (simp add: put_data_block_eq)
  qed
qed

lemma drop_blocks_eq:
  assumes "used_ok info u" "\<And>b. b \<in> set bs \<Longrightarrow> b \<noteq> 0 \<Longrightarrow> unat b < length u" "n = length bs"
  shows "drop_blocks info bs [i..<n] =
    Some (info\<lparr>si_used := Obj (clear_used (filter (\<lambda>b. b \<noteq> 0) (drop i bs)) u)\<rparr>,
          take i bs @ replicate (n - i) 0)"
  using assms
proof (induction "n - i" arbitrary: info u bs i)
  case 0
  then show ?case by (cases info) (simp add: used_ok_def)
next
  case (Suc k)
  then have i: "i < n" and k: "k = n - Suc i" by auto
  have rep: "replicate (length bs - i) (0::u32) = 0 # replicate (length bs - Suc i) 0"
    using i Suc.prems(3) by (simp add: Suc_diff_Suc [symmetric])
  show ?case
  proof (cases "bs ! i = 0")
    case True
    have "take (Suc i) bs = take i bs @ [0]"
      using i True Suc.prems(3) by (simp add: take_Suc_conv_app_nth)
    then show ?thesis
      using True i Suc.prems Suc.hyps(1) [OF k, of info u bs]
      by (simp add: upt_conv_Cons Cons_nth_drop_Suc [symmetric] rep)
  next
    case False
    let ?info = "info\<lparr>si_used := Obj (u[unat (bs ! i) := 0])\<rparr>"
    have put: "sfs_put_data_block info (bs ! i) = Some ?info"
      using Suc.prems False i by (intro put_data_block_eq) auto
    have "drop_blocks ?info (bs[i := 0]) [Suc i..<n] =
      Some (?info\<lparr>si_used := Obj (clear_used (filter (\<lambda>b. b \<noteq> 0) (drop (Suc i) (bs[i := 0])))
              (u[unat (bs ! i) := 0]))\<rparr>,
            take (Suc i) (bs[i := 0]) @ replicate (n - Suc i) 0)"
      using Suc.prems by (intro Suc.hyps(1) [OF k]) (auto dest!: set_update_subset_insert [THEN subsetD])
    moreover have "take (Suc i) (bs[i := 0]) = take i bs @ [0]"
      using i Suc.prems(3) by (simp add: take_Suc_conv_app_nth)
    ultimately show ?thesis
      using False i Suc.prems(3)
      by (simp add: upt_conv_Cons put Cons_nth_drop_Suc [symmetric] rep)
  qed
qed

end
