(* ===== verification/Sfs_Files.thy ===== *)
theory Sfs_Files
  imports Sfs_Used
begin

text \<open>
  What the operations of \<open>real_sfs_ops.c\<close> do to the entry table, over any buffer cache: the
  loops become searches in the table, a write becomes an update of one element. The invariant
  \<open>fs_inv\<close> of the mounted file system and its preservation are in \<open>Sfs_Invariant\<close>.
\<close>

section \<open>Files of a table\<close>

definition hit :: "byte list \<Rightarrow> sfs_file_entry \<Rightarrow> bool" where
  "hit fn fe \<longleftrightarrow> fe_live fe \<and> fe_fname fe = Some fn"

definition find_file :: "byte list \<Rightarrow> sfs_file_entry list \<Rightarrow> nat option" where
  "find_file fn t = find (\<lambda>i. hit fn (t ! i)) [0..<length t]"

definition find_slot :: "sfs_file_entry list \<Rightarrow> nat option" where
  "find_slot t = find (\<lambda>i. \<not> fe_live (t ! i)) [0..<length t]"

definition names_ok :: "sfs_file_entry list \<Rightarrow> bool" where
  "names_ok t \<longleftrightarrow> (\<forall>fe \<in> set t. fe_live fe \<longrightarrow> fe_fname fe \<noteq> None)"

lemma find_upt_Some:
  "find P [0..<n] = Some i \<longleftrightarrow> i < n \<and> P i \<and> (\<forall>j < i. \<not> P j)"
  by (auto simp: find_Some_iff)

lemma find_upt_None: "find P [0..<n] = None \<longleftrightarrow> (\<forall>i < n. \<not> P i)"
  by (auto simp: find_None_iff)

lemma find_file_Some:
  "find_file fn t = Some i \<longleftrightarrow> i < length t \<and> hit fn (t ! i) \<and> (\<forall>j < i. \<not> hit fn (t ! j))"
  by (simp add: find_file_def find_upt_Some)

lemma find_file_None: "find_file fn t = None \<longleftrightarrow> (\<forall>fe \<in> set t. \<not> hit fn fe)"
  by (simp add: find_file_def find_upt_None all_set_conv_all_nth)

lemma find_slot_Some:
  "find_slot t = Some i \<longleftrightarrow> i < length t \<and> \<not> fe_live (t ! i) \<and> (\<forall>j < i. fe_live (t ! j))"
  by (auto simp add: find_slot_def find_upt_Some)

lemma find_slot_None: "find_slot t = None \<longleftrightarrow> (\<forall>fe \<in> set t. fe_live fe)"
  by (simp add: find_slot_def find_upt_None all_set_conv_all_nth)

lemma names_ok_update:
  "names_ok t \<Longrightarrow> (fe_live fe \<Longrightarrow> fe_fname fe \<noteq> None) \<Longrightarrow> names_ok (t[i := fe])"
  by (auto simp: names_ok_def dest!: set_update_subset_insert [THEN subsetD])

section \<open>Finding files after a change\<close>

lemma find_file_new:
  assumes "find_file fn t = None" "find_slot t = Some k" "fe_live fe" "fe_fname fe = Some fn"
  shows "find_file fn (t[k := fe]) = Some k"
    and "fn' \<noteq> fn \<Longrightarrow> find_file fn' (t[k := fe]) = find_file fn' t"
proof -
  have k: "k < length t" "\<not> fe_live (t ! k)" using assms(2) by (simp_all add: find_slot_Some)
  show "find_file fn (t[k := fe]) = Some k"
    using assms k by (auto simp: find_file_Some find_file_None hit_def nth_list_update all_set_conv_all_nth)
  assume "fn' \<noteq> fn"
  then have "hit fn' (t[k := fe] ! i) = hit fn' (t ! i)" if "i < length t" for i
    using that assms(4) k(2) by (cases "i = k") (auto simp: hit_def)
  then show "find_file fn' (t[k := fe]) = find_file fn' t"
    unfolding find_file_def by (auto intro!: find_cong)
qed

lemma find_file_gone:
  assumes "\<forall>j < length t. hit fn (t ! j) \<longrightarrow> j = i" "fn' \<noteq> fn" "fe_fname (t ! i) = Some fn" "\<not> fe_live fe"
  shows "find_file fn (t[i := fe]) = None" "find_file fn' (t[i := fe]) = find_file fn' t"
proof -
  show "find_file fn (t[i := fe]) = None"
    unfolding find_file_None all_set_conv_all_nth
  proof (intro allI impI)
    fix j assume "j < length (t[i := fe])"
    then have j: "j < length t" by simp
    show "\<not> hit fn (t[i := fe] ! j)"
    proof (cases "j = i")
      case True
      then show ?thesis using j assms(4) by (simp add: hit_def)
    next
      case False
      then have "t[i := fe] ! j = t ! j" by simp
      then show ?thesis using assms(1) j False by metis
    qed
  qed
  have "hit fn' (t[i := fe] ! j) = hit fn' (t ! j)" if "j < length t" for j
    using that assms(2-4) by (cases "j = i") (auto simp: hit_def)
  then show "find_file fn' (t[i := fe]) = find_file fn' t"
    unfolding find_file_def by (auto intro!: find_cong)
qed

section \<open>The entry of a new file\<close>

definition new_fe :: "byte list \<Rightarrow> u32 \<Rightarrow> int \<Rightarrow> sfs_file_entry" where
  "new_fe fn now perms =
     \<lparr>fe_name = take 15 (fn @ replicate 15 0) @ [0], fe_size = 0, fe_timestamp = now,
      fe_perms = word_of_int perms, fe_blocks = replicate SIMULA_FS_DATA_BLOCK_CNT 0\<rparr>"

lemma fresh_fe_eq: "wf_fe fe \<Longrightarrow> fresh_fe fn now perms fe = new_fe fn now perms"
  by (cases fe) (simp add: fresh_fe_def new_fe_def wf_fe_def strncpy_def list_update_take_drop)

lemma wf_new_fe [simp]: "wf_fe (new_fe fn now perms)"
  by (simp add: wf_fe_def new_fe_def)

lemma take_pad:
  "take 15 (fn @ replicate 15 (0::byte)) @ [0] = take 15 fn @ 0 # replicate (15 - length fn) 0"
  by (cases "length fn \<le> 15")
    (simp_all add: replicate_append_same [symmetric] flip: replicate_Suc)

lemma fname_new_fe [simp]: "0 \<notin> set fn \<Longrightarrow> fe_fname (new_fe fn now perms) = Some (take 15 fn)"
  unfolding fe_fname_def new_fe_def sfs_file_entry.select_convs take_pad
  by (rule cstr_append_nul) (auto dest: in_set_takeD)

lemma live_new_fe: "0 \<notin> set fn \<Longrightarrow> fe_live (new_fe fn now perms) \<longleftrightarrow> fn \<noteq> []"
  by (cases fn) (auto simp: fe_live_def new_fe_def nth_append)

lemma blocks_new_fe [simp]: "fe_blocks (new_fe fn now perms) = replicate 9 0"
  by (simp add: new_fe_def)

section \<open>The operations over a table\<close>

context buffer_cache
begin

lemma lookup_loop_eq:
  assumes "table_ok ops info" "names_ok (table ops info)" "0 \<notin> set fn"
    and "\<And>i. i \<in> set is \<Longrightarrow> i < entry_cnt info"
  shows "\<exists>fe'. lookup_loop ops info fn is fe =
    Some (case find (\<lambda>i. hit fn (entry ops info i)) is of
            Some i \<Rightarrow> (int i + 1, entry ops info i) | None \<Rightarrow> (-1, fe'))"
  using assms(4)
proof (induction "is" arbitrary: fe)
  case (Cons i "is")
  have i: "i < entry_cnt info" using Cons.prems by simp
  obtain fe' where IH: "lookup_loop ops info fn is (entry ops info i) =
      Some (case find (\<lambda>i. hit fn (entry ops info i)) is of
            Some i \<Rightarrow> (int i + 1, entry ops info i) | None \<Rightarrow> (-1, fe'))"
    using Cons.IH [of "entry ops info i"] Cons.prems by auto
  have "\<exists>t. fe_fname (entry ops info i) = Some t \<and>
      strcmp_eq (fe_name (entry ops info i)) fn = Some (t = fn)" if "fe_live (entry ops info i)"
    using assms(2,3) i that by (auto simp: names_ok_def all_set_conv_all_nth fe_fname_def strcmp_eq_cstr)
  then show ?case
    using IH by (intro exI [of _ fe']) (auto simp: read_entry_table [OF assms(1) i] hit_def)
qed simp

lemma sfs_lookup_eq:
  assumes "table_ok ops info" "names_ok (table ops info)" "0 \<notin> set fn"
  shows "\<exists>fe'. sfs_lookup ops info fn fe =
    Some (case find_file fn (table ops info) of
            Some i \<Rightarrow> (int i + 1, table ops info ! i) | None \<Rightarrow> (-1, fe'))"
proof -
  have ff: "find_file fn (table ops info) =
      find (\<lambda>i. hit fn (entry ops info i)) [0..<entry_cnt info]"
    unfolding find_file_def length_table by (rule find_cong) simp_all
  show ?thesis
  proof (cases "find_file fn (table ops info)")
    case None
    then show ?thesis
      using lookup_loop_eq [OF assms, of "[0..<entry_cnt info]" fe] None by (auto simp: sfs_lookup_def ff [symmetric])
  next
    case (Some i)
    then have "i < entry_cnt info" by (simp add: find_file_Some)
    then show ?thesis
      using lookup_loop_eq [OF assms, of "[0..<entry_cnt info]" fe] Some
      by (auto simp: sfs_lookup_def ff [symmetric])
  qed
qed

lemma create_loop_eq:
  assumes "table_ok ops info" "names_ok (table ops info)" "0 \<notin> set fn"
    and "\<And>i. i \<in> set is \<Longrightarrow> i < entry_cnt info"
  shows "\<exists>fe'. create_loop ops info fn is free fe =
      Some (if \<exists>i \<in> set is. hit fn (entry ops info i) then Inl fe'
            else Inr (if free = -1
                      then (case find (\<lambda>i. \<not> fe_live (entry ops info i)) is of
                              Some i \<Rightarrow> int i | None \<Rightarrow> -1)
                      else free, fe')) \<and> (is \<noteq> [] \<longrightarrow> wf_fe fe') \<and> (wf_fe fe \<longrightarrow> wf_fe fe')"
  using assms(4)
proof (induction "is" arbitrary: free fe)
  case (Cons i "is")
  have i: "i < entry_cnt info" using Cons.prems by simp
  note rd = read_entry_table [OF assms(1) i] and wf = wf_entry [OF assms(1) i]
  have IH: "\<exists>fe'. create_loop ops info fn is free (entry ops info i) =
      Some (if \<exists>i \<in> set is. hit fn (entry ops info i) then Inl fe'
            else Inr (if free = -1
                      then (case find (\<lambda>i. \<not> fe_live (entry ops info i)) is of
                              Some i \<Rightarrow> int i | None \<Rightarrow> -1)
                      else free, fe')) \<and> wf_fe fe'" for free
    using Cons.IH [of free "entry ops info i"] Cons.prems wf by auto
  show ?case
  proof (cases "fe_live (entry ops info i)")
    case False
    then show ?thesis
      using IH [of "if free = -1 then int i else free"] wf by (auto simp: rd hit_def)
  next
    case True
    then obtain t where t: "fe_fname (entry ops info i) = Some t"
      using assms(2) i by (auto simp: names_ok_def all_set_conv_all_nth)
    have "strcmp_eq (fe_name (entry ops info i)) fn = Some (t = fn)"
      using t assms(3) by (simp add: fe_fname_def strcmp_eq_cstr)
    then show ?thesis
      using IH [of free] wf True t by (auto simp: rd hit_def)
  qed
qed auto

lemma create_scan_eq:
  assumes "table_ok ops info" "names_ok (table ops info)" "0 \<notin> set fn"
  shows "\<exists>fe'. create_loop ops info fn [0..<entry_cnt info] (-1) fe =
      Some (if find_file fn (table ops info) \<noteq> None then Inl fe'
            else Inr (case find_slot (table ops info) of Some i \<Rightarrow> int i | None \<Rightarrow> -1, fe'))
      \<and> (0 < entry_cnt info \<longrightarrow> wf_fe fe')"
proof -
  have "(\<exists>i \<in> set [0..<entry_cnt info]. hit fn (entry ops info i)) \<longleftrightarrow>
      find_file fn (table ops info) \<noteq> None"
    by (auto simp: find_file_None table_def)
  moreover have "find (\<lambda>i. \<not> fe_live (entry ops info i)) [0..<entry_cnt info] =
      find_slot (table ops info)"
    by (auto simp: find_slot_def intro: find_cong)
  moreover obtain fe' where
    "create_loop ops info fn [0..<entry_cnt info] (-1) fe =
      Some (if \<exists>i \<in> set [0..<entry_cnt info]. hit fn (entry ops info i) then Inl fe'
            else Inr (if (-1::int) = -1
                      then (case find (\<lambda>i. \<not> fe_live (entry ops info i)) [0..<entry_cnt info] of
                              Some i \<Rightarrow> int i | None \<Rightarrow> -1)
                      else -1, fe'))"
    "[0..<entry_cnt info] \<noteq> [] \<longrightarrow> wf_fe fe'"
    using create_loop_eq [OF assms, of "[0..<entry_cnt info]" "-1" fe] by force
  ultimately show ?thesis by (intro exI [of _ fe']) simp
qed

lemma sfs_create_exists:
  assumes "table_ok ops info" "names_ok (table ops info)" "0 \<notin> set fn"
    and "find_file fn (table ops info) \<noteq> None"
  shows "\<exists>fe'. sfs_create ops now info fn perms fe = Some (-1, info, fe')"
  using create_scan_eq [OF assms(1-3), of fe] assms(4) by (auto simp: sfs_create_def)

lemma sfs_create_full:
  assumes "table_ok ops info" "names_ok (table ops info)" "0 \<notin> set fn"
    and "find_slot (table ops info) = None"
  shows "\<exists>fe'. sfs_create ops now info fn perms fe = Some (-1, info, fe')"
  using create_scan_eq [OF assms(1-3), of fe] assms(4) by (auto simp: sfs_create_def)

lemma sfs_create_new:
  assumes ok: "table_ok ops info" "names_ok (table ops info)" "0 \<notin> set fn"
    and new: "find_file fn (table ops info) = None"
    and slot: "find_slot (table ops info) = Some k"
  obtains info' where
    "sfs_create ops now info fn perms fe = Some (int k + 1, info', new_fe fn now perms)"
    and "table ops info' = (table ops info)[k := new_fe fn now perms]" and "table_ok ops info'"
    and "si_sb info' = si_sb info" and "si_used info' = si_used info"
    and "si_lock info' = si_lock info" and "si_registered info' = si_registered info"
proof -
  have k: "k < entry_cnt info" using slot by (simp add: find_slot_Some)
  obtain fe' where loop: "create_loop ops info fn [0..<entry_cnt info] (-1) fe = Some (Inr (int k, fe'))"
    and wf: "wf_fe fe'"
    using create_scan_eq [OF ok, of fe] new slot k by auto
  obtain info' where w: "write_entry ops info (int k) (new_fe fn now perms) = Some (0, info')"
    and facts: "table ops info' = (table ops info)[k := new_fe fn now perms]" "table_ok ops info'"
      "si_sb info' = si_sb info" "si_used info' = si_used info"
      "si_lock info' = si_lock info" "si_registered info' = si_registered info"
    by (rule write_entry_table [OF ok(1) k wf_new_fe])
  have "sfs_create ops now info fn perms fe = Some (int k + 1, info', new_fe fn now perms)"
    by (simp add: sfs_create_def loop fresh_fe_eq [OF wf] w Let_def)
  from that [OF this facts] show ?thesis .
qed

end

end
