(* ===== verification/Sfs_Invariant.thy ===== *)
theory Sfs_Invariant
  imports Sfs_Files
begin

text \<open>
  The invariant of a mounted file system: the table can be read, names are terminated, and no
  two block references of the table are to the same block, every one is to a data block, and
  every block referred to is flagged as used. The operations of \<open>real_sfs_ops.c\<close> keep it.
\<close>

definition owned_blocks :: "sfs_file_entry list \<Rightarrow> u32 list" where
  "owned_blocks t = concat (map owned t)"

definition blocks_ok :: "sfs_file_entry list \<Rightarrow> byte list \<Rightarrow> nat \<Rightarrow> nat \<Rightarrow> bool" where
  "blocks_ok t u d p \<longleftrightarrow> distinct (owned_blocks t) \<and>
     (\<forall>b \<in> set (owned_blocks t). d \<le> unat b \<and> unat b < p \<and> u ! unat b \<noteq> 0)"

definition fs_inv :: "'d bdev_ops \<Rightarrow> 'd sfs_info \<Rightarrow> bool" where
  "fs_inv ops info \<longleftrightarrow> table_ok ops info \<and> names_ok (table ops info) \<and> 0 < data_start info \<and>
     (\<exists>u. used_ok info u \<and> blocks_ok (table ops info) u (data_start info) (part_size info))"

section \<open>Block references of a table with one entry replaced\<close>

lemma owned_blocks_split:
  assumes "i < length t"
  obtains A B where "owned_blocks t = A @ owned (t ! i) @ B"
    and "\<And>fe. owned_blocks (t[i := fe]) = A @ owned fe @ B"
proof
  have "t = take i t @ t ! i # drop (Suc i) t"
    using assms by (simp add: id_take_nth_drop)
  then show "owned_blocks t =
      owned_blocks (take i t) @ owned (t ! i) @ owned_blocks (drop (Suc i) t)"
    by (metis owned_blocks_def concat.simps(2) concat_append list.simps(9) map_append)
  show "owned_blocks (t[i := fe]) =
      owned_blocks (take i t) @ owned fe @ owned_blocks (drop (Suc i) t)" for fe
    using assms by (simp add: owned_blocks_def list_update_take_drop)
qed

lemma owned_subset: "i < length t \<Longrightarrow> set (owned (t ! i)) \<subseteq> set (owned_blocks t)"
  by (auto simp: owned_blocks_def intro: bexI [OF _ nth_mem])

lemma blocks_ok_range:
  "blocks_ok t u d p \<Longrightarrow> i < length t \<Longrightarrow> b \<in> set (fe_blocks (t ! i)) \<Longrightarrow> b \<noteq> 0 \<Longrightarrow>
   d \<le> unat b \<and> unat b < p"
  using owned_subset [of i t] by (auto simp: blocks_ok_def owned_def)

text \<open>An entry gives up some blocks, and exactly those given up may be flagged free.\<close>

lemma blocks_ok_shrink:
  assumes ok: "blocks_ok t u d p" and i: "i < length t" and p: "p = length u"
    and cl: "set cl \<subseteq> set (owned (t ! i))"
    and new: "set (owned fe) \<subseteq> set (owned (t ! i)) - set cl" "distinct (owned fe)"
  shows "blocks_ok (t[i := fe]) (clear_used cl u) d p"
proof -
  obtain A B where t: "owned_blocks t = A @ owned (t ! i) @ B"
    and t': "owned_blocks (t[i := fe]) = A @ owned fe @ B"
    using owned_blocks_split [OF i] by metis
  have dist: "distinct (A @ owned (t ! i) @ B)"
    and rng: "\<And>b. b \<in> set (A @ owned (t ! i) @ B) \<Longrightarrow> d \<le> unat b \<and> unat b < p \<and> u ! unat b \<noteq> 0"
    using ok by (auto simp: blocks_ok_def t)
  have "clear_used cl u ! unat b \<noteq> 0" if b: "b \<in> set (A @ owned fe @ B)" for b
  proof -
    have "b \<in> set (A @ owned (t ! i) @ B)" using b new(1) by auto
    moreover have "b \<notin> set cl" using b new(1) cl dist by auto
    then have "unat b \<notin> unat ` set cl" by (metis imageE unsigned_word_eqI)
    ultimately show ?thesis using rng [of b] p by (simp add: nth_clear_used)
  qed
  moreover have "distinct (A @ owned fe @ B)" using dist new by auto
  moreover have "d \<le> unat b \<and> unat b < p" if "b \<in> set (A @ owned fe @ B)" for b
    using that new(1) rng [of b] by auto
  ultimately show ?thesis by (simp add: blocks_ok_def t' del: set_append)
qed

text \<open>An entry gets a block whose flag was clear.\<close>

lemma blocks_ok_alloc:
  assumes ok: "blocks_ok t u d p" and i: "i < length t" and p: "p = length u" "p \<le> 2 ^ 31"
    and k: "d \<le> k" "k < p" "u ! k = 0"
    and old: "owned (t ! i) = X @ Y" and new: "owned fe = X @ of_nat k # Y"
  shows "blocks_ok (t[i := fe]) (u[k := 1]) d p"
proof -
  obtain A B where t: "owned_blocks t = A @ owned (t ! i) @ B"
    and t': "owned_blocks (t[i := fe]) = A @ owned fe @ B"
    using owned_blocks_split [OF i] by metis
  have k': "unat (of_nat k :: u32) = k" using p k by (simp add: unat_of_nat)
  have "of_nat k \<notin> set (owned_blocks t)"
    using ok k k' by (auto simp: blocks_ok_def)
  then show ?thesis
    using ok k k' p
    by (auto simp: blocks_ok_def t t' old new nth_list_update)
qed

section \<open>Removing a file\<close>

lemma takeWhile_filter_subset: "set (takeWhile P xs) \<subseteq> set (filter P xs)"
  by (auto dest: set_takeWhileD)

context buffer_cache
begin

lemma sfs_remove_none:
  assumes "table_ok ops info" "names_ok (table ops info)" "0 \<notin> set fn"
    and "find_file fn (table ops info) = None"
  shows "sfs_remove ops info fn = Some (-1, info)"
  using sfs_lookup_eq [OF assms(1-3), of zero_fe] assms(4) by (auto simp: sfs_remove_def)

lemma sfs_remove_some:
  assumes ok: "table_ok ops info" "names_ok (table ops info)" "0 \<notin> set fn"
    and i: "find_file fn (table ops info) = Some i"
    and u: "used_ok info u"
    and rng: "\<And>b. b \<in> set (fe_blocks (table ops info ! i)) \<Longrightarrow> b \<noteq> 0 \<Longrightarrow> unat b < length u"
  obtains info' where "sfs_remove ops info fn = Some (int i + 1, info')"
    and "table ops info' = (table ops info)[i := zero_fe]" and "table_ok ops info'"
    and "si_sb info' = si_sb info" and "si_registered info' = si_registered info"
    and "used_ok info' (clear_used (takeWhile (\<lambda>b. b \<noteq> 0) (fe_blocks (table ops info ! i))) u)"
proof -
  let ?fe = "table ops info ! i"
  let ?u = "clear_used (takeWhile (\<lambda>b. b \<noteq> 0) (fe_blocks ?fe)) u"
  let ?info = "info\<lparr>si_used := Obj ?u\<rparr>"
  have "i < entry_cnt ?info" using i by (simp add: find_file_Some entry_cnt_def)
  moreover have "table_ok ops ?info" using ok by simp
  ultimately obtain info' where w: "write_entry ops ?info (int i) zero_fe = Some (0, info')"
    and facts: "table ops info' = (table ops ?info)[i := zero_fe]" "table_ok ops info'"
      "si_sb info' = si_sb ?info" "si_used info' = si_used ?info"
      "si_lock info' = si_lock ?info" "si_registered info' = si_registered ?info"
    using write_entry_table [OF _ _ wf_zero_fe, of ?info i] by metis
  have "put_blocks info (fe_blocks ?fe) = Some ?info"
    by (rule put_blocks_eq [OF u rng])
  moreover have "sfs_lookup ops info fn zero_fe = Some (int i + 1, ?fe)"
    using sfs_lookup_eq [OF ok, of zero_fe] i by auto
  ultimately have "sfs_remove ops info fn = Some (int i + 1, info')"
    by (simp add: sfs_remove_def w)
  moreover have "used_ok info' ?u"
    using u facts by (simp add: used_ok_def)
  ultimately show ?thesis using facts by (intro that [of info']) simp_all
qed

lemma fs_inv_remove:
  assumes inv: "fs_inv ops info" and fn: "0 \<notin> set fn"
  shows "\<exists>ret info'. sfs_remove ops info fn = Some (ret, info') \<and> fs_inv ops info'"
proof (cases "find_file fn (table ops info)")
  case None
  then show ?thesis using sfs_remove_none inv fn by (auto simp: fs_inv_def)
next
  case (Some i)
  let ?fe = "table ops info ! i" and ?t = "table ops info"
  obtain u where ok: "table_ok ops info" "names_ok ?t" and u: "used_ok info u"
    and blk: "blocks_ok ?t u (data_start info) (part_size info)" and d: "0 < data_start info"
    using inv by (auto simp: fs_inv_def)
  have i: "i < length ?t" using Some by (simp add: find_file_Some)
  have len: "part_size info = length u" using u by (simp add: used_ok_def)
  have rng: "unat b < length u" if "b \<in> set (fe_blocks ?fe)" "b \<noteq> 0" for b
    using blocks_ok_range [OF blk i] that len by simp
  obtain info' where rm: "sfs_remove ops info fn = Some (int i + 1, info')"
    and facts: "table ops info' = ?t[i := zero_fe]" "table_ok ops info'"
      "si_sb info' = si_sb info" "si_registered info' = si_registered info"
      "used_ok info' (clear_used (takeWhile (\<lambda>b. b \<noteq> 0) (fe_blocks ?fe)) u)"
    using sfs_remove_some [OF ok fn Some u rng] by metis
  have "blocks_ok (?t[i := zero_fe]) (clear_used (takeWhile (\<lambda>b. b \<noteq> 0) (fe_blocks ?fe)) u)
      (data_start info) (part_size info)"
    using takeWhile_filter_subset [of "\<lambda>b. b \<noteq> 0" "fe_blocks ?fe"]
    by (intro blocks_ok_shrink [OF blk i len]) (auto simp: owned_def [of ?fe])
  then have "fs_inv ops info'"
    using facts d names_ok_update [OF ok(2), of zero_fe i] by (auto simp: fs_inv_def)
  then show ?thesis using rm by blast
qed

section \<open>Creating a file\<close>

lemma fs_inv_create:
  assumes inv: "fs_inv ops info" and fn: "0 \<notin> set fn"
  shows "\<exists>ret info' fe'. sfs_create ops now info fn perms fe = Some (ret, info', fe') \<and>
    fs_inv ops info'"
proof -
  let ?t = "table ops info"
  obtain u where ok: "table_ok ops info" "names_ok ?t" and u: "used_ok info u"
    and blk: "blocks_ok ?t u (data_start info) (part_size info)" and d: "0 < data_start info"
    using inv by (auto simp: fs_inv_def)
  show ?thesis
  proof (cases "find_file fn ?t = None \<and> find_slot ?t \<noteq> None")
    case False
    then show ?thesis
      using sfs_create_exists [OF ok fn, of now perms fe] sfs_create_full [OF ok fn, of now perms fe]
        inv by blast
  next
    case True
    then obtain k where new: "find_file fn ?t = None" and slot: "find_slot ?t = Some k" by auto
    have k: "k < length ?t" using slot by (simp add: find_slot_Some)
    obtain info' where cr: "sfs_create ops now info fn perms fe =
        Some (int k + 1, info', new_fe fn now perms)"
      and facts: "table ops info' = ?t[k := new_fe fn now perms]" "table_ok ops info'"
        "si_sb info' = si_sb info" "si_used info' = si_used info"
        "si_lock info' = si_lock info" "si_registered info' = si_registered info"
      using sfs_create_new [OF ok fn new slot, of now perms fe] by metis
    have "blocks_ok (?t[k := new_fe fn now perms]) (clear_used [] u) (data_start info) (part_size info)"
      using u by (intro blocks_ok_shrink [OF blk k]) (auto simp: owned_def used_ok_def)
    then have "fs_inv ops info'"
      using facts d u names_ok_update [OF ok(2), of "new_fe fn now perms" k] fn
      by (auto simp: fs_inv_def used_ok_def)
    then show ?thesis using cr by blast
  qed
qed

end

section \<open>Updating an entry\<close>

text \<open>\<open>sfs_update\<close> without its out parameters: the fields it sets, the blocks it keeps.\<close>

definition set_attrs ::
  "int option \<Rightarrow> int option \<Rightarrow> int option \<Rightarrow> sfs_file_entry \<Rightarrow> sfs_file_entry" where
  "set_attrs sz ts perms fe =
     fe\<lparr>fe_size := (case sz of Some s \<Rightarrow> word_of_int s | None \<Rightarrow> fe_size fe),
        fe_timestamp := (case ts of Some t \<Rightarrow> word_of_int t | None \<Rightarrow> fe_timestamp fe),
        fe_perms := (case perms of Some p \<Rightarrow> if p \<le> 7 then word_of_int p else fe_perms fe
                     | None \<Rightarrow> fe_perms fe)\<rparr>"

definition blocks_needed :: "u32 \<Rightarrow> u32 \<Rightarrow> nat" where
  "blocks_needed bs sz = unat ((sz + bs - 1) div bs)"

lemma set_attrs_simps [simp]:
  "fe_name (set_attrs sz ts perms fe) = fe_name fe"
  "fe_blocks (set_attrs sz ts perms fe) = fe_blocks fe"
  "wf_fe (set_attrs sz ts perms fe) = wf_fe fe"
  by (simp_all add: set_attrs_def wf_fe_def)

definition cut_blocks :: "nat \<Rightarrow> sfs_file_entry \<Rightarrow> sfs_file_entry" where
  "cut_blocks n fe = fe\<lparr>fe_blocks := take n (fe_blocks fe) @ replicate (9 - n) 0\<rparr>"

lemma wf_cut_blocks [simp]: "wf_fe fe \<Longrightarrow> wf_fe (cut_blocks n fe)"
  by (simp add: wf_fe_def cut_blocks_def)

lemma owned_cut_blocks: "owned (cut_blocks n fe) = filter (\<lambda>b. b \<noteq> 0) (take n (fe_blocks fe))"
  by (simp add: owned_def cut_blocks_def)

lemma sfs_update_unfold:
  "sfs_update ops info vfs_ino sz ts perms = do {
     (ret, fe) \<leftarrow> sfs_get_file_entry ops info vfs_ino zero_fe;
     if ret = -1 then Some (-1, info)
     else let fe = set_attrs sz ts perms fe; bs = sb_block_size (si_sb info);
              i = blocks_needed bs (fe_size fe)
          in if bs = 0 \<or> 2 ^ 31 \<le> i then None
             else do {
               (info1, blks) \<leftarrow> drop_blocks info (fe_blocks fe) [i..<SIMULA_FS_DATA_BLOCK_CNT];
               write_entry ops info1 (vfs_ino - 1) (fe\<lparr>fe_blocks := blks\<rparr>)
             }
   }"
proof -
  have eq: "(let fe = (case sz of Some s \<Rightarrow> fe\<lparr>fe_size := word_of_int s\<rparr> | None \<Rightarrow> fe);
            fe = (case ts of Some t \<Rightarrow> fe\<lparr>fe_timestamp := word_of_int t\<rparr> | None \<Rightarrow> fe);
            fe = (case perms of
                   Some p \<Rightarrow> if p \<le> 7 then fe\<lparr>fe_perms := word_of_int p\<rparr> else fe
                 | None \<Rightarrow> fe) in fe) = set_attrs sz ts perms fe" for fe
    by (cases fe) (auto simp: set_attrs_def split: option.split)
  show ?thesis
    unfolding sfs_update_def Let_def blocks_needed_def eq [unfolded Let_def] ..
qed

context buffer_cache
begin

lemma sfs_update_eq:
  fixes sz ts perms :: "int option"
  assumes ok: "table_ok ops info" and i: "i < entry_cnt info" and u: "used_ok info u"
    and rng: "\<And>b. b \<in> set (fe_blocks (table ops info ! i)) \<Longrightarrow> b \<noteq> 0 \<Longrightarrow> unat b < length u"
    and bs: "sb_block_size (si_sb info) \<noteq> 0"
  defines "fe \<equiv> set_attrs sz ts perms (table ops info ! i)"
  defines "n \<equiv> blocks_needed (sb_block_size (si_sb info)) (fe_size fe)"
  assumes n: "n < 2 ^ 31"
  obtains info' where "sfs_update ops info (int i + 1) sz ts perms = Some (0, info')"
    and "table ops info' = (table ops info)[i := cut_blocks n fe]" and "table_ok ops info'"
    and "si_sb info' = si_sb info" and "si_registered info' = si_registered info"
    and "used_ok info' (clear_used (filter (\<lambda>b. b \<noteq> 0) (drop n (fe_blocks fe))) u)"
proof -
  let ?u = "clear_used (filter (\<lambda>b. b \<noteq> 0) (drop n (fe_blocks fe))) u"
  let ?info = "info\<lparr>si_used := Obj ?u\<rparr>"
  have wf: "wf_fe fe" using wf_entry [OF ok i] i by (simp add: fe_def)
  have "i < entry_cnt ?info" using i by (simp add: entry_cnt_def)
  moreover have "table_ok ops ?info" using ok by simp
  ultimately obtain info' where
    w: "write_entry ops ?info (int i) (cut_blocks n fe) = Some (0, info')"
    and facts: "table ops info' = (table ops ?info)[i := cut_blocks n fe]" "table_ok ops info'"
      "si_sb info' = si_sb ?info" "si_used info' = si_used ?info"
      "si_lock info' = si_lock ?info" "si_registered info' = si_registered ?info"
    using write_entry_table [OF _ _ wf_cut_blocks [OF wf], of ?info i] by metis
  have get: "sfs_get_file_entry ops info (int i + 1) zero_fe = Some (0, table ops info ! i)"
    using read_entry_table [OF ok i] i by (simp add: sfs_get_file_entry_def)
  have drop: "drop_blocks info (fe_blocks fe) [n..<9] =
      Some (?info, fe_blocks (cut_blocks n fe))"
    using rng wf by (subst drop_blocks_eq [OF u]) (auto simp: fe_def wf_fe_def cut_blocks_def)
  have "sfs_update ops info (int i + 1) sz ts perms = Some (0, info')"
    unfolding sfs_update_unfold
    using bs n drop w
    by (simp add: get Let_def fe_def [symmetric] n_def [symmetric] cut_blocks_def)
  moreover have "used_ok info' ?u" using u facts by (simp add: used_ok_def)
  ultimately show ?thesis using facts by (intro that [of info']) simp_all
qed

lemma fs_inv_update:
  assumes inv: "fs_inv ops info" and i: "i < entry_cnt info"
    and bs: "sb_block_size (si_sb info) \<noteq> 0"
    and n: "blocks_needed (sb_block_size (si_sb info))
              (fe_size (set_attrs sz ts perms (table ops info ! i))) < 2 ^ 31"
  shows "\<exists>info'. sfs_update ops info (int i + 1) sz ts perms = Some (0, info') \<and> fs_inv ops info'"
proof -
  let ?t = "table ops info" and ?fe = "table ops info ! i"
  let ?new = "set_attrs sz ts perms ?fe"
  let ?n = "blocks_needed (sb_block_size (si_sb info)) (fe_size ?new)"
  obtain u where ok: "table_ok ops info" "names_ok ?t" and u: "used_ok info u"
    and blk: "blocks_ok ?t u (data_start info) (part_size info)" and d: "0 < data_start info"
    using inv by (auto simp: fs_inv_def)
  have i': "i < length ?t" using i by simp
  have len: "part_size info = length u" using u by (simp add: used_ok_def)
  have rng: "unat b < length u" if "b \<in> set (fe_blocks ?fe)" "b \<noteq> 0" for b
    using blocks_ok_range [OF blk i'] that len by simp
  obtain info' where up: "sfs_update ops info (int i + 1) sz ts perms = Some (0, info')"
    and facts: "table ops info' = ?t[i := cut_blocks ?n ?new]" "table_ok ops info'"
      "si_sb info' = si_sb info" "si_registered info' = si_registered info"
      "used_ok info' (clear_used (filter (\<lambda>b. b \<noteq> 0) (drop ?n (fe_blocks ?fe))) u)"
    using sfs_update_eq [OF ok(1) i u rng bs n] by (metis set_attrs_simps(2))
  have split: "owned ?fe = filter (\<lambda>b. b \<noteq> 0) (take ?n (fe_blocks ?fe)) @
      filter (\<lambda>b. b \<noteq> 0) (drop ?n (fe_blocks ?fe))"
    by (simp add: owned_def flip: filter_append)
  have "distinct (owned ?fe)"
    using blk i' by (metis blocks_ok_def distinct_append owned_blocks_split)
  then have "blocks_ok (?t[i := cut_blocks ?n ?new])
      (clear_used (filter (\<lambda>b. b \<noteq> 0) (drop ?n (fe_blocks ?fe))) u)
      (data_start info) (part_size info)"
    unfolding split
    by (intro blocks_ok_shrink [OF blk i' len]) (auto simp: split owned_cut_blocks)
  moreover have "names_ok (?t[i := cut_blocks ?n ?new])"
  proof (rule names_ok_update [OF ok(2)])
    show "fe_fname (cut_blocks ?n ?new) \<noteq> None" if "fe_live (cut_blocks ?n ?new)"
      using that ok(2) i' nth_mem [OF i']
      by (auto simp: cut_blocks_def fe_live_def fe_fname_def names_ok_def)
  qed
  ultimately have "fs_inv ops info'"
    using facts d by (auto simp: fs_inv_def)
  then show ?thesis using up by blast
qed

end

end
