(* ===== verification/Sfs_Vfs.thy ===== *)
theory Sfs_Vfs
  imports Sfs_Invariant
begin

unbundle bit_operations_syntax

text \<open>
  The file system as the VFS sees it (\<open>7_nov12/RealSFSInAction/real_sfs.c\<close>): directory
  listing, block mapping, creating, unlinking and looking up inodes, writing an inode back, and
  mounting and unmounting. The kernel's services (\<open>new_inode\<close>, \<open>iget_locked\<close>, \<open>kzalloc\<close>,
  \<open>d_make_root\<close>, the \<open>filldir\<close> callback) are parameters.
\<close>

section \<open>File modes\<close>

text \<open>The permission bits of \<open>linux/stat.h\<close>, by read, write and execute, and the file types.\<close>

definition S_IRALL :: u16 where "S_IRALL = 0x124" \<comment> \<open>\<open>S_IRUSR | S_IRGRP | S_IROTH\<close>\<close>
definition S_IWALL :: u16 where "S_IWALL = 0x092" \<comment> \<open>\<open>S_IWUSR | S_IWGRP | S_IWOTH\<close>\<close>
definition S_IXALL :: u16 where "S_IXALL = 0x049" \<comment> \<open>\<open>S_IXUSR | S_IXGRP | S_IXOTH\<close>\<close>
definition S_IFREG :: u16 where "S_IFREG = 0x8000"
definition S_IFDIR :: u16 where "S_IFDIR = 0x4000"
definition S_IFMT :: u16 where "S_IFMT = 0xF000"

definition S_ISREG :: "u16 \<Rightarrow> bool" where
  "S_ISREG m \<longleftrightarrow> m AND S_IFMT = S_IFREG"

text \<open>\<open>perms |= (mode & (...)) ? 4 : 0; ...\<close>, in \<open>sfs_inode_create\<close> and \<open>sfs_write_inode\<close>.\<close>

definition perms_of_mode :: "u16 \<Rightarrow> int" where
  "perms_of_mode mode =
     (if mode AND S_IRALL \<noteq> 0 then 4 else 0) OR
     (if mode AND S_IWALL \<noteq> 0 then 2 else 0) OR
     (if mode AND S_IXALL \<noteq> 0 then 1 else 0)"

definition mode_of_perms :: "u32 \<Rightarrow> u16" where
  "mode_of_perms p =
     S_IFREG OR (if p AND 4 \<noteq> 0 then S_IRALL else 0) OR (if p AND 2 \<noteq> 0 then S_IWALL else 0) OR
     (if p AND 1 \<noteq> 0 then S_IXALL else 0)"

section \<open>Inodes\<close>

record vfs_inode =
  i_ino :: int
  i_size :: int
  i_mode :: u16
  i_atime :: int
  i_mtime :: int
  i_ctime :: int
  i_nlink :: int
  i_sfs_ops :: bool \<comment> \<open>\<open>i_mapping->a_ops\<close> and \<open>i_fop\<close> are those of this file system\<close>

section \<open>Directory listing\<close>

definition sfs_readdir ::
  "'d bdev_ops \<Rightarrow> 'd sfs_info \<Rightarrow> int \<Rightarrow> int \<Rightarrow> 'e filldir \<Rightarrow> int \<Rightarrow> 'e \<Rightarrow> (int \<times> int \<times> 'e) option" where
  "sfs_readdir ops info ino parent_ino filldir f_pos e =
     (let (e1, over1) = (if f_pos = 0 then filldir e [46] f_pos ino DT_DIR else (e, False));
          pos1 = (if f_pos = 0 \<and> \<not> over1 then f_pos + 1 else f_pos)
      in if over1 then Some (0, pos1, e1)
         else
           let (e2, over2) = (if pos1 = 1 then filldir e1 [46, 46] pos1 parent_ino DT_DIR
                              else (e1, False));
               pos2 = (if pos1 = 1 \<and> \<not> over2 then pos1 + 1 else pos1)
           in if over2 then Some (0, pos2, e2)
              else if pos2 = 2 then do {
                (r, pos3, e3) \<leftarrow> sfs_list ops info filldir pos2 e2;
                if r = -1 then Some (0, pos3, e3) else Some (1, pos3, e3)
              }
              else Some (0, pos2, e2))"

section \<open>Block mapping\<close>

text \<open>The last component is the block \<open>map_bh\<close> maps the buffer to, if it is reached.\<close>

definition sfs_get_block ::
  "'d bdev_ops \<Rightarrow> 'd sfs_info \<Rightarrow> int \<Rightarrow> nat \<Rightarrow> bool \<Rightarrow> (int \<times> 'd sfs_info \<times> u32 option) option" where
  "sfs_get_block ops info ino iblock create =
     (if SIMULA_FS_DATA_BLOCK_CNT \<le> iblock then Some (- ENOSPC, info, None)
      else do {
        (ret, fe) \<leftarrow> sfs_get_file_entry ops info ino zero_fe;
        if ret = -1 then Some (- EIO, info, None)
        else if fe_blocks fe ! iblock = 0 then
          if \<not> create then Some (- EIO, info, None)
          else do {
            (b, info1) \<leftarrow> sfs_get_data_block info;
            let fe = fe\<lparr>fe_blocks := (fe_blocks fe)[iblock := word_of_int b]\<rparr>;
            if fe_blocks fe ! iblock = -1 then Some (- ENOSPC, info1, None)
            else do {
              (r, info2) \<leftarrow> sfs_update_file_entry ops info1 ino fe;
              if r = -1 then Some (- EIO, info2, None)
              else Some (0, info2, Some (fe_blocks fe ! iblock))
            }
          }
        else Some (0, info, Some (fe_blocks fe ! iblock))
      })"

section \<open>Inode operations\<close>

text \<open>\<open>new_inode\<close> gives a blank inode or NULL. The result holds the inode given to the dentry.\<close>

definition sfs_inode_create ::
  "'d bdev_ops \<Rightarrow> u32 \<Rightarrow> vfs_inode option \<Rightarrow> 'd sfs_info \<Rightarrow> byte list \<Rightarrow> u16 \<Rightarrow>
   (int \<times> 'd sfs_info \<times> vfs_inode option) option" where
  "sfs_inode_create ops now new_inode info fn mode = do {
     (ino, info1, fe) \<leftarrow> sfs_create ops now info fn (perms_of_mode mode) zero_fe;
     if ino = -1 then Some (- EIO, info1, None)
     else (case new_inode of
       None \<Rightarrow> do {
         (_, info2) \<leftarrow> sfs_remove ops info1 fn;
         Some (- EACCES, info2, None)
       }
     | Some inode \<Rightarrow>
         Some (0, info1, Some (inode\<lparr>i_ino := ino, i_size := int (unat (fe_size fe)),
           i_mode := S_IFREG OR mode, i_atime := int (unat (fe_timestamp fe)),
           i_mtime := int (unat (fe_timestamp fe)), i_ctime := int (unat (fe_timestamp fe)),
           i_sfs_ops := True\<rparr>)))
   }"

definition sfs_inode_unlink ::
  "'d bdev_ops \<Rightarrow> 'd sfs_info \<Rightarrow> byte list \<Rightarrow> vfs_inode \<Rightarrow> (int \<times> 'd sfs_info \<times> vfs_inode) option" where
  "sfs_inode_unlink ops info fn inode = do {
     (ino, info1) \<leftarrow> sfs_remove ops info fn;
     if ino = -1 then Some (- EIO, info1, inode)
     else Some (0, info1, inode\<lparr>i_nlink := i_nlink inode - 1\<rparr>)
   }"

text \<open>What \<open>iget_locked\<close> returns: NULL, a fresh inode (\<open>I_NEW\<close>), or one from the inode cache.\<close>

datatype iget_result = Iget_Null | Iget_New vfs_inode | Iget_Cached vfs_inode

text \<open>
  What a lookup returns: an error pointer, the spliced dentry without an inode (no such file),
  or NULL after \<open>d_add\<close> of the inode.
\<close>

datatype lookup_result = Lookup_Error int | Lookup_Negative | Lookup_Added vfs_inode

definition sfs_inode_lookup ::
  "'d bdev_ops \<Rightarrow> 'd sfs_info \<Rightarrow> (int \<Rightarrow> iget_result) \<Rightarrow> int \<Rightarrow> int \<Rightarrow> byte list \<Rightarrow> lookup_result option" where
  "sfs_inode_lookup ops info iget_locked root_ino parent_ino fn =
     (if parent_ino \<noteq> root_ino then Some (Lookup_Error (- ENOENT))
      else do {
        (ino, fe) \<leftarrow> sfs_lookup ops info fn zero_fe;
        if ino = -1 then Some Lookup_Negative
        else (case iget_locked ino of
          Iget_Null \<Rightarrow> Some (Lookup_Error (- EACCES))
        | Iget_New inode \<Rightarrow>
            Some (Lookup_Added (inode\<lparr>i_size := int (unat (fe_size fe)),
              i_mode := mode_of_perms (fe_perms fe), i_atime := int (unat (fe_timestamp fe)),
              i_mtime := int (unat (fe_timestamp fe)), i_ctime := int (unat (fe_timestamp fe)),
              i_sfs_ops := True\<rparr>))
        | Iget_Cached inode \<Rightarrow> Some (Lookup_Added inode))
      })"

section \<open>Super-block operations\<close>

text \<open>\<open>size\<close> and \<open>timestamp\<close> are \<open>int\<close>: the wider values are cut to 32 bits, with sign.\<close>

definition c_int :: "int \<Rightarrow> int" where
  "c_int x = sint (word_of_int x :: u32)"

definition sfs_write_inode ::
  "'d bdev_ops \<Rightarrow> 'd sfs_info \<Rightarrow> vfs_inode \<Rightarrow> (int \<times> 'd sfs_info) option" where
  "sfs_write_inode ops info inode =
     (if \<not> S_ISREG (i_mode inode) then Some (0, info)
      else sfs_update ops info (i_ino inode) (Some (c_int (i_size inode)))
             (Some (c_int (if i_mtime inode > i_ctime inode then i_mtime inode else i_ctime inode)))
             (Some (perms_of_mode (i_mode inode))))"

section \<open>Mounting and unmounting\<close>

function bit_pos_loop :: "u32 \<Rightarrow> int \<Rightarrow> int" where
  "bit_pos_loop val i = (if val \<noteq> 0 then bit_pos_loop (drop_bit 1 val) (i + 1) else i)"
  by pat_completeness auto
termination
proof (relation "measure (\<lambda>(val, i). unat val)")
  fix val :: u32 and i :: int
  assume "val \<noteq> 0"
  then have "unat (drop_bit 1 val) < unat val"
    by (simp add: drop_bit_eq_div unat_div_distrib unat_gt_0 [symmetric])
  then show "((drop_bit 1 val, i + 1), val, i) \<in> measure (\<lambda>(val, i). unat val)"
    by simp
qed simp

declare bit_pos_loop.simps [simp del]

definition get_bit_pos :: "u32 \<Rightarrow> int" where
  "get_bit_pos val = bit_pos_loop val 0 - 1"

text \<open>
  The VFS super block: \<open>s_fs_info\<close> points to the \<open>sfs_info_t\<close> that \<open>sfs_fill_super\<close> allocates.
  \<open>s_dev\<close> is the device while no such structure exists.
\<close>

record 'd vfs_super =
  s_dev :: 'd
  s_fs_info :: "'d sfs_info ptr"
  s_magic :: u32
  s_blocksize :: u32
  s_blocksize_bits :: int
  s_root :: "vfs_inode option"

definition zero_sb :: sfs_super_block where
  "zero_sb = decode_sb (replicate 512 0)"

definition kzalloc_info :: "'d \<Rightarrow> 'd sfs_info" where
  "kzalloc_info d = \<lparr>si_dev = d, si_sb = zero_sb, si_used = Null, si_lock = False,
     si_registered = False\<rparr>"

definition sfs_fill_super ::
  "'d bdev_ops \<Rightarrow> bool \<Rightarrow> (u32 \<Rightarrow> byte list option) \<Rightarrow> (int \<Rightarrow> iget_result) \<Rightarrow> bool \<Rightarrow>
   'd vfs_super \<Rightarrow> (int \<times> 'd vfs_super) option" where
  "sfs_fill_super ops kzalloc_ok vmalloc iget_locked make_root_ok sb =
     (if \<not> kzalloc_ok then Some (- ENOMEM, sb)
      else do {
        (r, info) \<leftarrow> init_browsing ops vmalloc (kzalloc_info (s_dev sb));
        if r < 0 then Some (- EIO, sb)
        else
          let sb = sb\<lparr>s_fs_info := Obj info, s_magic := sb_type (si_sb info),
                s_blocksize := sb_block_size (si_sb info),
                s_blocksize_bits := get_bit_pos (sb_block_size (si_sb info))\<rparr>
          in case iget_locked 0 of
               Iget_Null \<Rightarrow> do {
                 _ \<leftarrow> shut_browsing info;
                 Some (- EACCES, sb\<lparr>s_fs_info := Dangling\<rparr>)
               }
             | root \<Rightarrow>
                 if \<not> make_root_ok then do {
                   _ \<leftarrow> shut_browsing info;
                   Some (- ENOMEM, sb\<lparr>s_fs_info := Dangling\<rparr>)
                 }
                 else (case root of
                   Iget_New inode \<Rightarrow> Some (0, sb\<lparr>s_root := Some (inode\<lparr>
                     i_mode := S_IFDIR OR 0x1FF, i_sfs_ops := True\<rparr>)\<rparr>)
                 | Iget_Cached inode \<Rightarrow> Some (0, sb\<lparr>s_root := Some inode\<rparr>)
                 | Iget_Null \<Rightarrow> None)
      })"

definition sfs_kill_sb :: "'d vfs_super \<Rightarrow> 'd vfs_super option" where
  "sfs_kill_sb sb =
     (case s_fs_info sb of
        Null \<Rightarrow> Some sb
      | Obj info \<Rightarrow> do {
          info' \<leftarrow> shut_browsing info;
          Some (sb\<lparr>s_dev := si_dev info', s_fs_info := Dangling\<rparr>)
        }
      | Dangling \<Rightarrow> None)"

end
