(* ===== verification/Sfs_Vfs_Facts.thy ===== *)
theory Sfs_Vfs_Facts
  imports Sfs_Vfs
begin

unbundle bit_operations_syntax

text \<open>
  Facts on the VFS operations: block mapping allocates a fresh data block and keeps the
  invariant, a directory listing hands every live entry to the callback in order, permission
  bits survive the trip through an inode mode, and \<open>get_bit_pos\<close> is the binary logarithm.
\<close>

section \<open>Block mapping\<close>

lemma owned_alloc:
  assumes "k < length (fe_blocks fe)" "fe_blocks fe ! k = 0" "b \<noteq> 0"
  obtains X Y where "owned fe = X @ Y" and "owned (fe\<lparr>fe_blocks := (fe_blocks fe)[k := b]\<rparr>) = X @ b # Y"
proof
  have "fe_blocks fe = take k (fe_blocks fe) @ 0 # drop (Suc k) (fe_blocks fe)"
    using assms by (metis id_take_nth_drop)
  then show "owned fe = filter (\<lambda>b. b \<noteq> 0) (take k (fe_blocks fe)) @
      filter (\<lambda>b. b \<noteq> 0) (drop (Suc k) (fe_blocks fe))"
    by (metis (mono_tags, lifting) filter.simps(2) filter_append owned_def)
  show "owned (fe\<lparr>fe_blocks := (fe_blocks fe)[k := b]\<rparr>) =
      filter (\<lambda>b. b \<noteq> 0) (take k (fe_blocks fe)) @ b #
      filter (\<lambda>b. b \<noteq> 0) (drop (Suc k) (fe_blocks fe))"
    using assms by (simp add: owned_def list_update_take_drop)
qed

context buffer_cache
begin

lemma get_file_entry_eq:
  "table_ok ops info \<Longrightarrow> i < entry_cnt info \<Longrightarrow>
   sfs_get_file_entry ops info (int i + 1) fe = Some (0, table ops info ! i)"
  by (simp add: sfs_get_file_entry_def read_entry_table)

lemma get_block_far:
  "9 \<le> k \<Longrightarrow> sfs_get_block ops info ino k create = Some (- ENOSPC, info, None)"
  by (simp add: sfs_get_block_def)

lemma get_block_hit:
  assumes "table_ok ops info" "i < entry_cnt info" "k < 9"
    and "fe_blocks (table ops info ! i) ! k \<noteq> 0"
  shows "sfs_get_block ops info (int i + 1) k create =
    Some (0, info, Some (fe_blocks (table ops info ! i) ! k))"
  using assms get_file_entry_eq [OF assms(1,2), of zero_fe] by (simp add: sfs_get_block_def)

lemma get_block_hole:
  assumes "table_ok ops info" "i < entry_cnt info" "k < 9"
    and "fe_blocks (table ops info ! i) ! k = 0"
  shows "sfs_get_block ops info (int i + 1) k False = Some (- EIO, info, None)"
  using assms get_file_entry_eq [OF assms(1,2), of zero_fe] by (simp add: sfs_get_block_def)

lemma get_block_full:
  assumes "table_ok ops info" "i < entry_cnt info" "k < 9" "used_ok info u"
    and "fe_blocks (table ops info ! i) ! k = 0"
    and "find (\<lambda>b. u ! b = 0) [data_start info..<part_size info] = None"
  shows "sfs_get_block ops info (int i + 1) k True = Some (- ENOSPC, info, None)"
proof -
  have "k < length (fe_blocks (table ops info ! i))"
    using wf_entry [OF assms(1,2)] assms(2,3) by (simp add: wf_fe_def)
  then show ?thesis
    using assms get_file_entry_eq [OF assms(1,2), of zero_fe]
    by (simp add: sfs_get_block_def get_data_block_eq Let_def)
qed

lemma get_block_alloc:
  assumes ok: "table_ok ops info" and i: "i < entry_cnt info" and k: "k < 9" and u: "used_ok info u"
    and hole: "fe_blocks (table ops info ! i) ! k = 0"
    and free: "find (\<lambda>b. u ! b = 0) [data_start info..<part_size info] = Some m"
  defines "fe \<equiv> table ops info ! i"
  obtains info' where
    "sfs_get_block ops info (int i + 1) k True = Some (0, info', Some (of_nat m))"
    and "table ops info' = (table ops info)[i := fe\<lparr>fe_blocks := (fe_blocks fe)[k := of_nat m]\<rparr>]"
    and "table_ok ops info'" and "si_sb info' = si_sb info"
    and "si_registered info' = si_registered info" and "used_ok info' (u[m := 1])"
proof -
  let ?fe = "fe\<lparr>fe_blocks := (fe_blocks fe)[k := of_nat m]\<rparr>"
  let ?info = "info\<lparr>si_used := Obj (u[m := 1])\<rparr>"
  have wf: "wf_fe fe" using wf_entry [OF ok i] i by (simp add: fe_def)
  then have len: "k < length (fe_blocks fe)" and wf': "wf_fe ?fe"
    using k by (simp_all add: wf_fe_def)
  have m: "m < length u" "m < 2 ^ 31"
    using free u by (auto simp: find_Some_iff used_ok_def)
  have "i < entry_cnt ?info" using i by (simp add: entry_cnt_def)
  moreover have "table_ok ops ?info" using ok by simp
  ultimately obtain info' where w: "write_entry ops ?info (int i) ?fe = Some (0, info')"
    and facts: "table ops info' = (table ops ?info)[i := ?fe]" "table_ok ops info'"
      "si_sb info' = si_sb ?info" "si_used info' = si_used ?info"
      "si_lock info' = si_lock ?info" "si_registered info' = si_registered ?info"
    using write_entry_table [OF _ _ wf', of ?info i] by metis
  have "sfs_get_block ops info (int i + 1) k True = Some (0, info', Some (of_nat m))"
    using k hole len get_file_entry_eq [OF ok i, of zero_fe] small_not_minus_one [OF m(2)] w
    by (simp add: sfs_get_block_def get_data_block_eq [OF u] free Let_def
        sfs_update_file_entry_def fe_def [symmetric])
  moreover have "used_ok info' (u[m := 1])" using u facts by (simp add: used_ok_def)
  ultimately show ?thesis using facts by (intro that [of info']) simp_all
qed

lemma fs_inv_get_block:
  assumes inv: "fs_inv ops info" and i: "i < entry_cnt info"
  shows "\<exists>ret info' m. sfs_get_block ops info (int i + 1) k create = Some (ret, info', m) \<and>
    fs_inv ops info'"
proof -
  let ?t = "table ops info" and ?fe = "table ops info ! i"
  obtain u where ok: "table_ok ops info" "names_ok ?t" and u: "used_ok info u"
    and blk: "blocks_ok ?t u (data_start info) (part_size info)" and d: "0 < data_start info"
    using inv by (auto simp: fs_inv_def)
  have i': "i < length ?t" using i by simp
  consider "9 \<le> k" | "k < 9" "fe_blocks ?fe ! k \<noteq> 0" | "k < 9" "fe_blocks ?fe ! k = 0" "\<not> create"
    | "k < 9" "fe_blocks ?fe ! k = 0" "create"
        "find (\<lambda>b. u ! b = 0) [data_start info..<part_size info] = None"
    | m where "k < 9" "fe_blocks ?fe ! k = 0" "create"
        "find (\<lambda>b. u ! b = 0) [data_start info..<part_size info] = Some m"
    by fastforce
  then show ?thesis
  proof cases
    case 5
    obtain info' where gb: "sfs_get_block ops info (int i + 1) k True = Some (0, info', Some (of_nat m))"
      and facts: "table ops info' = ?t[i := ?fe\<lparr>fe_blocks := (fe_blocks ?fe)[k := of_nat m]\<rparr>]"
        "table_ok ops info'" "si_sb info' = si_sb info" "used_ok info' (u[m := 1])"
      using get_block_alloc [OF ok(1) i 5(1) u 5(2,4)] by metis
    have m: "data_start info \<le> m" "m < part_size info" "u ! m = 0"
      using 5(4) by (auto simp: find_Some_iff nth_upt)
    have p: "part_size info = length u" "part_size info \<le> 2 ^ 31"
      using u by (auto simp: used_ok_def)
    have "unat (of_nat m :: u32) = m" using m p by (simp add: unat_of_nat)
    then have nz: "(of_nat m :: u32) \<noteq> 0" using m d by auto
    have len: "k < length (fe_blocks ?fe)"
      using wf_entry [OF ok(1) i] i 5(1) by (simp add: wf_fe_def)
    obtain X Y where "owned ?fe = X @ Y"
      "owned (?fe\<lparr>fe_blocks := (fe_blocks ?fe)[k := of_nat m]\<rparr>) = X @ of_nat m # Y"
      by (rule owned_alloc [OF len 5(2) nz])
    from blocks_ok_alloc [OF blk i' p m this]
    have "blocks_ok (table ops info') (u[m := 1]) (data_start info') (part_size info')"
      by (simp add: facts)
    moreover have "names_ok (table ops info')"
      using ok(2) i' nth_mem [OF i']
      by (auto simp: facts names_ok_def fe_live_def fe_fname_def
          dest!: set_update_subset_insert [THEN subsetD])
    ultimately have "fs_inv ops info'" using facts d by (auto simp: fs_inv_def)
    then show ?thesis using gb 5(3) by auto
  qed (use inv get_block_far get_block_hit [OF ok(1) i] get_block_hole [OF ok(1) i]
        get_block_full [OF ok(1) i _ u] in fastforce)+
qed

end

section \<open>Directory listing\<close>

text \<open>The callback that keeps every entry it gets, and what it gets from a table.\<close>

definition collect :: "(byte list \<times> int \<times> int \<times> dtype) list filldir" where
  "collect e name pos ino dt = (e @ [(name, pos, ino, dt)], False)"

fun listing :: "sfs_file_entry list \<Rightarrow> int \<Rightarrow> int \<Rightarrow> (byte list \<times> int \<times> int \<times> dtype) list" where
  "listing [] ino pos = []"
| "listing (fe # t) ino pos =
     (if fe_live fe then (the (fe_fname fe), pos, ino, DT_REG) # listing t (ino + 1) (pos + 1)
      else listing t (ino + 1) pos)"

lemma listing_names:
  "map fst (listing t ino pos) = map (the \<circ> fe_fname) (filter fe_live t)"
  by (induction t ino pos rule: listing.induct) auto

lemma listing_positions:
  "map (fst \<circ> snd) (listing t ino pos) = map (\<lambda>k. pos + int k) [0..<length (listing t ino pos)]"
proof (induction t ino pos rule: listing.induct)
  case (2 fe t ino pos)
  then show ?case by (auto simp: map_upt_Suc simp del: upt_Suc)
qed simp

lemma length_listing: "length (listing t ino pos) = length (filter fe_live t)"
  by (induction t ino pos rule: listing.induct) auto

context buffer_cache
begin

lemma list_loop_collect:
  assumes ok: "table_ok ops info" "names_ok (table ops info)" and n: "i \<le> entry_cnt info"
  shows "list_loop ops info collect [i..<entry_cnt info] pos e =
    Some (0, pos + int (length (listing (drop i (table ops info)) (int i + 1) pos)),
          e @ listing (drop i (table ops info)) (int i + 1) pos)"
  using n
proof (induction "entry_cnt info - i" arbitrary: i pos e)
  case 0
  then show ?case by simp
next
  case (Suc k)
  then have i: "i < entry_cnt info" and k: "k = entry_cnt info - Suc i" by auto
  have "entry ops info i \<in> set (table ops info)" using i by (simp add: table_def)
  then have name: "\<exists>nm. fe_fname (entry ops info i) = Some nm" if "fe_live (entry ops info i)"
    using ok(2) that by (auto simp: names_ok_def)
  show ?case
    using Suc.hyps(1) [OF k] i name
    by (auto simp: upt_conv_Cons Cons_nth_drop_Suc [symmetric] read_entry_table [OF ok(1) i]
        collect_def add.commute)
qed

lemma readdir_collect:
  assumes "table_ok ops info" "names_ok (table ops info)"
  shows "sfs_readdir ops info ino parent collect 0 [] =
    Some (1, 2 + int (length (filter fe_live (table ops info))),
      [([46], 0, ino, DT_DIR), ([46, 46], 1, parent, DT_DIR)] @ listing (table ops info) 1 2)"
  using list_loop_collect [OF assms, of 0]
  by (simp add: sfs_readdir_def sfs_list_def collect_def [of "[]"] collect_def [of "[_]"]
      length_listing Let_def)

end

lemma readdir_again:
  "2 < pos \<Longrightarrow> sfs_readdir ops info ino parent filldir pos e = Some (0, pos, e)"
  by (simp add: sfs_readdir_def)

section \<open>Modes and bit positions\<close>

lemma u32_less_8: "(p::u32) < 8 \<Longrightarrow> p \<in> {0, 1, 2, 3, 4, 5, 6, 7}"
proof -
  assume "p < 8"
  then have "unat p < 8" by (simp add: word_less_nat_alt)
  then have "unat p \<in> {0, 1, 2, 3, 4, 5, 6, 7}" by auto
  then have "of_nat (unat p) \<in> (of_nat ` {0, 1, 2, 3, 4, 5, 6, 7} :: u32 set)" by blast
  then show ?thesis by simp
qed

lemmas mode_defs = perms_of_mode_def mode_of_perms_def S_IRALL_def S_IWALL_def S_IXALL_def
  S_IFREG_def S_IFMT_def S_ISREG_def

lemma perms_mode_perms:
  "p < 8 \<Longrightarrow> perms_of_mode (mode_of_perms p) = uint p \<and> S_ISREG (mode_of_perms p)"
  by (drule u32_less_8) (auto simp: mode_defs)

lemma perms_of_mode_range: "0 \<le> perms_of_mode m \<and> perms_of_mode m \<le> 7"
  by (simp add: perms_of_mode_def)

lemma bit_pos_loop_bounds:
  "val \<noteq> 0 \<Longrightarrow> \<exists>k. bit_pos_loop val i = i + 1 + int k \<and> 2 ^ k \<le> unat val \<and> unat val < 2 ^ (k + 1)"
proof (induction val i rule: bit_pos_loop.induct)
  case (1 val i)
  have half: "unat (drop_bit 1 val) = unat val div 2"
    by (simp add: drop_bit_eq_div unat_div_distrib)
  show ?case
  proof (cases "drop_bit 1 val = 0")
    case True
    then have "unat val div 2 = 0" using half by simp
    then have "unat val = 1" using 1(2) by (simp add: unat_eq_0 [symmetric] div_eq_0_iff)
    then show ?thesis
      using 1(2) True by (intro exI [of _ 0]) (simp add: bit_pos_loop.simps)
  next
    case False
    then obtain k where "bit_pos_loop (drop_bit 1 val) (i + 1) = i + 1 + 1 + int k"
      "2 ^ k \<le> unat val div 2" "unat val div 2 < 2 ^ (k + 1)"
      using 1 unfolding half by blast
    then show ?thesis
      using 1(2) by (intro exI [of _ "Suc k"]) (subst bit_pos_loop.simps, auto)
  qed
qed

lemma get_bit_pos_log:
  assumes "val \<noteq> 0"
  obtains k where "get_bit_pos val = int k" "2 ^ k \<le> unat val" "unat val < 2 ^ (k + 1)"
  using bit_pos_loop_bounds [OF assms, of 0] by (auto simp: get_bit_pos_def)

end
