(* ===== verification/Sfs_Mount.thy ===== *)
theory Sfs_Mount
  imports Sfs_Vfs_Facts
begin

text \<open>
  Mounting: \<open>init_browsing\<close> computes the used-block flags from the entry table and establishes
  the invariant of \<open>Sfs_Invariant\<close>; \<open>sfs_fill_super\<close> and \<open>sfs_kill_sb\<close> own the structure it
  fills in.
\<close>

section \<open>The flags\<close>

definition set_flags :: "u32 list \<Rightarrow> byte list \<Rightarrow> byte list" where
  "set_flags bs u = fold (\<lambda>b u. u[unat b := 1]) bs u"

lemma set_flags_simps [simp]:
  "set_flags [] u = u"
  "set_flags (b # bs) u = set_flags bs (u[unat b := 1])"
  "set_flags (bs @ cs) u = set_flags cs (set_flags bs u)"
  by (simp_all add: set_flags_def)

lemma length_set_flags [simp]: "length (set_flags bs u) = length u"
  by (induction bs arbitrary: u) auto

lemma nth_set_flags:
  "k < length u \<Longrightarrow> set_flags bs u ! k = (if k \<in> unat ` set bs then 1 else u ! k)"
  by (induction bs arbitrary: u) (auto simp: nth_list_update)

text \<open>The flags of a mounted table: the blocks before the data area and those the files refer to.\<close>

definition mount_flags :: "sfs_file_entry list \<Rightarrow> nat \<Rightarrow> nat \<Rightarrow> byte list" where
  "mount_flags t d p = set_flags (owned_blocks t) (replicate d 1 @ replicate (p - d) 0)"

lemma length_mount_flags: "d \<le> p \<Longrightarrow> length (mount_flags t d p) = p"
  by (simp add: mount_flags_def)

lemma nth_mount_flags:
  "d \<le> p \<Longrightarrow> k < p \<Longrightarrow> mount_flags t d p ! k \<noteq> 0 \<longleftrightarrow> k < d \<or> k \<in> unat ` set (owned_blocks t)"
  by (simp add: mount_flags_def nth_set_flags nth_append)

lemma fill_used_eq:
  "i + n \<le> length u \<Longrightarrow> i + n \<le> 2 ^ 31 \<Longrightarrow>
   fill_used u i n v = Some (take i u @ replicate n v @ drop (i + n) u)"
proof (induction n arbitrary: u i)
  case (Suc n)
  have "take (Suc i) (u[i := v]) = take i u @ [v]"
    using Suc.prems by (simp add: take_Suc_conv_app_nth)
  then show ?case
    using Suc.prems Suc.IH [of "Suc i" "u[i := v]"] by simp
qed simp

lemma mark_blocks_eq:
  "(\<And>b. b \<in> set (takeWhile (\<lambda>b. b \<noteq> 0) bs) \<Longrightarrow> unat b < length u) \<Longrightarrow>
   mark_blocks u bs = Some (set_flags (takeWhile (\<lambda>b. b \<noteq> 0) bs) u)"
  by (induction bs arbitrary: u) auto

text \<open>
  A table as the operations leave it when no file has a hole: the flags computed from the
  leading non-zero block numbers of the entries in use are then those of all references.
\<close>

definition clean_fe :: "sfs_file_entry \<Rightarrow> bool" where
  "clean_fe fe \<longleftrightarrow>
     (if fe_live fe then fe_fname fe \<noteq> None \<and> owned fe = takeWhile (\<lambda>b. b \<noteq> 0) (fe_blocks fe)
      else owned fe = [])"

definition clean_table :: "sfs_file_entry list \<Rightarrow> nat \<Rightarrow> nat \<Rightarrow> bool" where
  "clean_table t d p \<longleftrightarrow> (\<forall>fe \<in> set t. clean_fe fe) \<and> distinct (owned_blocks t) \<and>
     (\<forall>b \<in> set (owned_blocks t). d \<le> unat b \<and> unat b < p)"

text \<open>
  What the loop of \<open>init_browsing\<close> flags in general: of an entry in use the numbers before the first
  zero. Blocks behind a hole are missed.
\<close>

definition flagged :: "sfs_file_entry \<Rightarrow> u32 list" where
  "flagged fe = (if fe_live fe then takeWhile (\<lambda>b. b \<noteq> 0) (fe_blocks fe) else [])"

definition flagged_blocks :: "sfs_file_entry list \<Rightarrow> u32 list" where
  "flagged_blocks t = concat (map flagged t)"

lemma clean_flagged: "\<forall>fe \<in> set t. clean_fe fe \<Longrightarrow> flagged_blocks t = owned_blocks t"
  unfolding flagged_blocks_def owned_blocks_def
  by (intro arg_cong [of _ _ concat] map_cong) (auto simp: flagged_def clean_fe_def)

context buffer_cache
begin

lemma mark_entries_eq:
  assumes ok: "table_ok ops info"
    and rng: "\<And>b. b \<in> set (flagged_blocks (table ops info)) \<Longrightarrow> unat b < length u"
    and i: "i \<le> entry_cnt info"
  shows "mark_entries ops info [i..<entry_cnt info] u =
    Some (Inr (set_flags (flagged_blocks (drop i (table ops info))) u))"
  using i rng
proof (induction "entry_cnt info - i" arbitrary: i u)
  case 0
  then show ?case by (simp add: flagged_blocks_def)
next
  case (Suc k)
  then have i: "i < entry_cnt info" and k: "k = entry_cnt info - Suc i" by auto
  let ?fe = "table ops info ! i"
  have mem: "?fe \<in> set (table ops info)" using i by (metis length_table nth_mem)
  have split: "flagged_blocks (drop i (table ops info)) =
      flagged ?fe @ flagged_blocks (drop (Suc i) (table ops info))"
    using i by (simp add: flagged_blocks_def Cons_nth_drop_Suc [symmetric])
  have r: "unat b < length u" if "b \<in> set (flagged ?fe)" for b
    using Suc.prems(2) mem that by (auto simp: flagged_blocks_def)
  show ?case
  proof (cases "fe_live ?fe")
    case True
    then have o: "flagged ?fe = takeWhile (\<lambda>b. b \<noteq> 0) (fe_blocks ?fe)" by (simp add: flagged_def)
    have "mark_blocks u (fe_blocks ?fe) = Some (set_flags (flagged ?fe) u)"
      unfolding o using r [unfolded o] by (rule mark_blocks_eq)
    then show ?thesis
      using True i Suc.hyps(1) [OF k, of "set_flags (flagged ?fe) u"] Suc.prems(2)
      by (simp add: upt_conv_Cons read_entry_table [OF ok i] split)
  next
    case False
    then have "flagged ?fe = []" by (simp add: flagged_def)
    then show ?thesis
      using False i Suc.hyps(1) [OF k, of u] Suc.prems(2)
      by (simp add: upt_conv_Cons read_entry_table [OF ok i] split)
  qed
qed

lemma init_browsing_flags:
  assumes sb: "read_sb_from_real_sfs ops info = Some (Inr sb)" and ty: "sb_type sb = SIMULA_FS_TYPE"
    and mem: "vmalloc (sb_partition_size sb) = Some mem" "length mem = p" "d \<le> p" "p \<le> 2 ^ 31"
    and dp: "d = unat (sb_data_block_start sb)" "p = unat (sb_partition_size sb)"
    and ok: "table_ok ops (info\<lparr>si_sb := sb\<rparr>)"
    and rng: "\<And>b. b \<in> set (flagged_blocks (table ops (info\<lparr>si_sb := sb\<rparr>))) \<Longrightarrow> unat b < p"
  shows "init_browsing ops vmalloc info = Some (0, info\<lparr>si_sb := sb, si_registered := True, si_lock := False,
    si_used := Obj (set_flags (flagged_blocks (table ops (info\<lparr>si_sb := sb\<rparr>))) (replicate d 1 @ replicate (p - d) 0))\<rparr>)"
proof -
  let ?info = "info\<lparr>si_sb := sb\<rparr>" and ?v = "replicate d 1 @ replicate (p - d) (0::byte)"
  let ?t = "table ops ?info"
  have f1: "fill_used mem 0 d 1 = Some (replicate d 1 @ drop d mem)"
    using mem by (simp add: fill_used_eq)
  have f2: "fill_used (replicate d 1 @ drop d mem) d (p - d) 0 = Some ?v"
    using mem by (subst fill_used_eq) simp_all
  have len: "length ?v = p" using mem by simp
  have "mark_entries ops ?info [0..<entry_cnt ?info] ?v =
      Some (Inr (set_flags (flagged_blocks (drop 0 ?t)) ?v))"
    using rng by (intro mark_entries_eq [OF ok]) (auto simp: len simp del: length_append)
  then show ?thesis
    using sb ty mem(1) f1 f2 by (simp add: init_browsing_def Let_def dp [symmetric])
qed

lemma init_browsing_eq:
  assumes "read_sb_from_real_sfs ops info = Some (Inr sb)" "sb_type sb = SIMULA_FS_TYPE"
    and "vmalloc (sb_partition_size sb) = Some mem" "length mem = p" "d \<le> p" "p \<le> 2 ^ 31"
    and "d = unat (sb_data_block_start sb)" "p = unat (sb_partition_size sb)"
    and "table_ok ops (info\<lparr>si_sb := sb\<rparr>)"
    and cl: "clean_table (table ops (info\<lparr>si_sb := sb\<rparr>)) d p"
  shows "init_browsing ops vmalloc info = Some (0, info\<lparr>si_sb := sb, si_registered := True, si_lock := False,
    si_used := Obj (mount_flags (table ops (info\<lparr>si_sb := sb\<rparr>)) d p)\<rparr>)"
proof -
  have "flagged_blocks (table ops (info\<lparr>si_sb := sb\<rparr>)) = owned_blocks (table ops (info\<lparr>si_sb := sb\<rparr>))"
    using cl by (intro clean_flagged) (simp add: clean_table_def)
  then show ?thesis
    using init_browsing_flags [where info = info and sb = sb and vmalloc = vmalloc and d = d and p = p, OF assms(1-9)] cl by (simp add: mount_flags_def clean_table_def)
qed

lemma init_browsing_inv:
  assumes sb: "read_sb_from_real_sfs ops info = Some (Inr sb)" and ty: "sb_type sb = SIMULA_FS_TYPE"
    and mem: "vmalloc (sb_partition_size sb) = Some mem" "length mem = unat (sb_partition_size sb)"
    and ok: "table_ok ops (info\<lparr>si_sb := sb\<rparr>)"
    and cl: "clean_table (table ops (info\<lparr>si_sb := sb\<rparr>)) (unat (sb_data_block_start sb))
              (unat (sb_partition_size sb))"
    and d: "0 < unat (sb_data_block_start sb)"
      "unat (sb_data_block_start sb) \<le> unat (sb_partition_size sb)"
      "unat (sb_partition_size sb) \<le> 2 ^ 31"
  defines "res \<equiv> info\<lparr>si_sb := sb, si_registered := True, si_lock := False,
    si_used := Obj (mount_flags (table ops (info\<lparr>si_sb := sb\<rparr>)) (unat (sb_data_block_start sb))
      (unat (sb_partition_size sb)))\<rparr>"
  shows "init_browsing ops vmalloc info = Some (0, res)" "fs_inv ops res"
    "table ops res = table ops (info\<lparr>si_sb := sb\<rparr>)"
proof -
  let ?t = "table ops (info\<lparr>si_sb := sb\<rparr>)" and ?d = "unat (sb_data_block_start sb)"
    and ?p = "unat (sb_partition_size sb)"
  show "init_browsing ops vmalloc info = Some (0, res)"
    unfolding res_def
    by (rule init_browsing_eq [where info = info and sb = sb and vmalloc = vmalloc and d = ?d and p = ?p, OF sb ty mem d(2,3) refl refl ok cl])
  show t: "table ops res = ?t"
    by (simp add: res_def table_def entry_def entry_cnt_def)
  have "blocks_ok ?t (mount_flags ?t ?d ?p) ?d ?p"
    using cl d(2) nth_mount_flags [of ?d ?p _ ?t] by (auto simp: blocks_ok_def clean_table_def)
  moreover have "names_ok ?t"
    using cl by (auto simp: clean_table_def clean_fe_def names_ok_def)
  moreover have "used_ok res (mount_flags ?t ?d ?p)"
    using d by (simp add: used_ok_def res_def length_mount_flags)
  moreover have "table_ok ops res" using ok by (simp add: res_def table_ok_def entry_cnt_def)
  ultimately show "fs_inv ops res" using d t by (auto simp: fs_inv_def res_def)
qed

end

section \<open>Filling and killing the super block\<close>

lemma kzalloc_dev [simp]: "si_dev (kzalloc_info d) = d"
  by (simp add: kzalloc_info_def)

lemma mark_entries_error:
  "mark_entries ops info is u = Some (Inl e) \<Longrightarrow> e = - ENOMEM"
  by (induction "is" arbitrary: u) (auto split: Option.bind_splits sum.splits if_splits)

text \<open>What \<open>init_browsing\<close> leaves behind: flags of its own and a registered structure, or neither.\<close>

lemma init_browsing_result:
  assumes "init_browsing ops vmalloc info = Some (r, info')" "si_used info = Null"
  shows "r = 0 \<and> (\<exists>u. si_used info' = Obj u) \<and> si_registered info' \<and> \<not> si_lock info' \<or>
    r < 0 \<and> si_used info' = Null \<and> si_registered info' = si_registered info"
  using assms
  by (auto simp: init_browsing_def Let_def dest: mark_entries_error
      split: Option.bind_splits sum.splits option.splits if_splits)

lemma fill_super_cases:
  assumes "sfs_fill_super ops kz vmalloc iget mk sb = Some (ret, sb')"
  obtains "\<not> kz" "ret = - ENOMEM" "sb' = sb"
  | r info where "kz" "init_browsing ops vmalloc (kzalloc_info (s_dev sb)) = Some (r, info)" "r < 0"
      "ret = - EIO" "sb' = sb"
  | info where "kz" "init_browsing ops vmalloc (kzalloc_info (s_dev sb)) = Some (0, info)"
      "iget 0 = Iget_Null \<or> \<not> mk" "ret = - EACCES \<or> ret = - ENOMEM" "s_fs_info sb' = Dangling"
  | info u where "kz" "init_browsing ops vmalloc (kzalloc_info (s_dev sb)) = Some (0, info)"
      "iget 0 \<noteq> Iget_Null" "mk" "ret = 0" "s_fs_info sb' = Obj info" "si_used info = Obj u"
      "s_magic sb' = sb_type (si_sb info)" "s_blocksize sb' = sb_block_size (si_sb info)"
      "s_blocksize_bits sb' = get_bit_pos (sb_block_size (si_sb info))" "s_root sb' \<noteq> None"
proof (cases "kz")
  case False
  then show ?thesis using assms that(1) by (simp add: sfs_fill_super_def)
next
  case True
  then obtain r info where i: "init_browsing ops vmalloc (kzalloc_info (s_dev sb)) = Some (r, info)"
    using assms by (auto simp: sfs_fill_super_def split: Option.bind_splits)
  have nul: "si_used (kzalloc_info (s_dev sb)) = Null" by (simp add: kzalloc_info_def)
  note res = init_browsing_result [OF i nul]
  show ?thesis
  proof (cases "r < 0")
    case neg: True
    then show ?thesis using assms True i that(2) [OF True i neg] by (simp add: sfs_fill_super_def)
  next
    case False
    then have r: "r = 0" and "\<exists>u. si_used info = Obj u" using res by auto
    then obtain u where u: "si_used info = Obj u" by auto
    have step: "sfs_fill_super ops kz vmalloc iget mk sb =
      (let sb1 = sb\<lparr>s_fs_info := Obj info, s_magic := sb_type (si_sb info),
                s_blocksize := sb_block_size (si_sb info),
                s_blocksize_bits := get_bit_pos (sb_block_size (si_sb info))\<rparr>
       in if iget 0 = Iget_Null then Some (- EACCES, sb1\<lparr>s_fs_info := Dangling\<rparr>)
          else if \<not> mk then Some (- ENOMEM, sb1\<lparr>s_fs_info := Dangling\<rparr>)
          else Some (0, sb1\<lparr>s_root := Some (case iget 0 of
             Iget_New inode \<Rightarrow> inode\<lparr>i_mode := S_IFDIR OR 0x1FF, i_sfs_ops := True\<rparr>
           | Iget_Cached inode \<Rightarrow> inode)\<rparr>))"
      using True i r u
      by (cases "iget 0") (simp_all add: sfs_fill_super_def shut_browsing_def Let_def)
    show ?thesis
    proof (cases "iget 0 = Iget_Null \<or> \<not> mk")
      case bad: True
      then have "ret = - EACCES \<or> ret = - ENOMEM" "s_fs_info sb' = Dangling"
        using assms step by (auto simp: Let_def split: if_splits)
      then show ?thesis using that(3) [OF True _ bad] i r by simp
    next
      case good: False
      then show ?thesis
        using assms i r u that(4) [OF True _ _ _ _ _ u] unfolding step
        by (auto simp: Let_def)
    qed
  qed
qed

text \<open>Unmounting frees the flags and the structure once.\<close>

lemma kill_live:
  "s_fs_info sb = Obj info \<Longrightarrow> si_used info = Obj u \<Longrightarrow>
   sfs_kill_sb sb = Some (sb\<lparr>s_dev := si_dev info, s_fs_info := Dangling\<rparr>)"
  by (simp add: sfs_kill_sb_def shut_browsing_def)

lemma kill_null: "s_fs_info sb = Null \<Longrightarrow> sfs_kill_sb sb = Some sb"
  by (simp add: sfs_kill_sb_def)

lemma kill_dangling: "s_fs_info sb = Dangling \<Longrightarrow> sfs_kill_sb sb = None"
  by (simp add: sfs_kill_sb_def)

end
