(* ===== verification/Sfs_Calls.thy ===== *)
theory Sfs_Calls
  imports Sfs_Mount
begin

text \<open>
  Sequences of the VFS operations that change the file system: creating and unlinking files,
  mapping blocks and writing inodes back. Whatever the sequence, no operation leaves its data
  and the invariant of \<open>Sfs_Invariant\<close> holds in the end.
\<close>

datatype fs_call =
    FC_create "byte list" u16 u32 "vfs_inode option" \<comment> \<open>name, mode, time, what \<open>new_inode\<close> gives\<close>
  | FC_unlink "byte list" vfs_inode
  | FC_block int nat bool \<comment> \<open>inode number, block of the file, \<open>create\<close>\<close>
  | FC_write_inode vfs_inode

definition fs_call :: "'d bdev_ops \<Rightarrow> fs_call \<Rightarrow> 'd sfs_info \<Rightarrow> (int \<times> 'd sfs_info) option" where
  "fs_call ops c info =
     (case c of
        FC_create fn mode now ni \<Rightarrow>
          map_option (\<lambda>(r, info, _). (r, info)) (sfs_inode_create ops now ni info fn mode)
      | FC_unlink fn inode \<Rightarrow>
          map_option (\<lambda>(r, info, _). (r, info)) (sfs_inode_unlink ops info fn inode)
      | FC_block ino k create \<Rightarrow>
          map_option (\<lambda>(r, info, _). (r, info)) (sfs_get_block ops info ino k create)
      | FC_write_inode inode \<Rightarrow> sfs_write_inode ops info inode)"

fun fs_calls :: "'d bdev_ops \<Rightarrow> fs_call list \<Rightarrow> 'd sfs_info \<Rightarrow> (int list \<times> 'd sfs_info) option" where
  "fs_calls ops [] info = Some ([], info)"
| "fs_calls ops (c # cs) info = do {
     (r, info) \<leftarrow> fs_call ops c info;
     (rs, info) \<leftarrow> fs_calls ops cs info;
     Some (r # rs, info)
   }"

text \<open>Names are C strings, inode numbers those the operations handed out: 1 to \<open>entry_count\<close>.\<close>

definition ino_ok :: "sfs_super_block \<Rightarrow> int \<Rightarrow> bool" where
  "ino_ok sb ino \<longleftrightarrow> 1 \<le> ino \<and> nat ino \<le> unat (sb_entry_count sb)"

fun call_ok :: "sfs_super_block \<Rightarrow> fs_call \<Rightarrow> bool" where
  "call_ok sb (FC_create fn mode now ni) = (0 \<notin> set fn)"
| "call_ok sb (FC_unlink fn inode) = (0 \<notin> set fn)"
| "call_ok sb (FC_block ino k create) = ino_ok sb ino"
| "call_ok sb (FC_write_inode inode) = ino_ok sb (i_ino inode)"

section \<open>The super block never changes\<close>

lemma write_entry_sb: "write_entry ops info i fe = Some (r, info') \<Longrightarrow> si_sb info' = si_sb info"
  by (auto simp: write_entry_def write_to_real_sfs_def Let_def split: if_splits option.splits)

lemma set_used_sb: "set_used i v info = Some info' \<Longrightarrow> si_sb info' = si_sb info"
  by (auto simp: set_used_def split: ptr.splits if_splits)

lemma get_data_block_sb: "sfs_get_data_block info = Some (r, info') \<Longrightarrow> si_sb info' = si_sb info"
  by (auto simp: sfs_get_data_block_def spin_lock_def spin_unlock_def dest!: set_used_sb
      split: Option.bind_splits option.splits if_splits)

lemma put_data_block_sb: "sfs_put_data_block info b = Some info' \<Longrightarrow> si_sb info' = si_sb info"
  by (auto simp: sfs_put_data_block_def spin_lock_def spin_unlock_def dest!: set_used_sb
      split: Option.bind_splits if_splits)

lemma put_blocks_sb: "put_blocks info bs = Some info' \<Longrightarrow> si_sb info' = si_sb info"
  by (induction info bs rule: put_blocks.induct)
    (auto dest!: put_data_block_sb split: if_splits Option.bind_splits)

lemma drop_blocks_sb: "drop_blocks info bs is = Some (info', bs') \<Longrightarrow> si_sb info' = si_sb info"
  by (induction info bs "is" rule: drop_blocks.induct)
    (auto dest!: put_data_block_sb split: if_splits Option.bind_splits)

lemma sfs_create_sb: "sfs_create ops now info fn p fe = Some (r, info', fe') \<Longrightarrow> si_sb info' = si_sb info"
  by (auto simp: sfs_create_def Let_def dest!: write_entry_sb
      split: Option.bind_splits sum.splits if_splits)

lemma sfs_remove_sb: "sfs_remove ops info fn = Some (r, info') \<Longrightarrow> si_sb info' = si_sb info"
  by (auto simp: sfs_remove_def dest!: write_entry_sb put_blocks_sb
      split: Option.bind_splits if_splits)

lemma sfs_update_sb: "sfs_update ops info ino s t p = Some (r, info') \<Longrightarrow> si_sb info' = si_sb info"
  unfolding sfs_update_unfold
  by (auto simp: Let_def dest!: write_entry_sb drop_blocks_sb split: Option.bind_splits if_splits)

lemma get_block_sb: "sfs_get_block ops info ino k c = Some (r, info', m) \<Longrightarrow> si_sb info' = si_sb info"
  by (auto simp: sfs_get_block_def sfs_update_file_entry_def Let_def
      dest!: write_entry_sb get_data_block_sb split: Option.bind_splits if_splits)

lemma fs_call_sb: "fs_call ops c info = Some (r, info') \<Longrightarrow> si_sb info' = si_sb info"
  by (cases c)
    (auto simp: fs_call_def sfs_inode_create_def sfs_inode_unlink_def sfs_write_inode_def
      dest!: sfs_create_sb sfs_remove_sb sfs_update_sb get_block_sb
      split: Option.bind_splits option.splits if_splits)

section \<open>Every call is safe\<close>

lemma blocks_needed_small: "1 < unat bs \<Longrightarrow> blocks_needed bs sz < 2 ^ 31"
proof -
  assume b: "1 < unat bs"
  have "unat (sz + bs - 1) div unat bs \<le> unat (sz + bs - 1) div 2"
    using b by (intro div_le_mono2) simp_all
  also have "\<dots> < 2 ^ 31" using unat32_less [of "sz + bs - 1"] by simp
  finally show ?thesis by (simp add: blocks_needed_def unat_div_distrib)
qed

lemma ino_okE:
  assumes "ino_ok (si_sb info) ino"
  obtains i where "ino = int i + 1" "i < entry_cnt info"
  using assms by (intro that [of "nat (ino - 1)"]) (auto simp: ino_ok_def entry_cnt_def)

context buffer_cache
begin

lemma fs_call_inv:
  assumes inv: "fs_inv ops info" and bs: "1 < unat (sb_block_size (si_sb info))"
    and ok: "call_ok (si_sb info) c"
  shows "\<exists>r info'. fs_call ops c info = Some (r, info') \<and> fs_inv ops info'"
proof (cases c)
  case (FC_create fn mode now ni)
  then have fn: "0 \<notin> set fn" using ok by simp
  obtain r info1 fe where c1: "sfs_create ops now info fn (perms_of_mode mode) zero_fe = Some (r, info1, fe)"
    and i1: "fs_inv ops info1" using fs_inv_create [OF inv fn] by blast
  obtain r2 info2 where c2: "sfs_remove ops info1 fn = Some (r2, info2)" "fs_inv ops info2"
    using fs_inv_remove [OF i1 fn] by blast
  show ?thesis
    using FC_create c1 i1 c2 by (cases ni) (auto simp: fs_call_def sfs_inode_create_def)
next
  case (FC_unlink fn inode)
  then obtain r info1 where "sfs_remove ops info fn = Some (r, info1)" "fs_inv ops info1"
    using fs_inv_remove [OF inv, of fn] ok by auto
  then show ?thesis using FC_unlink by (auto simp: fs_call_def sfs_inode_unlink_def)
next
  case (FC_block ino k create)
  then obtain i where "ino = int i + 1" "i < entry_cnt info" using ok by (auto elim: ino_okE)
  then show ?thesis
    using fs_inv_get_block [OF inv, of i k create] FC_block by (auto simp: fs_call_def)
next
  case (FC_write_inode inode)
  then obtain i where "i_ino inode = int i + 1" "i < entry_cnt info" using ok by (auto elim: ino_okE)
  then have up: "\<exists>info'. sfs_update ops info (i_ino inode) sz ts perms = Some (0, info') \<and> fs_inv ops info'"
    for sz ts perms
    using fs_inv_update [OF inv _ _ blocks_needed_small [OF bs], of i sz ts perms] bs by force
  show ?thesis
  proof (cases "S_ISREG (i_mode inode)")
    case True
    then show ?thesis
      unfolding FC_write_inode fs_call_def sfs_write_inode_def
      using up by (simp only: fs_call.case not_True_eq_False if_False) blast
  next
    case False
    then show ?thesis using inv FC_write_inode by (simp add: fs_call_def sfs_write_inode_def)
  qed
qed

lemma fs_calls_inv:
  assumes "fs_inv ops info" "1 < unat (sb_block_size (si_sb info))"
    and "\<forall>c \<in> set cs. call_ok (si_sb info) c"
  shows "\<exists>rs info'. fs_calls ops cs info = Some (rs, info') \<and> length rs = length cs \<and>
    fs_inv ops info' \<and> si_sb info' = si_sb info"
  using assms
proof (induction cs arbitrary: info)
  case (Cons c cs)
  then obtain r info1 where c: "fs_call ops c info = Some (r, info1)" "fs_inv ops info1"
    using fs_call_inv by (metis list.set_intros(1))
  then have "si_sb info1 = si_sb info" using fs_call_sb by blast
  then show ?case using Cons c by fastforce
qed simp

end

end
