(* ===== verification/Sfs_Types.thy ===== *)
theory Sfs_Types
  imports Sfs_Calls
begin

text \<open>
  The types of the fields of an entry, which the C structure does not show: a name and an array of
  the right length, permissions of three bits, block numbers that are zero or of the data area, and
  a terminated name when the entry is in use. The operations keep them, so that every entry has an
  inode mode from which its permissions can be read back.
\<close>

definition typed_fe :: "nat \<Rightarrow> nat \<Rightarrow> sfs_file_entry \<Rightarrow> bool" where
  "typed_fe d p fe \<longleftrightarrow> wf_fe fe \<and> fe_perms fe < 8 \<and> (fe_live fe \<longrightarrow> fe_fname fe \<noteq> None) \<and>
     (\<forall>b \<in> set (fe_blocks fe). b = 0 \<or> d \<le> unat b \<and> unat b < p)"

definition typed_table :: "'d bdev_ops \<Rightarrow> 'd sfs_info \<Rightarrow> bool" where
  "typed_table ops info \<longleftrightarrow> (\<forall>fe \<in> set (table ops info). typed_fe (data_start info) (part_size info) fe)"

abbreviation perms_ok :: "sfs_file_entry list \<Rightarrow> bool" where
  "perms_ok t \<equiv> \<forall>fe \<in> set t. fe_perms fe < 8"

lemma perms_ok_update: "perms_ok t \<Longrightarrow> fe_perms fe < 8 \<Longrightarrow> perms_ok (t[i := fe])"
  by (auto dest: set_update_subset_insert [THEN subsetD])

lemma word_of_int_less_8: "0 \<le> p \<Longrightarrow> p \<le> 7 \<Longrightarrow> (word_of_int p :: u32) < 8"
  by (simp add: word_less_def uint_word_of_int)

lemma perms_new_fe: "fe_perms (new_fe fn now (perms_of_mode mode)) < 8"
  using perms_of_mode_range [of mode] by (simp add: new_fe_def word_of_int_less_8)

lemma perms_set_attrs:
  assumes "fe_perms fe < 8"
  shows "fe_perms (cut_blocks n (set_attrs sz ts (Some (perms_of_mode mode)) fe)) < 8"
  using perms_of_mode_range [of mode] by (simp add: cut_blocks_def set_attrs_def word_of_int_less_8)

text \<open>With the invariant only the permissions are left to keep.\<close>

lemma typed_perms:
  assumes "buffer_cache ops" "fs_inv ops info"
  shows "typed_table ops info \<longleftrightarrow> perms_ok (table ops info)"
proof -
  obtain u where ok: "table_ok ops info" and names: "names_ok (table ops info)"
    and blk: "blocks_ok (table ops info) u (data_start info) (part_size info)"
    using assms(2) by (auto simp: fs_inv_def)
  have "typed_fe (data_start info) (part_size info) fe \<longleftrightarrow> fe_perms fe < 8" if "fe \<in> set (table ops info)" for fe
  proof -
    obtain i where i: "i < entry_cnt info" "fe = table ops info ! i"
      using \<open>fe \<in> set (table ops info)\<close> by (auto simp: in_set_conv_nth)
    have "wf_fe fe" using buffer_cache.wf_entry [OF assms(1) ok i(1)] i by simp
    then show ?thesis
      using that names blocks_ok_range [OF blk, of i] i by (auto simp: typed_fe_def names_ok_def)
  qed
  then show ?thesis by (simp add: typed_table_def)
qed

context buffer_cache
begin

lemma remove_perms:
  assumes inv: "fs_inv ops info" and fn: "0 \<notin> set fn" and p: "perms_ok (table ops info)"
    and r: "sfs_remove ops info fn = Some (r, info')"
  shows "perms_ok (table ops info')"
proof -
  obtain u where ok: "table_ok ops info" "names_ok (table ops info)" and u: "used_ok info u"
    and blk: "blocks_ok (table ops info) u (data_start info) (part_size info)"
    using inv by (auto simp: fs_inv_def)
  show ?thesis
  proof (cases "find_file fn (table ops info)")
    case None
    then show ?thesis using sfs_remove_none [OF ok fn] p r by simp
  next
    case (Some i)
    then have "i < length (table ops info)" by (simp add: find_file_Some)
    then have rng: "unat b < length u" if "b \<in> set (fe_blocks (table ops info ! i))" "b \<noteq> 0" for b
      using blocks_ok_range [OF blk] u that by (auto simp: used_ok_def)
    obtain info2 where "sfs_remove ops info fn = Some (int i + 1, info2)"
      "table ops info2 = (table ops info)[i := zero_fe]"
      using sfs_remove_some [OF ok fn Some u rng] by metis
    then show ?thesis using r perms_ok_update [OF p, of zero_fe i] by (simp add: zero_fe_def)
  qed
qed

lemma create_perms:
  assumes inv: "fs_inv ops info" and fn: "0 \<notin> set fn" and p: "perms_ok (table ops info)"
    and r: "sfs_create ops now info fn (perms_of_mode mode) fe = Some (r, info', fe')"
  shows "perms_ok (table ops info')"
proof -
  have ok: "table_ok ops info" "names_ok (table ops info)" using inv by (auto simp: fs_inv_def)
  show ?thesis
  proof (cases "find_file fn (table ops info) = None \<and> find_slot (table ops info) \<noteq> None")
    case False
    then have "info' = info"
      using sfs_create_exists [OF ok fn, of now "perms_of_mode mode" fe]
        sfs_create_full [OF ok fn, of now "perms_of_mode mode" fe] r by auto
    then show ?thesis using p by simp
  next
    case True
    then obtain k where "find_file fn (table ops info) = None" "find_slot (table ops info) = Some k" by auto
    then obtain info2 where "sfs_create ops now info fn (perms_of_mode mode) fe =
        Some (int k + 1, info2, new_fe fn now (perms_of_mode mode))"
      "table ops info2 = (table ops info)[k := new_fe fn now (perms_of_mode mode)]"
      using sfs_create_new [OF ok fn, of k now "perms_of_mode mode" fe] by metis
    then show ?thesis using r perms_ok_update [OF p perms_new_fe] by simp
  qed
qed

lemma block_perms:
  assumes inv: "fs_inv ops info" and i: "i < entry_cnt info" and p: "perms_ok (table ops info)"
    and r: "sfs_get_block ops info (int i + 1) k create = Some (r, info', m)"
  shows "perms_ok (table ops info')"
proof -
  let ?fe = "table ops info ! i"
  obtain u where ok: "table_ok ops info" and u: "used_ok info u" using inv by (auto simp: fs_inv_def)
  have "\<exists>bs. table ops info' = table ops info \<or> table ops info' = (table ops info)[i := ?fe\<lparr>fe_blocks := bs\<rparr>]"
  proof (cases "k < 9 \<and> fe_blocks ?fe ! k = 0 \<and> create")
    case False
    then show ?thesis
      using r get_block_far [of k] get_block_hit [OF ok i, of k] get_block_hole [OF ok i, of k]
      by (cases "k < 9"; cases "fe_blocks ?fe ! k = 0") auto
  next
    case True
    then have k: "k < 9" "fe_blocks ?fe ! k = 0" by auto
    show ?thesis
    proof (cases "find (\<lambda>b. u ! b = 0) [data_start info..<part_size info]")
      case None
      then show ?thesis using get_block_full [OF ok i k(1) u k(2)] r True by auto
    next
      case (Some b)
      show ?thesis by (rule get_block_alloc [OF ok i k(1) u k(2) Some]) (use r True in auto)
    qed
  qed
  moreover have "fe_perms ?fe < 8" using p i nth_mem [of i "table ops info"] by simp
  then have "perms_ok ((table ops info)[i := ?fe\<lparr>fe_blocks := bs\<rparr>])" for bs
    by (intro perms_ok_update [OF p]) simp
  ultimately show ?thesis using p by metis
qed

lemma write_inode_perms:
  assumes inv: "fs_inv ops info" and i: "i_ino inode = int i + 1" "i < entry_cnt info"
    and bs: "1 < unat (sb_block_size (si_sb info))" and p: "perms_ok (table ops info)"
    and r: "sfs_write_inode ops info inode = Some (r, info')"
  shows "perms_ok (table ops info')"
proof (cases "S_ISREG (i_mode inode)")
  case False
  then show ?thesis using r p by (simp add: sfs_write_inode_def)
next
  case True
  let ?fe = "table ops info ! i"
  obtain u where ok: "table_ok ops info" and u: "used_ok info u"
    and blk: "blocks_ok (table ops info) u (data_start info) (part_size info)"
    using inv by (auto simp: fs_inv_def)
  have rng: "unat b < length u" if "b \<in> set (fe_blocks ?fe)" "b \<noteq> 0" for b
    using blocks_ok_range [OF blk, of i] u i that by (auto simp: used_ok_def)
  have bs0: "sb_block_size (si_sb info) \<noteq> 0" using bs by auto
  obtain sz ts where up: "sfs_update ops info (int i + 1) (Some sz) (Some ts)
      (Some (perms_of_mode (i_mode inode))) = Some (r, info')"
    using r True i(1) by (simp add: sfs_write_inode_def)
  obtain n where "table ops info' =
      (table ops info)[i := cut_blocks n (set_attrs (Some sz) (Some ts) (Some (perms_of_mode (i_mode inode))) ?fe)]"
    by (rule sfs_update_eq [OF ok i(2) u rng bs0 blocks_needed_small [OF bs],
          of "Some sz" "Some ts" "Some (perms_of_mode (i_mode inode))"]) (use up in auto)
  moreover have "fe_perms ?fe < 8" using p i nth_mem [of i "table ops info"] by simp
  ultimately show ?thesis using perms_ok_update [OF p perms_set_attrs] by simp
qed

lemma fs_call_perms:
  assumes inv: "fs_inv ops info" and bs: "1 < unat (sb_block_size (si_sb info))"
    and ok: "call_ok (si_sb info) c" and p: "perms_ok (table ops info)"
    and r: "fs_call ops c info = Some (r, info')"
  shows "perms_ok (table ops info')"
proof (cases c)
  case (FC_create fn mode now ni)
  then have fn: "0 \<notin> set fn" using ok by simp
  obtain r1 info1 fe where c1: "sfs_create ops now info fn (perms_of_mode mode) zero_fe = Some (r1, info1, fe)"
    and i1: "fs_inv ops info1" using fs_inv_create [OF inv fn] by blast
  note p1 = create_perms [OF inv fn p c1]
  obtain r2 info2 where c2: "sfs_remove ops info1 fn = Some (r2, info2)"
    using fs_inv_remove [OF i1 fn] by blast
  have "info' = info1 \<or> info' = info2"
    using r FC_create c1 c2 by (cases ni) (auto simp: fs_call_def sfs_inode_create_def split: if_splits)
  then show ?thesis using p1 remove_perms [OF i1 fn p1 c2] by auto
next
  case (FC_unlink fn inode)
  then have fn: "0 \<notin> set fn" using ok by simp
  obtain r1 where "sfs_remove ops info fn = Some (r1, info')"
    using r FC_unlink by (auto simp: fs_call_def sfs_inode_unlink_def split: Option.bind_splits if_splits)
  then show ?thesis by (rule remove_perms [OF inv fn p])
next
  case (FC_block ino k create)
  then obtain i where i: "ino = int i + 1" "i < entry_cnt info" using ok by (auto elim: ino_okE)
  then obtain m where "sfs_get_block ops info (int i + 1) k create = Some (r, info', m)"
    using r FC_block by (auto simp: fs_call_def)
  then show ?thesis by (rule block_perms [OF inv i(2) p])
next
  case (FC_write_inode inode)
  then obtain i where i: "i_ino inode = int i + 1" "i < entry_cnt info" using ok by (auto elim: ino_okE)
  show ?thesis by (rule write_inode_perms [OF inv i bs p]) (use r FC_write_inode in \<open>simp add: fs_call_def\<close>)
qed

lemma fs_calls_typed:
  assumes "fs_inv ops info" "1 < unat (sb_block_size (si_sb info))"
    and "\<forall>c \<in> set cs. call_ok (si_sb info) c" "typed_table ops info"
  shows "\<exists>rs info'. fs_calls ops cs info = Some (rs, info') \<and> typed_table ops info'"
  using assms
proof (induction cs arbitrary: info)
  case (Cons c cs)
  obtain r info1 where c: "fs_call ops c info = Some (r, info1)" "fs_inv ops info1"
    using fs_call_inv Cons.prems by (metis list.set_intros(1))
  have "perms_ok (table ops info)"
    using Cons.prems typed_perms [OF buffer_cache_axioms Cons.prems(1)] by blast
  then have "perms_ok (table ops info1)"
    using fs_call_perms [OF Cons.prems(1,2) _ _ c(1)] Cons.prems(3) by simp
  then have "typed_table ops info1" using typed_perms [OF buffer_cache_axioms c(2)] by blast
  moreover have "si_sb info1 = si_sb info" using fs_call_sb c(1) by blast
  ultimately show ?case using Cons.IH [OF c(2)] Cons.prems c(1) by fastforce
qed simp

end

text \<open>What the type of the permissions is for: the mode of an inode gives them back.\<close>

lemma typed_modes:
  assumes "typed_table ops info" "fe \<in> set (table ops info)"
  shows "S_ISREG (mode_of_perms (fe_perms fe)) \<and> perms_of_mode (mode_of_perms (fe_perms fe)) = uint (fe_perms fe)"
  using assms perms_mode_perms [of "fe_perms fe"] by (auto simp: typed_table_def typed_fe_def)

end
