(* ===== verification/Sfs_Concurrent.thy ===== *)
theory Sfs_Concurrent
  imports Sfs_Used
begin

text \<open>
  Allocation and freeing of data blocks by several threads at once: each access of
  \<open>sfs_get_data_block\<close> and \<open>sfs_put_data_block\<close> to the lock and to \<open>used_blocks\<close> is a step of
  its own, and the steps of the threads interleave in any order. The spin lock is what keeps
  two threads from taking the same block.
\<close>

text \<open>Where a thread is: outside, waiting for the lock, or inside with the lock held.\<close>

datatype pc =
    Idle
  | Get_Lock \<comment> \<open>before \<open>spin_lock\<close> in \<open>sfs_get_data_block\<close>\<close>
  | Scan nat \<comment> \<open>about to test \<open>used_blocks[i]\<close>\<close>
  | Take nat \<comment> \<open>flag tested clear, about to set it\<close>
  | Got nat \<comment> \<open>flag set, about to unlock and return it\<close>
  | No_Space \<comment> \<open>about to unlock and return \<open>-1\<close>\<close>
  | Put_Lock nat \<comment> \<open>before \<open>spin_lock\<close> in \<open>sfs_put_data_block\<close>\<close>
  | Clear nat \<comment> \<open>about to clear the flag\<close>
  | Put_Done \<comment> \<open>flag cleared, about to unlock\<close>

fun inside :: "pc \<Rightarrow> bool" where
  "inside (Scan i) = True"
| "inside (Take i) = True"
| "inside (Got i) = True"
| "inside No_Space = True"
| "inside (Clear i) = True"
| "inside Put_Done = True"
| "inside p = False"

text \<open>\<open>c_own\<close>: the blocks returned to a thread and not given back by it.\<close>

record alloc =
  c_used :: "byte list"
  c_lock :: "nat option"
  c_pc :: "nat \<Rightarrow> pc"
  c_own :: "nat \<Rightarrow> nat set"

definition goto :: "nat \<Rightarrow> pc \<Rightarrow> alloc \<Rightarrow> alloc" where
  "goto t p s = s\<lparr>c_pc := (c_pc s)(t := p)\<rparr>"

text \<open>\<open>lo\<close> and \<open>hi\<close> are \<open>data_block_start\<close> and \<open>partition_size\<close>.\<close>

inductive alloc_step :: "nat \<Rightarrow> nat \<Rightarrow> alloc \<Rightarrow> alloc \<Rightarrow> bool" for lo hi where
  call_get: "c_pc s t = Idle \<Longrightarrow> alloc_step lo hi s (goto t Get_Lock s)"
| get_lock: "c_pc s t = Get_Lock \<Longrightarrow> c_lock s = None \<Longrightarrow>
    alloc_step lo hi s (goto t (Scan lo) (s\<lparr>c_lock := Some t\<rparr>))"
| scan_used: "c_pc s t = Scan i \<Longrightarrow> i < hi \<Longrightarrow> c_used s ! i \<noteq> 0 \<Longrightarrow>
    alloc_step lo hi s (goto t (Scan (Suc i)) s)"
| scan_free: "c_pc s t = Scan i \<Longrightarrow> i < hi \<Longrightarrow> c_used s ! i = 0 \<Longrightarrow>
    alloc_step lo hi s (goto t (Take i) s)"
| scan_end: "c_pc s t = Scan i \<Longrightarrow> \<not> i < hi \<Longrightarrow> alloc_step lo hi s (goto t No_Space s)"
| take: "c_pc s t = Take i \<Longrightarrow>
    alloc_step lo hi s (goto t (Got i) (s\<lparr>c_used := (c_used s)[i := 1]\<rparr>))"
| ret_block: "c_pc s t = Got i \<Longrightarrow>
    alloc_step lo hi s
      (goto t Idle (s\<lparr>c_lock := None, c_own := (c_own s)(t := insert i (c_own s t))\<rparr>))"
| ret_none: "c_pc s t = No_Space \<Longrightarrow> alloc_step lo hi s (goto t Idle (s\<lparr>c_lock := None\<rparr>))"
| call_put: "c_pc s t = Idle \<Longrightarrow>
    alloc_step lo hi s (goto t (Put_Lock i) (s\<lparr>c_own := (c_own s)(t := c_own s t - {i})\<rparr>))"
| put_lock: "c_pc s t = Put_Lock i \<Longrightarrow> c_lock s = None \<Longrightarrow>
    alloc_step lo hi s (goto t (Clear i) (s\<lparr>c_lock := Some t\<rparr>))"
| clear: "c_pc s t = Clear i \<Longrightarrow>
    alloc_step lo hi s (goto t Put_Done (s\<lparr>c_used := (c_used s)[i := 0]\<rparr>))"
| ret_put: "c_pc s t = Put_Done \<Longrightarrow> alloc_step lo hi s (goto t Idle (s\<lparr>c_lock := None\<rparr>))"

text \<open>
  \<open>sfs_put_data_block\<close> clears whatever flag it is asked to. That a thread gives back only blocks it
  holds is up to its callers (\<open>sfs_remove\<close>, \<open>sfs_update\<close>: the blocks of the file's entry), and a
  condition on runs.
\<close>

definition frees_own :: "alloc \<Rightarrow> alloc \<Rightarrow> bool" where
  "frees_own s s' \<longleftrightarrow> (\<forall>t i. c_pc s t = Idle \<and> c_pc s' t = Put_Lock i \<longrightarrow> i \<in> c_own s t)"

inductive alloc_reach :: "nat \<Rightarrow> nat \<Rightarrow> alloc \<Rightarrow> alloc \<Rightarrow> bool" for lo hi s0 where
  start: "alloc_reach lo hi s0 s0"
| step: "alloc_reach lo hi s0 s \<Longrightarrow> alloc_step lo hi s s' \<Longrightarrow> frees_own s s' \<Longrightarrow> alloc_reach lo hi s0 s'"

text \<open>Every thread idle, nothing owned, the lock free.\<close>

definition alloc_init :: "byte list \<Rightarrow> alloc" where
  "alloc_init u = \<lparr>c_used = u, c_lock = None, c_pc = (\<lambda>_. Idle), c_own = (\<lambda>_. {})\<rparr>"

section \<open>The invariant\<close>

text \<open>A block a thread answers for although it is not, or no longer, returned to it.\<close>

fun pending :: "pc \<Rightarrow> nat set" where
  "pending (Got i) = {i}"
| "pending (Put_Lock i) = {i}"
| "pending (Clear i) = {i}"
| "pending p = {}"

definition holds :: "alloc \<Rightarrow> nat \<Rightarrow> nat set" where
  "holds s t = c_own s t \<union> pending (c_pc s t)"

definition lock_inv :: "alloc \<Rightarrow> bool" where
  "lock_inv s \<longleftrightarrow> (\<forall>t. inside (c_pc s t) \<longleftrightarrow> c_lock s = Some t)"

definition block_inv :: "nat \<Rightarrow> nat \<Rightarrow> alloc \<Rightarrow> bool" where
  "block_inv lo hi s \<longleftrightarrow>
     (\<forall>t t'. t \<noteq> t' \<longrightarrow> holds s t \<inter> holds s t' = {}) \<and>
     (\<forall>t. c_own s t \<inter> pending (c_pc s t) = {}) \<and>
     (\<forall>t. \<forall>i \<in> holds s t. lo \<le> i \<and> i < hi \<and> c_used s ! i \<noteq> 0) \<and>
     (\<forall>t i. c_pc s t = Take i \<longrightarrow> lo \<le> i \<and> i < hi \<and> c_used s ! i = 0) \<and>
     (\<forall>t i. c_pc s t = Scan i \<longrightarrow> lo \<le> i) \<and> hi \<le> length (c_used s)"

definition alloc_inv :: "nat \<Rightarrow> nat \<Rightarrow> alloc \<Rightarrow> bool" where
  "alloc_inv lo hi s \<longleftrightarrow> lock_inv s \<and> block_inv lo hi s"

lemma goto_simps [simp]:
  "c_pc (goto t p s) = (c_pc s)(t := p)" "c_used (goto t p s) = c_used s"
  "c_lock (goto t p s) = c_lock s" "c_own (goto t p s) = c_own s"
  by (simp_all add: goto_def)

lemma lock_inv_stay:
  "lock_inv s \<Longrightarrow> inside (c_pc s t) = inside q \<Longrightarrow> lock_inv (goto t q s)"
  by (auto simp: lock_inv_def)

lemma lock_inv_enter:
  "lock_inv s \<Longrightarrow> c_lock s = None \<Longrightarrow> inside q \<Longrightarrow> lock_inv (goto t q (s\<lparr>c_lock := Some t\<rparr>))"
  by (auto simp: lock_inv_def)

lemma lock_inv_leave:
  "lock_inv s \<Longrightarrow> inside (c_pc s t) \<Longrightarrow> \<not> inside q \<Longrightarrow> lock_inv (goto t q (s\<lparr>c_lock := None\<rparr>))"
  by (auto simp: lock_inv_def)

lemma lock_inv_data [simp]:
  "lock_inv (s\<lparr>c_used := u\<rparr>) = lock_inv s" "lock_inv (s\<lparr>c_own := w\<rparr>) = lock_inv s"
  by (simp_all add: lock_inv_def)

lemma goto_own: "goto t q (s\<lparr>c_lock := l, c_own := w\<rparr>) = (goto t q (s\<lparr>c_lock := l\<rparr>))\<lparr>c_own := w\<rparr>"
  by (simp add: goto_def)

lemma lock_inv_step: "alloc_step lo hi s s' \<Longrightarrow> lock_inv s \<Longrightarrow> lock_inv s'"
  by (erule alloc_step.cases)
    (simp_all add: lock_inv_stay lock_inv_enter lock_inv_leave goto_own)

text \<open>Only the thread inside changes flags, and only of a block no other thread holds.\<close>

lemma inside_unique: "lock_inv s \<Longrightarrow> inside (c_pc s t) \<Longrightarrow> inside (c_pc s t') \<Longrightarrow> t = t'"
  by (auto simp: lock_inv_def)

lemma block_invD:
  assumes "block_inv lo hi s"
  shows "t \<noteq> t' \<Longrightarrow> holds s t \<inter> holds s t' = {}"
    and "c_own s t \<inter> pending (c_pc s t) = {}"
    and "i \<in> holds s t \<Longrightarrow> lo \<le> i \<and> i < hi \<and> c_used s ! i \<noteq> 0"
    and "c_pc s t = Take i \<Longrightarrow> lo \<le> i \<and> i < hi \<and> c_used s ! i = 0"
    and "c_pc s t = Scan i \<Longrightarrow> lo \<le> i"
    and "hi \<le> length (c_used s)"
  using assms by (simp_all add: block_inv_def)

lemma block_inv_lock [simp]: "block_inv lo hi (s\<lparr>c_lock := l\<rparr>) = block_inv lo hi s"
  by (simp add: block_inv_def holds_def)

lemma goto_lock: "goto t q (s\<lparr>c_lock := l\<rparr>) = (goto t q s)\<lparr>c_lock := l\<rparr>"
  by (simp add: goto_def)

lemma goto_lock_own: "goto t q (s\<lparr>c_lock := l, c_own := w\<rparr>) = (goto t q (s\<lparr>c_own := w\<rparr>))\<lparr>c_lock := l\<rparr>"
  by (simp add: goto_def)

text \<open>Moves that change neither flags nor ownership.\<close>

lemma block_inv_move:
  assumes "block_inv lo hi s" "pending q = pending (c_pc s t)"
    and "\<And>i. q = Take i \<Longrightarrow> lo \<le> i \<and> i < hi \<and> c_used s ! i = 0"
    and "\<And>i. q = Scan i \<Longrightarrow> lo \<le> i"
  shows "block_inv lo hi (goto t q s)"
proof -
  have "holds (goto t q s) = holds s"
    using assms(2) by (auto simp: holds_def fun_eq_iff)
  then show ?thesis using assms by (auto simp: block_inv_def)
qed

text \<open>The owner's view of a block changes between \<open>c_own\<close> and \<open>pending\<close>.\<close>

lemma block_inv_own:
  assumes "block_inv lo hi s" "w \<union> pending q = holds s t" "w \<inter> pending q = {}"
    and "\<And>i. q \<noteq> Take i" "\<And>i. q \<noteq> Scan i"
  shows "block_inv lo hi (goto t q (s\<lparr>c_own := (c_own s)(t := w)\<rparr>))"
proof -
  have "holds (goto t q (s\<lparr>c_own := (c_own s)(t := w)\<rparr>)) = holds s"
    using assms(2) by (auto simp: holds_def fun_eq_iff)
  then show ?thesis using assms by (auto simp: block_inv_def)
qed

lemma block_inv_take:
  assumes inv: "block_inv lo hi s" "lock_inv s" and t: "c_pc s t = Take i"
  shows "block_inv lo hi (goto t (Got i) (s\<lparr>c_used := (c_used s)[i := 1]\<rparr>))" (is "block_inv lo hi ?s")
proof -
  have i: "lo \<le> i" "i < hi" "c_used s ! i = 0" "i < length (c_used s)"
    using block_invD(4,6) [OF inv(1)] t by fastforce+
  have free: "i \<notin> holds s t'" for t' using block_invD(3) [OF inv(1)] i by blast
  have h: "holds ?s t' = (if t' = t then insert i (c_own s t) else holds s t')" for t'
    by (auto simp: holds_def)
  have own: "holds s t = c_own s t" using t by (simp add: holds_def)
  have other: "c_pc s t' \<noteq> Take k" "c_pc s t' \<noteq> Scan k" if "t' \<noteq> t" for t' k
    using that inside_unique [OF inv(2), of t t'] t by auto
  have flag: "c_used ?s ! k \<noteq> 0" if "k = i \<or> c_used s ! k \<noteq> 0" for k
    using that i by (auto simp: nth_list_update)
  show ?thesis
    unfolding block_inv_def
  proof (intro conjI allI impI ballI)
    show "holds ?s a \<inter> holds ?s b = {}" if "a \<noteq> b" for a b
      using block_invD(1) [OF inv(1) that] free own that unfolding h by auto
    show "c_own ?s a \<inter> pending (c_pc ?s a) = {}" for a
      using inv(1) free [of t] own by (auto simp: block_inv_def)
    show "lo \<le> k" "k < hi" "c_used ?s ! k \<noteq> 0" if "k \<in> holds ?s a" for a k
    proof -
      have "k = i \<or> k \<in> holds s a" using that own unfolding h by (auto split: if_splits)
      then show "lo \<le> k" "k < hi" "c_used ?s ! k \<noteq> 0"
        using inv(1) i flag [of k] by (auto simp: block_inv_def)
    qed
  qed (use inv(1) other in \<open>auto simp: block_inv_def split: if_splits\<close>)
qed

lemma block_inv_clear:
  assumes inv: "block_inv lo hi s" "lock_inv s" and t: "c_pc s t = Clear i"
  shows "block_inv lo hi (goto t Put_Done (s\<lparr>c_used := (c_used s)[i := 0]\<rparr>))" (is "block_inv lo hi ?s")
proof -
  have it: "i \<in> holds s t" using t by (simp add: holds_def)
  have h: "holds ?s t' = (if t' = t then c_own s t else holds s t')" for t'
    by (auto simp: holds_def)
  have sub: "holds ?s a \<subseteq> holds s a" for a using t by (auto simp: h holds_def)
  have free: "i \<notin> holds ?s a" for a
    using block_invD(1) [OF inv(1), of a t] block_invD(2) [OF inv(1), of t] it t
    by (auto simp: h)
  have other: "c_pc s t' \<noteq> Take k" "c_pc s t' \<noteq> Scan k" if "t' \<noteq> t" for t' k
    using that inside_unique [OF inv(2), of t t'] t by auto
  show ?thesis
    unfolding block_inv_def
  proof (intro conjI allI impI ballI)
    show "holds ?s a \<inter> holds ?s b = {}" if "a \<noteq> b" for a b
      using block_invD(1) [OF inv(1) that] sub [of a] sub [of b] by blast
    show "c_own ?s a \<inter> pending (c_pc ?s a) = {}" for a
      using inv(1) by (auto simp: block_inv_def)
    show "lo \<le> k" "k < hi" "c_used ?s ! k \<noteq> 0" if "k \<in> holds ?s a" for a k
    proof -
      have "k \<noteq> i" "k \<in> holds s a" using that free [of a] sub [of a] by auto
      then show "lo \<le> k" "k < hi" "c_used ?s ! k \<noteq> 0"
        using inv(1) by (auto simp: block_inv_def)
    qed
  qed (use inv(1) other in \<open>auto simp: block_inv_def split: if_splits\<close>)
qed

lemma block_inv_step:
  assumes "alloc_step lo hi s s'" "frees_own s s'" "lock_inv s" "block_inv lo hi s"
  shows "block_inv lo hi s'"
  using assms(1)
proof (cases rule: alloc_step.cases)
  case (scan_used t i)
  then show ?thesis
    using assms(4) block_invD(5) [OF assms(4), of t i] by (auto intro!: block_inv_move)
next
  case (scan_free t i)
  then show ?thesis
    using assms(4) block_invD(5) [OF assms(4), of t i] by (auto intro!: block_inv_move)
next
  case (take t i)
  then show ?thesis using block_inv_take assms by simp
next
  case (clear t i)
  then show ?thesis using block_inv_clear assms by simp
next
  case (ret_block t i)
  then have "insert i (c_own s t) \<union> pending Idle = holds s t" by (auto simp: holds_def)
  then show ?thesis using assms(4) ret_block by (simp add: goto_lock_own block_inv_own)
next
  case (call_put t i)
  then have "i \<in> c_own s t" using assms(2) by (auto simp: frees_own_def)
  then have "(c_own s t - {i}) \<union> pending (Put_Lock i) = holds s t"
    using call_put by (auto simp: holds_def)
  then show ?thesis using assms(4) call_put by (simp add: block_inv_own)
qed (use assms(4) in \<open>auto intro!: block_inv_move simp: goto_lock\<close>)

lemma alloc_reach_inv:
  "alloc_reach lo hi s0 s \<Longrightarrow> alloc_inv lo hi s0 \<Longrightarrow> alloc_inv lo hi s"
  by (induction rule: alloc_reach.induct) (auto simp: alloc_inv_def dest: lock_inv_step block_inv_step)

lemma alloc_init_inv: "hi \<le> length u \<Longrightarrow> alloc_inv lo hi (alloc_init u)"
  by (simp add: alloc_inv_def lock_inv_def block_inv_def alloc_init_def holds_def)

section \<open>One thread alone\<close>

text \<open>The states of a call of \<open>sfs_get_data_block\<close> that no other thread interrupts.\<close>

definition run_get :: "nat \<Rightarrow> nat \<Rightarrow> nat \<Rightarrow> alloc \<Rightarrow> alloc" where
  "run_get lo hi t s =
     (case find (\<lambda>i. c_used s ! i = 0) [lo..<hi] of
        Some i \<Rightarrow> s\<lparr>c_used := (c_used s)[i := 1], c_own := (c_own s)(t := insert i (c_own s t))\<rparr>
      | None \<Rightarrow> s)"

lemma run_get_pc [simp]: "c_pc (run_get lo hi t s) = c_pc s"
  by (simp add: run_get_def split: option.split)

lemma alloc_reach_trans:
  "alloc_reach lo hi b c \<Longrightarrow> alloc_reach lo hi a b \<Longrightarrow> alloc_reach lo hi a c"
  by (induction rule: alloc_reach.induct) (auto intro: alloc_reach.step)

lemma alloc_reach_step: "alloc_step lo hi s s' \<Longrightarrow> frees_own s s' \<Longrightarrow> alloc_reach lo hi s s'"
  by (blast intro: alloc_reach.intros)

lemma goto_goto [simp]: "goto t q (goto t p s) = goto t q s"
  by (simp add: goto_def)

lemma scan_reach:
  assumes "lo' \<le> hi"
  shows "alloc_reach lo hi (goto t (Scan lo') s)
    (goto t (case find (\<lambda>i. c_used s ! i = 0) [lo'..<hi] of Some i \<Rightarrow> Take i | None \<Rightarrow> No_Space) s)"
  using assms
proof (induction "hi - lo'" arbitrary: lo')
  case 0
  then show ?case
    using alloc_step.scan_end [of "goto t (Scan lo') s" t lo' hi lo]
    by (auto simp: frees_own_def intro!: alloc_reach_step)
next
  case (Suc k)
  then have lt: "lo' < hi" by simp
  show ?case
  proof (cases "c_used s ! lo' = 0")
    case True
    then show ?thesis
      using alloc_step.scan_free [of "goto t (Scan lo') s" t lo' hi lo] lt
      by (auto simp: upt_conv_Cons frees_own_def intro!: alloc_reach_step)
  next
    case False
    have "alloc_reach lo hi (goto t (Scan lo') s) (goto t (Scan (Suc lo')) s)"
      using alloc_step.scan_used [of "goto t (Scan lo') s" t lo' hi lo] lt False
      by (auto simp: frees_own_def intro!: alloc_reach_step)
    moreover have "find (\<lambda>i. c_used s ! i = 0) [lo'..<hi] = find (\<lambda>i. c_used s ! i = 0) [Suc lo'..<hi]"
      using lt False by (simp add: upt_conv_Cons)
    moreover have "k = hi - Suc lo'" "Suc lo' \<le> hi" using Suc.hyps(2) lt by simp_all
    note Suc.hyps(1) [OF this]
    ultimately show ?thesis using alloc_reach_trans by simp
  qed
qed

lemma run_get_reach:
  assumes "c_pc s t = Idle" "c_lock s = None" "lo \<le> hi"
  shows "alloc_reach lo hi s (run_get lo hi t s)"
proof -
  let ?s1 = "goto t Get_Lock s" and ?l = "s\<lparr>c_lock := Some t\<rparr>"
  let ?f = "find (\<lambda>i. c_used s ! i = 0) [lo..<hi]"
  have idle: "goto t Idle s = s" using assms(1) by (cases s) (auto simp: goto_def)
  have "alloc_reach lo hi s ?s1" using alloc_step.call_get [OF assms(1)] by (rule alloc_reach_step) (auto simp: frees_own_def)
  moreover have "alloc_reach lo hi ?s1 (goto t (Scan lo) ?l)"
    using alloc_step.get_lock [of ?s1 t lo hi] assms(2) by (auto simp: goto_def frees_own_def intro!: alloc_reach_step)
  moreover have "alloc_reach lo hi (goto t (Scan lo) ?l)
      (goto t (case ?f of Some i \<Rightarrow> Take i | None \<Rightarrow> No_Space) ?l)"
    using scan_reach [OF assms(3), of lo t ?l] by simp
  moreover have "alloc_reach lo hi (goto t (case ?f of Some i \<Rightarrow> Take i | None \<Rightarrow> No_Space) ?l)
      (run_get lo hi t s)"
  proof (cases ?f)
    case None
    have "goto t Idle (?l\<lparr>c_lock := None\<rparr>) = s" using idle assms(2) by (cases s) (auto simp: goto_def)
    then show ?thesis
      using None alloc_step.ret_none [of "goto t No_Space ?l" t lo hi]
      by (auto simp: run_get_def goto_def frees_own_def intro!: alloc_reach_step)
  next
    case (Some i)
    let ?u = "?l\<lparr>c_used := (c_used s)[i := 1]\<rparr>"
    have "alloc_reach lo hi (goto t (Take i) ?l) (goto t (Got i) ?u)"
      using alloc_step.take [of "goto t (Take i) ?l" t i lo hi]
      by (auto simp: goto_def frees_own_def intro!: alloc_reach_step)
    moreover have "alloc_reach lo hi (goto t (Got i) ?u) (run_get lo hi t s)"
    proof -
      have "goto t Idle (goto t (Got i) ?u\<lparr>c_lock := None,
          c_own := (c_own s)(t := insert i (c_own s t))\<rparr>) = run_get lo hi t s"
        using Some idle assms by (cases s) (auto simp: goto_def run_get_def)
      then show ?thesis
        using alloc_step.ret_block [of "goto t (Got i) ?u" t i lo hi]
        by (auto simp: frees_own_def intro!: alloc_reach_step)
    qed
    ultimately show ?thesis using Some by (auto intro: alloc_reach_trans)
  qed
  ultimately show ?thesis by (blast intro: alloc_reach_trans)
qed

text \<open>It leaves the flags that \<open>sfs_get_data_block\<close> leaves, and owns the block that returns.\<close>

lemma run_get_sequential:
  assumes "used_ok info u" "c_used s = u"
  shows "sfs_get_data_block info = Some (
    case find (\<lambda>i. u ! i = 0) [data_start info..<part_size info] of Some i \<Rightarrow> int i | None \<Rightarrow> -1,
    info\<lparr>si_used := Obj (c_used (run_get (data_start info) (part_size info) t s))\<rparr>)"
proof -
  have "info\<lparr>si_used := Obj u\<rparr> = info" using assms(1) by (cases info) (simp add: used_ok_def)
  then show ?thesis
    using assms(2) by (simp add: get_data_block_eq [OF assms(1)] run_get_def split: option.split)
qed

end
