(* ===== verification/File_Handle.thy ===== *)
theory File_Handle
  imports Prelude
begin

text \<open>
  An open file of the user-space programs: its bytes, the position, and whether its size is
  fixed (a block device). \<open>read\<close> and \<open>write\<close> return the number of bytes moved, which is less
  than asked for at the end of the file or of the device.
\<close>

record fhandle =
  fh_data :: "byte list"
  fh_pos :: nat
  fh_fixed :: bool

text \<open>
  \<open>lseek\<close> takes an \<open>off_t\<close>; the programs pass \<open>unsigned int\<close> values, which a 64-bit \<open>off_t\<close>
  (\<open>ob\<close>) keeps and a 32-bit one reads with sign. A position that is negative, or behind the end
  of a device, is refused and the old one stays; a regular file may be left behind its end.
\<close>

definition off_of :: "bool \<Rightarrow> u32 \<Rightarrow> int" where
  "off_of ob w = (if ob then uint w else sint w)"

definition lseek_set :: "int \<Rightarrow> fhandle \<Rightarrow> fhandle" where
  "lseek_set off h =
     (if off < 0 \<or> fh_fixed h \<and> int (length (fh_data h)) < off then h else h\<lparr>fh_pos := nat off\<rparr>)"

definition lseek_cur :: "int \<Rightarrow> fhandle \<Rightarrow> fhandle" where
  "lseek_cur off h =
     (let p = int (fh_pos h) + off
      in if p < 0 \<or> fh_fixed h \<and> int (length (fh_data h)) < p then h else h\<lparr>fh_pos := nat p\<rparr>)"

definition sys_read :: "nat \<Rightarrow> fhandle \<Rightarrow> byte list \<times> fhandle" where
  "sys_read n h =
     (let xs = get_bytes (fh_pos h) n (fh_data h) in (xs, h\<lparr>fh_pos := fh_pos h + length xs\<rparr>))"

text \<open>A regular file grows; a gap before the position is filled with zeros.\<close>

definition sys_write :: "byte list \<Rightarrow> fhandle \<Rightarrow> nat \<times> fhandle" where
  "sys_write xs h =
     (let d = fh_data h; p = fh_pos h in
      if fh_fixed h
      then let ys = take (length d - p) xs
           in (length ys, h\<lparr>fh_data := put_bytes p ys d, fh_pos := p + length ys\<rparr>)
      else (length xs, h\<lparr>fh_data := put_bytes p xs (d @ replicate (p + length xs - length d) 0),
                         fh_pos := p + length xs\<rparr>))"

lemma lseek_simps [simp]:
  "fh_data (lseek_set p h) = fh_data h" "fh_data (lseek_cur p h) = fh_data h"
  "fh_fixed (lseek_set p h) = fh_fixed h" "fh_fixed (lseek_cur p h) = fh_fixed h"
  "n \<le> length (fh_data h) \<Longrightarrow> lseek_set (int n) h = h\<lparr>fh_pos := n\<rparr>"
  by (simp_all add: lseek_set_def lseek_cur_def Let_def)

lemma off_of_small: "unat w < 2 ^ 31 \<Longrightarrow> off_of ob w = int (unat w)"
proof -
  assume "unat w < 2 ^ 31"
  then have "int (unat w) < int (2 ^ 31)" by (simp only: of_nat_less_iff)
  then have "uint w < 2 ^ 31" by simp
  moreover have "- (2 ^ 31) \<le> uint w" by (rule order_trans [OF _ uint_ge_0]) simp
  ultimately have "sint w = uint w"
    by (simp add: sint_uint signed_take_bit_int_eq_self)
  then show ?thesis by (simp add: off_of_def)
qed

text \<open>Inside the file nothing is short, and both kinds of file behave alike.\<close>

lemma sys_write_inside:
  "fh_pos h + length xs \<le> length (fh_data h) \<Longrightarrow>
   sys_write xs h = (length xs, h\<lparr>fh_data := put_bytes (fh_pos h) xs (fh_data h),
                                  fh_pos := fh_pos h + length xs\<rparr>)"
  by (simp add: sys_write_def Let_def)

lemma sys_read_inside:
  "fh_pos h + n \<le> length (fh_data h) \<Longrightarrow>
   sys_read n h = (get_bytes (fh_pos h) n (fh_data h), h\<lparr>fh_pos := fh_pos h + n\<rparr>)"
  by (simp add: sys_read_def Let_def)

end
