(* ===== verification/Disk_Partition.thy ===== *)
theory Disk_Partition
  imports Prelude
begin

unbundle bit_operations_syntax

text \<open>
  The partition tables of the RAM disk (\<open>15_diskonrom/partition.c\<close>): the master boot record and
  the chain of boot records of the logical partitions, written into the disk's memory. The size
  of \<open>unsigned long\<close> (4 or 8) is a parameter \<open>ls\<close>: the code stores disk fields in that type.
\<close>

section \<open>Partition entries\<close>

text \<open>\<open>start_sec\<close> and \<open>end_sec\<close> are bit fields of 6 bits, the high cylinder parts of 2.\<close>

record part_entry =
  boot_type :: byte
  start_head :: byte
  start_sec :: "6 word"
  start_cyl_hi :: "2 word"
  start_cyl :: byte
  part_type :: byte
  end_head :: byte
  end_sec :: "6 word"
  end_cyl_hi :: "2 word"
  end_cyl :: byte
  abs_start_sec :: nat
  sec_in_part :: nat

definition zero_part :: part_entry where
  "zero_part = \<lparr>boot_type = 0, start_head = 0, start_sec = 0, start_cyl_hi = 0, start_cyl = 0,
     part_type = 0, end_head = 0, end_sec = 0, end_cyl_hi = 0, end_cyl = 0, abs_start_sec = 0,
     sec_in_part = 0\<rparr>"

text \<open>An initialiser of the source: start sector and cylinder, type, end, and the two LBA fields.\<close>

definition part :: "6 word \<Rightarrow> byte \<Rightarrow> byte \<Rightarrow> 6 word \<Rightarrow> byte \<Rightarrow> nat \<Rightarrow> nat \<Rightarrow> part_entry" where
  "part ss sc ty es ec st n = zero_part\<lparr>start_sec := ss, start_cyl := sc, part_type := ty,
     end_sec := es, end_cyl := ec, abs_start_sec := st, sec_in_part := n\<rparr>"

definition sec_byte :: "6 word \<Rightarrow> 2 word \<Rightarrow> byte" where
  "sec_byte s c = of_nat (unat s + 64 * unat c)"

definition encode_part :: "nat \<Rightarrow> part_entry \<Rightarrow> byte list" where
  "encode_part ls p =
     [boot_type p, start_head p, sec_byte (start_sec p) (start_cyl_hi p), start_cyl p,
      part_type p, end_head p, sec_byte (end_sec p) (end_cyl_hi p), end_cyl p] @
     le_bytes ls (abs_start_sec p) @ le_bytes ls (sec_in_part p)"

definition encode_table :: "nat \<Rightarrow> part_entry list \<Rightarrow> byte list" where
  "encode_table ls t = concat (map (encode_part ls) t)"

section \<open>The tables of the source\<close>

definition def_part_table :: "part_entry list" where
  "def_part_table =
     [part 0x2 0x00 0x83 0x20 0x09 0x00000001 0x0000013F,
      part 0x1 0x0A 0x05 0x20 0x13 0x00000140 0x00000140,
      part 0x1 0x14 0x83 0x20 0x1F 0x00000280 0x00000180,
      zero_part]"

definition def_log_part_br_cyl :: "nat list" where
  "def_log_part_br_cyl = [0x0A, 0x0E, 0x12]"

definition def_log_part_table :: "part_entry list list" where
  "def_log_part_table =
     [[part 0x2 0x0A 0x83 0x20 0x0D 0x00000001 0x0000007F,
       part 0x1 0x0E 0x05 0x20 0x11 0x00000080 0x00000080, zero_part, zero_part],
      [part 0x2 0x0E 0x83 0x20 0x11 0x00000001 0x0000007F,
       part 0x1 0x12 0x05 0x20 0x13 0x00000100 0x00000040, zero_part, zero_part],
      [part 0x2 0x12 0x83 0x20 0x13 0x00000001 0x0000003F, zero_part, zero_part, zero_part]]"

section \<open>Writing them\<close>

text \<open>
  \<open>memset\<close>, the disk signature (an \<open>unsigned long\<close>), \<open>PARTITION_TABLE_SIZE\<close> bytes of the table,
  and the boot signature \<open>0xAA55\<close>.
\<close>

definition copy_mbr :: "nat \<Rightarrow> byte list \<Rightarrow> byte list option" where
  "copy_mbr ls disk = do {
     disk \<leftarrow> mem_put 0 (replicate 512 0) disk;
     disk \<leftarrow> mem_put 440 (le_bytes ls 0x36E5756D) disk;
     tab \<leftarrow> mem_get 0 64 (encode_table ls def_part_table);
     disk \<leftarrow> mem_put 446 tab disk;
     mem_put 510 [0x55, 0xAA] disk
   }"

definition copy_br :: "nat \<Rightarrow> byte list \<Rightarrow> nat \<Rightarrow> part_entry list \<Rightarrow> byte list option" where
  "copy_br ls disk start_cylinder part_table =
     (let base = start_cylinder * 32 * 512 in do {
        disk \<leftarrow> mem_put base (replicate 512 0) disk;
        tab \<leftarrow> mem_get 0 64 (encode_table ls part_table);
        disk \<leftarrow> mem_put (base + 446) tab disk;
        mem_put (base + 510) [0x55, 0xAA] disk
      })"

fun copy_brs :: "nat \<Rightarrow> byte list \<Rightarrow> (nat \<times> part_entry list) list \<Rightarrow> byte list option" where
  "copy_brs ls disk [] = Some disk"
| "copy_brs ls disk ((c, t) # r) = do { disk \<leftarrow> copy_br ls disk c t; copy_brs ls disk r }"

definition copy_mbr_n_br :: "nat \<Rightarrow> byte list \<Rightarrow> byte list option" where
  "copy_mbr_n_br ls disk = do {
     disk \<leftarrow> copy_mbr ls disk;
     copy_brs ls disk (zip def_log_part_br_cyl def_log_part_table)
   }"

section \<open>The sectors written\<close>

definition br_sector :: "byte list \<Rightarrow> byte list" where
  "br_sector tab = replicate 446 0 @ tab @ [0x55, 0xAA]"

definition mbr_sector :: "byte list \<Rightarrow> byte list" where
  "mbr_sector tab = replicate 440 0 @ le_bytes 4 0x36E5756D @ replicate 2 0 @ tab @ [0x55, 0xAA]"

lemma put_inside:
  "o1 \<le> o2 \<Longrightarrow> o2 + length ys \<le> o1 + length xs \<Longrightarrow> o1 + length xs \<le> length bs \<Longrightarrow>
   put_bytes o2 ys (put_bytes o1 xs bs) = put_bytes o1 (put_bytes (o2 - o1) ys xs) bs"
  by (intro nth_equalityI) (auto simp: nth_put_bytes)

lemma length_encode_part [simp]: "length (encode_part ls p) = 8 + 2 * ls"
  by (simp add: encode_part_def)

lemma length_encode_table [simp]: "length (encode_table ls t) = (8 + 2 * ls) * length t"
  by (induction t) (simp_all add: encode_table_def algebra_simps)

lemma copy_br_eq:
  assumes "c * 32 * 512 + 512 \<le> length disk" "length t = 4" "ls = 4 \<or> ls = 8"
  shows "copy_br ls disk c t =
    Some (put_bytes (c * 32 * 512) (br_sector (take 64 (encode_table ls t))) disk)"
proof -
  let ?tab = "take 64 (encode_table ls t)"
  have len: "length ?tab = 64" using assms(2,3) by auto
  have "put_bytes 510 [0x55, 0xAA] (put_bytes 446 ?tab (replicate 512 0)) = br_sector ?tab"
    using len by (simp add: put_bytes_def br_sector_def)
  then show ?thesis
    using assms len
    by (auto simp: copy_br_def Let_def mem_put_def mem_get_def get_bytes_def put_inside)
qed

lemma signature_bytes:
  "ls = 4 \<or> ls = 8 \<Longrightarrow> le_bytes ls 0x36E5756D = le_bytes 4 0x36E5756D @ replicate (ls - 4) 0"
  using le_bytes_add [of 4 4 "0x36E5756D"] by (auto simp del: le_bytes.simps)

lemma mbr_puts:
  assumes "length w = 4" "length tab = 64" "n \<le> 4" "length s = 2"
  shows "put_bytes 510 s (put_bytes 446 tab (put_bytes 440 (w @ replicate n 0) (replicate 512 0))) =
    replicate 440 0 @ w @ replicate 2 (0::byte) @ tab @ s"
proof -
  have "n \<in> {0, 1, 2, 3, 4}" using assms(3) by auto
  then show ?thesis using assms by (auto simp: put_bytes_def numeral_2_eq_2)
qed

lemma copy_mbr_eq:
  assumes "512 \<le> length disk" "ls = 4 \<or> ls = 8"
  shows "copy_mbr ls disk =
    Some (put_bytes 0 (mbr_sector (take 64 (encode_table ls def_part_table))) disk)"
proof -
  let ?tab = "take 64 (encode_table ls def_part_table)"
  have len: "length ?tab = 64" using assms(2) by (auto simp: def_part_table_def)
  have mbr: "put_bytes 510 [0x55, 0xAA] (put_bytes 446 ?tab
      (put_bytes 440 (le_bytes ls 0x36E5756D) (replicate 512 0))) = mbr_sector ?tab"
    unfolding signature_bytes [OF assms(2)] mbr_sector_def
    by (rule mbr_puts [OF _ len]) (use assms(2) in \<open>auto simp del: le_bytes.simps\<close>)
  show ?thesis
    using assms len mbr
    by (auto simp: copy_mbr_def mem_put_def mem_get_def get_bytes_def put_inside def_part_table_def)
qed

section \<open>Reading them back\<close>

text \<open>
  How a reader of the disk (a BIOS, the kernel's partition scan) takes a boot record: entries of
  16 bytes with 32-bit sector numbers at offset 446, the signature at 510, and in the boot record
  of a logical partition the entry itself and the link to the next boot record, both relative.
\<close>

definition decode_part :: "byte list \<Rightarrow> part_entry" where
  "decode_part bs =
     \<lparr>boot_type = bs ! 0, start_head = bs ! 1, start_sec = of_nat (unat (bs ! 2) mod 64),
      start_cyl_hi = of_nat (unat (bs ! 2) div 64), start_cyl = bs ! 3, part_type = bs ! 4,
      end_head = bs ! 5, end_sec = of_nat (unat (bs ! 6) mod 64),
      end_cyl_hi = of_nat (unat (bs ! 6) div 64), end_cyl = bs ! 7,
      abs_start_sec = le_nat (get_bytes 8 4 bs), sec_in_part = le_nat (get_bytes 12 4 bs)\<rparr>"

definition sector_part :: "byte list \<Rightarrow> nat \<Rightarrow> nat \<Rightarrow> part_entry" where
  "sector_part disk sec i = decode_part (get_bytes (sec * 512 + 446 + 16 * i) 16 disk)"

definition boot_sig :: "byte list \<Rightarrow> nat \<Rightarrow> bool" where
  "boot_sig disk sec \<longleftrightarrow> get_bytes (sec * 512 + 510) 2 disk = [0x55, 0xAA]"

definition primaries :: "byte list \<Rightarrow> (byte \<times> nat \<times> nat) list option" where
  "primaries disk =
     (if boot_sig disk 0
      then Some (map (\<lambda>p. (part_type p, abs_start_sec p, sec_in_part p))
             (filter (\<lambda>p. part_type p \<noteq> 0) (map (sector_part disk 0) [0, 1, 2, 3])))
      else None)"

text \<open>\<open>n\<close> bounds the length of the chain.\<close>

fun logicals :: "nat \<Rightarrow> byte list \<Rightarrow> nat \<Rightarrow> nat \<Rightarrow> (byte \<times> nat \<times> nat) list option" where
  "logicals 0 disk ext cur = None"
| "logicals (Suc n) disk ext cur =
     (if \<not> boot_sig disk cur then None
      else let p = sector_part disk cur 0; q = sector_part disk cur 1;
               here = (part_type p, cur + abs_start_sec p, sec_in_part p)
           in if part_type q = 5
              then map_option (Cons here) (logicals n disk ext (ext + abs_start_sec q))
              else Some [here])"

definition wf_part :: "part_entry \<Rightarrow> bool" where
  "wf_part p \<longleftrightarrow> abs_start_sec p < 2 ^ 32 \<and> sec_in_part p < 2 ^ 32"

lemma sec_byte_parts:
  "unat (sec_byte s c) mod 64 = unat s" "unat (sec_byte s c) div 64 = unat c"
proof -
  have "unat s < 64" "unat c < 4" using unsigned_less [of s] unsigned_less [of c] by simp_all
  moreover have "unat (sec_byte s c) = (unat s + 64 * unat c) mod 256"
    unfolding sec_byte_def unat_of_nat by simp
  ultimately have "unat (sec_byte s c) = unat s + 64 * unat c" "unat s < 64"
    by simp_all
  then show "unat (sec_byte s c) mod 64 = unat s" "unat (sec_byte s c) div 64 = unat c"
    by simp_all
qed

lemma decode_encode_part: "wf_part p \<Longrightarrow> decode_part (encode_part 4 p) = p"
  by (cases p)
    (simp add: decode_part_def encode_part_def wf_part_def sec_byte_parts get_bytes_def
      le_nat_le_bytes del: le_bytes.simps)

lemma get_encode_table:
  assumes "i < length t"
  shows "get_bytes ((8 + 2 * ls) * i) (8 + 2 * ls) (encode_table ls t) = encode_part ls (t ! i)"
  using assms
proof (induction t arbitrary: i)
  case (Cons p t)
  then show ?case
    by (cases i) (simp_all add: encode_table_def get_bytes_def)
qed simp

lemma br_sector_reads:
  assumes "length tab = 64"
  shows "i < 4 \<Longrightarrow> get_bytes (446 + 16 * i) 16 (br_sector tab) = get_bytes (16 * i) 16 tab"
    and "i < 4 \<Longrightarrow> get_bytes (446 + 16 * i) 16 (mbr_sector tab) = get_bytes (16 * i) 16 tab"
    and "get_bytes 510 2 (br_sector tab) = [0x55, 0xAA]"
    and "get_bytes 510 2 (mbr_sector tab) = [0x55, 0xAA]"
  using assms by (simp_all add: br_sector_def mbr_sector_def get_bytes_def del: le_bytes.simps)

lemma length_sectors [simp]:
  "length tab = 64 \<Longrightarrow> length (br_sector tab) = 512"
  "length tab = 64 \<Longrightarrow> length (mbr_sector tab) = 512"
  by (simp_all add: br_sector_def mbr_sector_def del: le_bytes.simps)

section \<open>The partitioned disk\<close>

text \<open>With a 4-byte \<open>unsigned long\<close>: four sectors are written, nothing else changes.\<close>

definition log_tab :: "nat \<Rightarrow> byte list" where
  "log_tab k = encode_table 4 (def_log_part_table ! k)"

lemma length_log_tab [simp]: "k < 3 \<Longrightarrow> length (log_tab k) = 64"
  by (auto simp: log_tab_def def_log_part_table_def less_Suc_eq numeral_3_eq_3)

lemma copy_mbr_n_br_eq:
  assumes "1024 * 512 \<le> length disk"
  shows "copy_mbr_n_br 4 disk = Some
    (put_bytes (576 * 512) (br_sector (log_tab 2)) (put_bytes (448 * 512) (br_sector (log_tab 1))
      (put_bytes (320 * 512) (br_sector (log_tab 0))
        (put_bytes 0 (mbr_sector (encode_table 4 def_part_table)) disk))))"
proof -
  have tab: "take 64 (encode_table 4 def_part_table) = encode_table 4 def_part_table"
    by (simp add: def_part_table_def)
  have m: "copy_mbr 4 disk = Some (put_bytes 0 (mbr_sector (encode_table 4 def_part_table)) disk)"
    using copy_mbr_eq [of disk 4] assms by (simp only: tab) simp
  have b: "copy_br 4 d (def_log_part_br_cyl ! k) (def_log_part_table ! k) =
      Some (put_bytes (def_log_part_br_cyl ! k * 32 * 512) (br_sector (log_tab k)) d)"
    if "k < 3" "1024 * 512 \<le> length d" for k d
  proof -
    have "k = 0 \<or> k = 1 \<or> k = 2" using that(1) by auto
    then have l: "length (def_log_part_table ! k) = 4"
      "def_log_part_br_cyl ! k * 32 * 512 + 512 \<le> length d"
      using that(2) by (auto simp: def_log_part_table_def def_log_part_br_cyl_def)
    show ?thesis
      using copy_br_eq [OF l(2) l(1), of 4] l(1) by (simp add: log_tab_def)
  qed
  have z: "zip def_log_part_br_cyl def_log_part_table =
      [(def_log_part_br_cyl ! 0, def_log_part_table ! 0),
       (def_log_part_br_cyl ! 1, def_log_part_table ! 1),
       (def_log_part_br_cyl ! 2, def_log_part_table ! 2)]"
    by (simp add: def_log_part_br_cyl_def def_log_part_table_def)
  have tl: "length (encode_table 4 def_part_table) = 64" by (simp add: def_part_table_def)
  have cyl: "def_log_part_br_cyl ! 0 = 10" "def_log_part_br_cyl ! 1 = 14"
    "def_log_part_br_cyl ! 2 = 18"
    by (simp_all add: def_log_part_br_cyl_def)
  show ?thesis
    unfolding copy_mbr_n_br_def m z using assms b [of 0] b [of 1] b [of 2] tl
    by (simp add: cyl [unfolded One_nat_def])
qed

text \<open>What a reader finds: the three primary entries, and the chain inside the second.\<close>

lemma partitioned_reads:
  assumes len: "1024 * 512 \<le> length disk" and cp: "copy_mbr_n_br 4 disk = Some d"
  shows "boot_sig d 0" "boot_sig d 320" "boot_sig d 448" "boot_sig d 576"
    and "i < 4 \<Longrightarrow> sector_part d 0 i = def_part_table ! i"
    and "i < 4 \<Longrightarrow> sector_part d 320 i = def_log_part_table ! 0 ! i"
    and "i < 4 \<Longrightarrow> sector_part d 448 i = def_log_part_table ! 1 ! i"
    and "i < 4 \<Longrightarrow> sector_part d 576 i = def_log_part_table ! 2 ! i"
proof -
  have tl: "length def_part_table = 4" by (simp add: def_part_table_def)
  have d: "d = put_bytes (576 * 512) (br_sector (log_tab 2))
      (put_bytes (448 * 512) (br_sector (log_tab 1)) (put_bytes (320 * 512) (br_sector (log_tab 0))
        (put_bytes 0 (mbr_sector (encode_table 4 def_part_table)) disk)))"
    using copy_mbr_n_br_eq [OF len] cp by simp
  note rd = get_put_inside get_put_disjoint br_sector_reads tl
  show "boot_sig d 0" "boot_sig d 320" "boot_sig d 448" "boot_sig d 576"
    unfolding boot_sig_def d using len by (simp_all add: rd)
  have dec: "decode_part (get_bytes (16 * i) 16 (encode_table 4 t)) = t ! i"
    if "i < length t" "\<forall>p \<in> set t. wf_part p" for i t
    using get_encode_table [OF that(1), of 4] that by (simp add: decode_encode_part)
  have wf: "\<forall>p \<in> set def_part_table. wf_part p" "\<forall>t \<in> set def_log_part_table. \<forall>p \<in> set t. wf_part p"
    by (simp_all add: def_part_table_def def_log_part_table_def wf_part_def part_def zero_part_def)
  have l3: "length def_log_part_table = 3"
    and l4: "\<forall>t \<in> set def_log_part_table. length t = 4"
    by (simp_all add: def_log_part_table_def)
  have lt: "decode_part (get_bytes (16 * i) 16 (log_tab k)) = def_log_part_table ! k ! i"
    if "k < 3" "i < 4" for k i
  proof -
    have "def_log_part_table ! k \<in> set def_log_part_table" using that l3 by simp
    then show ?thesis using wf(2) l4 that by (simp add: log_tab_def dec)
  qed
  have pt: "i < 4 \<Longrightarrow>
      decode_part (get_bytes (16 * i) 16 (encode_table 4 def_part_table)) = def_part_table ! i" for i
    using wf(1) tl by (simp add: dec)
  show "i < 4 \<Longrightarrow> sector_part d 0 i = def_part_table ! i"
    "i < 4 \<Longrightarrow> sector_part d 320 i = def_log_part_table ! 0 ! i"
    "i < 4 \<Longrightarrow> sector_part d 448 i = def_log_part_table ! 1 ! i"
    "i < 4 \<Longrightarrow> sector_part d 576 i = def_log_part_table ! 2 ! i"
    unfolding sector_part_def d using len lt pt
    by (simp_all add: rd add.assoc [symmetric])
qed

definition disk_primaries :: "(byte \<times> nat \<times> nat) list" where
  "disk_primaries = [(0x83, 1, 319), (0x05, 320, 320), (0x83, 640, 384)]"

definition disk_logicals :: "(byte \<times> nat \<times> nat) list" where
  "disk_logicals = [(0x83, 321, 127), (0x83, 449, 127), (0x83, 577, 63)]"

lemma partitioned_disk:
  assumes "1024 * 512 \<le> length disk" "copy_mbr_n_br 4 disk = Some d"
  shows "primaries d = Some disk_primaries" "logicals 3 d 320 320 = Some disk_logicals"
proof -
  note rd = partitioned_reads [OF assms]
  show "primaries d = Some disk_primaries"
    by (simp add: primaries_def rd disk_primaries_def def_part_table_def part_def zero_part_def)
  show "logicals 3 d 320 320 = Some disk_logicals"
    by (simp add: numeral_3_eq_3 rd disk_logicals_def def_log_part_table_def part_def zero_part_def
        Let_def)
qed

text \<open>Sector ranges that do not meet, inside a disk.\<close>

fun ranges_ok :: "(byte \<times> nat \<times> nat) list \<Rightarrow> nat \<Rightarrow> nat \<Rightarrow> bool" where
  "ranges_ok [] lo hi = (lo \<le> hi)"
| "ranges_ok ((ty, st, n) # r) lo hi = (lo \<le> st \<and> 0 < n \<and> ranges_ok r (st + n) hi)"

text \<open>Cylinder, head and sector numbers (32 sectors per cylinder, one head) agree with the LBA.\<close>

definition chs_ok :: "nat \<Rightarrow> part_entry \<Rightarrow> bool" where
  "chs_ok base p \<longleftrightarrow> part_type p \<noteq> 0 \<longrightarrow>
     unat (start_cyl p) * 32 + unat (start_sec p) = base + abs_start_sec p + 1 \<and>
     unat (end_cyl p) * 32 + unat (end_sec p) = base + abs_start_sec p + sec_in_part p"

end
