(* ===== verification/Ram_Device.thy ===== *)
theory Ram_Device
  imports Disk_Partition
begin

text \<open>
  The memory of the RAM disk (\<open>15_diskonrom/ram_device.c\<close>): \<open>RB_DEVICE_SIZE\<close> sectors of
  \<open>RB_SECTOR_SIZE\<close> bytes from \<open>vmalloc\<close>, partitioned when it is set up, copied from and to by
  whole sectors. The number of bytes to copy is computed in \<open>unsigned int\<close>.
\<close>

definition RB_SECTOR_SIZE :: nat where [simp]: "RB_SECTOR_SIZE = 512"
definition RB_DEVICE_SIZE :: nat where [simp]: "RB_DEVICE_SIZE = 1024"

text \<open>\<open>mem\<close> is what \<open>vmalloc\<close> returned; the result is the return value and \<open>dev_data\<close>.\<close>

definition ramdevice_init :: "nat \<Rightarrow> byte list option \<Rightarrow> (int \<times> byte list ptr) option" where
  "ramdevice_init ls mem =
     (case mem of
        None \<Rightarrow> Some (- ENOMEM, Null)
      | Some m \<Rightarrow> do { d \<leftarrow> copy_mbr_n_br ls m; Some (int RB_DEVICE_SIZE, Obj d) })"

text \<open>\<open>vfree(NULL)\<close> does nothing; freeing twice is undefined.\<close>

definition ramdevice_cleanup :: "byte list ptr \<Rightarrow> byte list ptr option" where
  "ramdevice_cleanup p =
     (case p of Null \<Rightarrow> Some Null | Obj d \<Rightarrow> Some Dangling | Dangling \<Rightarrow> None)"

definition ramdevice_write :: "u64 \<Rightarrow> byte list \<Rightarrow> u32 \<Rightarrow> byte list ptr \<Rightarrow> byte list ptr option" where
  "ramdevice_write sector_off buffer sectors p =
     (case p of
        Obj d \<Rightarrow> do {
          xs \<leftarrow> mem_get 0 (unat (sectors * 512)) buffer;
          d' \<leftarrow> mem_put (unat (sector_off * 512)) xs d;
          Some (Obj d')
        }
      | _ \<Rightarrow> None)"

definition ramdevice_read :: "u64 \<Rightarrow> byte list \<Rightarrow> u32 \<Rightarrow> byte list ptr \<Rightarrow> byte list option" where
  "ramdevice_read sector_off buffer sectors p =
     (case p of
        Obj d \<Rightarrow> do {
          xs \<leftarrow> mem_get (unat (sector_off * 512)) (unat (sectors * 512)) d;
          mem_put 0 xs buffer
        }
      | _ \<Rightarrow> None)"

lemma ramdevice_write_obj:
  "ramdevice_write s buf n (Obj d) =
     (if unat (n * 512) \<le> length buf \<and> unat (s * 512) + unat (n * 512) \<le> length d
      then Some (Obj (put_bytes (unat (s * 512)) (take (unat (n * 512)) buf) d)) else None)"
  by (simp add: ramdevice_write_def mem_get_def mem_put_def get_bytes_def)

lemma ramdevice_read_obj:
  "ramdevice_read s buf n (Obj d) =
     (if unat (n * 512) \<le> length buf \<and> unat (s * 512) + unat (n * 512) \<le> length d
      then Some (put_bytes 0 (get_bytes (unat (s * 512)) (unat (n * 512)) d) buf) else None)"
  by (simp add: ramdevice_read_def mem_get_def mem_put_def)

lemma ramdevice_init_cases:
  assumes "ramdevice_init ls mem = Some (r, p)"
  obtains "r = - ENOMEM" "p = Null" | d where "r = 1024" "p = Obj d"
  using assms by (auto simp: ramdevice_init_def split: option.splits Option.bind_splits)

lemma ramdevice_init_eq:
  "length m = RB_DEVICE_SIZE * RB_SECTOR_SIZE \<Longrightarrow>
   \<exists>d. ramdevice_init 4 (Some m) = Some (1024, Obj d) \<and> copy_mbr_n_br 4 m = Some d \<and>
     length d = RB_DEVICE_SIZE * RB_SECTOR_SIZE"
  using copy_mbr_n_br_eq [of m] by (simp add: ramdevice_init_def def_part_table_def)

end
