(* ===== verification/Ram_Block.thy ===== *)
theory Ram_Block
  imports Ram_Device
begin

text \<open>
  The RAM disk's block driver (\<open>15_diskonrom/ram_block.c\<close>): the transfer of one request
  segment by segment, the request loop, and setting up and taking down the device with the
  kernel resources it holds. The request queue is the list of requests the loop fetches.
\<close>

section \<open>Requests\<close>

datatype rq_dir = READ | WRITE

text \<open>\<open>bv_data\<close> is the memory at \<open>page_address(bv->bv_page) + bv->bv_offset\<close>.\<close>

record bio_vec =
  bv_data :: "byte list"
  bv_len :: u32

record request =
  rq_data_dir :: rq_dir
  blk_rq_pos :: u64
  blk_rq_sectors :: u32
  rq_segs :: "bio_vec list"

text \<open>The loop \<open>rq_for_each_segment\<close>, with \<open>sector_offset\<close> and \<open>ret\<close>.\<close>

fun rb_segments ::
  "rq_dir \<Rightarrow> u64 \<Rightarrow> bio_vec list \<Rightarrow> u64 \<Rightarrow> int \<Rightarrow> byte list ptr \<Rightarrow>
   (u64 \<times> int \<times> bio_vec list \<times> byte list ptr) option" where
  "rb_segments dir start [] off ret p = Some (off, ret, [], p)"
| "rb_segments dir start (bv # bvs) off ret p =
     (let ret = (if bv_len bv mod 512 \<noteq> 0 then - EIO else ret);
          sectors = bv_len bv div 512
      in if dir = WRITE then do {
           p \<leftarrow> ramdevice_write (start + off) (bv_data bv) sectors p;
           (off, ret, bvs, p) \<leftarrow> rb_segments dir start bvs (off + ucast sectors) ret p;
           Some (off, ret, bv # bvs, p)
         }
         else do {
           data \<leftarrow> ramdevice_read (start + off) (bv_data bv) sectors p;
           (off, ret, bvs, p) \<leftarrow> rb_segments dir start bvs (off + ucast sectors) ret p;
           Some (off, ret, bv\<lparr>bv_data := data\<rparr> # bvs, p)
         })"

definition rb_transfer :: "request \<Rightarrow> byte list ptr \<Rightarrow> (int \<times> request \<times> byte list ptr) option" where
  "rb_transfer req p = do {
     (sector_offset, ret, segs, p) \<leftarrow>
       rb_segments (rq_data_dir req) (blk_rq_pos req) (rq_segs req) 0 0 p;
     Some (if sector_offset \<noteq> ucast (blk_rq_sectors req) then - EIO else ret,
           req\<lparr>rq_segs := segs\<rparr>, p)
   }"

text \<open>Each fetched request is transferred and ended with the result of the transfer.\<close>

fun rb_request :: "request list \<Rightarrow> byte list ptr \<Rightarrow> ((request \<times> int) list \<times> byte list ptr) option" where
  "rb_request [] p = Some ([], p)"
| "rb_request (req # q) p = do {
     (ret, req, p) \<leftarrow> rb_transfer req p;
     (done, p) \<leftarrow> rb_request q p;
     Some ((req, ret) # done, p)
   }"

text \<open>
  The copy of the driver in \<open>lfy5_diskonrom\<close> ends a request with
  \<open>__blk_end_request(req, ret, blk_rq_bytes(req))\<close>, which ends that many of its bytes: the third
  component is the number of bytes left, and a request with bytes left is not finished.
\<close>

definition blk_rq_bytes :: "request \<Rightarrow> nat" where
  "blk_rq_bytes req = 512 * unat (blk_rq_sectors req)"

definition blk_end_request :: "request \<Rightarrow> int \<Rightarrow> nat \<Rightarrow> request \<times> int \<times> nat" where
  "blk_end_request req ret n = (req, ret, blk_rq_bytes req - n)"

fun lfy5_rb_request ::
  "request list \<Rightarrow> byte list ptr \<Rightarrow> ((request \<times> int \<times> nat) list \<times> byte list ptr) option" where
  "lfy5_rb_request [] p = Some ([], p)"
| "lfy5_rb_request (req # q) p = do {
     (ret, req, p) \<leftarrow> rb_transfer req p;
     (done, p) \<leftarrow> lfy5_rb_request q p;
     Some (blk_end_request req ret (blk_rq_bytes req) # done, p)
   }"

text \<open>Every request is finished, with the result the other driver gives it.\<close>

lemma lfy5_request_finishes:
  "lfy5_rb_request q p =
     map_option (\<lambda>(done, p). (map (\<lambda>(req, ret). (req, ret, 0)) done, p)) (rb_request q p)"
proof (induction q arbitrary: p)
  case (Cons req q)
  show ?case
  proof (cases "rb_transfer req p")
    case (Some r)
    obtain ret req' p' where r: "r = (ret, req', p')" by (cases r) auto
    show ?thesis
      by (cases "rb_request q p'") (auto simp: Some r Cons.IH blk_end_request_def)
  qed simp
qed simp

section \<open>What a transfer does\<close>

text \<open>Segments of whole sectors that lie in their pages.\<close>

definition seg_ok :: "bio_vec \<Rightarrow> bool" where
  "seg_ok bv \<longleftrightarrow> 512 dvd unat (bv_len bv) \<and> unat (bv_len bv) \<le> length (bv_data bv)"

definition seg_bytes :: "bio_vec \<Rightarrow> byte list" where
  "seg_bytes bv = take (unat (bv_len bv)) (bv_data bv)"

definition segs_len :: "bio_vec list \<Rightarrow> nat" where
  "segs_len bvs = (\<Sum>bv \<leftarrow> bvs. unat (bv_len bv))"

definition seg_fill :: "bio_vec \<Rightarrow> byte list \<Rightarrow> bio_vec" where
  "seg_fill bv xs = bv\<lparr>bv_data := put_bytes 0 xs (bv_data bv)\<rparr>"

fun segs_fill :: "bio_vec list \<Rightarrow> byte list \<Rightarrow> bio_vec list" where
  "segs_fill [] xs = []"
| "segs_fill (bv # bvs) xs =
     seg_fill bv (take (unat (bv_len bv)) xs) # segs_fill bvs (drop (unat (bv_len bv)) xs)"

lemma segs_len_simps [simp]:
  "segs_len [] = 0" "segs_len (bv # bvs) = unat (bv_len bv) + segs_len bvs"
  by (simp_all add: segs_len_def)

lemma seg_sectors:
  assumes "seg_ok bv"
  shows "bv_len bv mod 512 = 0" "unat (bv_len bv div 512 * 512) = unat (bv_len bv)"
    and "512 * unat (bv_len bv div 512) = unat (bv_len bv)"
proof -
  let ?n = "unat (bv_len bv)"
  have d: "512 dvd ?n" using assms by (simp add: seg_ok_def)
  have "unat (bv_len bv mod 512) = ?n mod 512" by (simp add: unat_mod_distrib)
  then show "bv_len bv mod 512 = 0" using d by (metis dvd_imp_mod_0 unat_eq_zero)
  show q: "512 * unat (bv_len bv div 512) = ?n"
    using d by (simp add: unat_div_distrib)
  have "bv_len bv div 512 * 512 = of_nat (512 * unat (bv_len bv div 512))"
    by (simp add: mult.commute)
  then show "unat (bv_len bv div 512 * 512) = ?n" by (simp only: q) simp
qed

lemma sector_addr:
  assumes "512 * (unat start + k) < 2 ^ 63"
  shows "unat ((start + of_nat k) * 512 :: u64) = 512 * (unat start + k)"
proof -
  have "(start + of_nat k) * 512 = (of_nat (512 * (unat start + k)) :: u64)"
    by (simp add: algebra_simps)
  then show ?thesis using assms by (simp add: unat_of_nat del: of_nat_mult of_nat_add)
qed

text \<open>From sector offset \<open>k\<close> on: the data goes to, or comes from, consecutive sectors.\<close>

lemma rb_segments_write:
  assumes "\<forall>bv \<in> set bvs. seg_ok bv" "512 * (unat start + k) + segs_len bvs \<le> length d"
    "length d < 2 ^ 63"
  shows "rb_segments WRITE start bvs (of_nat k) ret (Obj d) =
    Some (of_nat (k + segs_len bvs div 512), ret, bvs,
      Obj (put_bytes (512 * (unat start + k)) (concat (map seg_bytes bvs)) d))"
  using assms
proof (induction bvs arbitrary: k d)
  case Nil
  then show ?case by (simp add: put_bytes_def)
next
  case (Cons bv bvs)
  let ?n = "unat (bv_len bv)" and ?q = "unat (bv_len bv div 512)"
  let ?a = "512 * (unat start + k)"
  have bv: "seg_ok bv" using Cons.prems by simp
  note sec = seg_sectors [OF bv]
  have len: "length (seg_bytes bv) = ?n" using bv by (simp add: seg_ok_def seg_bytes_def)
  have addr: "unat ((start + of_nat k) * 512) = ?a"
    using Cons.prems by (intro sector_addr) simp
  have a': "512 * (unat start + (k + ?q)) = ?a + ?n" using sec(3) by simp
  have uc: "of_nat k + ucast (bv_len bv div 512) = (of_nat (k + ?q) :: u64)"
    by simp
  let ?d = "put_bytes ?a (seg_bytes bv) d"
  have IH: "rb_segments WRITE start bvs (of_nat (k + ?q)) ret (Obj ?d) =
      Some (of_nat (k + ?q + segs_len bvs div 512), ret, bvs,
        Obj (put_bytes (?a + ?n) (concat (map seg_bytes bvs)) ?d))"
    using Cons.IH [of "k + ?q" ?d] Cons.prems len unfolding a' by simp
  have "put_bytes (?a + ?n) (concat (map seg_bytes bvs)) ?d =
      put_bytes ?a (seg_bytes bv @ concat (map seg_bytes bvs)) d"
    using Cons.prems(2) len by (intro put_put_append) simp_all
  moreover have "k + ?q + segs_len bvs div 512 = k + (?n + segs_len bvs) div 512"
  proof -
    have "?n = 512 * ?q" using sec(3) by simp
    then show ?thesis by simp
  qed
  moreover have "ramdevice_write (start + of_nat k) (bv_data bv) (bv_len bv div 512) (Obj d) =
      Some (Obj ?d)"
    using Cons.prems(2) bv unfolding ramdevice_write_obj sec addr
    by (simp add: seg_ok_def seg_bytes_def)
  ultimately show ?case
    using IH sec(1) uc by (simp add: Let_def add.assoc del: of_nat_add)
qed

lemma rb_segments_read:
  assumes "\<forall>bv \<in> set bvs. seg_ok bv" "512 * (unat start + k) + segs_len bvs \<le> length d"
    "length d < 2 ^ 63"
  shows "rb_segments READ start bvs (of_nat k) ret (Obj d) =
    Some (of_nat (k + segs_len bvs div 512), ret,
      segs_fill bvs (get_bytes (512 * (unat start + k)) (segs_len bvs) d), Obj d)"
  using assms
proof (induction bvs arbitrary: k)
  case Nil
  then show ?case by simp
next
  case (Cons bv bvs)
  let ?n = "unat (bv_len bv)" and ?q = "unat (bv_len bv div 512)"
  let ?a = "512 * (unat start + k)"
  have bv: "seg_ok bv" using Cons.prems by simp
  note sec = seg_sectors [OF bv]
  have addr: "unat ((start + of_nat k) * 512) = ?a"
    using Cons.prems by (intro sector_addr) simp
  have a': "512 * (unat start + (k + ?q)) = ?a + ?n" using sec(3) by simp
  have uc: "of_nat k + ucast (bv_len bv div 512) = (of_nat (k + ?q) :: u64)"
    by simp
  have IH: "rb_segments READ start bvs (of_nat (k + ?q)) ret (Obj d) =
      Some (of_nat (k + ?q + segs_len bvs div 512), ret,
        segs_fill bvs (get_bytes (?a + ?n) (segs_len bvs) d), Obj d)"
    using Cons.IH [of "k + ?q"] Cons.prems unfolding a' by simp
  have "take ?n (get_bytes ?a (?n + segs_len bvs) d) = get_bytes ?a ?n d"
    "drop ?n (get_bytes ?a (?n + segs_len bvs) d) = get_bytes (?a + ?n) (segs_len bvs) d"
    by (simp_all add: get_bytes_def drop_take add.commute)
  moreover have "k + ?q + segs_len bvs div 512 = k + (?n + segs_len bvs) div 512"
  proof -
    have "?n = 512 * ?q" using sec(3) by simp
    then show ?thesis by simp
  qed
  moreover have "ramdevice_read (start + of_nat k) (bv_data bv) (bv_len bv div 512) (Obj d) =
      Some (put_bytes 0 (get_bytes ?a ?n d) (bv_data bv))"
    using Cons.prems(2) bv unfolding ramdevice_read_obj sec addr by (simp add: seg_ok_def)
  ultimately show ?case
    using IH sec(1) uc by (simp add: Let_def seg_fill_def add.assoc del: of_nat_add)
qed

definition req_ok :: "request \<Rightarrow> byte list \<Rightarrow> bool" where
  "req_ok req d \<longleftrightarrow> (\<forall>bv \<in> set (rq_segs req). seg_ok bv) \<and>
     segs_len (rq_segs req) = 512 * unat (blk_rq_sectors req) \<and>
     512 * unat (blk_rq_pos req) + segs_len (rq_segs req) \<le> length d \<and> length d < 2 ^ 63"

lemma rb_transfer_write:
  assumes "req_ok req d" "rq_data_dir req = WRITE"
  shows "rb_transfer req (Obj d) = Some (0, req,
    Obj (put_bytes (512 * unat (blk_rq_pos req)) (concat (map seg_bytes (rq_segs req))) d))"
  using assms rb_segments_write [of "rq_segs req" "blk_rq_pos req" 0 d 0]
  by (simp add: rb_transfer_def req_ok_def)

lemma rb_transfer_read:
  assumes "req_ok req d" "rq_data_dir req = READ"
  shows "rb_transfer req (Obj d) = Some (0, req\<lparr>rq_segs := segs_fill (rq_segs req)
    (get_bytes (512 * unat (blk_rq_pos req)) (segs_len (rq_segs req)) d)\<rparr>, Obj d)"
  using assms rb_segments_read [of "rq_segs req" "blk_rq_pos req" 0 d 0]
  by (simp add: rb_transfer_def req_ok_def)

lemma length_seg_bytes: "seg_ok bv \<Longrightarrow> length (seg_bytes bv) = unat (bv_len bv)"
  by (simp add: seg_ok_def seg_bytes_def)

lemma length_concat_segs:
  "\<forall>bv \<in> set bvs. seg_ok bv \<Longrightarrow> length (concat (map seg_bytes bvs)) = segs_len bvs"
  by (induction bvs) (auto simp: length_seg_bytes)

text \<open>Filling segments with what they hold changes nothing.\<close>

lemma segs_fill_same:
  "\<forall>bv \<in> set bvs. seg_ok bv \<Longrightarrow> segs_fill bvs (concat (map seg_bytes bvs)) = bvs"
proof (induction bvs)
  case (Cons bv bvs)
  then have "put_bytes 0 (seg_bytes bv) (bv_data bv) = bv_data bv"
    by (simp add: seg_ok_def seg_bytes_def put_bytes_def)
  then show ?case using Cons by (simp add: length_seg_bytes seg_fill_def)
qed simp

lemma segs_bytes_fill:
  "\<forall>bv \<in> set bvs. seg_ok bv \<Longrightarrow> length xs = segs_len bvs \<Longrightarrow>
   concat (map seg_bytes (segs_fill bvs xs)) = xs"
proof (induction bvs arbitrary: xs)
  case (Cons bv bvs)
  then show ?case
    by (simp add: seg_fill_def seg_bytes_def put_bytes_def seg_ok_def)
qed simp

text \<open>A request whose segments are not whole sectors, or do not add up, ends in an error.\<close>

lemma rb_segments_ret:
  "rb_segments dir start bvs off ret p = Some (off', ret', bvs', p') \<Longrightarrow>
   ret' = (if \<forall>bv \<in> set bvs. bv_len bv mod 512 = 0 then ret else - EIO)"
proof (induction bvs arbitrary: off ret p off' bvs' p')
  case (Cons bv bvs)
  then obtain o2 p2 b2 where
    "rb_segments dir start bvs o2 (if bv_len bv mod 512 \<noteq> 0 then - EIO else ret) p2 =
      Some (off', ret', b2, p')"
    by (fastforce simp: Let_def split: Option.bind_splits if_splits)
  from Cons.IH [OF this] show ?case by auto
qed simp

lemma rb_transfer_misaligned:
  assumes "rb_transfer req p = Some (ret, req', p')" "bv \<in> set (rq_segs req)" "bv_len bv mod 512 \<noteq> 0"
  shows "ret = - EIO"
  using assms by (auto simp: rb_transfer_def dest!: rb_segments_ret split: Option.bind_splits if_splits)

text \<open>Every request of the queue is ended, in order.\<close>

lemma rb_request_done:
  "rb_request q p = Some (done, p') \<Longrightarrow>
   map (\<lambda>(r, _). (rq_data_dir r, blk_rq_pos r, blk_rq_sectors r)) done =
   map (\<lambda>r. (rq_data_dir r, blk_rq_pos r, blk_rq_sectors r)) q"
  by (induction q arbitrary: p "done" p')
    (auto simp: rb_transfer_def split: Option.bind_splits)

section \<open>Setting the device up\<close>

record gendisk =
  gd_major :: u32
  first_minor :: nat
  gd_capacity :: u32
  gd_added :: bool

text \<open>\<open>rb_dev\<close>, \<open>rb_major\<close> and \<open>dev_data\<close>; \<open>blk_reg\<close>: the driver is in the kernel's table.\<close>

record rb_state =
  rb_data :: "byte list ptr"
  rb_size :: u32
  rb_major :: u32
  blk_reg :: bool
  rb_queue :: "unit ptr"
  rb_disk :: "gendisk ptr"

text \<open>What the kernel answers: memory, a major number or a negative error, a queue, a disk.\<close>

record rb_kernel =
  k_vmalloc :: "byte list option"
  k_register_blkdev :: int
  k_blk_init_queue :: bool
  k_alloc_disk :: bool

definition rb_open :: "u32 \<Rightarrow> int" where
  "rb_open unit = (if unit > 16 then - ENODEV else 0)"

definition rb_close :: int where
  "rb_close = 0"

definition unregister_blkdev :: "rb_state \<Rightarrow> rb_state" where
  "unregister_blkdev st = st\<lparr>blk_reg := False\<rparr>"

definition blk_cleanup_queue :: "rb_state \<Rightarrow> rb_state option" where
  "blk_cleanup_queue st =
     (case rb_queue st of Obj _ \<Rightarrow> Some (st\<lparr>rb_queue := Dangling\<rparr>) | _ \<Rightarrow> None)"

definition rb_ram_cleanup :: "rb_state \<Rightarrow> rb_state option" where
  "rb_ram_cleanup st = map_option (\<lambda>p. st\<lparr>rb_data := p\<rparr>) (ramdevice_cleanup (rb_data st))"

definition rb_init :: "nat \<Rightarrow> rb_kernel \<Rightarrow> rb_state \<Rightarrow> (int \<times> rb_state) option" where
  "rb_init ls k st = do {
     (ret, data) \<leftarrow> ramdevice_init ls (k_vmalloc k);
     let st = st\<lparr>rb_data := data\<rparr>;
     if ret < 0 then Some (ret, st)
     else
       let st = st\<lparr>rb_size := word_of_int ret, rb_major := word_of_int (k_register_blkdev k),
                   blk_reg := 0 < k_register_blkdev k\<rparr>
       in if rb_major st \<le> 0 then do { st \<leftarrow> rb_ram_cleanup st; Some (- EBUSY, st) }
          else
            let st = st\<lparr>rb_queue := (if k_blk_init_queue k then Obj () else Null)\<rparr>
            in if rb_queue st = Null
               then do { st \<leftarrow> rb_ram_cleanup (unregister_blkdev st); Some (- ENOMEM, st) }
               else if \<not> k_alloc_disk k then do {
                 st \<leftarrow> blk_cleanup_queue (st\<lparr>rb_disk := Null\<rparr>);
                 st \<leftarrow> rb_ram_cleanup (unregister_blkdev st);
                 Some (- ENOMEM, st)
               }
               else Some (0, st\<lparr>rb_disk := Obj \<lparr>gd_major = rb_major st, first_minor = 0,
                                  gd_capacity = rb_size st, gd_added = True\<rparr>\<rparr>)
   }"

definition rb_cleanup :: "rb_state \<Rightarrow> rb_state option" where
  "rb_cleanup st =
     (case rb_disk st of
        Obj gd \<Rightarrow> do {
          st \<leftarrow> blk_cleanup_queue (st\<lparr>rb_disk := Dangling\<rparr>);
          rb_ram_cleanup (unregister_blkdev st)
        }
      | _ \<Rightarrow> None)"

text \<open>What the driver holds, and that it holds nothing.\<close>

definition rb_live :: "rb_state \<Rightarrow> bool" where
  "rb_live st \<longleftrightarrow> (\<exists>d gd. rb_data st = Obj d \<and> rb_disk st = Obj gd \<and> gd_added gd) \<and>
     rb_queue st = Obj () \<and> blk_reg st"

definition rb_idle :: "rb_state \<Rightarrow> bool" where
  "rb_idle st \<longleftrightarrow> (\<forall>d. rb_data st \<noteq> Obj d) \<and> (\<forall>q. rb_queue st \<noteq> Obj q) \<and>
     (\<forall>g. rb_disk st \<noteq> Obj g) \<and> \<not> blk_reg st"

lemmas rb_init_defs = rb_init_def ramdevice_init_def rb_ram_cleanup_def ramdevice_cleanup_def
  unregister_blkdev_def blk_cleanup_queue_def

text \<open>With a major number from the kernel (a positive one below \<open>2 ^ 20\<close>) all or nothing is held.\<close>

lemma rb_init_outcome:
  assumes "rb_init ls k st = Some (ret, st')" "rb_idle st"
    and "0 < k_register_blkdev k" "k_register_blkdev k < 2 ^ 20"
  shows "(ret = 0 \<and> rb_live st' \<and> rb_size st' = 1024) \<or> (ret < 0 \<and> rb_idle st')"
proof -
  have "(word_of_int (k_register_blkdev k) :: u32) \<noteq> 0"
  proof
    assume "(word_of_int (k_register_blkdev k) :: u32) = 0"
    then have "uint (word_of_int (k_register_blkdev k) :: u32) = 0" by simp
    then show False using assms(3,4) by (simp add: uint_word_of_int)
  qed
  then have major: "\<not> (word_of_int (k_register_blkdev k) :: u32) \<le> 0"
    by (simp add: word_le_nat_alt unat_eq_zero)
  obtain r p where i: "ramdevice_init ls (k_vmalloc k) = Some (r, p)"
    using assms(1) by (auto simp: rb_init_def split: Option.bind_splits)
  from i show ?thesis
  proof (cases rule: ramdevice_init_cases)
    case 1
    then show ?thesis using assms(1,2) i by (auto simp: rb_init_def rb_idle_def)
  next
    case (2 d)
    then show ?thesis
      using assms(1-3) i major
      by (cases "k_blk_init_queue k"; cases "k_alloc_disk k")
        (auto simp: rb_init_def rb_live_def rb_idle_def rb_ram_cleanup_def ramdevice_cleanup_def
          unregister_blkdev_def blk_cleanup_queue_def)
  qed
qed

lemma rb_cleanup_live: "rb_live st \<Longrightarrow> \<exists>st'. rb_cleanup st = Some st' \<and> rb_idle st'"
  by (auto simp: rb_cleanup_def rb_init_defs rb_live_def rb_idle_def)

text \<open>\<open>rb_major\<close> is unsigned: a negative error of \<open>register_blkdev\<close> is taken for a major number.\<close>

lemma rb_init_register_error:
  assumes "k_register_blkdev k < 0" "- (2 ^ 12) \<le> k_register_blkdev k"
    and "k_vmalloc k = Some m" "length m = RB_DEVICE_SIZE * RB_SECTOR_SIZE"
    and "k_blk_init_queue k" "k_alloc_disk k"
  shows "\<exists>st'. rb_init 4 k st = Some (0, st') \<and> \<not> blk_reg st'"
proof -
  obtain d where "copy_mbr_n_br 4 m = Some d" using ramdevice_init_eq [OF assms(4)] by blast
  moreover have "(word_of_int (k_register_blkdev k) :: u32) \<noteq> 0"
  proof
    assume "(word_of_int (k_register_blkdev k) :: u32) = 0"
    then have "sint (word_of_int (k_register_blkdev k) :: u32) = 0" by simp
    then show False using assms(1,2) by (simp add: sint_sbintrunc' signed_take_bit_int_eq_self)
  qed
  ultimately show ?thesis
    using assms by (simp add: rb_init_defs Let_def word_le_nat_alt unat_eq_zero)
qed

end
