(* ===== verification/Ram_Cache.thy ===== *)
theory Ram_Cache
  imports Ram_Block Sfs_Mount
begin

text \<open>
  A buffer cache for the file system over the RAM disk: a buffer is one 512-byte sector, read and
  written by \<open>rb_transfer\<close> requests of one segment. The cache and the block layer above the driver
  are the kernel's: the block layer refuses a sector behind the capacity the driver has announced
  with \<open>set_capacity\<close>, so that a request the driver gets is inside the device. It satisfies the
  laws of \<open>buffer_cache\<close>, so every fact proved over those laws holds for the two drivers put together.
\<close>

definition in_capacity :: "byte list \<Rightarrow> u32 \<Rightarrow> bool" where
  "in_capacity d b \<longleftrightarrow> unat b < length d div 512"

definition sector_req :: "rq_dir \<Rightarrow> u32 \<Rightarrow> byte list \<Rightarrow> request" where
  "sector_req dir b data = \<lparr>rq_data_dir = dir, blk_rq_pos = ucast b, blk_rq_sectors = 1,
     rq_segs = [\<lparr>bv_data = data, bv_len = 512\<rparr>]\<rparr>"

definition rb_bread :: "byte list \<Rightarrow> u32 \<Rightarrow> byte list option" where
  "rb_bread d b =
     (if in_capacity d b then do {
        (ret, req, p) \<leftarrow> rb_transfer (sector_req READ b (replicate 512 0)) (Obj d);
        if ret = 0 then Some (bv_data (hd (rq_segs req))) else None
      }
      else None)"

definition rb_bwrite :: "byte list \<Rightarrow> u32 \<Rightarrow> byte list \<Rightarrow> byte list" where
  "rb_bwrite d b data =
     (if in_capacity d b then
        (case rb_transfer (sector_req WRITE b data) (Obj d) of
           Some (ret, req, Obj d') \<Rightarrow> d'
         | _ \<Rightarrow> d)
      else d)"

definition rb_ops :: "byte list bdev_ops" where
  "rb_ops = \<lparr>bd_block_size = 512, sb_bread = rb_bread,
     bh_write = (\<lambda>d b off xs. case rb_bread d b of
       Some bs \<Rightarrow> rb_bwrite d b (put_bytes off xs bs) | None \<Rightarrow> d)\<rparr>"

lemma ucast_sector: "unat ((ucast (b::u32) :: u64) * 512) = 512 * unat b"
proof -
  have "(ucast b :: u64) * 512 = of_nat (512 * unat b)" by (simp add: mult.commute)
  then show ?thesis using unat32_less [of b]
    by (simp only: unat_of_nat) (simp del: of_nat_mult)
qed

lemma in_capacity_bytes: "in_capacity d b \<longleftrightarrow> 512 * unat b + 512 \<le> length d"
proof -
  have "Suc (unat b) \<le> length d div 512 \<longleftrightarrow> Suc (unat b) * 512 \<le> length d"
    by (rule less_eq_div_iff_mult_less_eq) simp
  then show ?thesis by (simp add: in_capacity_def Suc_le_eq add.commute mult.commute)
qed

text \<open>A request inside the capacity is always served: the driver does no access outside its memory.\<close>

lemma rb_in_capacity:
  assumes "in_capacity d b" "length data = 512"
  shows "\<exists>r. rb_transfer (sector_req dir b data) (Obj d) = Some r \<and> fst r = 0"
  using assms
  by (cases dir) (auto simp: in_capacity_bytes sector_req_def rb_transfer_def Let_def ramdevice_read_obj
      ramdevice_write_obj ucast_sector split: Option.bind_splits)

lemma rb_bread_eq:
  "rb_bread d b =
     (if 512 * unat b + 512 \<le> length d then Some (get_bytes (512 * unat b) 512 d) else None)"
  by (simp add: rb_bread_def in_capacity_bytes sector_req_def rb_transfer_def Let_def ramdevice_read_obj ucast_sector
      put_bytes_def split: Option.bind_splits)

lemma rb_bwrite_eq:
  "length data = 512 \<Longrightarrow> 512 * unat b + 512 \<le> length d \<Longrightarrow>
   rb_bwrite d b data = put_bytes (512 * unat b) data d"
  by (simp add: rb_bwrite_def in_capacity_bytes sector_req_def rb_transfer_def Let_def ramdevice_write_obj ucast_sector)

lemma rb_bh_write_eq:
  assumes "512 * unat b + 512 \<le> length d" "off + length xs \<le> 512"
  shows "bh_write rb_ops d b off xs =
    put_bytes (512 * unat b) (put_bytes off xs (get_bytes (512 * unat b) 512 d)) d"
  using assms by (simp add: rb_ops_def rb_bread_eq rb_bwrite_eq)

interpretation rb: buffer_cache rb_ops
proof unfold_locales
  show "0 < unat (bd_block_size rb_ops)" by (simp add: rb_ops_def)
next
  fix d b bs
  assume "sb_bread rb_ops d b = Some bs"
  then show "length bs = unat (bd_block_size rb_ops)"
    by (auto simp: rb_ops_def rb_bread_eq split: if_splits)
next
  fix d b bs off and xs :: "byte list"
  assume "sb_bread rb_ops d b = Some bs" "off + length xs \<le> length bs"
  then have b: "512 * unat b + 512 \<le> length d" "bs = get_bytes (512 * unat b) 512 d"
    "off + length xs \<le> 512"
    by (auto simp: rb_ops_def rb_bread_eq split: if_splits)
  note w = rb_bh_write_eq [OF b(1,3)]
  show "sb_bread rb_ops (bh_write rb_ops d b off xs) b = Some (put_bytes off xs bs)"
    unfolding w using b by (simp add: rb_ops_def rb_bread_eq)
  fix b' assume ne: "b' \<noteq> b"
  then have "unat b' \<noteq> unat b" by (metis unsigned_word_eqI)
  then have "512 * unat b' + 512 \<le> 512 * unat b \<or> 512 * unat b + 512 \<le> 512 * unat b'" by auto
  then show "sb_bread rb_ops (bh_write rb_ops d b off xs) b' = sb_bread rb_ops d b'"
    unfolding w using b by (auto simp: rb_ops_def rb_bread_eq get_put_disjoint)
qed

end
