(* ===== verification/Sfs_Format.thy ===== *)
theory Sfs_Format
  imports File_Handle Ram_Cache
begin

text \<open>
  Formatting a partition (\<open>7_nov12/RealSFSInAction/format_real_sfs.c\<close>): the super block and a
  cleared entry table, and that what it writes can be mounted. The size of the entry table is
  computed in \<open>double\<close>: the product with the double nearest to 0.10, rounded to 53 bits.
\<close>

section \<open>The size of the entry table\<close>

fun bit_len :: "nat \<Rightarrow> nat" where
  "bit_len n = (if n = 0 then 0 else Suc (bit_len (n div 2)))"

declare bit_len.simps [simp del]

text \<open>\<open>m\<close> rounded to a multiple of \<open>2 ^ s\<close>, ties to even.\<close>

definition round_even :: "nat \<Rightarrow> nat \<Rightarrow> nat" where
  "round_even m s =
     (let q = m div 2 ^ s; r = m mod 2 ^ s
      in (if 2 * r > 2 ^ s \<or> 2 * r = 2 ^ s \<and> odd q then q + 1 else q) * 2 ^ s)"

text \<open>\<open>0.10\<close> is \<open>3602879701896397 / 2 ^ 55\<close>; the product is truncated to an integer.\<close>

definition SFS_ENTRY_RATIO :: nat where "SFS_ENTRY_RATIO = 3602879701896397"

definition entry_ratio_blocks :: "u32 \<Rightarrow> u32" where
  "entry_ratio_blocks p =
     (let m = unat p * SFS_ENTRY_RATIO
      in of_nat (round_even m (bit_len m - 53) div 2 ^ 55))"

lemma bit_len_bound: "m < 2 ^ k \<Longrightarrow> bit_len m \<le> k"
proof (induction k arbitrary: m)
  case 0
  then show ?case by (simp add: bit_len.simps)
next
  case (Suc k)
  then show ?case by (subst bit_len.simps) (simp add: less_mult_imp_div_less)
qed

lemma round_even_bounds:
  assumes "2 ^ s dvd (a::nat)" "a \<le> m"
  shows "a \<le> round_even m s" "round_even m s \<le> m + 2 ^ s"
proof -
  obtain c where c: "a = c * 2 ^ s" using assms(1) by (metis dvd_def mult.commute)
  then have "c \<le> m div 2 ^ s" using assms(2) by (simp add: less_eq_div_iff_mult_less_eq)
  then have "a \<le> m div 2 ^ s * 2 ^ s" using c by simp
  then show "a \<le> round_even m s" by (auto simp: round_even_def Let_def)
  have "m div 2 ^ s * 2 ^ s \<le> m" by simp
  moreover from this have "m div 2 ^ s * 2 ^ s \<le> m + 2 ^ s" by linarith
  ultimately show "round_even m s \<le> m + 2 ^ s" by (simp add: round_even_def Let_def)
qed

lemma entry_ratio_tenth: "unat (entry_ratio_blocks p) = unat p div 10"
proof -
  let ?p = "unat p" and ?m = "unat p * SFS_ENTRY_RATIO"
  let ?q = "?p div 10" and ?r = "?p mod 10" and ?s = "bit_len ?m - 53"
  let ?R = "round_even ?m ?s"
  have p: "?p < 2 ^ 32" using unat32_less [of p] by simp
  have "?m < 2 ^ 32 * 2 ^ 52" using p by (intro mult_strict_mono) (simp_all add: SFS_ENTRY_RATIO_def)
  then have "bit_len ?m \<le> 84" by (intro bit_len_bound) simp
  then have s: "?s \<le> 31" by simp
  have pq: "?p = 10 * ?q + ?r" by simp
  have "?m = ?q * 36028797018963968 + 2 * ?q + ?r * 3602879701896397"
    unfolding SFS_ENTRY_RATIO_def using pq by linarith
  then have m: "?m = ?q * 2 ^ 55 + 2 * ?q + ?r * 3602879701896397" by simp
  have "2 ^ ?s dvd (2::nat) ^ 55" using s by (intro le_imp_power_dvd) simp
  then have d: "2 ^ ?s dvd ?q * 2 ^ 55" by (rule dvd_mult)
  have "?q * 2 ^ 55 \<le> ?m" using m by simp
  note b = round_even_bounds [OF d this]
  have "(2::nat) ^ ?s \<le> 2 ^ 31" using s by (intro power_increasing) simp_all
  then have "?R \<le> ?m + 2 ^ 31" using b(2) by linarith
  moreover have "2 * ?q < 2 ^ 30" using p by simp
  moreover have "?r \<le> 9" by simp
  ultimately have "?R < (?q + 1) * 2 ^ 55" using m by simp
  then have "?R div 2 ^ 55 < ?q + 1" by (rule less_mult_imp_div_less)
  moreover have "?q \<le> ?R div 2 ^ 55" using b(1) by (simp add: less_eq_div_iff_mult_less_eq)
  ultimately have "?R div 2 ^ 55 = ?q" by simp
  then show ?thesis using p by (simp add: entry_ratio_blocks_def Let_def unat_of_nat)
qed

section \<open>Writing\<close>

definition write_super_block :: "sfs_super_block \<Rightarrow> fhandle \<Rightarrow> fhandle" where
  "write_super_block sb h = snd (sys_write (encode_sb sb) h)"

text \<open>The first loop fills \<open>block\<close> with zero entries, the second writes it again and again.\<close>

fun fill_block :: "nat list \<Rightarrow> u32 \<Rightarrow> byte list \<Rightarrow> byte list option" where
  "fill_block [] es block = Some block"
| "fill_block (i # is) es block = do {
     block \<leftarrow> mem_put (unat (of_nat i * es)) (encode_fe zero_fe) block;
     fill_block is es block
   }"

fun write_blocks :: "nat \<Rightarrow> byte list \<Rightarrow> fhandle \<Rightarrow> fhandle" where
  "write_blocks 0 block h = h"
| "write_blocks (Suc n) block h = write_blocks n block (snd (sys_write block h))"

definition clear_file_entries :: "byte list \<Rightarrow> sfs_super_block \<Rightarrow> fhandle \<Rightarrow> fhandle option" where
  "clear_file_entries stack sb h =
     (if sb_entry_size sb = 0 then None
      else do {
        block \<leftarrow> fill_block [0..<unat (sb_block_size sb div sb_entry_size sb)] (sb_entry_size sb) stack;
        Some (write_blocks (unat (sb_entry_table_size sb)) block h)
      })"

definition format_sb :: "u64 \<Rightarrow> sfs_super_block" where
  "format_sb sz =
     (let p = ucast (sz div 512); t = entry_ratio_blocks p
      in \<lparr>sb_type = SIMULA_FS_TYPE, sb_block_size = 512, sb_partition_size = p, sb_entry_size = 64,
          sb_entry_table_size = t, sb_entry_table_block_start = 1, sb_entry_count = t * 512 div 64,
          sb_data_block_start = 1 + t, sb_reserved = replicate 120 0\<rparr>)"

text \<open>
  \<open>main\<close>, from the number of arguments, the opened handle (\<open>None\<close> if \<open>open\<close> fails) and the
  size \<open>ioctl(BLKGETSIZE64)\<close> gives; \<open>stack\<close> is the uninitialised \<open>block\<close> array.
\<close>

definition format_main ::
  "nat \<Rightarrow> fhandle option \<Rightarrow> u64 option \<Rightarrow> byte list \<Rightarrow> (int \<times> fhandle option) option" where
  "format_main argc opened sz stack =
     (if argc \<noteq> 2 then Some (1, opened)
      else (case opened of
        None \<Rightarrow> Some (2, None)
      | Some h \<Rightarrow> (case sz of
          None \<Rightarrow> Some (3, Some h)
        | Some n \<Rightarrow> do {
            h \<leftarrow> clear_file_entries stack (format_sb n) (write_super_block (format_sb n) h);
            Some (0, Some h)
          })))"

section \<open>The formatting programs of August and October\<close>

text \<open>
  \<open>4_aug12/RealFS/format_sfs.c\<close> and \<open>6_oct12/RealSFSOnBlockDevice/format_real_sfs.c\<close>, from their
  own sources. They format as November's program does.
\<close>

definition aug_write_super_block :: "sfs_super_block \<Rightarrow> fhandle \<Rightarrow> fhandle" where
  "aug_write_super_block sb h = snd (sys_write (encode_sb sb) h)"

definition aug_clear_file_entries :: "byte list \<Rightarrow> sfs_super_block \<Rightarrow> fhandle \<Rightarrow> fhandle option" where
  "aug_clear_file_entries stack sb h =
     (if sb_entry_size sb = 0 then None
      else map_option (\<lambda>block. write_blocks (unat (sb_entry_table_size sb)) block h)
        (fill_block [0..<unat (sb_block_size sb div sb_entry_size sb)] (sb_entry_size sb) stack))"

definition aug_format_main ::
  "nat \<Rightarrow> fhandle option \<Rightarrow> u64 option \<Rightarrow> byte list \<Rightarrow> (int \<times> fhandle option) option" where
  "aug_format_main argc opened bytes stack =
     (if argc \<noteq> 2 then Some (1, opened)
      else (case (opened, bytes) of
        (None, _) \<Rightarrow> Some (2, None)
      | (Some h, None) \<Rightarrow> Some (3, Some h)
      | (Some h, Some n) \<Rightarrow>
          let p = ucast (n div 512); t = entry_ratio_blocks p;
            sb = \<lparr>sb_type = SIMULA_FS_TYPE, sb_block_size = 512, sb_partition_size = p,
              sb_entry_size = 64, sb_entry_table_size = t, sb_entry_table_block_start = 1,
              sb_entry_count = t * 512 div 64, sb_data_block_start = 1 + t,
              sb_reserved = replicate 120 0\<rparr>
          in map_option (\<lambda>h. (0, Some h)) (aug_clear_file_entries stack sb (aug_write_super_block sb h))))"

definition oct_write_super_block :: "sfs_super_block \<Rightarrow> fhandle \<Rightarrow> fhandle" where
  "oct_write_super_block sb h = snd (sys_write (encode_sb sb) h)"

definition oct_clear_file_entries :: "byte list \<Rightarrow> sfs_super_block \<Rightarrow> fhandle \<Rightarrow> fhandle option" where
  "oct_clear_file_entries stack sb h =
     (if sb_entry_size sb = 0 then None
      else map_option (\<lambda>block. write_blocks (unat (sb_entry_table_size sb)) block h)
        (fill_block [0..<unat (sb_block_size sb div sb_entry_size sb)] (sb_entry_size sb) stack))"

definition oct_format_main ::
  "nat \<Rightarrow> fhandle option \<Rightarrow> u64 option \<Rightarrow> byte list \<Rightarrow> (int \<times> fhandle option) option" where
  "oct_format_main argc opened bytes stack =
     (if argc \<noteq> 2 then Some (1, opened)
      else (case (opened, bytes) of
        (None, _) \<Rightarrow> Some (2, None)
      | (Some h, None) \<Rightarrow> Some (3, Some h)
      | (Some h, Some n) \<Rightarrow>
          let p = ucast (n div 512); t = entry_ratio_blocks p;
            sb = \<lparr>sb_type = SIMULA_FS_TYPE, sb_block_size = 512, sb_partition_size = p,
              sb_entry_size = 64, sb_entry_table_size = t, sb_entry_table_block_start = 1,
              sb_entry_count = t * 512 div 64, sb_data_block_start = 1 + t,
              sb_reserved = replicate 120 0\<rparr>
          in map_option (\<lambda>h. (0, Some h)) (oct_clear_file_entries stack sb (oct_write_super_block sb h))))"

lemma older_clear_same:
  "aug_clear_file_entries stack sb h = clear_file_entries stack sb h"
  "oct_clear_file_entries stack sb h = clear_file_entries stack sb h"
  by (auto simp: aug_clear_file_entries_def oct_clear_file_entries_def clear_file_entries_def
      map_conv_bind_option comp_def)

lemma older_format_same:
  "aug_format_main argc opened bytes stack = format_main argc opened bytes stack"
  "oct_format_main argc opened bytes stack = format_main argc opened bytes stack"
  by (auto simp: aug_format_main_def oct_format_main_def format_main_def Let_def format_sb_def
      older_clear_same aug_write_super_block_def oct_write_super_block_def write_super_block_def
      map_conv_bind_option comp_def split: option.split)

section \<open>What is written\<close>

lemma wf_format_sb [simp]: "wf_sb (format_sb n)"
  by (simp add: wf_sb_def format_sb_def Let_def)

lemma fill_block_zeros:
  assumes "length stack = 512"
  shows "fill_block [0..<8] 64 stack = Some (replicate 512 0)"
proof -
  have "[0..<8] = [0, 1, 2, 3, 4, 5, 6, 7::nat]" by (simp add: upt_rec)
  then show ?thesis using assms
    by (simp add: encode_zero_fe mem_put_def put_bytes_def flip: replicate_add)
qed

lemma write_blocks_eq:
  "fh_pos h + n * length b \<le> length (fh_data h) \<Longrightarrow>
   write_blocks n b h = h\<lparr>fh_data := put_bytes (fh_pos h) (concat (replicate n b)) (fh_data h),
                          fh_pos := fh_pos h + n * length b\<rparr>"
proof (induction n arbitrary: h)
  case 0
  then show ?case by (cases h) (simp add: put_bytes_def)
next
  case (Suc n)
  let ?h = "h\<lparr>fh_data := put_bytes (fh_pos h) b (fh_data h), fh_pos := fh_pos h + length b\<rparr>"
  have "sys_write b h = (length b, ?h)" using Suc.prems by (intro sys_write_inside) simp
  then show ?case
    using Suc.prems Suc.IH [of ?h] by (simp add: put_put_append add.assoc)
qed

lemma concat_replicate_zeros: "concat (replicate n (replicate k (0::byte))) = replicate (n * k) 0"
  by (induction n) (simp_all add: replicate_add)

section \<open>Mounting what was formatted\<close>

text \<open>The number of 512-byte blocks of a device of \<open>sz\<close> bytes, below \<open>2 ^ 32\<close>.\<close>

definition blocks_of :: "u64 \<Rightarrow> nat" where
  "blocks_of sz = unat sz div 512"

lemma format_sb_fields:
  assumes "blocks_of sz < 2 ^ 32"
  shows "unat (sb_partition_size (format_sb sz)) = blocks_of sz"
    and "unat (sb_entry_table_size (format_sb sz)) = blocks_of sz div 10"
    and "unat (sb_data_block_start (format_sb sz)) = 1 + blocks_of sz div 10"
    and "unat (sb_entry_count (format_sb sz)) = 8 * (blocks_of sz div 10 mod 2 ^ 23)"
    and "blocks_of sz div 10 < 2 ^ 23 \<Longrightarrow>
      unat (sb_entry_count (format_sb sz)) = 8 * (blocks_of sz div 10)"
proof -
  let ?t = "blocks_of sz div 10"
  have p: "unat (ucast (sz div 512) :: u32) = blocks_of sz"
    using assms
    by (simp add: blocks_of_def unsigned_ucast_eq unat_div_distrib take_bit_nat_eq_self_iff)
  then show "unat (sb_partition_size (format_sb sz)) = blocks_of sz"
    by (simp add: format_sb_def Let_def)
  show t: "unat (sb_entry_table_size (format_sb sz)) = ?t"
    by (simp add: format_sb_def Let_def entry_ratio_tenth p)
  have tw: "sb_entry_table_size (format_sb sz) = of_nat ?t" by (rule unat_eq_imp_of_nat [OF t])
  have "sb_data_block_start (format_sb sz) = of_nat (1 + ?t)"
    using tw by (simp add: format_sb_def Let_def)
  then show "unat (sb_data_block_start (format_sb sz)) = 1 + ?t"
    using assms by (simp add: unat_of_nat del: of_nat_Suc)
  have "sb_entry_count (format_sb sz) = of_nat (?t * 512) div 64"
    using tw by (simp add: format_sb_def Let_def)
  then have "unat (sb_entry_count (format_sb sz)) = ?t * 512 mod 2 ^ 32 div 64"
    by (simp add: unat_div_distrib unat_of_nat del: of_nat_mult)
  also have "?t * 512 mod 2 ^ 32 = (?t mod 2 ^ 23) * 512"
    using mult_mod_left [of ?t "2 ^ 23" 512] by simp
  finally show "unat (sb_entry_count (format_sb sz)) = 8 * (?t mod 2 ^ 23)" by simp
  then show "unat (sb_entry_count (format_sb sz)) = 8 * ?t" if "?t < 2 ^ 23"
    using that by simp
qed

lemma format_main_eq:
  assumes len: "length (fh_data h) = unat sz" "fh_pos h = 0" and stack: "length stack = 512"
    and p: "0 < blocks_of sz" "blocks_of sz < 2 ^ 32"
  shows "\<exists>h'. format_main 2 (Some h) (Some sz) stack = Some (0, Some h') \<and>
    fh_data h' = put_bytes 0 (encode_sb (format_sb sz) @ replicate (512 * (blocks_of sz div 10)) 0)
      (fh_data h)"
proof -
  let ?t = "blocks_of sz div 10" and ?sb = "format_sb sz"
  have es: "sb_block_size ?sb = 512" "sb_entry_size ?sb = 64"
    by (simp_all add: format_sb_def Let_def)
  have sz: "512 * blocks_of sz \<le> length (fh_data h)" using len by (simp add: blocks_of_def)
  moreover have "?t * 10 \<le> blocks_of sz" by simp
  ultimately have fits: "512 + 512 * ?t \<le> length (fh_data h)"
    using p(1) by (cases "?t = 0") linarith+
  let ?h1 = "h\<lparr>fh_data := put_bytes 0 (encode_sb ?sb) (fh_data h), fh_pos := 512\<rparr>"
  have w: "write_super_block ?sb h = ?h1"
    using fits len by (simp add: write_super_block_def sys_write_inside)
  have "write_blocks ?t (replicate 512 0) ?h1 =
      ?h1\<lparr>fh_data := put_bytes 512 (replicate (512 * ?t) 0) (fh_data ?h1), fh_pos := 512 + 512 * ?t\<rparr>"
    using fits by (subst write_blocks_eq) (simp_all add: concat_replicate_zeros mult.commute)
  moreover have "put_bytes 512 (replicate (512 * ?t) 0) (fh_data ?h1) =
      put_bytes 0 (encode_sb ?sb @ replicate (512 * ?t) 0) (fh_data h)"
    using fits by (simp add: put_put_append)
  ultimately show ?thesis
    using p fill_block_zeros [OF stack]
    by (simp add: format_main_def clear_file_entries_def w es format_sb_fields)
qed

lemma formatted_reads:
  assumes "512 + 512 * t \<le> length d" "d' = put_bytes 0 (encode_sb sb @ replicate (512 * t) 0) d"
    and "wf_sb sb"
  shows "get_bytes 0 512 d' = encode_sb sb"
    and "k < t \<Longrightarrow> get_bytes (512 + 512 * k) 512 d' = replicate 512 0"
proof -
  show "get_bytes 0 512 d' = encode_sb sb"
    using assms by (simp add: get_put_inside) (simp add: get_bytes_def)
  assume k: "k < t"
  have "get_bytes (512 + 512 * k) 512 d' =
      get_bytes (512 + 512 * k) 512 (encode_sb sb @ replicate (512 * t) 0)"
    using assms k by (simp add: get_put_inside)
  also have "\<dots> = take 512 (drop (512 * k) (replicate (512 * t) 0))"
    using assms(3) by (simp add: get_bytes_def)
  also have "\<dots> = replicate 512 0" using k by (simp add: min_def)
  finally show "get_bytes (512 + 512 * k) 512 d' = replicate 512 0" .
qed

text \<open>The table on a formatted device: every entry is free.\<close>

lemma formatted_table:
  fixes d :: "byte list"
  assumes t: "t = blocks_of sz div 10" "0 < t" "t < 2 ^ 23" and fits: "512 + 512 * t \<le> length d"
    and d': "d' = put_bytes 0 (encode_sb (format_sb sz) @ replicate (512 * t) 0) d"
    and info: "si_sb info = format_sb sz" "si_dev info = d'"
  shows "table_ok rb_ops info" "table rb_ops info = replicate (8 * t) zero_fe"
proof -
  let ?sb = "format_sb sz"
  have "blocks_of sz < 2 ^ 32" using t by simp
  note sbf = format_sb_fields [OF this]
  have ec: "entry_cnt info = 8 * t" using t by (simp add: entry_cnt_def info sbf)
  have len': "length d' = length d" using d' fits by simp
  have addr: "entry_addr ?sb i = 512 + 64 * i" for i
    by (simp add: entry_addr_def format_sb_def Let_def)
  have bd: "bd_block_size rb_ops = 512" by (simp add: rb_ops_def)
  have geom: "geom_ok 512 ?sb" using t by (simp add: geom_ok_def addr sbf)
  have read: "sb_bread rb_ops d' (slot_blk 512 ?sb i) = Some (replicate 512 0)" if "i < 8 * t" for i
  proof -
    have k: "i div 8 < t" using that by simp
    then have "unat (slot_blk 512 ?sb i) = 1 + i div 8"
      using t(3) by (simp add: slot_blk_def addr unat_of_nat del: of_nat_Suc)
    then show ?thesis
      using k fits len' formatted_reads(2) [OF fits d' wf_format_sb k]
      by (simp add: rb_ops_def rb_bread_eq algebra_simps)
  qed
  show "table_ok rb_ops info"
    using geom read ec by (simp add: table_ok_def bd info)
  have "entry rb_ops info i = zero_fe" if "i < 8 * t" for i
  proof -
    have "get_bytes (slot_off 512 ?sb i) 64 (replicate 512 (0::byte)) = replicate 64 0"
      using slot_off_gap [OF geom, of i] by (simp add: get_bytes_def)
    then show ?thesis using read [OF that] by (simp add: entry_def bd info Let_def decode_zeros)
  qed
  then show "table rb_ops info = replicate (8 * t) zero_fe"
    by (intro nth_equalityI) (simp_all add: ec)
qed

lemma mount_formatted:
  assumes len: "length d = unat sz" and p: "10 \<le> blocks_of sz" "blocks_of sz div 10 < 2 ^ 23"
    and d': "d' = put_bytes 0 (encode_sb (format_sb sz) @ replicate (512 * (blocks_of sz div 10)) 0) d"
    and mem: "\<And>n. \<exists>m. vmalloc n = Some m \<and> length m = unat n"
  obtains info u where "init_browsing rb_ops vmalloc (kzalloc_info d') = Some (0, info)"
    and "fs_inv rb_ops info" and "si_sb info = format_sb sz" and "si_used info = Obj u"
    and "length u = blocks_of sz"
    and "\<And>k. k < blocks_of sz \<Longrightarrow> u ! k = 0 \<longleftrightarrow> 1 + blocks_of sz div 10 \<le> k"
    and "table rb_ops info = replicate (8 * (blocks_of sz div 10)) zero_fe"
proof -
  let ?t = "blocks_of sz div 10" and ?sb = "format_sb sz" and ?p = "blocks_of sz"
  let ?info = "(kzalloc_info d')\<lparr>si_sb := ?sb\<rparr>" and ?T = "replicate (8 * (blocks_of sz div 10)) zero_fe"
  have p32: "blocks_of sz < 2 ^ 32" using p(2) by simp
  note sbf = format_sb_fields [OF p32]
  have t: "0 < ?t" using p(1) by simp
  have "512 * blocks_of sz \<le> length d" using len by (simp add: blocks_of_def)
  then have fits: "512 + 512 * ?t \<le> length d" using p(1) by simp
  have sb: "read_sb_from_real_sfs rb_ops (kzalloc_info d') = Some (Inr ?sb)"
    using fits formatted_reads(1) [OF fits d' wf_format_sb] d'
    by (simp add: read_sb_from_real_sfs_def kzalloc_info_def rb_ops_def rb_bread_eq get_bytes_def
        decode_encode_sb)
  have tab: "table_ok rb_ops ?info" "table rb_ops ?info = ?T"
    using formatted_table [OF refl t p(2) fits d', of ?info] by simp_all
  have own: "owned_blocks ?T = []" by (simp add: owned_blocks_def map_replicate_const)
  have cl: "clean_table (table rb_ops ?info) (unat (sb_data_block_start ?sb)) (unat (sb_partition_size ?sb))"
    by (simp add: tab clean_table_def clean_fe_def own)
  obtain m where m: "vmalloc (sb_partition_size ?sb) = Some m" "length m = unat (sb_partition_size ?sb)"
    using mem by blast
  have ty: "sb_type ?sb = SIMULA_FS_TYPE" by (simp add: format_sb_def Let_def)
  have d: "0 < unat (sb_data_block_start ?sb)"
    "unat (sb_data_block_start ?sb) \<le> unat (sb_partition_size ?sb)"
    "unat (sb_partition_size ?sb) \<le> 2 ^ 31"
    using p by (simp_all add: sbf)
  note init = rb.init_browsing_inv [where info = "kzalloc_info d'" and sb = ?sb and vmalloc = vmalloc,
      OF sb ty m tab(1) cl d]
  have dp: "1 + ?t \<le> ?p" using p(1) by simp
  show ?thesis
    by (rule that [OF init(1,2), where u = "mount_flags ?T (1 + ?t) ?p"])
      (use nth_mount_flags [OF dp, of _ ?T] length_mount_flags [OF dp, of ?T] init(3) tab(2)
        in \<open>auto simp: sbf own not_less [symmetric]\<close>)
qed

section \<open>Bounds\<close>

lemma format_addr: "entry_addr (format_sb sz) i = 512 + 64 * i"
  by (simp add: entry_addr_def format_sb_def Let_def)

lemma format_bounds:
  assumes p: "2 \<le> blocks_of sz" "blocks_of sz < 2 ^ 32" and i: "i < unat (sb_entry_count (format_sb sz))"
  shows "512 \<le> entry_addr (format_sb sz) i"
    and "entry_addr (format_sb sz) i + 64 \<le> 512 * unat (sb_data_block_start (format_sb sz))"
proof -
  note sbf = format_sb_fields [OF p(2)]
  have "blocks_of sz div 10 mod 2 ^ 23 \<le> blocks_of sz div 10" by (rule mod_less_eq_dividend)
  then have "i < 8 * (blocks_of sz div 10)" using i unfolding sbf by linarith
  then show "entry_addr (format_sb sz) i + 64 \<le> 512 * unat (sb_data_block_start (format_sb sz))"
    by (simp add: format_addr sbf)
qed (simp add: format_addr)

end
