(* ===== verification/Sfs_Sample.thy ===== *)
theory Sfs_Sample
  imports Sfs_Format Sfs_Vfs
begin

text \<open>
  A small disk of ten blocks behind the RAM-disk driver, as \<open>format_real_sfs.c\<close> leaves it, and
  the file system mounted on it: the input of the witnesses.
\<close>

definition sample_disk :: "byte list" where
  "sample_disk = put_bytes 0 (encode_sb (format_sb 5120) @ replicate 512 0) (replicate 5120 0)"

definition sample_inode :: vfs_inode where
  "sample_inode = \<lparr>i_ino = 1, i_size = 600, i_mode = 0x81B6, i_atime = 0, i_mtime = 7, i_ctime = 5,
     i_nlink = 1, i_sfs_ops = True\<rparr>"

definition zero_mem :: "u32 \<Rightarrow> byte list option" where
  "zero_mem n = Some (replicate (unat n) 0)"

lemma sample_sb:
  "unat (sb_partition_size (format_sb 5120)) = 10" "unat (sb_data_block_start (format_sb 5120)) = 2"
  "unat (sb_entry_count (format_sb 5120)) = 8" "unat (sb_block_size (format_sb 5120)) = 512"
proof -
  have b: "blocks_of 5120 = 10" by (simp add: blocks_of_def)
  show "unat (sb_partition_size (format_sb 5120)) = 10" "unat (sb_entry_count (format_sb 5120)) = 8"
    using format_sb_fields [of 5120] by (simp_all add: b)
  have "blocks_of 5120 < 2 ^ 32" by (simp add: b)
  from format_sb_fields(3) [OF this] show "unat (sb_data_block_start (format_sb 5120)) = 2"
    by (simp add: b)
  show "unat (sb_block_size (format_sb 5120)) = 512" by (simp add: format_sb_def Let_def)
qed

lemma sample_mount:
  obtains info u where "init_browsing rb_ops zero_mem (kzalloc_info sample_disk) = Some (0, info)"
    and "fs_inv rb_ops info" and "si_sb info = format_sb 5120" and "si_used info = Obj u"
    and "length u = 10" and "\<And>k. k < 10 \<Longrightarrow> u ! k = 0 \<longleftrightarrow> 2 \<le> k"
    and "table rb_ops info = replicate 8 zero_fe"
proof -
  have b: "blocks_of 5120 = 10" by (simp add: blocks_of_def)
  have m: "\<exists>m. zero_mem n = Some m \<and> length m = unat n" for n by (simp add: zero_mem_def)
  obtain info u where i: "init_browsing rb_ops zero_mem (kzalloc_info sample_disk) = Some (0, info)"
    "fs_inv rb_ops info" "si_sb info = format_sb 5120" "si_used info = Obj u"
    "length u = blocks_of 5120" "\<And>k. k < blocks_of 5120 \<Longrightarrow> u ! k = 0 \<longleftrightarrow> 1 + blocks_of 5120 div 10 \<le> k"
    "table rb_ops info = replicate (8 * (blocks_of 5120 div 10)) zero_fe"
    by (rule mount_formatted [of "replicate 5120 0" 5120 sample_disk zero_mem])
      (use m in \<open>simp_all add: b sample_disk_def\<close>)
  show ?thesis
    using i(5-7) by (intro that [OF i(1-4)]) (simp_all add: b numeral_2_eq_2)
qed

lemma sample_facts:
  obtains info u where "fs_inv rb_ops info" "table_ok rb_ops info" "names_ok (table rb_ops info)"
    and "used_ok info u" "entry_cnt info = 8" "table rb_ops info = replicate 8 zero_fe"
    and "unat (sb_block_size (si_sb info)) = 512" "data_start info = 2" "part_size info = 10"
    and "find (\<lambda>b. u ! b = 0) [data_start info..<part_size info] = Some 2"
    and "unat (sb_entry_count (si_sb info)) = 8"
proof -
  obtain info u where s: "fs_inv rb_ops info" "si_sb info = format_sb 5120" "si_used info = Obj u"
    "length u = 10" "\<And>k. k < 10 \<Longrightarrow> u ! k = 0 \<longleftrightarrow> 2 \<le> k" "table rb_ops info = replicate 8 zero_fe"
    by (rule sample_mount) blast
  have "find (\<lambda>b. u ! b = 0) [2..<10] = Some 2"
    using s(5) by (auto simp: upt_conv_Cons)
  moreover have "\<not> si_lock info" "table_ok rb_ops info" "names_ok (table rb_ops info)"
    using s(1) by (auto simp: fs_inv_def used_ok_def)
  ultimately show ?thesis
    using s sample_sb by (intro that [of info u]) (simp_all add: used_ok_def entry_cnt_def)
qed

lemmas rb_cache = rb.buffer_cache_axioms

lemma sample_super:
  "read_sb_from_real_sfs rb_ops (kzalloc_info sample_disk) = Some (Inr (format_sb 5120))"
proof -
  have "get_bytes 0 512 sample_disk = encode_sb (format_sb 5120)"
    using formatted_reads(1) [of 1 "replicate 5120 0" sample_disk "format_sb 5120"]
    by (simp add: sample_disk_def)
  moreover have "length sample_disk = 5120" by (simp add: sample_disk_def)
  ultimately show ?thesis
    by (simp add: read_sb_from_real_sfs_def rb_ops_def rb_bread_eq decode_encode_sb)
      (simp add: get_bytes_def decode_encode_sb)
qed

end
