(* ===== verification/Sfs_Properties.thy ===== *)
theory Sfs_Properties
  imports Sfs_Types Sfs_Concurrent Sfs_Sample
begin

text \<open>
  Properties of the file-system module: mounting, sequences of operations, formatting, and the
  allocation of blocks. The witnesses use the mounted disk of \<open>Sfs_Sample\<close>.
\<close>

section \<open>Mounting and running\<close>

text \<open>
  C1. Any sequence of creates, unlinks, block mappings and inode write-backs on a mounted file
  system: every call returns (no access outside an object, no lock left held), the super block
  stays, and the invariant holds afterwards: no block belongs to two files, every block of a file
  is a data block and is flagged as used.
\<close>

theorem fs_calls_safe:
  assumes "buffer_cache ops" "fs_inv ops info" "1 < unat (sb_block_size (si_sb info))"
    and "\<forall>c \<in> set cs. call_ok (si_sb info) c"
  shows "\<exists>rs info'. fs_calls ops cs info = Some (rs, info') \<and> length rs = length cs \<and>
    fs_inv ops info' \<and> si_sb info' = si_sb info"
  by (rule buffer_cache.fs_calls_inv [OF assms])

definition sample_calls :: "fs_call list" where
  "sample_calls = [FC_create [97] 0x1B6 1 (Some sample_inode), FC_block 1 0 True, FC_block 1 1 True,
     FC_write_inode sample_inode, FC_create [98] 0x1B6 2 None, FC_unlink [97] sample_inode]"

lemma fs_calls_safe_witness:
  "\<exists>info rs info'. fs_inv rb_ops info \<and> fs_calls rb_ops sample_calls info = Some (rs, info') \<and>
    length rs = 6 \<and> fs_inv rb_ops info'"
proof -
  obtain info where s: "fs_inv rb_ops info" "unat (sb_block_size (si_sb info)) = 512"
    "unat (sb_entry_count (si_sb info)) = 8" by (rule sample_facts) blast
  have "\<forall>c \<in> set sample_calls. call_ok (si_sb info) c"
    using s by (simp add: sample_calls_def sample_inode_def ino_ok_def)
  from fs_calls_safe [OF rb_cache s(1) _ this] s show ?thesis
    by (auto simp: sample_calls_def)
qed

text \<open>
  C2. Mounting a device with a valid super block and a table in which no block number before a
  zero is outside the partition: \<open>init_browsing\<close> succeeds, and the flags it computes are exactly
  those of the blocks before the data area and, for each entry in use, of the blocks before its
  first zero (blocks behind a hole, which \<open>sfs_get_block\<close> can leave, get no flag). When the table
  is clean (names are terminated, no file has a hole, free entries list no blocks, and the blocks of
  the files are distinct data blocks) these are the blocks the files refer to, and the invariant of
  C1 holds.
\<close>

theorem mount_establishes_invariant:
  fixes sb :: sfs_super_block
  assumes "buffer_cache ops" and "read_sb_from_real_sfs ops info = Some (Inr sb)"
    and "sb_type sb = SIMULA_FS_TYPE" and "vmalloc (sb_partition_size sb) = Some mem"
    and "length mem = unat (sb_partition_size sb)" and "table_ok ops (info\<lparr>si_sb := sb\<rparr>)"
    and "\<And>b. b \<in> set (flagged_blocks (table ops (info\<lparr>si_sb := sb\<rparr>))) \<Longrightarrow>
      unat b < unat (sb_partition_size sb)"
    and "0 < unat (sb_data_block_start sb)"
    and "unat (sb_data_block_start sb) \<le> unat (sb_partition_size sb)"
    and "unat (sb_partition_size sb) \<le> 2 ^ 31"
  shows "\<exists>info' u. init_browsing ops vmalloc info = Some (0, info') \<and>
    si_sb info' = sb \<and> si_used info' = Obj u \<and> length u = unat (sb_partition_size sb) \<and>
    (\<forall>k < length u. u ! k \<noteq> 0 \<longleftrightarrow> k < unat (sb_data_block_start sb) \<or>
      k \<in> unat ` set (flagged_blocks (table ops (info\<lparr>si_sb := sb\<rparr>)))) \<and>
    (clean_table (table ops (info\<lparr>si_sb := sb\<rparr>)) (unat (sb_data_block_start sb)) (unat (sb_partition_size sb)) \<longrightarrow>
      fs_inv ops info' \<and>
      flagged_blocks (table ops (info\<lparr>si_sb := sb\<rparr>)) = owned_blocks (table ops (info\<lparr>si_sb := sb\<rparr>)))"
proof -
  let ?d = "unat (sb_data_block_start sb)" and ?p = "unat (sb_partition_size sb)"
  let ?t = "table ops (info\<lparr>si_sb := sb\<rparr>)"
  let ?u = "set_flags (flagged_blocks ?t) (replicate ?d 1 @ replicate (?p - ?d) 0)"
  let ?info' = "info\<lparr>si_sb := sb, si_registered := True, si_lock := False, si_used := Obj ?u\<rparr>"
  have init: "init_browsing ops vmalloc info = Some (0, ?info')"
    by (rule buffer_cache.init_browsing_flags [where ops = ops and info = info and sb = sb and
        vmalloc = vmalloc and mem = mem, OF assms(1-5,9,10) refl refl assms(6,7)])
  have flags: "?u ! k \<noteq> 0 \<longleftrightarrow> k < ?d \<or> k \<in> unat ` set (flagged_blocks ?t)" if "k < length ?u" for k
    using that assms(9) by (simp add: nth_set_flags nth_append)
  have same: "flagged_blocks ?t = owned_blocks ?t" if "clean_table ?t ?d ?p"
    using that by (simp add: clean_flagged clean_table_def)
  have inv: "fs_inv ops ?info'" if cl: "clean_table ?t ?d ?p"
    using buffer_cache.init_browsing_inv(1,2) [where ops = ops and info = info and sb = sb and
        vmalloc = vmalloc and mem = mem, OF assms(1-6) cl assms(8-10)] init
    by simp
  show ?thesis
    by (intro exI [of _ ?info'] exI [of _ ?u] conjI impI; (erule inv same | rule init)?)
      (use flags assms(9) in simp_all)
qed

lemma mount_establishes_invariant_witness:
  "\<exists>info' u. init_browsing rb_ops zero_mem (kzalloc_info sample_disk) = Some (0, info') \<and>
    fs_inv rb_ops info' \<and> si_used info' = Obj u \<and> u ! 1 \<noteq> 0 \<and> u ! 2 = 0"
proof -
  obtain info u where s: "init_browsing rb_ops zero_mem (kzalloc_info sample_disk) = Some (0, info)"
    "fs_inv rb_ops info" "si_sb info = format_sb 5120" "table rb_ops info = replicate 8 zero_fe"
    by (rule sample_mount) blast
  let ?k = "(kzalloc_info sample_disk)\<lparr>si_sb := format_sb 5120\<rparr>"
  have dev: "si_dev info = sample_disk"
    using s(1) by (auto simp: init_browsing_def Let_def sample_super zero_mem_def
        split: Option.bind_splits sum.splits if_splits)
  have t: "table rb_ops ?k = table rb_ops info" "table_ok rb_ops ?k = table_ok rb_ops info"
    using s(3) dev by (simp_all add: table_def entry_def entry_cnt_def table_ok_def)
  have o: "owned_blocks (replicate 8 zero_fe) = []"
    by (simp add: owned_blocks_def map_replicate_const)
  have cl: "clean_table (replicate 8 zero_fe) 2 10"
    by (simp add: clean_table_def clean_fe_def o)
  have ok: "table_ok rb_ops info" using s(2) by (simp add: fs_inv_def)
  have ty: "sb_type (format_sb 5120) = SIMULA_FS_TYPE" by (simp add: format_sb_def Let_def)
  have f: "flagged_blocks (replicate 8 zero_fe) = []"
    using cl o by (simp add: clean_flagged clean_table_def)
  have "\<exists>info' u. init_browsing rb_ops zero_mem (kzalloc_info sample_disk) = Some (0, info') \<and>
      si_sb info' = format_sb 5120 \<and> si_used info' = Obj u \<and>
      length u = unat (sb_partition_size (format_sb 5120)) \<and>
      (\<forall>k < length u. u ! k \<noteq> 0 \<longleftrightarrow> k < unat (sb_data_block_start (format_sb 5120)) \<or>
        k \<in> unat ` set (flagged_blocks (table rb_ops ?k))) \<and>
      (clean_table (table rb_ops ?k) (unat (sb_data_block_start (format_sb 5120)))
          (unat (sb_partition_size (format_sb 5120))) \<longrightarrow>
        fs_inv rb_ops info' \<and> flagged_blocks (table rb_ops ?k) = owned_blocks (table rb_ops ?k))"
    by (rule mount_establishes_invariant [OF rb_cache sample_super ty,
          where mem = "replicate (unat (sb_partition_size (format_sb 5120))) 0"])
      (simp_all add: zero_mem_def t s(4) ok sample_sb f)
  then obtain info' u where i: "init_browsing rb_ops zero_mem (kzalloc_info sample_disk) = Some (0, info')"
    "fs_inv rb_ops info'" "si_used info' = Obj u" "length u = 10"
    and u: "\<And>k. k < length u \<Longrightarrow> u ! k \<noteq> 0 \<longleftrightarrow> k < 2"
    by (auto simp: t s(4) sample_sb o f cl)
  have "u ! 1 \<noteq> 0" "u ! 2 = 0" using u [of 1] u [of 2] i(4) by auto
  then show ?thesis using i by blast
qed

text \<open>
  C3. Formatting a device and mounting it: \<open>format_real_sfs\<close> exits with 0, and the module then
  mounts what it wrote, with one tenth of the blocks holding the entry table, all entries free,
  and every block after the table free.
\<close>

theorem format_then_mount:
  assumes "length (fh_data h) = unat sz" "fh_pos h = 0" "length stack = 512"
    and "10 \<le> blocks_of sz" "blocks_of sz div 10 < 2 ^ 23"
    and "\<And>n. \<exists>m. vmalloc n = Some m \<and> length m = unat n"
  shows "\<exists>h' info u. format_main 2 (Some h) (Some sz) stack = Some (0, Some h') \<and>
    init_browsing rb_ops vmalloc (kzalloc_info (fh_data h')) = Some (0, info) \<and>
    fs_inv rb_ops info \<and> table rb_ops info = replicate (8 * (blocks_of sz div 10)) zero_fe \<and>
    si_used info = Obj u \<and> length u = blocks_of sz \<and>
    (\<forall>k < blocks_of sz. u ! k = 0 \<longleftrightarrow> 1 + blocks_of sz div 10 \<le> k)"
proof -
  have b: "0 < blocks_of sz" "blocks_of sz < 2 ^ 32" using assms(4,5) by simp_all
  obtain h' where h: "format_main 2 (Some h) (Some sz) stack = Some (0, Some h')"
    "fh_data h' = put_bytes 0 (encode_sb (format_sb sz) @ replicate (512 * (blocks_of sz div 10)) 0)
      (fh_data h)"
    using format_main_eq [OF assms(1-3) b] by blast
  from mount_formatted [OF assms(1,4,5) h(2) assms(6)] h(1) show ?thesis by metis
qed

lemma format_then_mount_witness:
  "\<exists>h' info. format_main 2 (Some \<lparr>fh_data = replicate 5120 7, fh_pos = 0, fh_fixed = True\<rparr>) (Some 5120)
      (replicate 512 9) = Some (0, Some h') \<and>
    init_browsing rb_ops zero_mem (kzalloc_info (fh_data h')) = Some (0, info) \<and> fs_inv rb_ops info"
proof -
  have b: "blocks_of 5120 = 10" by (simp add: blocks_of_def)
  show ?thesis
    using format_then_mount [of "\<lparr>fh_data = replicate 5120 7, fh_pos = 0, fh_fixed = True\<rparr>" 5120 "replicate 512 9" zero_mem]
    by (auto simp: b zero_mem_def)
qed

text \<open>
  C7. What \<open>format_real_sfs\<close> puts in the super block of a device of \<open>sz\<close> bytes, below 2 TiB: every
  entry lies between the super block and the data area, and every data block in the device. The
  number of entries is that of the table only up to \<open>2 ^ 23 - 1\<close> table blocks: the 32-bit product
  wraps, and a device of 40 GiB has no entry at all.
\<close>

theorem format_geometry:
  assumes "2 \<le> blocks_of sz" "blocks_of sz < 2 ^ 32"
  shows "(\<forall>i < unat (sb_entry_count (format_sb sz)). 512 \<le> entry_addr (format_sb sz) i \<and>
      entry_addr (format_sb sz) i + 64 \<le> 512 * unat (sb_data_block_start (format_sb sz))) \<and>
    unat (sb_data_block_start (format_sb sz)) < unat (sb_partition_size (format_sb sz)) \<and>
    512 * unat (sb_partition_size (format_sb sz)) \<le> unat sz \<and>
    unat (sb_entry_count (format_sb sz)) = 8 * (unat (sb_entry_table_size (format_sb sz)) mod 2 ^ 23) \<and>
    unat (sb_entry_table_size (format_sb sz)) = unat (sb_partition_size (format_sb sz)) div 10"
proof -
  have "1 + blocks_of sz div 10 < blocks_of sz" "512 * blocks_of sz \<le> unat sz"
    using assms(1) by (simp_all add: blocks_of_def)
  then show ?thesis using format_bounds [OF assms] by (simp add: format_sb_fields(1-4) [OF assms(2)])
qed

lemma format_geometry_witness:
  "unat (sb_entry_table_size (format_sb 42949672960)) = 2 ^ 23 \<and>
   unat (sb_entry_count (format_sb 42949672960)) = 0"
proof -
  have b: "blocks_of 42949672960 = 83886080" by (simp add: blocks_of_def)
  have "2 \<le> blocks_of 42949672960" "blocks_of 42949672960 < 2 ^ 32" by (simp_all add: b)
  then have "unat (sb_entry_table_size (format_sb 42949672960)) = 2 ^ 23"
    using format_sb_fields(2) [of 42949672960] by (simp add: b)
  with format_geometry [of 42949672960] show ?thesis by (simp add: b)
qed

section \<open>The types of the fields\<close>

text \<open>
  C6. No sequence of creates, unlinks, block mappings and inode write-backs breaks the types of the
  table's fields: names and block arrays keep their lengths, names of files are terminated, block
  numbers are zero or of the data area, and permissions have three bits, so that the mode of an
  inode made from an entry is that of a regular file and gives exactly these permissions back.
\<close>

theorem calls_keep_types:
  assumes "buffer_cache ops" "fs_inv ops info" "1 < unat (sb_block_size (si_sb info))"
    and "\<forall>c \<in> set cs. call_ok (si_sb info) c" "typed_table ops info"
  shows "\<exists>rs info'. fs_calls ops cs info = Some (rs, info') \<and> typed_table ops info' \<and>
    (\<forall>fe \<in> set (table ops info'). S_ISREG (mode_of_perms (fe_perms fe)) \<and>
       perms_of_mode (mode_of_perms (fe_perms fe)) = uint (fe_perms fe))"
  using buffer_cache.fs_calls_typed [OF assms] typed_modes by blast

lemma calls_keep_types_witness:
  "\<exists>info rs info'. fs_calls rb_ops sample_calls info = Some (rs, info') \<and> typed_table rb_ops info'"
proof -
  obtain info where s: "fs_inv rb_ops info" "unat (sb_block_size (si_sb info)) = 512"
    "unat (sb_entry_count (si_sb info)) = 8" "table rb_ops info = replicate 8 zero_fe"
    by (rule sample_facts) blast
  have "\<forall>c \<in> set sample_calls. call_ok (si_sb info) c"
    using s by (simp add: sample_calls_def sample_inode_def ino_ok_def)
  moreover have "typed_table rb_ops info"
    using typed_perms [OF rb_cache s(1)] by (simp add: s(4) zero_fe_def)
  moreover have "1 < unat (sb_block_size (si_sb info))" by (simp add: s(2))
  ultimately show ?thesis using calls_keep_types [OF rb_cache s(1)] by blast
qed

section \<open>Allocating blocks\<close>

text \<open>
  C4. Threads that allocate and free data blocks at the same time, interleaved in any way: no
  block is ever held by two of them, and a block held is a data block whose flag is set. A thread is
  taken to free only blocks that it holds.
\<close>

theorem no_block_twice:
  assumes "alloc_reach lo hi (alloc_init u) s" "hi \<le> length u" "t \<noteq> t'"
  shows "c_own s t \<inter> c_own s t' = {} \<and> (\<forall>i \<in> c_own s t. lo \<le> i \<and> i < hi \<and> c_used s ! i \<noteq> 0)"
proof -
  have b: "block_inv lo hi s"
    using alloc_reach_inv [OF assms(1) alloc_init_inv [OF assms(2)]] by (simp add: alloc_inv_def)
  show ?thesis
    using block_invD(1) [OF b assms(3)] block_invD(3) [OF b, of _ t] by (auto simp: holds_def)
qed

lemma no_block_twice_witness:
  "\<exists>s. alloc_reach 1 3 (alloc_init [1, 0, 0]) s \<and> c_own s 0 = {1} \<and> c_own s 1 = {2} \<and>
    c_own s 0 \<inter> c_own s 1 = {} \<and> c_used s ! 2 \<noteq> 0"
proof -
  let ?s1 = "run_get 1 3 0 (alloc_init [1, 0, 0])" and ?s2 = "run_get 1 3 1 (run_get 1 3 0 (alloc_init [1, 0, 0]))"
  have f1: "find (\<lambda>i. c_used (alloc_init [1, 0, 0]) ! i = 0) [1..<3] = Some 1"
    by (simp add: alloc_init_def upt_conv_Cons)
  have s1: "?s1 = (alloc_init [1, 0, 0])\<lparr>c_used := [1, 1, 0], c_own := (\<lambda>_. {})(0 := {1})\<rparr>"
    unfolding run_get_def f1 by (simp add: alloc_init_def)
  have own: "c_own ?s2 0 = {1}" "c_own ?s2 1 = {2}"
    unfolding run_get_def [of 1 3 1] s1 by (simp_all add: alloc_init_def upt_conv_Cons)
  have "alloc_reach 1 3 (alloc_init [1, 0, 0]) ?s1"
    by (rule run_get_reach) (simp_all add: alloc_init_def)
  moreover have "alloc_reach 1 3 ?s1 ?s2"
  proof (rule run_get_reach)
    show "c_pc ?s1 1 = Idle" "c_lock ?s1 = None" unfolding s1 by (simp_all add: alloc_init_def)
  qed simp
  ultimately have r: "alloc_reach 1 3 (alloc_init [1, 0, 0]) ?s2" by (blast intro: alloc_reach_trans)
  have d: "c_own ?s2 0 \<inter> c_own ?s2 1 = {}" using no_block_twice [OF r, of 0 1] by simp
  have "c_used ?s2 ! 2 \<noteq> 0"
    using no_block_twice [OF r, of 1 0] own by simp
  then show ?thesis using r own d by blast
qed

text \<open>
  C5. A call of \<open>sfs_get_data_block\<close> on an unlocked file system is a run of the steps of C4 by one
  thread: the flags it leaves are those of a reachable state, in which the thread holds the block
  that the call returns, or nothing new when it returns -1.
\<close>

theorem get_data_block_refines:
  assumes "used_ok info u" "c_used s = u" "c_pc s t = Idle" "c_lock s = None"
    and "data_start info \<le> part_size info"
  shows "\<exists>ret s'. sfs_get_data_block info = Some (ret, info\<lparr>si_used := Obj (c_used s')\<rparr>) \<and>
    alloc_reach (data_start info) (part_size info) s s' \<and>
    c_own s' t = (if ret = -1 then c_own s t else insert (nat ret) (c_own s t))"
proof -
  let ?s = "run_get (data_start info) (part_size info) t s"
  have "alloc_reach (data_start info) (part_size info) s ?s"
    by (rule run_get_reach [OF assms(3-5)])
  moreover note run_get_sequential [OF assms(1,2), of t]
  moreover have "c_own ?s t = (if (case find (\<lambda>i. u ! i = 0) [data_start info..<part_size info] of
      Some i \<Rightarrow> int i | None \<Rightarrow> -1) = -1 then c_own s t
    else insert (nat (case find (\<lambda>i. u ! i = 0) [data_start info..<part_size info] of
      Some i \<Rightarrow> int i | None \<Rightarrow> -1)) (c_own s t))"
    using assms(2) by (auto simp: run_get_def split: option.split)
  ultimately show ?thesis by blast
qed

lemma get_data_block_refines_witness:
  "\<exists>info u ret s'. used_ok info u \<and>
    sfs_get_data_block (info :: byte list sfs_info) = Some (ret, info\<lparr>si_used := Obj (c_used s')\<rparr>) \<and>
    alloc_reach 2 10 (alloc_init u) s' \<and> c_own s' 4 = (if ret = -1 then {} else {nat ret})"
proof -
  obtain info :: "byte list sfs_info" and u where s: "used_ok info u" "data_start info = 2" "part_size info = 10"
    by (rule sample_facts) blast
  have i: "c_used (alloc_init u) = u" "c_pc (alloc_init u) 4 = Idle" "c_lock (alloc_init u) = None"
    "c_own (alloc_init u) 4 = {}" by (simp_all add: alloc_init_def)
  have le: "data_start info \<le> part_size info" using s(2,3) by simp
  show ?thesis
    using get_data_block_refines [OF s(1) i(1-3) le] s(1) unfolding s(2,3) i(4) by metis
qed

text \<open>
  \<open>sfs_get_data_block\<close> gives the first free data block and flags it, or -1 when there is none;
  \<open>sfs_put_data_block\<close> of that block restores the flags.
\<close>

theorem get_data_block_first:
  assumes "used_ok info u"
  shows "\<exists>r info'. sfs_get_data_block info = Some (r, info') \<and>
    (r = -1 \<and> info' = info \<and> (\<forall>k. data_start info \<le> k \<and> k < part_size info \<longrightarrow> u ! k \<noteq> 0) \<or>
     (\<exists>i. r = int i \<and> data_start info \<le> i \<and> i < part_size info \<and> u ! i = 0 \<and>
       (\<forall>k. data_start info \<le> k \<and> k < i \<longrightarrow> u ! k \<noteq> 0) \<and> used_ok info' (u[i := 1]) \<and>
       sfs_put_data_block info' (word_of_int r) = Some info))"
proof (cases "find (\<lambda>i. u ! i = 0) [data_start info..<part_size info]")
  case None
  then have "sfs_get_data_block info = Some (-1, info)"
    using get_data_block_eq [OF assms] by simp
  moreover have "\<forall>k. data_start info \<le> k \<and> k < part_size info \<longrightarrow> u ! k \<noteq> 0"
    using None by (auto simp: find_None_iff)
  ultimately show ?thesis by blast
next
  case (Some i)
  have i: "data_start info \<le> i" "i < part_size info" "u ! i = 0"
    "\<forall>k. data_start info \<le> k \<and> k < i \<longrightarrow> u ! k \<noteq> 0"
  proof -
    obtain j where j: "j < part_size info - data_start info" "i = data_start info + j" "u ! i = 0"
      "\<forall>k < j. u ! (data_start info + k) \<noteq> 0"
      using Some by (auto simp: find_Some_iff)
    then show "data_start info \<le> i" "i < part_size info" "u ! i = 0" by simp_all
    show "\<forall>k. data_start info \<le> k \<and> k < i \<longrightarrow> u ! k \<noteq> 0"
    proof (intro allI impI)
      fix k assume "data_start info \<le> k \<and> k < i"
      then have "k - data_start info < j" "data_start info + (k - data_start info) = k"
        using j(2) by linarith+
      then show "u ! k \<noteq> 0" using j(4) by metis
    qed
  qed
  let ?info = "info\<lparr>si_used := Obj (u[i := 1])\<rparr>"
  have ok: "used_ok ?info (u[i := 1])" using assms by simp
  have len: "i < length u" "i < 2 ^ 31" using assms i(2) by (simp_all add: used_ok_def)
  then have "unat (of_nat i :: u32) = i" by (simp add: unat_of_nat)
  then have "sfs_put_data_block ?info (word_of_int (int i)) = Some (?info\<lparr>si_used := Obj (u[i := 1, i := 0])\<rparr>)"
    using put_data_block_eq [OF ok, of "of_nat i"] len by simp
  moreover have "u[i := 0] = u" using i(3) by (metis list_update_id)
  moreover have "info\<lparr>si_used := Obj u\<rparr> = info" using assms by (cases info) (simp add: used_ok_def)
  ultimately have "sfs_put_data_block ?info (word_of_int (int i)) = Some info" by simp
  then show ?thesis
    using get_data_block_eq [OF assms] Some i ok by auto
qed

end
