(* ===== verification/Kernel_Pages.thy ===== *)
theory Kernel_Pages
  imports Prelude
begin

text \<open>
  What the kernel does with a \<open>get_block\<close> function it is given, as \<open>mpage_readpage\<close>,
  \<open>block_write_begin\<close>, \<open>generic_write_end\<close> and \<open>block_write_full_page\<close> document it. None of this is
  code of the repository: the module only passes its \<open>sfs_get_block\<close> to these functions. They are
  stated for any \<open>get_block\<close>, over a state \<open>'s\<close> with functions that read (\<open>rd\<close>) and write (\<open>wr\<close>) a
  block of the device, where \<open>None\<close> is an I/O error. \<open>bs\<close> is the block size, \<open>isz\<close> the size of the file
  (\<open>i_size\<close>), and a page is given by the positions of its blocks in the file.
\<close>

text \<open>
  A call for a position, with the \<open>create\<close> argument: the result, and how it has left the buffer
  (if mapped, the block, and whether it is marked as new).
\<close>

type_synonym 's get_block = "nat \<Rightarrow> bool \<Rightarrow> 's \<Rightarrow> (int \<times> 's \<times> (u32 \<times> bool) option) option"

section \<open>Reading\<close>

text \<open>
  Blocks behind the end of the file are zeros; one that is not mapped or not read is an error of
  the page, which a reader gets as \<open>-EIO\<close>.
\<close>

fun mpage_readpage ::
  "nat \<Rightarrow> ('s \<Rightarrow> u32 \<Rightarrow> byte list option) \<Rightarrow> 's get_block \<Rightarrow> nat \<Rightarrow> nat list \<Rightarrow> 's \<Rightarrow>
   ((int + byte list) \<times> 's) option" where
  "mpage_readpage bs rd gb isz [] s = Some (Inr [], s)"
| "mpage_readpage bs rd gb isz (k # ks) s =
     (if isz \<le> k * bs then do {
        (r, s) \<leftarrow> mpage_readpage bs rd gb isz ks s;
        Some (map_sum id ((@) (replicate bs 0)) r, s)
      }
      else do {
        (ret, s, m) \<leftarrow> gb k False s;
        if ret \<noteq> 0 then Some (Inl (- EIO), s)
        else do {
          (b, _) \<leftarrow> m;
          (case rd s b of
             None \<Rightarrow> Some (Inl (- EIO), s)
           | Some x \<Rightarrow> do {
               (r, s) \<leftarrow> mpage_readpage bs rd gb isz ks s;
               Some (map_sum id ((@) x) r, s)
             })
        }
      })"

section \<open>Writing into the page\<close>

text \<open>
  A write of \<open>xs\<close> at \<open>off\<close> in the block at position \<open>k\<close>, for several blocks. Before the data is copied
  every block is mapped; then a block that is not written whole is cleared if its buffer is new,
  and read otherwise.
\<close>

type_synonym piece = "nat \<times> nat \<times> byte list"

text \<open>A buffer of the page: its position, the block it is mapped to, and its bytes.\<close>

type_synonym buffer = "nat \<times> u32 option \<times> byte list"

fun map_pieces :: "'s get_block \<Rightarrow> nat list \<Rightarrow> 's \<Rightarrow> (int \<times> 's \<times> (u32 \<times> bool) list) option" where
  "map_pieces gb [] s = Some (0, s, [])"
| "map_pieces gb (k # ks) s = do {
     (ret, s, m) \<leftarrow> gb k True s;
     if ret \<noteq> 0 then Some (ret, s, [])
     else do {
       b \<leftarrow> m;
       (ret, s, bs) \<leftarrow> map_pieces gb ks s;
       Some (ret, s, b # bs)
     }
   }"

fun fill_buffers ::
  "nat \<Rightarrow> (u32 \<Rightarrow> byte list option) \<Rightarrow> piece list \<Rightarrow> (u32 \<times> bool) list \<Rightarrow> buffer list option" where
  "fill_buffers bs rd ((k, off, xs) # ds) ((b, new) # ms) = do {
     x \<leftarrow> (if new \<or> length xs = bs then Some (replicate bs 0) else rd b);
     bufs \<leftarrow> fill_buffers bs rd ds ms;
     Some ((k, Some b, x) # bufs)
   }"
| "fill_buffers bs rd _ _ = Some []"

definition block_write_begin ::
  "nat \<Rightarrow> ('s \<Rightarrow> u32 \<Rightarrow> byte list option) \<Rightarrow> 's get_block \<Rightarrow> piece list \<Rightarrow> 's \<Rightarrow>
   (int \<times> 's \<times> buffer list) option" where
  "block_write_begin bs rd gb ds s = do {
     (ret, s, ms) \<leftarrow> map_pieces gb (map fst ds) s;
     if ret \<noteq> 0 then Some (ret, s, [])
     else (case fill_buffers bs (rd s) ds ms of
             None \<Rightarrow> Some (- EIO, s, [])
           | Some bufs \<Rightarrow> Some (0, s, bufs))
   }"

text \<open>The data is copied into the buffers, and the file grows to the end of the last piece.\<close>

definition copy_in :: "piece list \<Rightarrow> buffer list \<Rightarrow> buffer list" where
  "copy_in ds bufs = map2 (\<lambda>(k, off, xs) (k', m, x). (k', m, put_bytes off xs x)) ds bufs"

fun size_after :: "nat \<Rightarrow> nat \<Rightarrow> piece list \<Rightarrow> nat" where
  "size_after bs isz [] = isz"
| "size_after bs isz ((k, off, xs) # ds) = size_after bs (max isz (k * bs + off + length xs)) ds"

section \<open>Writing the page out\<close>

text \<open>
  Dirty buffers behind the end of the file are left out, the bytes behind the end of the file in
  the others are cleared, and those that are not mapped yet are mapped.
\<close>

definition cut_page :: "nat \<Rightarrow> nat \<Rightarrow> nat \<Rightarrow> byte list \<Rightarrow> byte list" where
  "cut_page bs isz k x = take (isz - k * bs) x @ replicate (bs - (isz - k * bs)) 0"

fun map_buffers ::
  "nat \<Rightarrow> 's get_block \<Rightarrow> nat \<Rightarrow> buffer list \<Rightarrow> 's \<Rightarrow> (int \<times> 's \<times> (u32 \<times> byte list) list) option" where
  "map_buffers bs gb isz [] s = Some (0, s, [])"
| "map_buffers bs gb isz ((k, m, x) # bufs) s =
     (if isz \<le> k * bs then map_buffers bs gb isz bufs s
      else do {
        (ret, s, m) \<leftarrow> (case m of
            Some b \<Rightarrow> Some (0, s, Some b)
          | None \<Rightarrow> do { (ret, s, m) \<leftarrow> gb k True s; Some (ret, s, map_option fst m) });
        if ret \<noteq> 0 then Some (ret, s, [])
        else do {
          b \<leftarrow> m;
          (ret, s, ws) \<leftarrow> map_buffers bs gb isz bufs s;
          Some (ret, s, (b, cut_page bs isz k x) # ws)
        }
      })"

fun submit_buffers :: "(u32 \<Rightarrow> byte list \<Rightarrow> 's \<Rightarrow> 's option) \<Rightarrow> (u32 \<times> byte list) list \<Rightarrow> 's \<Rightarrow> 's option" where
  "submit_buffers wr [] s = Some s"
| "submit_buffers wr ((b, x) # ws) s = do { s \<leftarrow> wr b x s; submit_buffers wr ws s }"

definition block_write_full_page ::
  "nat \<Rightarrow> (u32 \<Rightarrow> byte list \<Rightarrow> 's \<Rightarrow> 's option) \<Rightarrow> 's get_block \<Rightarrow> nat \<Rightarrow> buffer list \<Rightarrow> 's \<Rightarrow>
   (int \<times> 's) option" where
  "block_write_full_page bs wr gb isz bufs s = do {
     (ret, s, ws) \<leftarrow> map_buffers bs gb isz bufs s;
     if ret \<noteq> 0 then Some (ret, s)
     else (case submit_buffers wr ws s of
             None \<Rightarrow> Some (- EIO, s)
           | Some s \<Rightarrow> Some (0, s))
   }"

section \<open>Facts\<close>

lemma size_after_ge: "isz \<le> size_after bs isz ds"
proof (induction bs isz ds rule: size_after.induct)
  case (2 bs isz k off xs ds)
  then show ?case by simp
qed simp

lemma size_after_piece: "(k, off, xs) \<in> set ds \<Longrightarrow> k * bs + off + length xs \<le> size_after bs isz ds"
proof (induction bs isz ds rule: size_after.induct)
  case (2 bs isz k' off' xs' ds)
  then show ?case
    using size_after_ge [of "max isz (k' * bs + off' + length xs')" bs ds] by auto
qed simp

lemma cut_page_whole: "length x = bs \<Longrightarrow> k * bs + bs \<le> isz \<Longrightarrow> cut_page bs isz k x = x"
  by (simp add: cut_page_def)

lemma length_cut_page [simp]: "length x = bs \<Longrightarrow> length (cut_page bs isz k x) = bs"
  by (simp add: cut_page_def)

end
