(* ===== verification/Sfs_Pages.thy ===== *)
theory Sfs_Pages
  imports Sfs_Vfs_Facts Kernel_Pages
begin

text \<open>
  File data: the address-space operations of the module (\<open>sfs_readpage\<close>, \<open>sfs_write_begin\<close>,
  \<open>sfs_writepage\<close> of \<open>7_nov12/RealSFSInAction/real_sfs.c\<close>). Each hands \<open>sfs_get_block\<close> to one of the
  kernel's page functions of \<open>Kernel_Pages\<close>, which call it for the blocks of the page and move the
  data of the blocks it maps. The device has the block size of the file system, so that a mapped
  block is a block of the device.
\<close>

section \<open>The operations\<close>

text \<open>
  \<open>sfs_get_block\<close> as the kernel sees it: \<open>map_bh(bh_result, sb, phys)\<close> enters the block in the
  buffer and does not mark the buffer as new, also when the block has just been allocated.
\<close>

definition sfs_get_block_bh :: "'d bdev_ops \<Rightarrow> int \<Rightarrow> 'd sfs_info get_block" where
  "sfs_get_block_bh ops ino iblock create info = do {
     (ret, info, m) \<leftarrow> sfs_get_block ops info ino iblock create;
     Some (ret, info, map_option (\<lambda>phys. (phys, False)) m)
   }"

definition dev_read :: "'d bdev_ops \<Rightarrow> 'd sfs_info \<Rightarrow> u32 \<Rightarrow> byte list option" where
  "dev_read ops info b = sb_bread ops (si_dev info) b"

definition dev_write :: "'d bdev_ops \<Rightarrow> u32 \<Rightarrow> byte list \<Rightarrow> 'd sfs_info \<Rightarrow> 'd sfs_info option" where
  "dev_write ops b x info =
     (if sb_bread ops (si_dev info) b = None then None
      else Some (info\<lparr>si_dev := bh_write ops (si_dev info) b 0 x\<rparr>))"

abbreviation blk_size :: "'d bdev_ops \<Rightarrow> nat" where
  "blk_size ops \<equiv> unat (bd_block_size ops)"

definition sfs_readpage ::
  "'d bdev_ops \<Rightarrow> nat \<Rightarrow> 'd sfs_info \<Rightarrow> int \<Rightarrow> nat list \<Rightarrow> ((int + byte list) \<times> 'd sfs_info) option" where
  "sfs_readpage ops isz info ino ks =
     mpage_readpage (blk_size ops) (dev_read ops) (sfs_get_block_bh ops ino) isz ks info"

definition sfs_write_begin ::
  "'d bdev_ops \<Rightarrow> 'd sfs_info \<Rightarrow> int \<Rightarrow> piece list \<Rightarrow> (int \<times> 'd sfs_info \<times> buffer list) option" where
  "sfs_write_begin ops info ino ds =
     block_write_begin (blk_size ops) (dev_read ops) (sfs_get_block_bh ops ino) ds info"

definition sfs_writepage ::
  "'d bdev_ops \<Rightarrow> nat \<Rightarrow> 'd sfs_info \<Rightarrow> int \<Rightarrow> buffer list \<Rightarrow> (int \<times> 'd sfs_info) option" where
  "sfs_writepage ops isz info ino bufs =
     block_write_full_page (blk_size ops) (dev_write ops) (sfs_get_block_bh ops ino) isz bufs info"

text \<open>
  A \<open>write\<close> of the pieces \<open>ds\<close> to a file of size \<open>isz\<close> (\<open>write_begin\<close>, the copy, and \<open>write_end\<close>,
  which is the kernel's \<open>generic_write_end\<close>), and the page written back later.
\<close>

definition write_page ::
  "'d bdev_ops \<Rightarrow> nat \<Rightarrow> 'd sfs_info \<Rightarrow> int \<Rightarrow> piece list \<Rightarrow> (int \<times> 'd sfs_info) option" where
  "write_page ops isz info ino ds = do {
     (ret, info, bufs) \<leftarrow> sfs_write_begin ops info ino ds;
     if ret < 0 then Some (ret, info)
     else sfs_writepage ops (size_after (blk_size ops) isz ds) info ino (copy_in ds bufs)
   }"

section \<open>The data area\<close>

text \<open>
  The device's block size is that of the file system, the table ends before the data area, and
  every data block can be read.
\<close>

definition data_ok :: "'d bdev_ops \<Rightarrow> 'd sfs_info \<Rightarrow> bool" where
  "data_ok ops info \<longleftrightarrow> bd_block_size ops = sb_block_size (si_sb info) \<and>
     entry_addr (si_sb info) (entry_cnt info) \<le> data_start info * unat (sb_block_size (si_sb info)) \<and>
     (\<forall>b. data_start info \<le> unat b \<and> unat b < part_size info \<longrightarrow> sb_bread ops (si_dev info) b \<noteq> None)"

lemma slot_blk_below_data:
  assumes g: "geom_ok (bd_block_size ops) (si_sb info)" and d: "data_ok ops info" and i: "i < entry_cnt info"
  shows "unat (slot_blk (bd_block_size ops) (si_sb info) i) < data_start info"
proof -
  let ?bd = "unat (bd_block_size ops)" and ?a = "entry_addr (si_sb info)"
  have bd: "0 < ?bd" using g by (simp add: geom_ok_def)
  have "?a i < ?a (entry_cnt info)" using i by (simp add: entry_addr_def)
  also have "\<dots> \<le> data_start info * ?bd" using d by (simp add: data_ok_def)
  finally have l: "?a i div ?bd < data_start info" using bd by (simp add: less_mult_imp_div_less)
  then have "?a i div ?bd < 2 ^ 32" using unat32_less [of "sb_data_block_start (si_sb info)"] by simp
  then show ?thesis using l by (simp add: slot_blk_def unat_of_nat)
qed

text \<open>Two states whose devices agree on the table have the same table.\<close>

lemma table_cong_dev:
  assumes "\<And>i. i < entry_cnt info \<Longrightarrow>
      sb_bread ops d (slot_blk (bd_block_size ops) (si_sb info) i) =
      sb_bread ops (si_dev info) (slot_blk (bd_block_size ops) (si_sb info) i)"
  shows "table ops (info\<lparr>si_dev := d\<rparr>) = table ops info"
    and "table_ok ops (info\<lparr>si_dev := d\<rparr>) = table_ok ops info"
  using assms by (auto simp: table_def entry_def table_ok_def)

lemma write_entry_dev:
  assumes g: "geom_ok (bd_block_size ops) (si_sb info)" and i: "i < entry_cnt info"
    and w: "write_entry ops info (int i) fe = Some (r, info')" and c: "buffer_cache ops" and wf: "wf_fe fe"
    and b: "b \<noteq> slot_blk (bd_block_size ops) (si_sb info) i"
  shows "sb_bread ops (si_dev info') b = sb_bread ops (si_dev info) b"
proof -
  let ?s = "slot_blk (bd_block_size ops) (si_sb info) i"
  have i': "i < unat (sb_entry_count (si_sb info))" using i by (simp add: entry_cnt_def)
  show ?thesis
  proof (cases "sb_bread ops (si_dev info) ?s")
    case None
    then show ?thesis
      using w i' by (auto simp: write_entry_def write_to_real_sfs_def Let_def entry_abs [OF g i'] split: if_splits)
  next
    case (Some x)
    have "sb_bread ops (bh_write ops (si_dev info) ?s (slot_off (bd_block_size ops) (si_sb info) i) (encode_fe fe)) b =
        sb_bread ops (si_dev info) b"
      using buffer_cache.bread_write_other [OF c Some _ b] slot_off_gap [OF g, of i] wf
        buffer_cache.bread_length [OF c Some] by simp
    then show ?thesis
      using w i' wf Some
      by (auto simp: write_entry_def write_to_real_sfs_def Let_def entry_abs [OF g i'] split: if_splits)
  qed
qed

section \<open>Mapping blocks\<close>

declare nth_table [simp del]

text \<open>The free data blocks, and the blocks of a file that are still to be allocated.\<close>

definition free_data_blocks :: "'d sfs_info \<Rightarrow> byte list \<Rightarrow> nat list" where
  "free_data_blocks info u = filter (\<lambda>b. u ! b = 0) [data_start info ..< part_size info]"

definition holes :: "sfs_file_entry \<Rightarrow> nat list \<Rightarrow> nat list" where
  "holes fe ks = filter (\<lambda>k. fe_blocks fe ! k = 0) ks"

lemma holes_simps [simp]:
  "holes fe [] = []"
  "holes fe (k # ks) = (if fe_blocks fe ! k = 0 then k # holes fe ks else holes fe ks)"
  by (simp_all add: holes_def)

lemma holes_cong:
  "(\<And>k. k \<in> set ks \<Longrightarrow> fe_blocks fe ! k = 0 \<longleftrightarrow> fe_blocks fe' ! k = 0) \<Longrightarrow> holes fe ks = holes fe' ks"
  by (auto simp: holes_def intro: filter_cong)

lemma free_after_use:
  assumes "m \<in> set (free_data_blocks info u)" "length u = part_size info" "si_sb info' = si_sb info"
  shows "Suc (length (free_data_blocks info' (u[m := 1]))) = length (free_data_blocks info u)"
proof -
  have m: "data_start info \<le> m" "m < part_size info" "u ! m = 0"
    using assms(1) by (auto simp: free_data_blocks_def)
  have "free_data_blocks info' (u[m := 1]) = filter (\<lambda>b. b \<noteq> m) (free_data_blocks info u)"
    using m assms(2,3) by (auto simp: free_data_blocks_def nth_list_update intro!: filter_cong)
  moreover have "distinct (free_data_blocks info u)" by (simp add: free_data_blocks_def)
  then have "length (filter (\<lambda>b. b \<noteq> m) (free_data_blocks info u)) = length (free_data_blocks info u) - 1"
    using assms(1) distinct_remove1_removeAll [of "free_data_blocks info u" m] length_remove1 [of m "free_data_blocks info u"]
    by (simp add: removeAll_filter_not_eq eq_commute)
  ultimately show ?thesis using assms(1) by (cases "free_data_blocks info u") auto
qed

text \<open>
  What mapping blocks of file \<open>i\<close> for writing leaves: everything but holes of that file, and every
  block of the device but the one with the entry; so the data of all data blocks.
\<close>

definition blocks_only :: "'d bdev_ops \<Rightarrow> nat \<Rightarrow> 'd sfs_info \<Rightarrow> 'd sfs_info \<Rightarrow> bool" where
  "blocks_only ops i info info' \<longleftrightarrow>
     (\<exists>bs. table ops info' = (table ops info)[i := (table ops info ! i)\<lparr>fe_blocks := bs\<rparr>])"

lemma blocks_only_refl: "blocks_only ops i info info"
  by (auto simp: blocks_only_def intro!: exI [of _ "fe_blocks (table ops info ! i)"])

lemma blocks_only_trans: "blocks_only ops i info info1 \<Longrightarrow> blocks_only ops i info1 info2 \<Longrightarrow> blocks_only ops i info info2"
  by (cases "i < length (table ops info)") (auto simp: blocks_only_def list_update_beyond)

definition mapped_from :: "'d bdev_ops \<Rightarrow> nat \<Rightarrow> 'd sfs_info \<Rightarrow> 'd sfs_info \<Rightarrow> bool" where
  "mapped_from ops i info info' \<longleftrightarrow> fs_inv ops info' \<and> data_ok ops info' \<and> si_sb info' = si_sb info \<and>
     (\<forall>b. b \<noteq> slot_blk (bd_block_size ops) (si_sb info) i \<longrightarrow>
        sb_bread ops (si_dev info') b = sb_bread ops (si_dev info) b) \<and>
     blocks_only ops i info info' \<and>
     (\<forall>k < 9. fe_blocks (table ops info ! i) ! k \<noteq> 0 \<longrightarrow>
        fe_blocks (table ops info' ! i) ! k = fe_blocks (table ops info ! i) ! k)"

lemma mapped_from_refl: "fs_inv ops info \<Longrightarrow> data_ok ops info \<Longrightarrow> mapped_from ops i info info"
  by (simp add: mapped_from_def blocks_only_refl)

lemma mapped_from_trans:
  "mapped_from ops i info info1 \<Longrightarrow> mapped_from ops i info1 info2 \<Longrightarrow> mapped_from ops i info info2"
  unfolding mapped_from_def by (auto simp: entry_cnt_def intro: blocks_only_trans)

lemma mapped_from_other:
  "mapped_from ops i info info' \<Longrightarrow> j \<noteq> i \<Longrightarrow> table ops info' ! j = table ops info ! j"
  by (auto simp: mapped_from_def blocks_only_def)

lemma mapped_from_data:
  assumes "fs_inv ops info" "data_ok ops info" "i < entry_cnt info" "mapped_from ops i info info'"
    and "data_start info \<le> unat b"
  shows "sb_bread ops (si_dev info') b = sb_bread ops (si_dev info) b"
proof -
  have "geom_ok (bd_block_size ops) (si_sb info)" using assms(1) by (simp add: fs_inv_def table_ok_def)
  from slot_blk_below_data [OF this assms(2,3)] have "b \<noteq> slot_blk (bd_block_size ops) (si_sb info) i"
    using assms(5) by auto
  then show ?thesis using assms(4) by (simp add: mapped_from_def)
qed

lemma entry_cnt_sb: "si_sb info' = si_sb info \<Longrightarrow> entry_cnt info' = entry_cnt info"
  by (simp add: entry_cnt_def)

text \<open>What a mapping that returns can have done: nothing, flagged a block, or stored it in the entry too.\<close>

lemma get_block_cases:
  assumes c: "buffer_cache ops" and ok: "table_ok ops info" and i: "i < entry_cnt info"
    and g: "sfs_get_block ops info (int i + 1) k True = Some (r, info', m)"
  obtains (kept) "info' = info" | (flagged) x where "sfs_get_data_block info = Some (x, info')"
    | (stored) x info1 y fe where "sfs_get_data_block info = Some (x, info1)"
        "write_entry ops info1 (int i) fe = Some (y, info')" "wf_fe fe"
proof -
  let ?fe = "table ops info ! i"
  let ?f = "\<lambda>x. ?fe\<lparr>fe_blocks := (fe_blocks ?fe)[k := word_of_int x]\<rparr>"
  have fe: "sfs_get_file_entry ops info (int i + 1) zero_fe = Some (0, ?fe)"
    by (rule buffer_cache.get_file_entry_eq [OF c ok i])
  have wf: "wf_fe (?f x)" for x
    using buffer_cache.wf_entry [OF c ok i] i by (simp add: nth_table wf_fe_def)
  show ?thesis
  proof (cases "9 \<le> k \<or> fe_blocks ?fe ! k \<noteq> 0")
    case True
    then show ?thesis using g kept by (auto simp: sfs_get_block_def fe split: if_splits)
  next
    case False
    then obtain x info1 where a: "sfs_get_data_block info = Some (x, info1)"
      using g by (cases "sfs_get_data_block info") (auto simp: sfs_get_block_def fe)
    consider "info' = info1" | y where "sfs_update_file_entry ops info1 (int i + 1) (?f x) = Some (y, info')"
      using g False a that by (auto simp: sfs_get_block_def fe Let_def split: Option.bind_splits if_splits)
    then show ?thesis
      by cases (use a flagged stored wf in \<open>auto simp: sfs_update_file_entry_def\<close>)
  qed
qed

lemma get_data_block_dev:
  "sfs_get_data_block info = Some (x, info1) \<Longrightarrow> si_dev info1 = si_dev info \<and> si_sb info1 = si_sb info"
  by (auto simp: sfs_get_data_block_def spin_lock_def spin_unlock_def set_used_def
      split: Option.bind_splits option.splits if_splits ptr.splits)

lemma get_block_dev:
  assumes c: "buffer_cache ops" and ok: "table_ok ops info" and i: "i < entry_cnt info"
    and g: "sfs_get_block ops info (int i + 1) k True = Some (r, info', m)"
    and b: "b \<noteq> slot_blk (bd_block_size ops) (si_sb info) i"
  shows "sb_bread ops (si_dev info') b = sb_bread ops (si_dev info) b"
proof (rule get_block_cases [OF c ok i g])
  fix x info1 y fe
  assume a: "sfs_get_data_block info = Some (x, info1)"
    and w: "write_entry ops info1 (int i) fe = Some (y, info')" "wf_fe fe"
  have "geom_ok (bd_block_size ops) (si_sb info)" using ok by (simp add: table_ok_def)
  then show ?thesis
    using write_entry_dev [OF _ _ w(1) c w(2), of b] get_data_block_dev [OF a] i b by (simp add: entry_cnt_def)
qed (simp_all add: get_data_block_dev)

lemma data_ok_slot:
  assumes "data_ok ops info" "geom_ok (bd_block_size ops) (si_sb info)" "i < entry_cnt info"
    and "si_sb info' = si_sb info"
    and "\<And>b. b \<noteq> slot_blk (bd_block_size ops) (si_sb info) i \<Longrightarrow>
      sb_bread ops (si_dev info') b = sb_bread ops (si_dev info) b"
  shows "data_ok ops info'"
proof -
  have "sb_bread ops (si_dev info') b \<noteq> None" if "data_start info \<le> unat b" "unat b < part_size info" for b
    using slot_blk_below_data [OF assms(2,1,3)] assms(5) [of b] assms(1) that by (fastforce simp: data_ok_def)
  then show ?thesis using assms(1,4) unfolding data_ok_def by (simp add: entry_cnt_def)
qed

lemma get_block_maps_alloc:
  assumes c: "buffer_cache ops" and inv: "fs_inv ops info" and d: "data_ok ops info"
    and i: "i < entry_cnt info" and k: "k < 9" and u: "used_ok info u"
    and hole: "fe_blocks (table ops info ! i) ! k = 0"
    and f: "find (\<lambda>b. u ! b = 0) [data_start info ..< part_size info] = Some m"
  shows "\<exists>info'. sfs_get_block ops info (int i + 1) k True = Some (0, info', Some (of_nat m)) \<and>
    mapped_from ops i info info' \<and> used_ok info' (u[m := 1]) \<and> (of_nat m :: u32) \<noteq> 0 \<and>
    fe_blocks (table ops info' ! i) = (fe_blocks (table ops info ! i))[k := of_nat m] \<and>
    Suc (length (free_data_blocks info' (u[m := 1]))) = length (free_data_blocks info u)"
proof -
  let ?fe = "table ops info ! i"
  have ok: "table_ok ops info" using inv by (simp add: fs_inv_def)
  obtain info' where gb: "sfs_get_block ops info (int i + 1) k True = Some (0, info', Some (of_nat m))"
    and t: "table ops info' = (table ops info)[i := ?fe\<lparr>fe_blocks := (fe_blocks ?fe)[k := of_nat m]\<rparr>]"
    and facts: "table_ok ops info'" "si_sb info' = si_sb info" "used_ok info' (u[m := 1])"
    by (rule buffer_cache.get_block_alloc [OF c ok i k u hole f]) blast
  have m: "m \<in> set (free_data_blocks info u)" "0 < data_start info"
    using f inv by (auto simp: find_Some_iff nth_upt free_data_blocks_def fs_inv_def)
  have lu: "m < 2 ^ 31" "length u = part_size info" using m u by (auto simp: used_ok_def free_data_blocks_def)
  then have nz: "(of_nat m :: u32) \<noteq> 0" using m by (auto simp: free_data_blocks_def dest: arg_cong [of _ _ unat] simp: unat_of_nat)
  note dev = get_block_dev [OF c ok i gb]
  have "fs_inv ops info'" using buffer_cache.fs_inv_get_block [OF c inv i, of k True] gb by auto
  moreover have "data_ok ops info'"
    using data_ok_slot [OF d _ i facts(2) dev] ok by (simp add: table_ok_def)
  moreover have "(fe_blocks ?fe)[k := of_nat m] ! l = fe_blocks ?fe ! l" if "fe_blocks ?fe ! l \<noteq> 0" for l
    using that hole by (cases "k = l") simp_all
  moreover have "blocks_only ops i info info'" unfolding blocks_only_def t by blast
  ultimately have "mapped_from ops i info info'"
    using dev facts i by (simp add: mapped_from_def t)
  then show ?thesis
    using gb facts(3) nz t i free_after_use [OF m(1) lu(2) facts(2)] by (intro exI [of _ info']) simp
qed

lemma get_block_maps:
  assumes c: "buffer_cache ops" and inv: "fs_inv ops info" and d: "data_ok ops info"
    and i: "i < entry_cnt info" and k: "k < 9" and u: "used_ok info u"
  defines "hole \<equiv> fe_blocks (table ops info ! i) ! k = 0"
  shows "\<exists>info' m v. sfs_get_block ops info (int i + 1) k True =
      Some (if hole \<and> free_data_blocks info u = [] then - ENOSPC else 0, info', m) \<and>
    mapped_from ops i info info' \<and> used_ok info' v \<and>
    (if hole \<and> free_data_blocks info u = [] then info' = info \<and> v = u
     else m = Some (fe_blocks (table ops info' ! i) ! k) \<and> fe_blocks (table ops info' ! i) ! k \<noteq> 0 \<and>
       length (free_data_blocks info' v) = length (free_data_blocks info u) - (if hole then 1 else 0) \<and>
       (\<forall>l < 9. l \<noteq> k \<longrightarrow> fe_blocks (table ops info' ! i) ! l = fe_blocks (table ops info ! i) ! l))"
proof -
  have ok: "table_ok ops info" using inv by (simp add: fs_inv_def)
  consider (hit) "\<not> hole"
    | (full) "hole" "free_data_blocks info u = []" "find (\<lambda>b. u ! b = 0) [data_start info ..< part_size info] = None"
    | (alloc) m where "hole" "find (\<lambda>b. u ! b = 0) [data_start info ..< part_size info] = Some m"
    by (cases "find (\<lambda>b. u ! b = 0) [data_start info ..< part_size info]")
      (auto simp: free_data_blocks_def find_None_iff filter_empty_conv)
  then show ?thesis
  proof cases
    case hit
    then show ?thesis
      using buffer_cache.get_block_hit [OF c ok i k] mapped_from_refl [OF inv d] u
      by (intro exI [of _ info] exI [of _ "Some (fe_blocks (table ops info ! i) ! k)"] exI [of _ u])
        (simp add: hole_def)
  next
    case full
    then show ?thesis
      using buffer_cache.get_block_full [OF c ok i k u] mapped_from_refl [OF inv d] u
      by (intro exI [of _ info] exI [of _ None] exI [of _ u]) (simp add: hole_def)
  next
    case (alloc m)
    have "k < length (fe_blocks (table ops info ! i))"
      using buffer_cache.wf_entry [OF c ok i] i k by (simp add: wf_fe_def nth_table)
    with get_block_maps_alloc [OF c inv d i k u alloc(1) [unfolded hole_def] alloc(2)] alloc(1)
    show ?thesis by fastforce
  qed
qed

text \<open>
  Mapping several blocks of a file: without error exactly when there are as many free blocks as
  holes, and then every block is mapped.
\<close>

abbreviation file_block :: "'d bdev_ops \<Rightarrow> 'd sfs_info \<Rightarrow> nat \<Rightarrow> nat \<Rightarrow> u32" where
  "file_block ops info i k \<equiv> fe_blocks (table ops info ! i) ! k"

lemma map_pieces_maps:
  assumes c: "buffer_cache ops" and "fs_inv ops info" "data_ok ops info" "i < entry_cnt info"
    "\<forall>k \<in> set ks. k < 9" "distinct ks" "used_ok info u"
  defines "fits \<equiv> length (holes (table ops info ! i) ks) \<le> length (free_data_blocks info u)"
  shows "\<exists>info' bs v. map_pieces (sfs_get_block_bh ops (int i + 1)) ks info =
      Some (if fits then 0 else - ENOSPC, info', bs) \<and>
    mapped_from ops i info info' \<and> used_ok info' v \<and>
    (fits \<longrightarrow> bs = map (\<lambda>k. (file_block ops info' i k, False)) ks \<and> (\<forall>k \<in> set ks. file_block ops info' i k \<noteq> 0)) \<and>
    (\<forall>l < 9. l \<notin> set ks \<longrightarrow> file_block ops info' i l = file_block ops info i l)"
  using assms(2-7) unfolding fits_def
proof (induction ks arbitrary: info u)
  case Nil
  then show ?case
    using mapped_from_refl [of ops info i] by (intro exI [of _ info] exI [of _ "[]"] exI [of _ u]) simp
next
  case (Cons k ks)
  let ?hole = "file_block ops info i k = 0"
  have k: "k < 9" using Cons.prems(4) by simp
  obtain info1 m v where g: "sfs_get_block ops info (int i + 1) k True =
      Some (if ?hole \<and> free_data_blocks info u = [] then - ENOSPC else 0, info1, m)"
    "mapped_from ops i info info1" "used_ok info1 v"
    "if ?hole \<and> free_data_blocks info u = [] then info1 = info \<and> v = u
     else m = Some (file_block ops info1 i k) \<and> file_block ops info1 i k \<noteq> 0 \<and>
       length (free_data_blocks info1 v) = length (free_data_blocks info u) - (if ?hole then 1 else 0) \<and>
       (\<forall>l < 9. l \<noteq> k \<longrightarrow> file_block ops info1 i l = file_block ops info i l)"
    using get_block_maps [OF c Cons.prems(1,2,3) k Cons.prems(6)] by blast
  show ?case
  proof (cases "?hole \<and> free_data_blocks info u = []")
    case True
    then show ?thesis
      using g Cons.prems(6)
      by (intro exI [of _ info] exI [of _ "[]"] exI [of _ u]) (simp add: sfs_get_block_bh_def)
  next
    case False
    then have m: "m = Some (file_block ops info1 i k)" "file_block ops info1 i k \<noteq> 0"
      and fr: "length (free_data_blocks info1 v) = length (free_data_blocks info u) - (if ?hole then 1 else 0)"
      and other: "\<And>l. l < 9 \<Longrightarrow> l \<noteq> k \<Longrightarrow> file_block ops info1 i l = file_block ops info i l"
      using g(4) by auto
    have "fs_inv ops info1" "data_ok ops info1" "i < entry_cnt info1"
      using g(2) Cons.prems(3) by (simp_all add: mapped_from_def entry_cnt_def)
    from Cons.IH [OF this _ _ g(3)] Cons.prems(4,5)
    obtain info' bs w where r: "map_pieces (sfs_get_block_bh ops (int i + 1)) ks info1 =
        Some (if length (holes (table ops info1 ! i) ks) \<le> length (free_data_blocks info1 v) then 0
              else - ENOSPC, info', bs)"
      "mapped_from ops i info1 info'" "used_ok info' w"
      "length (holes (table ops info1 ! i) ks) \<le> length (free_data_blocks info1 v) \<longrightarrow>
        bs = map (\<lambda>k. (file_block ops info' i k, False)) ks \<and> (\<forall>k \<in> set ks. file_block ops info' i k \<noteq> 0)"
      "\<forall>l < 9. l \<notin> set ks \<longrightarrow> file_block ops info' i l = file_block ops info1 i l" by auto
    have "x < 9" "x \<noteq> k" if "x \<in> set ks" for x using Cons.prems(4,5) that by auto
    then have h: "holes (table ops info1 ! i) ks = holes (table ops info ! i) ks"
      by (intro holes_cong) (simp add: other)
    have fits: "length (holes (table ops info1 ! i) ks) \<le> length (free_data_blocks info1 v) \<longleftrightarrow>
        length (holes (table ops info ! i) (k # ks)) \<le> length (free_data_blocks info u)"
      using fr False unfolding h by (cases ?hole; cases "free_data_blocks info u") auto
    have kept: "file_block ops info' i k = file_block ops info1 i k"
      using r(2) m(2) k by (simp add: mapped_from_def)
    have gb: "sfs_get_block_bh ops (int i + 1) k True info = Some (0, info1, Some (file_block ops info1 i k, False))"
      using g(1) False m(1) by (simp add: sfs_get_block_bh_def)
    show ?thesis
      using gb False m r kept other mapped_from_trans [OF g(2) r(2)] unfolding fits
      by (intro exI [of _ info'] exI [of _ "(file_block ops info1 i k, False) # bs"] exI [of _ w]) auto
  qed
qed

end
