(* ===== verification/Sfs_Page_Data.thy ===== *)
theory Sfs_Page_Data
  imports Sfs_Pages
begin

text \<open>
  The data of files: the blocks that the page operations of \<open>Sfs_Pages\<close> read and write, that no two
  positions of the table share one, what a reader gets of a page that was written and of all others.
\<close>

section \<open>Moving data\<close>

text \<open>Mapped blocks are data blocks, and no two positions share one.\<close>

lemma file_block_data:
  assumes "fs_inv ops info" "i < entry_cnt info" "buffer_cache ops" "k < 9" "file_block ops info i k \<noteq> 0"
  shows "data_start info \<le> unat (file_block ops info i k)" "unat (file_block ops info i k) < part_size info"
proof -
  obtain u where "blocks_ok (table ops info) u (data_start info) (part_size info)" and ok: "table_ok ops info"
    using assms(1) by (auto simp: fs_inv_def)
  moreover have "k < length (fe_blocks (table ops info ! i))"
    using buffer_cache.wf_entry [OF assms(3) ok assms(2)] assms(2,4) by (simp add: wf_fe_def nth_table)
  ultimately show "data_start info \<le> unat (file_block ops info i k)"
    "unat (file_block ops info i k) < part_size info"
    using blocks_ok_range [of "table ops info" u "data_start info" "part_size info" i] assms(2,5) nth_mem
    by (metis length_table)+
qed

lemma nth_filter_inj:
  "distinct (filter P xs) \<Longrightarrow> i < length xs \<Longrightarrow> j < length xs \<Longrightarrow> P (xs ! i) \<Longrightarrow> xs ! i = xs ! j \<Longrightarrow> i = j"
proof (induction xs arbitrary: i j)
  case (Cons x xs)
  then show ?case
    by (cases i; cases j) (auto split: if_splits dest: nth_mem)
qed simp

lemma distinct_concat_disjoint:
  "distinct (concat xss) \<Longrightarrow> x < y \<Longrightarrow> y < length xss \<Longrightarrow> set (xss ! x) \<inter> set (xss ! y) = {}"
proof (induction xss arbitrary: x y)
  case (Cons xs xss)
  obtain z where z: "y = Suc z" using Cons.prems(2) by (cases y) auto
  then have "set (xss ! z) \<subseteq> \<Union> (set ` set xss)" using Cons.prems(3) by (auto intro!: bexI [OF _ nth_mem])
  then show ?case using Cons z by (cases x) auto
qed simp

lemma file_block_inj:
  assumes inv: "fs_inv ops info" and c: "buffer_cache ops" and i: "i < entry_cnt info" "j < entry_cnt info"
    and k: "k < 9" "l < 9" and b: "file_block ops info i k \<noteq> 0" "file_block ops info i k = file_block ops info j l"
  shows "i = j \<and> k = l"
proof -
  let ?t = "table ops info"
  obtain u where blk: "blocks_ok ?t u (data_start info) (part_size info)" and ok: "table_ok ops info"
    using inv by (auto simp: fs_inv_def)
  have len: "length (fe_blocks (?t ! x)) = 9" if "x < entry_cnt info" for x
    using buffer_cache.wf_entry [OF c ok that] that by (simp add: wf_fe_def nth_table)
  have own: "file_block ops info x y \<in> set (owned (?t ! x))"
    if "x < entry_cnt info" "y < 9" "file_block ops info x y \<noteq> 0" for x y
    using that len by (auto simp: owned_def)
  have dist: "distinct (concat (map owned ?t))" using blk by (simp add: blocks_ok_def owned_blocks_def)
  have "i = j"
  proof (rule ccontr)
    assume ne: "i \<noteq> j"
    have "set (owned (?t ! x)) \<inter> set (owned (?t ! y)) = {}" if "x < y" "y < length ?t" for x y
      using distinct_concat_disjoint [OF dist that(1)] that by simp
    then show False
      using ne own [OF i(1) k(1) b(1)] own [OF i(2) k(2)] b i
      by (metis disjoint_iff length_table linorder_neqE_nat)
  qed
  moreover have "distinct (owned (?t ! i))"
    using dist i(1) by (metis distinct_concat_iff length_map length_table nth_map nth_mem)
  then have "k = l" if "i = j"
    using nth_filter_inj [of "\<lambda>b. b \<noteq> 0" "fe_blocks (?t ! i)" k l] b k len [OF i(1)] that
    by (simp add: owned_def)
  ultimately show ?thesis by simp
qed

text \<open>Writing bytes \<open>xs\<close> at \<open>off\<close> of a block, for a list of blocks.\<close>

fun write_bhs :: "'d bdev_ops \<Rightarrow> 'd \<Rightarrow> (u32 \<times> nat \<times> byte list) list \<Rightarrow> 'd option" where
  "write_bhs ops d [] = Some d"
| "write_bhs ops d ((b, off, xs) # ws) =
     (if sb_bread ops d b = None then None else write_bhs ops (bh_write ops d b off xs) ws)"

lemma submit_write_bhs:
  "submit_buffers (dev_write ops) ws info =
   map_option (\<lambda>d. info\<lparr>si_dev := d\<rparr>) (write_bhs ops (si_dev info) (map (\<lambda>(b, x). (b, 0, x)) ws))"
  by (induction ws arbitrary: info) (auto simp: dev_write_def)

lemma write_bhs_ok:
  assumes c: "buffer_cache ops" and "distinct (map fst ws)"
    and "\<forall>(b, off, xs) \<in> set ws. sb_bread ops d b \<noteq> None \<and> off + length xs \<le> unat (bd_block_size ops)"
  shows "\<exists>d'. write_bhs ops d ws = Some d' \<and>
    (\<forall>b off xs. (b, off, xs) \<in> set ws \<longrightarrow>
       sb_bread ops d' b = Some (put_bytes off xs (the (sb_bread ops d b)))) \<and>
    (\<forall>b. b \<notin> fst ` set ws \<longrightarrow> sb_bread ops d' b = sb_bread ops d b)"
  using assms(2,3)
proof (induction ws arbitrary: d)
  case (Cons w ws)
  obtain b off xs where w: "w = (b, off, xs)" by (cases w)
  obtain x where x: "sb_bread ops d b = Some x" "off + length xs \<le> length x"
    using Cons.prems(2) buffer_cache.bread_length [OF c] by (auto simp: w)
  let ?d = "bh_write ops d b off xs"
  have same: "sb_bread ops ?d b = Some (put_bytes off xs x)"
    by (rule buffer_cache.bread_write_same [OF c x])
  have other: "sb_bread ops ?d b' = sb_bread ops d b'" if "b' \<noteq> b" for b'
    by (rule buffer_cache.bread_write_other [OF c x that])
  have nb: "b \<notin> fst ` set ws" using Cons.prems(1) by (auto simp: w image_iff)
  have readable: "sb_bread ops ?d b' \<noteq> None" if "sb_bread ops d b' \<noteq> None" for b'
    using that same other by (cases "b' = b") simp_all
  have "\<forall>(b, off, xs) \<in> set ws. sb_bread ops ?d b \<noteq> None \<and> off + length xs \<le> unat (bd_block_size ops)"
  proof clarify
    fix b' o' ys assume "(b', o', ys) \<in> set ws"
    then have "sb_bread ops d b' \<noteq> None \<and> o' + length ys \<le> unat (bd_block_size ops)"
      using Cons.prems(2) by (auto simp: w)
    then show "sb_bread ops ?d b' \<noteq> None \<and> o' + length ys \<le> unat (bd_block_size ops)"
      using readable by blast
  qed
  from Cons.IH [OF _ this] Cons.prems(1) obtain d' where d': "write_bhs ops ?d ws = Some d'"
    "\<forall>b off xs. (b, off, xs) \<in> set ws \<longrightarrow> sb_bread ops d' b = Some (put_bytes off xs (the (sb_bread ops ?d b)))"
    "\<forall>b. b \<notin> fst ` set ws \<longrightarrow> sb_bread ops d' b = sb_bread ops ?d b" by auto
  have "sb_bread ops d' b' = Some (put_bytes o' ys (the (sb_bread ops d b')))"
    if "(b', o', ys) \<in> set (w # ws)" for b' o' ys
  proof (cases "(b', o', ys) \<in> set ws")
    case True
    then have "b' \<noteq> b" using nb by force
    then show ?thesis using d'(2) True other by simp
  next
    case False
    then show ?thesis using that d'(3) nb same x by (simp add: w)
  qed
  moreover have "sb_bread ops d' b' = sb_bread ops d b'" if "b' \<notin> fst ` set (w # ws)" for b'
    using that d'(3) other by (simp add: w)
  ultimately show ?case using d'(1) x(1) by (intro exI [of _ d']) (simp add: w)
qed simp

section \<open>Reading what was written\<close>

text \<open>The data of block \<open>k\<close> of file \<open>i\<close>.\<close>

definition block_data :: "'d bdev_ops \<Rightarrow> 'd sfs_info \<Rightarrow> nat \<Rightarrow> nat \<Rightarrow> byte list" where
  "block_data ops info i k = the (sb_bread ops (si_dev info) (file_block ops info i k))"

lemma block_data_length:
  assumes "buffer_cache ops" "fs_inv ops info" "data_ok ops info" "i < entry_cnt info" "k < 9"
    and "file_block ops info i k \<noteq> 0"
  shows "length (block_data ops info i k) = unat (bd_block_size ops)"
proof -
  obtain y where "sb_bread ops (si_dev info) (file_block ops info i k) = Some y"
    using file_block_data [OF assms(2,4,1,5,6)] assms(3) by (auto simp: data_ok_def)
  then show ?thesis using buffer_cache.bread_length [OF assms(1)] by (simp add: block_data_def)
qed

text \<open>What a reader gets of block \<open>k\<close> when the size of the file is \<open>isz\<close>.\<close>

definition page_data :: "'d bdev_ops \<Rightarrow> nat \<Rightarrow> 'd sfs_info \<Rightarrow> nat \<Rightarrow> nat \<Rightarrow> byte list" where
  "page_data ops isz info i k =
     (if isz \<le> k * blk_size ops then replicate (blk_size ops) 0 else block_data ops info i k)"

definition readable :: "'d bdev_ops \<Rightarrow> nat \<Rightarrow> 'd sfs_info \<Rightarrow> nat \<Rightarrow> nat \<Rightarrow> bool" where
  "readable ops isz info i k \<longleftrightarrow> isz \<le> k * blk_size ops \<or> k < 9 \<and> file_block ops info i k \<noteq> 0"

lemma get_block_bh_hit:
  assumes "buffer_cache ops" "table_ok ops info" "i < entry_cnt info" "k < 9" "file_block ops info i k \<noteq> 0"
  shows "sfs_get_block_bh ops (int i + 1) k create info = Some (0, info, Some (file_block ops info i k, False))"
  by (simp add: sfs_get_block_bh_def buffer_cache.get_block_hit [OF assms])

lemma get_block_bh_miss:
  assumes "buffer_cache ops" "table_ok ops info" "i < entry_cnt info" "\<not> (k < 9 \<and> file_block ops info i k \<noteq> 0)"
  shows "\<exists>ret. ret \<noteq> 0 \<and> sfs_get_block_bh ops (int i + 1) k False info = Some (ret, info, None)"
  using assms(4) buffer_cache.get_block_far [OF assms(1), of k info "int i + 1" False]
    buffer_cache.get_block_hole [OF assms(1-3), of k]
  by (cases "k < 9") (auto simp: sfs_get_block_bh_def)

lemma readpage_eq:
  assumes c: "buffer_cache ops" and inv: "fs_inv ops info" and d: "data_ok ops info" and i: "i < entry_cnt info"
  shows "sfs_readpage ops isz info (int i + 1) ks =
    Some (if \<forall>k \<in> set ks. readable ops isz info i k
          then Inr (concat (map (page_data ops isz info i) ks)) else Inl (- EIO), info)"
proof (induction ks)
  case Nil
  then show ?case by (simp add: sfs_readpage_def)
next
  case (Cons k ks)
  have ok: "table_ok ops info" using inv by (simp add: fs_inv_def)
  note IH = Cons [unfolded sfs_readpage_def]
  consider (beyond) "isz \<le> k * blk_size ops"
    | (hit) "\<not> isz \<le> k * blk_size ops" "k < 9" "file_block ops info i k \<noteq> 0"
    | (miss) "\<not> isz \<le> k * blk_size ops" "\<not> (k < 9 \<and> file_block ops info i k \<noteq> 0)" by blast
  then show ?case
  proof cases
    case beyond
    then show ?thesis by (simp add: sfs_readpage_def IH readable_def page_data_def)
  next
    case hit
    have "dev_read ops info (file_block ops info i k) = Some (block_data ops info i k)"
      using file_block_data [OF inv i c hit(2,3)] d by (auto simp: data_ok_def dev_read_def block_data_def)
    then show ?thesis
      using hit by (simp add: sfs_readpage_def IH get_block_bh_hit [OF c ok i] readable_def page_data_def)
  next
    case miss
    obtain ret where "ret \<noteq> 0" "sfs_get_block_bh ops (int i + 1) k False info = Some (ret, info, None)"
      using get_block_bh_miss [OF c ok i miss(2)] by blast
    then show ?thesis using miss by (auto simp: sfs_readpage_def readable_def)
  qed
qed

lemma readpage_mapped:
  assumes "buffer_cache ops" "fs_inv ops info" "data_ok ops info" "i < entry_cnt info"
    and "\<forall>k \<in> set ks. k < 9 \<and> file_block ops info i k \<noteq> 0" "\<forall>k \<in> set ks. k * blk_size ops < isz"
  shows "sfs_readpage ops isz info (int i + 1) ks = Some (Inr (concat (map (block_data ops info i) ks)), info)"
proof -
  have e: "map (page_data ops isz info i) ks = map (block_data ops info i) ks"
    using assms(6) by (auto simp: page_data_def)
  show ?thesis using assms(5) unfolding readpage_eq [OF assms(1-4)] e by (simp add: readable_def)
qed

lemma readpage_Inr:
  assumes "buffer_cache ops" "fs_inv ops info" "data_ok ops info" "i < entry_cnt info"
    and "sfs_readpage ops isz info (int i + 1) ks = Some (Inr xs, info')"
  shows "info' = info" "\<forall>k \<in> set ks. readable ops isz info i k"
    and "xs = concat (map (page_data ops isz info i) ks)"
  using assms(5) by (auto simp: readpage_eq [OF assms(1-4)] split: if_splits)

text \<open>
  The pieces to write: different blocks of the file, and inside a block. Data written to data
  blocks leaves the table and the invariant alone.
\<close>

definition pieces_ok :: "'d bdev_ops \<Rightarrow> (nat \<times> nat \<times> byte list) list \<Rightarrow> bool" where
  "pieces_ok ops ds \<longleftrightarrow> distinct (map fst ds) \<and>
     (\<forall>(k, off, xs) \<in> set ds. k < 9 \<and> off + length xs \<le> unat (bd_block_size ops))"

lemma set_dev_inv:
  assumes inv: "fs_inv ops info" and d: "data_ok ops info"
    and same: "\<And>b. unat b < data_start info \<Longrightarrow> sb_bread ops d' b = sb_bread ops (si_dev info) b"
    and rd: "\<And>b. sb_bread ops (si_dev info) b \<noteq> None \<Longrightarrow> sb_bread ops d' b \<noteq> None"
  shows "fs_inv ops (info\<lparr>si_dev := d'\<rparr>)" "data_ok ops (info\<lparr>si_dev := d'\<rparr>)"
    and "table ops (info\<lparr>si_dev := d'\<rparr>) = table ops info"
proof -
  have "table_ok ops info" using inv by (simp add: fs_inv_def)
  then have "sb_bread ops d' (slot_blk (bd_block_size ops) (si_sb info) i) =
      sb_bread ops (si_dev info) (slot_blk (bd_block_size ops) (si_sb info) i)" if "i < entry_cnt info" for i
    using slot_blk_below_data [OF _ d that] same by (simp add: table_ok_def)
  note t = table_cong_dev [OF this]
  then show "table ops (info\<lparr>si_dev := d'\<rparr>) = table ops info" by blast
  show "fs_inv ops (info\<lparr>si_dev := d'\<rparr>)"
    using inv t by (simp add: fs_inv_def used_ok_def)
  show "data_ok ops (info\<lparr>si_dev := d'\<rparr>)"
    using d rd unfolding data_ok_def by simp
qed

lemma write_page_full:
  assumes c: "buffer_cache ops" and inv: "fs_inv ops info" and d: "data_ok ops info"
    and i: "i < entry_cnt info" and ds: "pieces_ok ops ds" and u: "used_ok info u"
    and few: "length (free_data_blocks info u) < length (holes (table ops info ! i) (map fst ds))"
  shows "\<exists>info'. write_page ops isz info (int i + 1) ds = Some (- ENOSPC, info') \<and> mapped_from ops i info info'"
proof -
  have "\<forall>k \<in> set (map fst ds). k < 9" "distinct (map fst ds)" using ds by (auto simp: pieces_ok_def)
  from map_pieces_maps [OF c inv d i this u] few
  obtain info' bs where "map_pieces (sfs_get_block_bh ops (int i + 1)) (map fst ds) info = Some (- ENOSPC, info', bs)"
    "mapped_from ops i info info'" by auto
  then show ?thesis
    by (intro exI [of _ info']) (simp add: write_page_def sfs_write_begin_def block_write_begin_def)
qed

text \<open>Writing pieces whose blocks are mapped: the pieces are changed, all other data is kept.\<close>

lemma write_bhs_file:
  assumes c: "buffer_cache ops" and inv: "fs_inv ops info" and d: "data_ok ops info"
    and i: "i < entry_cnt info" and ds: "pieces_ok ops ds"
    and mapped: "\<forall>k \<in> fst ` set ds. file_block ops info i k \<noteq> 0"
  defines "bs \<equiv> map (file_block ops info i) (map fst ds)"
  shows "\<exists>d'. write_bhs ops (si_dev info) (zip bs (map snd ds)) = Some d' \<and>
    (\<forall>k off xs. (k, off, xs) \<in> set ds \<longrightarrow> sb_bread ops d' (file_block ops info i k) =
       Some (put_bytes off xs (block_data ops info i k))) \<and>
    (\<forall>b. b \<notin> set bs \<longrightarrow> sb_bread ops d' b = sb_bread ops (si_dev info) b) \<and>
    (\<forall>b \<in> set bs. data_start info \<le> unat b)"
proof -
  let ?b = "file_block ops info i"
  let ?ws = "map (\<lambda>(k, w). (?b k, w)) ds"
  have ws: "zip bs (map snd ds) = ?ws" by (simp add: bs_def) (induction ds, auto)
  have fst_ws: "map fst ?ws = bs" by (simp add: case_prod_beta' comp_def bs_def)
  have k9: "k < 9 \<and> ?b k \<noteq> 0" if "k \<in> fst ` set ds" for k using that mapped ds by (auto simp: pieces_ok_def)
  have b: "sb_bread ops (si_dev info) (?b k) \<noteq> None" "data_start info \<le> unat (?b k)" if "k \<in> fst ` set ds" for k
    using file_block_data [OF inv i c, of k] k9 [OF that] d by (auto simp: data_ok_def)
  have "inj_on ?b (set (map fst ds))"
    using k9 file_block_inj [OF inv c i i] by (intro inj_onI) (metis list.set_map)
  then have "distinct (map fst ?ws)"
    using ds unfolding fst_ws bs_def by (simp add: pieces_ok_def distinct_map [of ?b] del: map_map)
  moreover have "\<forall>(b, off, xs) \<in> set ?ws. sb_bread ops (si_dev info) b \<noteq> None \<and>
      off + length xs \<le> unat (bd_block_size ops)"
    using b(1) ds by (force simp: pieces_ok_def)
  ultimately obtain d' where d': "write_bhs ops (si_dev info) ?ws = Some d'"
    "\<And>b off xs. (b, off, xs) \<in> set ?ws \<Longrightarrow>
      sb_bread ops d' b = Some (put_bytes off xs (the (sb_bread ops (si_dev info) b)))"
    "\<And>b. b \<notin> fst ` set ?ws \<Longrightarrow> sb_bread ops d' b = sb_bread ops (si_dev info) b"
    using write_bhs_ok [OF c, of ?ws "si_dev info"] by blast
  have set_bs: "fst ` set ?ws = set bs" by (metis fst_ws list.set_map)
  have "sb_bread ops d' (?b k) = Some (put_bytes off xs (block_data ops info i k))"
    if "(k, off, xs) \<in> set ds" for k off xs
    unfolding block_data_def by (rule d'(2)) (use that in force)
  then show ?thesis using d'(1,3) b(2) unfolding ws set_bs by (auto simp: bs_def)
qed

text \<open>The buffers of blocks that are mapped, with the bytes \<open>x\<close> for the block at position \<open>k\<close>.\<close>

definition bufs_of :: "'d bdev_ops \<Rightarrow> 'd sfs_info \<Rightarrow> nat \<Rightarrow> (nat \<times> byte list) list \<Rightarrow> buffer list" where
  "bufs_of ops info i cs = map (\<lambda>(k, x). (k, Some (file_block ops info i k), x)) cs"

lemma map_buffers_mapped:
  "\<forall>(k, x) \<in> set cs. k * bs < isz \<Longrightarrow>
   map_buffers bs gb isz (bufs_of ops info i cs) s =
     Some (0, s, map (\<lambda>(k, x). (file_block ops info i k, cut_page bs isz k x)) cs)"
  by (induction cs) (auto simp: bufs_of_def)

lemma writepage_mapped:
  assumes c: "buffer_cache ops" and inv: "fs_inv ops info" and d: "data_ok ops info"
    and i: "i < entry_cnt info" and cs: "distinct (map fst cs)"
      "\<forall>(k, x) \<in> set cs. k < 9 \<and> length x = blk_size ops \<and> k * blk_size ops < isz"
    and mapped: "\<forall>k \<in> fst ` set cs. file_block ops info i k \<noteq> 0"
  shows "\<exists>info'. sfs_writepage ops isz info (int i + 1) (bufs_of ops info i cs) = Some (0, info') \<and>
    fs_inv ops info' \<and> data_ok ops info' \<and> si_sb info' = si_sb info \<and> table ops info' = table ops info \<and>
    (\<forall>k x. (k, x) \<in> set cs \<longrightarrow> block_data ops info' i k = cut_page (blk_size ops) isz k x) \<and>
    (\<forall>j < entry_cnt info. \<forall>l < 9. (j \<noteq> i \<or> l \<notin> fst ` set cs) \<and> file_block ops info j l \<noteq> 0 \<longrightarrow>
       block_data ops info' j l = block_data ops info j l) \<and>
    (\<forall>b. unat b < data_start info \<longrightarrow> sb_bread ops (si_dev info') b = sb_bread ops (si_dev info) b)"
proof -
  let ?cut = "\<lambda>k x. cut_page (blk_size ops) isz k x"
  define ds where "ds = map (\<lambda>(k, x). (k, 0 :: nat, ?cut k x)) cs"
  let ?bs = "map (file_block ops info i) (map fst ds)"
  have fds: "map fst ds = map fst cs" "fst ` set ds = fst ` set cs"
    by (simp_all add: ds_def case_prod_beta' comp_def image_image)
  have mem: "(k, 0, ?cut k x) \<in> set ds" if "(k, x) \<in> set cs" for k x using that by (force simp: ds_def)
  have "pieces_ok ops ds" using cs unfolding pieces_ok_def fds(1) by (auto simp: ds_def)
  from write_bhs_file [OF c inv d i this mapped [folded fds(2)]] obtain d' where d':
    "write_bhs ops (si_dev info) (zip ?bs (map snd ds)) = Some d'"
    "\<And>k off xs. (k, off, xs) \<in> set ds \<Longrightarrow>
       sb_bread ops d' (file_block ops info i k) = Some (put_bytes off xs (block_data ops info i k))"
    "\<And>b. b \<notin> set ?bs \<Longrightarrow> sb_bread ops d' b = sb_bread ops (si_dev info) b"
    and low: "\<And>b. b \<in> set ?bs \<Longrightarrow> data_start info \<le> unat b" by blast
  have zip: "zip ?bs (map snd ds) = map (\<lambda>(b, x). (b, 0, x)) (map (\<lambda>(k, x). (file_block ops info i k, ?cut k x)) cs)"
    unfolding ds_def by (induction cs) auto
  have rd: "sb_bread ops d' b \<noteq> None" if "sb_bread ops (si_dev info) b \<noteq> None" for b
    using that d'(2,3) by (cases "b \<in> set ?bs") (force, simp)
  have keep: "sb_bread ops d' b = sb_bread ops (si_dev info) b" if "unat b < data_start info" for b
    using d'(3) low [of b] that by fastforce
  note set_dev = set_dev_inv [OF inv d keep rd]
  have k9: "k < 9 \<and> file_block ops info i k \<noteq> 0" if "k \<in> fst ` set cs" for k
    using mapped cs(2) that by auto
  have "\<forall>(k, x) \<in> set cs. k * blk_size ops < isz" using cs(2) by auto
  note mb = map_buffers_mapped [OF this, of "sfs_get_block_bh ops (int i + 1)" ops info i info]
  have w: "sfs_writepage ops isz info (int i + 1) (bufs_of ops info i cs) = Some (0, info\<lparr>si_dev := d'\<rparr>)"
    using d'(1) by (simp add: sfs_writepage_def block_write_full_page_def mb submit_write_bhs zip del: map_map)
  have "block_data ops (info\<lparr>si_dev := d'\<rparr>) j l = block_data ops info j l"
    if j: "j < entry_cnt info" "l < 9" "j \<noteq> i \<or> l \<notin> fst ` set cs" "file_block ops info j l \<noteq> 0" for j l
  proof -
    have "file_block ops info j l \<notin> file_block ops info i ` fst ` set cs"
      using file_block_inj [OF inv c j(1) i j(2) _ j(4)] k9 j(3) by auto
    then have "file_block ops info j l \<notin> set ?bs" by (simp only: list.set_map fds(2) not_False_eq_True)
    then show ?thesis using d'(3) set_dev(3) by (simp add: block_data_def)
  qed
  moreover have "block_data ops (info\<lparr>si_dev := d'\<rparr>) i k = ?cut k x" if x: "(k, x) \<in> set cs" for k x
  proof -
    have "k < 9" "file_block ops info i k \<noteq> 0" "length (?cut k x) = blk_size ops"
      using k9 [of k] cs(2) x by force+
    then have "put_bytes 0 (?cut k x) (block_data ops info i k) = ?cut k x"
      using block_data_length [OF c inv d i, of k] by (simp add: put_bytes_def)
    then show ?thesis using d'(2) [OF mem [OF x]] by (simp add: block_data_def set_dev(3))
  qed
  ultimately show ?thesis using w set_dev keep by (intro exI [of _ "info\<lparr>si_dev := d'\<rparr>"]) simp
qed

text \<open>
  Filling the page: none of its buffers is new, so that what is not written whole is read from
  the disk, and after the copy each block of the page has its old bytes around the new ones.
\<close>

lemma fill_read:
  assumes "\<forall>(k, off, xs) \<in> set ds. length xs \<noteq> bs \<longrightarrow> rd (f k) = Some (g k)"
  shows "fill_buffers bs rd ds (map (\<lambda>k. (f k, False)) (map fst ds)) =
    Some (map (\<lambda>(k, off, xs). (k, Some (f k), if length xs = bs then replicate bs 0 else g k)) ds)"
  using assms by (induction ds) auto

lemma write_begin_copy:
  assumes c: "buffer_cache ops" and inv: "fs_inv ops info" and d: "data_ok ops info"
    and i: "i < entry_cnt info" and ds: "pieces_ok ops ds" and u: "used_ok info u"
    and fits: "length (holes (table ops info ! i) (map fst ds)) \<le> length (free_data_blocks info u)"
  shows "\<exists>info1 bufs. sfs_write_begin ops info (int i + 1) ds = Some (0, info1, bufs) \<and>
    mapped_from ops i info info1 \<and> (\<forall>k \<in> fst ` set ds. file_block ops info1 i k \<noteq> 0) \<and>
    copy_in ds bufs = bufs_of ops info1 i (map (\<lambda>(k, off, xs). (k, put_bytes off xs (block_data ops info1 i k))) ds)"
proof -
  let ?ks = "map fst ds" and ?bs = "blk_size ops"
  have ks: "\<forall>k \<in> set ?ks. k < 9" "distinct ?ks" using ds by (auto simp: pieces_ok_def)
  from map_pieces_maps [OF c inv d i ks u] fits
  obtain info1 where m: "map_pieces (sfs_get_block_bh ops (int i + 1)) ?ks info =
      Some (0, info1, map (\<lambda>k. (file_block ops info1 i k, False)) ?ks)" and mf: "mapped_from ops i info info1"
    and nz: "\<forall>k \<in> fst ` set ds. file_block ops info1 i k \<noteq> 0" by auto
  have i1: "fs_inv ops info1" "data_ok ops info1" "i < entry_cnt info1"
    using mf i by (auto simp: mapped_from_def entry_cnt_def)
  have len: "length (block_data ops info1 i k) = ?bs" if "k \<in> fst ` set ds" for k
    using block_data_length [OF c i1, of k] nz ks(1) that by auto
  have "dev_read ops info1 (file_block ops info1 i k) = Some (block_data ops info1 i k)" if "k \<in> fst ` set ds" for k
    using file_block_data [OF i1(1,3) c, of k] i1(2) nz ks(1) that
    by (auto simp: data_ok_def dev_read_def block_data_def)
  then have rd: "\<forall>(k, off, xs) \<in> set ds. length xs \<noteq> ?bs \<longrightarrow>
      dev_read ops info1 (file_block ops info1 i k) = Some (block_data ops info1 i k)"
    by force
  let ?bufs = "map (\<lambda>(k, off, xs). (k, Some (file_block ops info1 i k),
      if length xs = ?bs then replicate ?bs 0 else block_data ops info1 i k)) ds"
  have "sfs_write_begin ops info (int i + 1) ds = Some (0, info1, ?bufs)"
    using m fill_read [OF rd] by (simp add: sfs_write_begin_def block_write_begin_def)
  moreover have "put_bytes off xs (if length xs = ?bs then replicate ?bs 0 else block_data ops info1 i k) =
      put_bytes off xs (block_data ops info1 i k)" if "(k, off, xs) \<in> set ds" for k off xs
  proof -
    have "k \<in> fst ` set ds" using that by force
    moreover have "off + length xs \<le> ?bs" using ds that by (auto simp: pieces_ok_def)
    ultimately show ?thesis using len [of k] by (auto simp: put_bytes_def)
  qed
  then have "copy_in ds ?bufs = bufs_of ops info1 i (map (\<lambda>(k, off, xs). (k, put_bytes off xs (block_data ops info1 i k))) ds)"
    unfolding copy_in_def bufs_of_def by (intro nth_equalityI) (auto simp: case_prod_beta')
  ultimately show ?thesis using mf nz by blast
qed

text \<open>What is written out: the old bytes around the new ones, and zeros behind the end of the file.\<close>

abbreviation written :: "'d bdev_ops \<Rightarrow> nat \<Rightarrow> piece list \<Rightarrow> 'd sfs_info \<Rightarrow> nat \<Rightarrow> nat \<Rightarrow> nat \<Rightarrow> byte list \<Rightarrow> byte list" where
  "written ops isz ds info i k off xs \<equiv>
     cut_page (blk_size ops) (size_after (blk_size ops) isz ds) k (put_bytes off xs (block_data ops info i k))"

lemma write_page_ok:
  assumes c: "buffer_cache ops" and inv: "fs_inv ops info" and d: "data_ok ops info"
    and i: "i < entry_cnt info" and ds: "pieces_ok ops ds" and u: "used_ok info u"
    and fits: "length (holes (table ops info ! i) (map fst ds)) \<le> length (free_data_blocks info u)"
    and some: "\<forall>(k, off, xs) \<in> set ds. xs \<noteq> []"
  shows "\<exists>info1 info'. write_page ops isz info (int i + 1) ds = Some (0, info') \<and>
    mapped_from ops i info info1 \<and> fs_inv ops info' \<and> data_ok ops info' \<and>
    si_sb info' = si_sb info \<and> table ops info' = table ops info1 \<and>
    (\<forall>k off xs. (k, off, xs) \<in> set ds \<longrightarrow> file_block ops info1 i k \<noteq> 0 \<and>
       block_data ops info' i k = written ops isz ds info1 i k off xs) \<and>
    (\<forall>j < entry_cnt info. \<forall>l < 9. (j \<noteq> i \<or> l \<notin> fst ` set ds) \<and> file_block ops info1 j l \<noteq> 0 \<longrightarrow>
       block_data ops info' j l = block_data ops info1 j l) \<and>
    (\<forall>b. unat b < data_start info \<and> b \<noteq> slot_blk (bd_block_size ops) (si_sb info) i \<longrightarrow>
       sb_bread ops (si_dev info') b = sb_bread ops (si_dev info) b)"
proof -
  let ?bs = "blk_size ops" and ?isz = "size_after (blk_size ops) isz ds"
  obtain info1 bufs where m: "sfs_write_begin ops info (int i + 1) ds = Some (0, info1, bufs)"
    and mf: "mapped_from ops i info info1" and nz: "\<forall>k \<in> fst ` set ds. file_block ops info1 i k \<noteq> 0"
    and b: "copy_in ds bufs = bufs_of ops info1 i (map (\<lambda>(k, off, xs). (k, put_bytes off xs (block_data ops info1 i k))) ds)"
    using write_begin_copy [OF c inv d i ds u fits] by blast
  let ?cs = "map (\<lambda>(k, off, xs). (k, put_bytes off xs (block_data ops info1 i k))) ds"
  have i1: "fs_inv ops info1" "data_ok ops info1" "i < entry_cnt info1" "si_sb info1 = si_sb info"
    using mf i by (auto simp: mapped_from_def entry_cnt_def)
  have fcs: "map fst ?cs = map fst ds" "fst ` set ?cs = fst ` set ds"
    by (simp_all add: case_prod_beta' comp_def image_image)
  have p: "k < 9" "off + length xs \<le> ?bs" "k * ?bs < ?isz" "length (block_data ops info1 i k) = ?bs"
    if x: "(k, off, xs) \<in> set ds" for k off xs
  proof -
    show k: "k < 9" "off + length xs \<le> ?bs" using ds x by (auto simp: pieces_ok_def)
    have "0 < length xs" using some x by auto
    then show "k * ?bs < ?isz" using size_after_piece [OF x, of ?bs isz] by linarith
    show "length (block_data ops info1 i k) = ?bs"
      using nz x by (intro block_data_length [OF c i1(1-3) k(1)]) force
  qed
  have dist: "distinct (map fst ?cs)" using ds unfolding fcs(1) by (simp add: pieces_ok_def)
  have "\<forall>(k, x) \<in> set ?cs. k < 9 \<and> length x = ?bs \<and> k * ?bs < ?isz" using p by auto
  from writepage_mapped [OF c i1(1-3) dist this nz [folded fcs(2)]]
  obtain info' where w: "sfs_writepage ops ?isz info1 (int i + 1) (bufs_of ops info1 i ?cs) = Some (0, info')"
    and rest: "fs_inv ops info'" "data_ok ops info'" "si_sb info' = si_sb info" "table ops info' = table ops info1"
      "\<forall>k x. (k, x) \<in> set ?cs \<longrightarrow> block_data ops info' i k = cut_page ?bs ?isz k x"
      "\<forall>j < entry_cnt info. \<forall>l < 9. (j \<noteq> i \<or> l \<notin> fst ` set ds) \<and> file_block ops info1 j l \<noteq> 0 \<longrightarrow>
         block_data ops info' j l = block_data ops info1 j l"
      "\<forall>b. unat b < data_start info \<longrightarrow> sb_bread ops (si_dev info') b = sb_bread ops (si_dev info1) b"
    unfolding i1(4) entry_cnt_sb [OF i1(4)] fcs(2) by blast
  have "write_page ops isz info (int i + 1) ds = Some (0, info')"
    using m w b by (simp add: write_page_def)
  moreover have "file_block ops info1 i k \<noteq> 0" if "(k, off, xs) \<in> set ds" for k off xs
    using nz that by force
  moreover have "block_data ops info' i k = written ops isz ds info1 i k off xs" if "(k, off, xs) \<in> set ds" for k off xs
    using rest(5) that by force
  moreover have "sb_bread ops (si_dev info') b = sb_bread ops (si_dev info) b"
    if "unat b < data_start info" "b \<noteq> slot_blk (bd_block_size ops) (si_sb info) i" for b
    using rest(7) mf that by (simp add: mapped_from_def)
  ultimately show ?thesis using mf rest by (intro exI [of _ info1] exI [of _ info']) blast
qed

text \<open>A page that could be read, and whose blocks keep their data, reads the same.\<close>

lemma readpage_kept:
  assumes c: "buffer_cache ops" and inv: "fs_inv ops info" and d: "data_ok ops info"
    and inv': "fs_inv ops info'" and d': "data_ok ops info'" and sb: "si_sb info' = si_sb info"
    and j: "j < entry_cnt info" and r: "sfs_readpage ops isz info (int j + 1) ls = Some (Inr xs, info)"
    and same: "\<And>l. l \<in> set ls \<Longrightarrow> l < 9 \<Longrightarrow> file_block ops info j l \<noteq> 0 \<Longrightarrow>
      file_block ops info' j l = file_block ops info j l \<and> block_data ops info' j l = block_data ops info j l"
  shows "sfs_readpage ops isz info' (int j + 1) ls = Some (Inr xs, info')"
proof -
  note ls = readpage_Inr(2,3) [OF c inv d j r]
  have j': "j < entry_cnt info'" using j sb by (simp add: entry_cnt_def)
  have rd: "\<forall>l \<in> set ls. readable ops isz info' j l"
    using ls(1) same by (auto simp: readable_def)
  have "page_data ops isz info' j l = page_data ops isz info j l" if "l \<in> set ls" for l
    using ls(1) same [OF that] that by (auto simp: readable_def page_data_def)
  then have e: "map (page_data ops isz info' j) ls = map (page_data ops isz info j) ls" by simp
  show ?thesis using rd unfolding readpage_eq [OF c inv' d' j'] e ls(2) by simp
qed

text \<open>
  What was written is read back, in a file of any size that reaches the blocks, and any page of the
  file system that could be read before, and does not overlap it, reads as before.
\<close>

lemma write_then_readpage:
  assumes c: "buffer_cache ops" and inv: "fs_inv ops info" and d: "data_ok ops info"
    and i: "i < entry_cnt info" and ds: "pieces_ok ops ds" and u: "used_ok info u"
    and fits: "length (holes (table ops info ! i) (map fst ds)) \<le> length (free_data_blocks info u)"
    and whole: "\<forall>(k, off, xs) \<in> set ds. off = 0 \<and> length xs = unat (bd_block_size ops)"
  shows "\<exists>info'. write_page ops isz info (int i + 1) ds = Some (0, info') \<and> fs_inv ops info' \<and> data_ok ops info' \<and>
    si_sb info' = si_sb info \<and> blocks_only ops i info info' \<and>
    (\<forall>b. unat b < data_start info \<and> b \<noteq> slot_blk (bd_block_size ops) (si_sb info) i \<longrightarrow>
       sb_bread ops (si_dev info') b = sb_bread ops (si_dev info) b) \<and>
    (\<forall>z. (\<forall>k \<in> fst ` set ds. k * unat (bd_block_size ops) < z) \<longrightarrow>
       sfs_readpage ops z info' (int i + 1) (map fst ds) = Some (Inr (concat (map (snd \<circ> snd) ds)), info')) \<and>
    (\<forall>z j ls xs. j < entry_cnt info \<and> (j \<noteq> i \<or> set ls \<inter> fst ` set ds = {}) \<and>
       sfs_readpage ops z info (int j + 1) ls = Some (Inr xs, info) \<longrightarrow>
       sfs_readpage ops z info' (int j + 1) ls = Some (Inr xs, info'))"
proof -
  have "0 < blk_size ops" using c by (simp add: buffer_cache_def)
  then have some: "\<forall>(k, off, xs) \<in> set ds. xs \<noteq> []" using whole by fastforce
  obtain info1 info' where w: "write_page ops isz info (int i + 1) ds = Some (0, info')"
    "mapped_from ops i info info1" "fs_inv ops info'" "data_ok ops info'"
    "si_sb info' = si_sb info" "table ops info' = table ops info1"
    "\<And>k off xs. (k, off, xs) \<in> set ds \<Longrightarrow> file_block ops info1 i k \<noteq> 0 \<and>
       block_data ops info' i k = written ops isz ds info1 i k off xs"
    "\<And>j l. j < entry_cnt info \<Longrightarrow> l < 9 \<Longrightarrow> j \<noteq> i \<or> l \<notin> fst ` set ds \<Longrightarrow> file_block ops info1 j l \<noteq> 0 \<Longrightarrow>
       block_data ops info' j l = block_data ops info1 j l"
    and low: "\<forall>b. unat b < data_start info \<and> b \<noteq> slot_blk (bd_block_size ops) (si_sb info) i \<longrightarrow>
       sb_bread ops (si_dev info') b = sb_bread ops (si_dev info) b"
    using write_page_ok [OF c inv d i ds u fits some, of isz] by blast
  have only: "blocks_only ops i info info'" using w(2,6) by (simp add: mapped_from_def blocks_only_def)
  have i1: "i < entry_cnt info'" "i < entry_cnt info1" "fs_inv ops info1" "data_ok ops info1"
    using i w(2,5) by (simp_all add: entry_cnt_def mapped_from_def)
  have ks: "\<forall>k \<in> set (map fst ds). k < 9 \<and> file_block ops info' i k \<noteq> 0"
    using ds w(6,7) by (force simp: pieces_ok_def)
  have "block_data ops info' i k = xs" if x: "(k, off, xs) \<in> set ds" for k off xs
  proof -
    have k: "k < 9" "off = 0" "length xs = blk_size ops"
      using x ds whole by (auto simp: pieces_ok_def)
    then have "k * blk_size ops + blk_size ops \<le> size_after (blk_size ops) isz ds"
      using size_after_piece [OF x, of "blk_size ops" isz] by simp
    then show ?thesis
      using w(7) [OF x] k block_data_length [OF c i1(3,4,2), of k]
      by (simp add: put_bytes_def cut_page_whole)
  qed
  then have e: "map (block_data ops info' i) (map fst ds) = map (snd \<circ> snd) ds" by auto
  have "sfs_readpage ops z info' (int i + 1) (map fst ds) = Some (Inr (concat (map (snd \<circ> snd) ds)), info')"
    if "\<forall>k \<in> fst ` set ds. k * blk_size ops < z" for z
    using readpage_mapped [OF c w(3,4) i1(1) ks, of z] that unfolding e by simp
  moreover have "sfs_readpage ops z info' (int j + 1) ls = Some (Inr xs, info')"
    if j: "j < entry_cnt info" "j \<noteq> i \<or> set ls \<inter> fst ` set ds = {}"
      and r: "sfs_readpage ops z info (int j + 1) ls = Some (Inr xs, info)" for z j ls xs
  proof (rule readpage_kept [OF c inv d w(3,4,5) j(1) r])
    fix l assume l: "l \<in> set ls" "l < 9" "file_block ops info j l \<noteq> 0"
    have fb: "file_block ops info1 j l = file_block ops info j l"
      using w(2) l j(1) by (cases "j = i") (auto simp: mapped_from_def mapped_from_other [OF w(2)])
    have "block_data ops info1 j l = block_data ops info j l"
      using mapped_from_data [OF inv d i w(2)] file_block_data [OF inv j(1) c l(2,3)] fb
      by (simp add: block_data_def)
    moreover have "block_data ops info' j l = block_data ops info1 j l"
      using w(8) [OF j(1) l(2)] l fb j(2) by auto
    ultimately show "file_block ops info' j l = file_block ops info j l \<and>
        block_data ops info' j l = block_data ops info j l"
      using fb w(6) by simp
  qed
  ultimately show ?thesis using w(1,3,4,5) low only by (intro exI [of _ info']) blast
qed

text \<open>
  A block that is mapped anew keeps what the disk had in it, up to the end of the file: the module
  does not tell the kernel that the buffer is new, so that the kernel reads it around what is written.
\<close>

lemma partial_write_keeps_old_data:
  fixes isz :: nat
  assumes c: "buffer_cache ops" and inv: "fs_inv ops info" and d: "data_ok ops info"
    and i: "i < entry_cnt info" and k: "k < 9" and hole: "file_block ops info i k = 0"
    and xs: "xs \<noteq> []" "off + length xs \<le> blk_size ops"
    and u: "used_ok info u" and free: "free_data_blocks info u \<noteq> []"
  defines "z \<equiv> max isz (k * blk_size ops + off + length xs)"
  shows "\<exists>info' b old. write_page ops isz info (int i + 1) [(k, off, xs)] = Some (0, info') \<and>
    file_block ops info' i k = b \<and> data_start info \<le> unat b \<and> sb_bread ops (si_dev info) b = Some old \<and>
    sfs_readpage ops z info' (int i + 1) [k] =
      Some (Inr (cut_page (blk_size ops) z k (put_bytes off xs old)), info')"
proof -
  let ?ds = "[(k, off, xs)]"
  have "pieces_ok ops ?ds" "\<forall>(k, off, xs) \<in> set ?ds. xs \<noteq> []" using k xs by (simp_all add: pieces_ok_def)
  moreover have "length (holes (table ops info ! i) (map fst ?ds)) \<le> length (free_data_blocks info u)"
    using free hole by (cases "free_data_blocks info u") auto
  ultimately obtain info1 info' where w: "write_page ops isz info (int i + 1) ?ds = Some (0, info')"
    "mapped_from ops i info info1" "fs_inv ops info'" "data_ok ops info'" "si_sb info' = si_sb info"
    "table ops info' = table ops info1" "file_block ops info1 i k \<noteq> 0"
    "block_data ops info' i k = written ops isz ?ds info1 i k off xs"
    using write_page_ok [OF c inv d i _ u, of ?ds isz] by (metis list.set_intros(1))
  have i': "i < entry_cnt info'" "i < entry_cnt info1" "fs_inv ops info1"
    using i w(2,5) by (simp_all add: entry_cnt_def mapped_from_def)
  have b: "data_start info \<le> unat (file_block ops info1 i k)" "unat (file_block ops info1 i k) < part_size info"
    using file_block_data [OF i'(3,2) c k w(7)] w(2) by (simp_all add: mapped_from_def)
  then obtain old where old: "sb_bread ops (si_dev info) (file_block ops info1 i k) = Some old"
    using d by (auto simp: data_ok_def)
  have "0 < length xs" using xs(1) by simp
  then have "k * blk_size ops < z" unfolding z_def by linarith
  then have "sfs_readpage ops z info' (int i + 1) [k] = Some (Inr (block_data ops info' i k), info')"
    using readpage_mapped [OF c w(3,4) i'(1), of "[k]" z] k w(6,7) by simp
  moreover have "block_data ops info1 i k = old"
    using mapped_from_data [OF inv d i w(2) b(1)] old by (simp add: block_data_def)
  ultimately show ?thesis
    using w b old by (intro exI [of _ info'] exI [of _ "file_block ops info1 i k"] exI [of _ old])
      (simp add: z_def)
qed

end
