(* ===== verification/Sfs_Spec.thy ===== *)
theory Sfs_Spec
  imports Sfs_Calls Sfs_Page_Data
begin

text \<open>
  What the mounted file system promises: an array of files with a name, attributes and the
  positions that hold data, and a number of free blocks. Block numbers, flags, locks and bytes are
  gone. The VFS calls of \<open>Sfs_Calls\<close> refine the calls on this state.
\<close>

declare nth_table [simp del]

section \<open>The abstract file system\<close>

record afile =
  af_name :: "byte list"
  af_size :: u32
  af_time :: u32
  af_perms :: u32
  af_held :: "nat list"

record afs =
  a_files :: "afile option list"
  a_free :: nat

definition is_named :: "byte list \<Rightarrow> afile option \<Rightarrow> bool" where
  "is_named fn x = (case x of None \<Rightarrow> False | Some f \<Rightarrow> af_name f = fn)"

definition a_find :: "byte list \<Rightarrow> afs \<Rightarrow> nat option" where
  "a_find fn a = find (\<lambda>i. is_named fn (a_files a ! i)) [0..<length (a_files a)]"

definition a_slot :: "afs \<Rightarrow> nat option" where
  "a_slot a = find (\<lambda>i. a_files a ! i = None) [0..<length (a_files a)]"

definition a_file :: "afs \<Rightarrow> int \<Rightarrow> afile option" where
  "a_file a ino = (if 1 \<le> ino \<and> nat ino \<le> length (a_files a) then a_files a ! nat (ino - 1) else None)"

definition a_store :: "int \<Rightarrow> afile option \<Rightarrow> afs \<Rightarrow> afs" where
  "a_store ino x a = a\<lparr>a_files := (a_files a)[nat (ino - 1) := x]\<rparr>"

text \<open>
  \<open>None\<close>: the call is outside the contract. A name to create has 1 to 15 characters; the inode
  numbers are those of files. Removing gives back the blocks before the first hole.
\<close>

definition spec_create :: "byte list \<Rightarrow> u32 \<Rightarrow> u32 \<Rightarrow> bool \<Rightarrow> afs \<Rightarrow> (int \<times> afs) option" where
  "spec_create fn now perms inode_ok a =
     (if fn = [] \<or> 15 < length fn \<or> 0 \<in> set fn then None
      else case a_slot a of
        None \<Rightarrow> Some (- EIO, a)
      | Some k \<Rightarrow>
          if a_find fn a \<noteq> None then Some (- EIO, a)
          else if \<not> inode_ok then Some (- EACCES, a)
          else Some (0, a_store (int k + 1)
            (Some \<lparr>af_name = fn, af_size = 0, af_time = now, af_perms = perms, af_held = []\<rparr>) a))"

definition a_returned :: "nat list \<Rightarrow> nat" where
  "a_returned held = length (takeWhile (\<lambda>k. k \<in> set held) [0..<9])"

definition spec_unlink :: "byte list \<Rightarrow> afs \<Rightarrow> (int \<times> afs) option" where
  "spec_unlink fn a =
     (if 0 \<in> set fn then None
      else case a_find fn a of
        None \<Rightarrow> Some (- EIO, a)
      | Some i \<Rightarrow> Some (0, (a_store (int i + 1) None a)
          \<lparr>a_free := a_free a + a_returned (af_held (the (a_files a ! i)))\<rparr>))"

definition hold :: "nat \<Rightarrow> nat list \<Rightarrow> nat list" where
  "hold k held = filter (\<lambda>j. j = k \<or> j \<in> set held) [0..<9]"

definition spec_block :: "int \<Rightarrow> nat \<Rightarrow> bool \<Rightarrow> afs \<Rightarrow> (int \<times> afs) option" where
  "spec_block ino k create a =
     (case a_file a ino of
        None \<Rightarrow> None
      | Some f \<Rightarrow>
          if 9 \<le> k then Some (- ENOSPC, a)
          else if k \<in> set (af_held f) then Some (0, a)
          else if \<not> create then Some (- EIO, a)
          else if a_free a = 0 then Some (- ENOSPC, a)
          else Some (0, (a_store ino (Some (f\<lparr>af_held := hold k (af_held f)\<rparr>)) a)
                 \<lparr>a_free := a_free a - 1\<rparr>))"

definition spec_write_inode :: "u32 \<Rightarrow> vfs_inode \<Rightarrow> afs \<Rightarrow> (int \<times> afs) option" where
  "spec_write_inode bs inode a =
     (if \<not> S_ISREG (i_mode inode) then Some (0, a)
      else case a_file a (i_ino inode) of
        None \<Rightarrow> None
      | Some f \<Rightarrow>
          let sz = word_of_int (i_size inode); n = blocks_needed bs sz
          in Some (0, (a_store (i_ino inode) (Some (f\<lparr>af_size := sz,
               af_time := word_of_int (max (i_mtime inode) (i_ctime inode)),
               af_perms := word_of_int (perms_of_mode (i_mode inode)),
               af_held := filter (\<lambda>j. j < n) (af_held f)\<rparr>)) a)
               \<lparr>a_free := a_free a + length (filter (\<lambda>j. n \<le> j) (af_held f))\<rparr>))"

fun spec_call :: "u32 \<Rightarrow> fs_call \<Rightarrow> afs \<Rightarrow> (int \<times> afs) option" where
  "spec_call bs (FC_create fn mode now ni) a =
     spec_create fn now (word_of_int (perms_of_mode mode)) (ni \<noteq> None) a"
| "spec_call bs (FC_unlink fn inode) a = spec_unlink fn a"
| "spec_call bs (FC_block ino k create) a = spec_block ino k create a"
| "spec_call bs (FC_write_inode inode) a = spec_write_inode bs inode a"

fun spec_calls :: "u32 \<Rightarrow> fs_call list \<Rightarrow> afs \<Rightarrow> (int list \<times> afs) option" where
  "spec_calls bs [] a = Some ([], a)"
| "spec_calls bs (c # cs) a = do {
     (r, a) \<leftarrow> spec_call bs c a;
     (rs, a) \<leftarrow> spec_calls bs cs a;
     Some (r # rs, a)
   }"

section \<open>What the specification promises\<close>

text \<open>No two files have the same name, and blocks are never gained.\<close>

definition a_names :: "afs \<Rightarrow> bool" where
  "a_names a \<longleftrightarrow> (\<forall>i < length (a_files a). \<forall>j < i. \<forall>fn.
     \<not> (is_named fn (a_files a ! i) \<and> is_named fn (a_files a ! j)))"

definition a_space :: "afs \<Rightarrow> nat" where
  "a_space a = a_free a + (\<Sum>x \<leftarrow> a_files a. case x of None \<Rightarrow> 0 | Some f \<Rightarrow> length (af_held f))"

lemma a_store_simps [simp]:
  "a_files (a_store ino x a) = (a_files a)[nat (ino - 1) := x]" "a_free (a_store ino x a) = a_free a"
  by (simp_all add: a_store_def)

lemma a_slot_Some: "a_slot a = Some k \<Longrightarrow> k < length (a_files a) \<and> a_files a ! k = None"
  by (simp add: a_slot_def find_upt_Some)

lemma a_find_Some:
  "a_find fn a = Some i \<Longrightarrow> i < length (a_files a) \<and> is_named fn (a_files a ! i)"
  by (simp add: a_find_def find_upt_Some)

lemma a_find_None: "a_find fn a = None \<longleftrightarrow> (\<forall>i < length (a_files a). \<not> is_named fn (a_files a ! i))"
  by (simp add: a_find_def find_upt_None)

lemma a_fileE:
  assumes "a_file a ino = Some f"
  obtains i where "ino = int i + 1" "i < length (a_files a)" "a_files a ! i = Some f"
  using assms by (intro that [of "nat (ino - 1)"]) (auto simp: a_file_def split: if_splits)

lemma is_named_simps [simp]:
  "\<not> is_named fn None" "is_named fn (Some f) \<longleftrightarrow> af_name f = fn"
  by (simp_all add: is_named_def)

text \<open>Replacing a file by nothing, by one of the same name, or by one of a name not yet there.\<close>

lemma a_names_store:
  assumes "a_names a" "i < length (a_files a)"
    and "\<And>fn. is_named fn x \<Longrightarrow> is_named fn (a_files a ! i) \<or> a_find fn a = None"
  shows "a_names (a\<lparr>a_files := (a_files a)[i := x], a_free := n\<rparr>)"
  unfolding a_names_def
proof (intro allI impI notI)
  fix p q fn
  assume p: "p < length (a_files (a\<lparr>a_files := (a_files a)[i := x], a_free := n\<rparr>))" and q: "q < p"
  assume "is_named fn (a_files (a\<lparr>a_files := (a_files a)[i := x], a_free := n\<rparr>) ! p) \<and>
    is_named fn (a_files (a\<lparr>a_files := (a_files a)[i := x], a_free := n\<rparr>) ! q)"
  then have n: "is_named fn ((a_files a)[i := x] ! p)" "is_named fn ((a_files a)[i := x] ! q)" by simp_all
  have uniq: "\<not> (is_named fn (a_files a ! p) \<and> is_named fn (a_files a ! q))"
    using assms(1) p q by (auto simp: a_names_def)
  show False
    using n uniq p q assms(2) assms(3) [of fn]
    by (cases "p = i"; cases "q = i") (auto simp: a_find_None)
qed

lemma sum_list_store:
  fixes f :: "'a \<Rightarrow> nat"
  assumes "i < length xs"
  shows "(\<Sum>x \<leftarrow> xs[i := y]. f x) + f (xs ! i) = (\<Sum>x \<leftarrow> xs. f x) + f y"
  using assms by (induction xs arbitrary: i) (auto split: nat.splits)

lemma length_le_held:
  assumes "distinct xs" "set xs \<subseteq> set ys"
  shows "length xs \<le> length ys"
proof -
  have "length xs = card (set xs)" using assms(1) by (simp add: distinct_card)
  also have "\<dots> \<le> card (set ys)" using assms(2) by (intro card_mono) simp_all
  also have "\<dots> \<le> length ys" by (rule card_length)
  finally show ?thesis .
qed

lemma a_returned_le: "a_returned held \<le> length held"
  unfolding a_returned_def by (rule length_le_held) (auto dest: set_takeWhileD)

lemma length_hold: "length (hold k held) \<le> Suc (length held)"
  using length_le_held [of "hold k held" "k # held"] by (auto simp: hold_def simp del: upt_rec_numeral)

lemma a_space_store:
  assumes "i < length (a_files a)"
  shows "a_space (a\<lparr>a_files := (a_files a)[i := x], a_free := n\<rparr>) +
      (case a_files a ! i of None \<Rightarrow> 0 | Some f \<Rightarrow> length (af_held f)) + a_free a =
    a_space a + (case x of None \<Rightarrow> 0 | Some f \<Rightarrow> length (af_held f)) + n"
  using sum_list_store [OF assms, of "\<lambda>x. case x of None \<Rightarrow> 0 | Some f \<Rightarrow> length (af_held f)" x]
  by (simp add: a_space_def)

text \<open>
  Every call leaves the state as it is, or replaces one file: by one of the same name or of a name
  not yet there, that holds no more blocks than the old one and those taken from the free ones.
\<close>

definition replaces_file :: "afs \<Rightarrow> afs \<Rightarrow> bool" where
  "replaces_file a a' \<longleftrightarrow> (\<exists>i x n. i < length (a_files a) \<and> a' = a\<lparr>a_files := (a_files a)[i := x], a_free := n\<rparr> \<and>
     (\<forall>fn. is_named fn x \<longrightarrow> is_named fn (a_files a ! i) \<or> a_find fn a = None) \<and>
     (case x of None \<Rightarrow> 0 | Some f \<Rightarrow> length (af_held f)) + n \<le>
       (case a_files a ! i of None \<Rightarrow> 0 | Some f \<Rightarrow> length (af_held f)) + a_free a)"

lemma replaces_fileI:
  assumes "i < length (a_files a)" "a' = a\<lparr>a_files := (a_files a)[i := x], a_free := n\<rparr>"
    and "\<And>fn. is_named fn x \<Longrightarrow> is_named fn (a_files a ! i) \<or> a_find fn a = None"
    and "(case x of None \<Rightarrow> 0 | Some f \<Rightarrow> length (af_held f)) + n \<le>
      (case a_files a ! i of None \<Rightarrow> 0 | Some f \<Rightarrow> length (af_held f)) + a_free a"
  shows "replaces_file a a'"
  using assms unfolding replaces_file_def by blast

lemma spec_create_replaces:
  assumes "spec_create fn now p ok a = Some (r, a')" "a' \<noteq> a"
  shows "replaces_file a a'"
proof -
  let ?f = "\<lparr>af_name = fn, af_size = 0, af_time = now, af_perms = p, af_held = []\<rparr>"
  obtain k where "a_slot a = Some k" "a_find fn a = None" "a' = a_store (int k + 1) (Some ?f) a"
    using assms by (auto simp: spec_create_def split: if_splits option.splits)
  then show ?thesis
    using a_slot_Some [of a k] by (intro replaces_fileI [where i = k and x = "Some ?f" and n = "a_free a"])
      (auto simp: a_store_def)
qed

lemma spec_unlink_replaces:
  assumes "spec_unlink fn a = Some (r, a')" "a' \<noteq> a"
  shows "replaces_file a a'"
proof -
  obtain i where a': "a_find fn a = Some i"
    "a' = (a_store (int i + 1) None a)\<lparr>a_free := a_free a + a_returned (af_held (the (a_files a ! i)))\<rparr>"
    using assms by (auto simp: spec_unlink_def split: if_splits option.splits)
  then have i: "i < length (a_files a)" "is_named fn (a_files a ! i)" using a_find_Some by auto
  then obtain f where "a_files a ! i = Some f" by (cases "a_files a ! i") auto
  then show ?thesis
    using a' i a_returned_le [of "af_held f"]
    by (intro replaces_fileI [where i = i and x = None and n = "a_free a + a_returned (af_held f)"])
      (simp_all add: a_store_def)
qed

lemma spec_block_replaces:
  assumes w: "spec_block ino k create a = Some (r, a')" and ne: "a' \<noteq> a"
  shows "replaces_file a a'"
proof -
  obtain f where f: "a_file a ino = Some f" using w by (auto simp: spec_block_def split: option.splits)
  obtain i where i: "ino = int i + 1" "i < length (a_files a)" "a_files a ! i = Some f"
    using f by (rule a_fileE)
  let ?f = "f\<lparr>af_held := hold k (af_held f)\<rparr>"
  have "a_free a \<noteq> 0" "a' = (a_store ino (Some ?f) a)\<lparr>a_free := a_free a - 1\<rparr>"
    using w f ne by (simp_all add: spec_block_def split: if_splits)
  then show ?thesis
    using i length_hold [of k "af_held f"]
    by (intro replaces_fileI [where i = i and x = "Some ?f" and n = "a_free a - 1"]) (simp_all add: a_store_def)
qed

lemma spec_write_inode_replaces:
  assumes w: "spec_write_inode bs inode a = Some (r, a')" and ne: "a' \<noteq> a"
  shows "replaces_file a a'"
proof -
  have reg: "S_ISREG (i_mode inode)" using w ne by (simp add: spec_write_inode_def split: if_splits)
  then obtain f where f: "a_file a (i_ino inode) = Some f"
    using w by (auto simp: spec_write_inode_def split: option.splits)
  obtain i where i: "i_ino inode = int i + 1" "i < length (a_files a)" "a_files a ! i = Some f"
    using f by (rule a_fileE)
  let ?n = "blocks_needed bs (word_of_int (i_size inode))"
  let ?f = "f\<lparr>af_size := word_of_int (i_size inode),
    af_time := word_of_int (max (i_mtime inode) (i_ctime inode)),
    af_perms := word_of_int (perms_of_mode (i_mode inode)), af_held := filter (\<lambda>j. j < ?n) (af_held f)\<rparr>"
  have l: "length (filter (\<lambda>j. j < ?n) (af_held f)) + length (filter (\<lambda>j. ?n \<le> j) (af_held f)) =
      length (af_held f)"
    using sum_length_filter_compl [of "\<lambda>j. j < ?n" "af_held f"] by (simp add: not_less)
  have "a' = a\<lparr>a_files := (a_files a)[i := Some ?f],
      a_free := a_free a + length (filter (\<lambda>j. ?n \<le> j) (af_held f))\<rparr>"
    using w reg f i(1) by (simp add: spec_write_inode_def Let_def a_store_def)
  then show ?thesis using i l by (intro replaces_fileI [where i = i and x = "Some ?f"]) (simp_all, linarith)
qed

lemma spec_call_replaces: "spec_call bs c a = Some (r, a') \<Longrightarrow> a' = a \<or> replaces_file a a'"
  using spec_create_replaces spec_unlink_replaces spec_block_replaces spec_write_inode_replaces
  by (cases c) fastforce+

lemma replaces_file_keeps:
  assumes "replaces_file a a'"
  shows "length (a_files a') = length (a_files a)" "a_names a \<Longrightarrow> a_names a'" "a_space a' \<le> a_space a"
proof -
  obtain i x n where i: "i < length (a_files a)" "a' = a\<lparr>a_files := (a_files a)[i := x], a_free := n\<rparr>"
    and names: "\<And>fn. is_named fn x \<Longrightarrow> is_named fn (a_files a ! i) \<or> a_find fn a = None"
    and le: "(case x of None \<Rightarrow> 0 | Some f \<Rightarrow> length (af_held f)) + n \<le>
      (case a_files a ! i of None \<Rightarrow> 0 | Some f \<Rightarrow> length (af_held f)) + a_free a"
    using assms unfolding replaces_file_def by blast
  show "length (a_files a') = length (a_files a)" by (simp add: i(2))
  show "a_names a'" if "a_names a" unfolding i(2) by (rule a_names_store [OF that i(1) names])
  show "a_space a' \<le> a_space a"
    using a_space_store [OF i(1), where x = x and n = n] le unfolding i(2) by linarith
qed

lemma spec_call_keeps:
  assumes "spec_call bs c a = Some (r, a')"
  shows "length (a_files a') = length (a_files a)" "a_names a \<Longrightarrow> a_names a'" "a_space a' \<le> a_space a"
  using spec_call_replaces [OF assms] replaces_file_keeps by auto

lemma spec_calls_keeps:
  assumes "spec_calls bs cs a = Some (rs, a')"
  shows "length (a_files a') = length (a_files a) \<and> (a_names a \<longrightarrow> a_names a') \<and> a_space a' \<le> a_space a"
  using assms
proof (induction cs arbitrary: a rs)
  case (Cons c cs)
  then obtain r a1 rs' where c: "spec_call bs c a = Some (r, a1)" "spec_calls bs cs a1 = Some (rs', a')"
    by (auto split: Option.bind_splits)
  from Cons.IH [OF c(2)] spec_call_keeps [OF c(1)] show ?case by auto
qed simp

section \<open>The abstraction\<close>

definition held :: "sfs_file_entry \<Rightarrow> nat list" where
  "held fe = filter (\<lambda>k. fe_blocks fe ! k \<noteq> 0) [0..<9]"

definition abs_fe :: "sfs_file_entry \<Rightarrow> afile option" where
  "abs_fe fe =
     (if fe_live fe
      then Some \<lparr>af_name = the (fe_fname fe), af_size = fe_size fe, af_time = fe_timestamp fe,
             af_perms = fe_perms fe, af_held = held fe\<rparr>
      else None)"

definition abs_fs :: "'d bdev_ops \<Rightarrow> 'd sfs_info \<Rightarrow> afs" where
  "abs_fs ops info =
     \<lparr>a_files = map abs_fe (table ops info),
      a_free = (case si_used info of Obj u \<Rightarrow> length (free_data_blocks info u) | _ \<Rightarrow> 0)\<rparr>"

lemma abs_fs_used:
  "used_ok info u \<Longrightarrow> abs_fs ops info =
     \<lparr>a_files = map abs_fe (table ops info), a_free = length (free_data_blocks info u)\<rparr>"
  by (simp add: abs_fs_def used_ok_def)

lemma a_files_abs [simp]: "a_files (abs_fs ops info) = map abs_fe (table ops info)"
  by (simp add: abs_fs_def)

lemma is_named_abs: "names_ok t \<Longrightarrow> fe \<in> set t \<Longrightarrow> is_named fn (abs_fe fe) = hit fn fe"
  by (auto simp: abs_fe_def hit_def names_ok_def)

lemma a_find_abs: "names_ok (table ops info) \<Longrightarrow> a_find fn (abs_fs ops info) = find_file fn (table ops info)"
  unfolding a_find_def find_file_def by (rule find_cong) (simp_all add: is_named_abs)

lemma a_slot_abs: "a_slot (abs_fs ops info) = find_slot (table ops info)"
  unfolding a_slot_def find_slot_def by (rule find_cong) (simp_all add: abs_fe_def)

lemma abs_zero_fe [simp]: "abs_fe zero_fe = None"
  by (simp add: abs_fe_def)

lemma held_none: "fe_blocks fe = replicate 9 0 \<Longrightarrow> held fe = []"
  by (simp add: held_def)

lemma abs_new_fe:
  assumes "fn \<noteq> []" "length fn \<le> 15" "0 \<notin> set fn"
  shows "abs_fe (new_fe fn now perms) =
    Some \<lparr>af_name = fn, af_size = 0, af_time = now, af_perms = word_of_int perms, af_held = []\<rparr>"
  using assms live_new_fe [of fn now perms] held_none [of "new_fe fn now perms"]
  by (simp add: abs_fe_def) (simp add: new_fe_def)

lemma a_file_abs:
  assumes "a_file (abs_fs ops info) ino = Some f"
  obtains i where "ino = int i + 1" "i < entry_cnt info" "fe_live (table ops info ! i)"
    "f = \<lparr>af_name = the (fe_fname (table ops info ! i)), af_size = fe_size (table ops info ! i),
       af_time = fe_timestamp (table ops info ! i), af_perms = fe_perms (table ops info ! i),
       af_held = held (table ops info ! i)\<rparr>"
proof -
  obtain i where "ino = int i + 1" "i < length (a_files (abs_fs ops info))"
    "a_files (abs_fs ops info) ! i = Some f" using assms by (rule a_fileE)
  then show ?thesis by (intro that [of i]) (simp_all add: abs_fe_def split: if_splits)
qed

text \<open>Positions of an entry and its block numbers.\<close>

lemma blocks_upt: "wf_fe fe \<Longrightarrow> fe_blocks fe = map ((!) (fe_blocks fe)) [0..<9]"
  using map_nth [of "fe_blocks fe"] by (simp add: wf_fe_def del: upt_rec_numeral)

lemma returned_blocks:
  assumes "wf_fe fe"
  shows "length (takeWhile (\<lambda>b. b \<noteq> 0) (fe_blocks fe)) = a_returned (held fe)"
proof -
  have "length (takeWhile (\<lambda>b. b \<noteq> 0) (fe_blocks fe)) =
      length (takeWhile (\<lambda>k. fe_blocks fe ! k \<noteq> 0) [0..<9])"
    by (subst blocks_upt [OF assms]) (simp only: takeWhile_map length_map comp_def)
  moreover have "takeWhile (\<lambda>k. fe_blocks fe ! k \<noteq> 0) [0..<9] = takeWhile (\<lambda>k. k \<in> set (held fe)) [0..<9]"
    by (rule takeWhile_cong) (auto simp: held_def simp del: upt_rec_numeral)
  ultimately show ?thesis by (simp only: a_returned_def)
qed

lemma dropped_blocks:
  assumes "wf_fe fe"
  shows "length (filter (\<lambda>b. b \<noteq> 0) (drop n (fe_blocks fe))) = length (filter (\<lambda>j. n \<le> j) (held fe))"
proof -
  have "drop n (fe_blocks fe) = map ((!) (fe_blocks fe)) [n..<9]"
    by (subst blocks_upt [OF assms]) (simp only: drop_map drop_upt add_0)
  then have "length (filter (\<lambda>b. b \<noteq> 0) (drop n (fe_blocks fe))) =
      length (filter (\<lambda>k. fe_blocks fe ! k \<noteq> 0) [n..<9])"
    by (simp only: filter_map length_map comp_def)
  moreover have "[n..<9] = filter (\<lambda>j. n \<le> j) [0..<9]"
  proof (cases "n \<le> 9")
    case True
    then have "[0..<9] = [0..<n] @ [n..<9]" using upt_add_eq_append [of 0 n "9 - n"] by simp
    then show ?thesis by (simp only: filter_append) simp
  qed simp
  ultimately show ?thesis
    by (simp only: held_def filter_filter) (simp only: conj_commute)
qed

lemma held_cut: "wf_fe fe \<Longrightarrow> held (cut_blocks n fe) = filter (\<lambda>j. j < n) (held fe)"
proof -
  assume wf: "wf_fe fe"
  have "fe_blocks (cut_blocks n fe) ! k \<noteq> 0 \<longleftrightarrow> k < n \<and> fe_blocks fe ! k \<noteq> 0" if "k < 9" for k
    using that wf by (auto simp: cut_blocks_def wf_fe_def nth_append)
  then show ?thesis
    unfolding held_def filter_filter by (intro filter_cong) auto
qed

lemma attr_simps:
  "fe_live (cut_blocks n fe) = fe_live fe" "fe_fname (cut_blocks n fe) = fe_fname fe"
  "fe_size (cut_blocks n fe) = fe_size fe" "fe_timestamp (cut_blocks n fe) = fe_timestamp fe"
  "fe_perms (cut_blocks n fe) = fe_perms fe"
  "fe_live (set_attrs sz ts p fe) = fe_live fe" "fe_fname (set_attrs sz ts p fe) = fe_fname fe"
  by (simp_all add: cut_blocks_def fe_live_def fe_fname_def)

lemma held_alloc:
  assumes "wf_fe fe" "k < 9" "b \<noteq> 0"
  shows "held (fe\<lparr>fe_blocks := (fe_blocks fe)[k := b]\<rparr>) = hold k (held fe)"
  unfolding held_def hold_def
  by (rule filter_cong) (use assms in \<open>auto simp: wf_fe_def nth_list_update simp del: upt_rec_numeral\<close>)

text \<open>Clearing the flags of some used data blocks makes as many blocks free.\<close>

lemma free_after_clear:
  assumes "distinct bs" "length u = part_size info" "si_sb info' = si_sb info"
    and "\<And>b. b \<in> set bs \<Longrightarrow> data_start info \<le> unat b \<and> unat b < part_size info \<and> u ! unat b \<noteq> 0"
  shows "length (free_data_blocks info' (clear_used bs u)) = length (free_data_blocks info u) + length bs"
proof -
  let ?F = "\<lambda>v. set (free_data_blocks info v)"
  have F: "?F (clear_used bs u) = ?F u \<union> unat ` set bs"
    using assms(2,4) by (auto simp: free_data_blocks_def nth_clear_used split: if_splits)
  have "?F u \<inter> unat ` set bs = {}" using assms(4) by (auto simp: free_data_blocks_def)
  moreover have "card (unat ` set bs) = length bs"
    using assms(1) by (metis card_image distinct_card inj_on_def unsigned_word_eqI)
  ultimately have "card (?F (clear_used bs u)) = card (?F u) + length bs"
    unfolding F by (simp add: card_Un_disjoint)
  moreover have "length (free_data_blocks info v) = card (?F v)" for v
    by (metis distinct_card distinct_filter distinct_upt free_data_blocks_def)
  moreover have "free_data_blocks info' v = free_data_blocks info v" for v
    using assms(3) by (simp add: free_data_blocks_def)
  ultimately show ?thesis by simp
qed

section \<open>The calls refine the specification\<close>

lemma owned_facts:
  assumes "blocks_ok t u d p" "i < length t"
  shows "distinct (owned (t ! i))" "\<And>b. b \<in> set (owned (t ! i)) \<Longrightarrow> d \<le> unat b \<and> unat b < p \<and> u ! unat b \<noteq> 0"
proof -
  show "distinct (owned (t ! i))"
    using assms by (metis blocks_ok_def distinct_append owned_blocks_split)
  show "d \<le> unat b \<and> unat b < p \<and> u ! unat b \<noteq> 0" if "b \<in> set (owned (t ! i))" for b
    using that assms owned_subset [OF assms(2)] by (auto simp: blocks_ok_def)
qed

lemma fs_invE:
  assumes "fs_inv ops info"
  obtains u where "table_ok ops info" "names_ok (table ops info)" "used_ok info u" "0 < data_start info"
    and "blocks_ok (table ops info) u (data_start info) (part_size info)" "length u = part_size info"
    and "\<And>i b. i < entry_cnt info \<Longrightarrow> b \<in> set (fe_blocks (table ops info ! i)) \<Longrightarrow> b \<noteq> 0 \<Longrightarrow> unat b < length u"
proof -
  obtain u where u: "table_ok ops info" "names_ok (table ops info)" "used_ok info u" "0 < data_start info"
    "blocks_ok (table ops info) u (data_start info) (part_size info)"
    using assms by (auto simp: fs_inv_def)
  then have "length u = part_size info" by (simp add: used_ok_def)
  moreover have "unat b < length u"
    if "i < entry_cnt info" "b \<in> set (fe_blocks (table ops info ! i))" "b \<noteq> 0" for i b
    using blocks_ok_range [OF u(5) _ that(2,3)] that(1) calculation by simp
  ultimately show ?thesis using u by (intro that) assumption+
qed

lemma distinct_takeWhile_filter: "distinct (filter P xs) \<Longrightarrow> distinct (takeWhile P xs)"
  by (induction xs) (auto dest: set_takeWhileD)

lemma free_data_blocks_sb: "si_sb info' = si_sb info \<Longrightarrow> free_data_blocks info' u = free_data_blocks info u"
  by (simp add: free_data_blocks_def)

context buffer_cache
begin

text \<open>A file that was created and is removed again, because it gets no inode, leaves no trace.\<close>

lemma created_removed:
  assumes ok: "table_ok ops info" "names_ok (table ops info)" and u: "used_ok info u"
    and fn: "fn \<noteq> []" "length fn \<le> 15" "0 \<notin> set fn"
    and new: "find_file fn (table ops info) = None" and slot: "find_slot (table ops info) = Some k"
    and info1: "table ops info1 = (table ops info)[k := new_fe fn now p]" "table_ok ops info1"
      "si_sb info1 = si_sb info" "used_ok info1 u"
  shows "\<exists>info2. sfs_remove ops info1 fn = Some (int k + 1, info2) \<and> abs_fs ops info2 = abs_fs ops info"
proof -
  let ?t = "table ops info"
  have k: "k < entry_cnt info" "\<not> fe_live (?t ! k)" using slot by (simp_all add: find_slot_Some)
  have live: "fe_live (new_fe fn now p)" "fe_fname (new_fe fn now p) = Some fn"
    using fn by (simp_all add: live_new_fe)
  have n1: "names_ok (table ops info1)" using names_ok_update [OF ok(2)] live(2) by (simp add: info1(1))
  have f1: "find_file fn (table ops info1) = Some k"
    using find_file_new(1) [OF new slot live] by (simp add: info1(1))
  have b1: "fe_blocks (table ops info1 ! k) = replicate 9 0" using k by (simp add: info1(1))
  then have rng: "unat b < length u" if "b \<in> set (fe_blocks (table ops info1 ! k))" "b \<noteq> 0" for b
    using that by simp
  obtain info2 where rm: "sfs_remove ops info1 fn = Some (int k + 1, info2)"
    and t2: "table ops info2 = (table ops info1)[k := zero_fe]" and s2: "si_sb info2 = si_sb info1"
    and u2: "used_ok info2 (clear_used (takeWhile (\<lambda>b. b \<noteq> 0) (fe_blocks (table ops info1 ! k))) u)"
    by (rule sfs_remove_some [OF info1(2) n1 fn(3) f1 info1(4) rng]) blast
  have "takeWhile (\<lambda>b. b \<noteq> 0) (replicate 9 (0 :: u32)) = []" by simp
  then have u2': "used_ok info2 u" using u2 by (simp only: b1 clear_used_simps)
  have "(map abs_fe ?t)[k := None] = map abs_fe ?t"
    using k by (intro list_update_same_conv [THEN iffD2]) (simp_all add: abs_fe_def)
  then have "abs_fs ops info2 = abs_fs ops info"
    using info1(3) s2
    by (simp add: abs_fs_used [OF u2'] abs_fs_used [OF u] info1(1) t2 map_update free_data_blocks_def)
  then show ?thesis using rm by blast
qed

lemma create_refines:
  assumes inv: "fs_inv ops info"
    and spec: "spec_create fn now (word_of_int (perms_of_mode mode)) (ni \<noteq> None) (abs_fs ops info) = Some (r, a)"
  shows "\<exists>info'. fs_call ops (FC_create fn mode now ni) info = Some (r, info') \<and> abs_fs ops info' = a"
proof -
  let ?t = "table ops info" and ?p = "perms_of_mode mode"
  obtain u where ok: "table_ok ops info" "names_ok ?t" and u: "used_ok info u"
    using inv by (rule fs_invE)
  have fn: "fn \<noteq> []" "length fn \<le> 15" "0 \<notin> set fn"
    using spec by (auto simp: spec_create_def split: if_splits)
  show ?thesis
  proof (cases "find_slot ?t = None \<or> find_file fn ?t \<noteq> None")
    case True
    then have "r = - EIO" "a = abs_fs ops info"
      using spec fn by (auto simp: spec_create_def a_slot_abs a_find_abs [OF ok(2)] split: option.splits)
    then show ?thesis
      using True sfs_create_full [OF ok fn(3), of now ?p zero_fe] sfs_create_exists [OF ok fn(3), of now ?p zero_fe]
      by (auto simp: fs_call_def sfs_inode_create_def)
  next
    case False
    then obtain k where new: "find_file fn ?t = None" and slot: "find_slot ?t = Some k" by auto
    obtain info1 where c: "sfs_create ops now info fn ?p zero_fe = Some (int k + 1, info1, new_fe fn now ?p)"
      and t1: "table ops info1 = ?t[k := new_fe fn now ?p]" "table_ok ops info1"
      and s1: "si_sb info1 = si_sb info" "si_used info1 = si_used info" "si_lock info1 = si_lock info"
      by (rule sfs_create_new [OF ok fn(3) new slot, of now ?p zero_fe]) blast
    have u1: "used_ok info1 u" using u s1 by (simp add: used_ok_def)
    let ?f = "\<lparr>af_name = fn, af_size = 0, af_time = now, af_perms = word_of_int ?p, af_held = []\<rparr>"
    have r: "r = (if ni = None then - EACCES else 0)"
      "a = (if ni = None then abs_fs ops info else a_store (int k + 1) (Some ?f) (abs_fs ops info))"
      using spec fn new slot by (auto simp: spec_create_def a_slot_abs a_find_abs [OF ok(2)] split: if_splits)
    have "abs_fs ops info1 = a_store (int k + 1) (Some ?f) (abs_fs ops info)"
      using fn by (simp add: abs_fs_used [OF u] abs_fs_used [OF u1] free_data_blocks_sb [OF s1(1)] t1(1)
        a_store_def map_update abs_new_fe)
    moreover obtain info2 where "sfs_remove ops info1 fn = Some (int k + 1, info2)" "abs_fs ops info2 = abs_fs ops info"
      using created_removed [OF ok u fn new slot t1 s1(1) u1] by blast
    ultimately show ?thesis using c r by (cases ni) (simp_all add: fs_call_def sfs_inode_create_def)
  qed
qed

lemma unlink_refines:
  assumes inv: "fs_inv ops info" and spec: "spec_unlink fn (abs_fs ops info) = Some (r, a)"
  shows "\<exists>info'. fs_call ops (FC_unlink fn inode) info = Some (r, info') \<and> abs_fs ops info' = a"
proof -
  let ?t = "table ops info"
  obtain u where ok: "table_ok ops info" "names_ok ?t" and u: "used_ok info u"
    and blk: "blocks_ok ?t u (data_start info) (part_size info)" and l: "length u = part_size info"
    and rng: "\<And>i b. i < entry_cnt info \<Longrightarrow> b \<in> set (fe_blocks (?t ! i)) \<Longrightarrow> b \<noteq> 0 \<Longrightarrow> unat b < length u"
    using inv by (rule fs_invE) blast
  have fn: "0 \<notin> set fn" using spec by (auto simp: spec_unlink_def split: if_splits)
  show ?thesis
  proof (cases "find_file fn ?t")
    case None
    then show ?thesis
      using spec fn sfs_remove_none [OF ok fn None]
      by (simp add: spec_unlink_def a_find_abs [OF ok(2)] fs_call_def sfs_inode_unlink_def)
  next
    case (Some i)
    then have i: "i < entry_cnt info" "fe_live (?t ! i)" by (simp_all add: find_file_Some hit_def)
    let ?bs = "takeWhile (\<lambda>b. b \<noteq> 0) (fe_blocks (?t ! i))"
    obtain info' where rm: "sfs_remove ops info fn = Some (int i + 1, info')"
      and t': "table ops info' = ?t[i := zero_fe]" and s': "si_sb info' = si_sb info"
      and u': "used_ok info' (clear_used ?bs u)"
      by (rule sfs_remove_some [OF ok fn Some u rng [OF i(1)]]) blast
    have own: "set ?bs \<subseteq> set (owned (?t ! i))" "distinct ?bs"
      using owned_facts(1) [OF blk, of i] i(1) takeWhile_filter_subset [of "\<lambda>b. b \<noteq> 0"]
        distinct_takeWhile_filter [of "\<lambda>b. b \<noteq> 0" "fe_blocks (?t ! i)"] by (simp_all add: owned_def)
    have wf: "wf_fe (?t ! i)" using wf_entry [OF ok(1) i(1)] i(1) by (simp add: nth_table)
    have "length (free_data_blocks info' (clear_used ?bs u)) =
        length (free_data_blocks info u) + a_returned (held (?t ! i))"
      using free_after_clear [OF own(2) l s'] own(1) owned_facts(2) [OF blk, of i] i(1)
      by (simp add: returned_blocks [OF wf] subset_iff)
    moreover have "r = 0" "a = (a_store (int i + 1) None (abs_fs ops info))
        \<lparr>a_free := a_free (abs_fs ops info) + a_returned (held (?t ! i))\<rparr>"
      using spec fn Some i by (simp_all add: spec_unlink_def a_find_abs [OF ok(2)] abs_fe_def)
    ultimately have "r = 0" "abs_fs ops info' = a"
      by (simp_all add: abs_fs_used [OF u] abs_fs_used [OF u'] t' a_store_def map_update)
    then show ?thesis using rm by (simp add: fs_call_def sfs_inode_unlink_def)
  qed
qed

text \<open>Mapping a hole gives the file the position and takes a free block.\<close>

lemma alloc_abs:
  assumes inv: "fs_inv ops info" and u: "used_ok info u"
    and i: "i < entry_cnt info" "fe_live (table ops info ! i)" and k: "k < 9"
    and hole: "fe_blocks (table ops info ! i) ! k = 0"
    and f: "abs_fe (table ops info ! i) = Some f" and free: "free_data_blocks info u \<noteq> []"
  shows "\<exists>info' b. sfs_get_block ops info (int i + 1) k True = Some (0, info', b) \<and>
    abs_fs ops info' = (a_store (int i + 1) (Some (f\<lparr>af_held := hold k (af_held f)\<rparr>)) (abs_fs ops info))
      \<lparr>a_free := length (free_data_blocks info u) - 1\<rparr>"
proof -
  let ?t = "table ops info"
  have ok: "table_ok ops info" and d: "0 < data_start info" using inv by (simp_all add: fs_inv_def)
  have l: "length u = part_size info" using u by (simp add: used_ok_def)
  obtain m where m: "find (\<lambda>b. u ! b = 0) [data_start info..<part_size info] = Some m"
    using free by (cases "find (\<lambda>b. u ! b = 0) [data_start info..<part_size info]")
      (auto simp: free_data_blocks_def find_None_iff filter_empty_conv)
  let ?fe = "(?t ! i)\<lparr>fe_blocks := (fe_blocks (?t ! i))[k := of_nat m]\<rparr>"
  obtain info' where g: "sfs_get_block ops info (int i + 1) k True = Some (0, info', Some (of_nat m))"
    and t': "table ops info' = ?t[i := ?fe]" and s': "si_sb info' = si_sb info" and u': "used_ok info' (u[m := 1])"
    by (rule get_block_alloc [OF ok i(1) k u hole m]) blast
  have mf: "m \<in> set (free_data_blocks info u)" and "m < 2 ^ 31" "data_start info \<le> m"
    using m u by (auto simp: free_data_blocks_def find_Some_iff used_ok_def nth_upt)
  then have "unat (of_nat m :: u32) = m" by (simp add: unat_of_nat)
  then have nz: "(of_nat m :: u32) \<noteq> 0" using d \<open>data_start info \<le> m\<close> by auto
  have wf: "wf_fe (?t ! i)" using wf_entry [OF ok i(1)] i(1) by (simp add: nth_table)
  have h: "held ?fe = hold k (held (?t ! i))" by (rule held_alloc [OF wf k nz])
  have fe: "f = \<lparr>af_name = the (fe_fname (?t ! i)), af_size = fe_size (?t ! i),
      af_time = fe_timestamp (?t ! i), af_perms = fe_perms (?t ! i), af_held = held (?t ! i)\<rparr>"
    using f i(2) by (simp add: abs_fe_def)
  have "abs_fe ?fe = Some (f\<lparr>af_held := hold k (af_held f)\<rparr>)"
    using i(2) by (simp add: abs_fe_def fe h) (simp add: fe_live_def fe_fname_def)
  then show ?thesis
    using g free_after_use [OF mf l s'] by (intro exI [of _ info'] exI [of _ "Some (of_nat m)"])
      (simp add: abs_fs_used [OF u] abs_fs_used [OF u'] t' a_store_def map_update)
qed

lemma block_refines:
  assumes inv: "fs_inv ops info" and spec: "spec_block ino k create (abs_fs ops info) = Some (r, a)"
  shows "\<exists>info'. fs_call ops (FC_block ino k create) info = Some (r, info') \<and> abs_fs ops info' = a"
proof -
  let ?t = "table ops info"
  obtain u where ok: "table_ok ops info" and u: "used_ok info u" using inv by (rule fs_invE) blast
  obtain f where f: "a_file (abs_fs ops info) ino = Some f"
    using spec by (auto simp: spec_block_def split: option.splits)
  obtain i where i: "ino = int i + 1" "i < entry_cnt info" "abs_fe (?t ! i) = Some f" "fe_live (?t ! i)"
    and fe: "af_held f = held (?t ! i)"
    using f by (rule a_file_abs) (simp add: abs_fe_def)
  have hd: "k \<in> set (held (?t ! i)) \<longleftrightarrow> fe_blocks (?t ! i) ! k \<noteq> 0" if "k < 9"
    using that by (auto simp: held_def simp del: upt_rec_numeral)
  have free: "a_free (abs_fs ops info) = length (free_data_blocks info u)"
    by (simp add: abs_fs_used [OF u])
  show ?thesis
  proof (cases "k < 9 \<and> fe_blocks (?t ! i) ! k = 0 \<and> create \<and> free_data_blocks info u \<noteq> []")
    case False
    then have "a = abs_fs ops info" "r = (if 9 \<le> k then - ENOSPC else if fe_blocks (?t ! i) ! k \<noteq> 0 then 0
        else if \<not> create then - EIO else - ENOSPC)"
      using spec f hd free by (auto simp: spec_block_def fe split: if_splits)
    moreover have "find (\<lambda>b. u ! b = 0) [data_start info..<part_size info] = None \<longleftrightarrow> free_data_blocks info u = []"
      by (auto simp: free_data_blocks_def find_None_iff filter_empty_conv)
    ultimately show ?thesis
      using False get_block_far [of k info ino create] get_block_hit [OF ok i(2), of k create]
        get_block_hole [OF ok i(2), of k] get_block_full [OF ok i(2) _ u, of k]
      by (cases create) (auto simp: fs_call_def i(1))
  next
    case True
    then have "r = 0" "a = (a_store ino (Some (f\<lparr>af_held := hold k (af_held f)\<rparr>)) (abs_fs ops info))
        \<lparr>a_free := length (free_data_blocks info u) - 1\<rparr>"
      using spec f hd free by (auto simp: spec_block_def fe split: if_splits)
    then show ?thesis
      using alloc_abs [OF inv u i(2,4) _ _ i(3), of k] True by (auto simp: fs_call_def i(1))
  qed
qed

text \<open>Cutting an entry and clearing the flags of its dropped blocks, seen from the specification.\<close>

lemma cut_abs:
  assumes inv: "fs_inv ops info" and u: "used_ok info u" and i: "i < entry_cnt info"
    and fe: "wf_fe fe" "fe_live (table ops info ! i)" "fe_live fe" "fe_blocks fe = fe_blocks (table ops info ! i)"
    and info': "table ops info' = (table ops info)[i := cut_blocks n fe]" "si_sb info' = si_sb info"
      "used_ok info' (clear_used (filter (\<lambda>b. b \<noteq> 0) (drop n (fe_blocks fe))) u)"
  shows "abs_fs ops info' = (a_store (int i + 1) (Some \<lparr>af_name = the (fe_fname fe), af_size = fe_size fe,
      af_time = fe_timestamp fe, af_perms = fe_perms fe, af_held = filter (\<lambda>j. j < n) (held fe)\<rparr>) (abs_fs ops info))
    \<lparr>a_free := a_free (abs_fs ops info) + length (filter (\<lambda>j. n \<le> j) (held fe))\<rparr>"
proof -
  let ?t = "table ops info" and ?ds = "filter (\<lambda>b. b \<noteq> 0) (drop n (fe_blocks fe))"
  have blk: "blocks_ok ?t u (data_start info) (part_size info)" and l: "length u = part_size info"
    using inv u by (auto simp: fs_inv_def used_ok_def)
  have "owned (?t ! i) = filter (\<lambda>b. b \<noteq> 0) (take n (fe_blocks fe)) @ ?ds"
    using fe by (simp add: owned_def flip: filter_append)
  then have own: "distinct ?ds" "set ?ds \<subseteq> set (owned (?t ! i))"
    using owned_facts(1) [OF blk, of i] i by (metis distinct_append length_table, simp)
  have "length (free_data_blocks info' (clear_used ?ds u)) =
      length (free_data_blocks info u) + length (filter (\<lambda>j. n \<le> j) (held fe))"
    using free_after_clear [OF own(1) l info'(2)] own(2) owned_facts(2) [OF blk, of i] i
    by (simp add: dropped_blocks [OF fe(1)] subset_iff)
  then show ?thesis
    using fe(3) held_cut [OF fe(1), of n] i
    by (simp add: abs_fs_used [OF u] abs_fs_used [OF info'(3)] info'(1) a_store_def map_update abs_fe_def attr_simps)
qed

lemma write_inode_refines:
  assumes inv: "fs_inv ops info" and bs: "1 < unat (sb_block_size (si_sb info))"
    and spec: "spec_write_inode (sb_block_size (si_sb info)) inode (abs_fs ops info) = Some (r, a)"
  shows "\<exists>info'. fs_call ops (FC_write_inode inode) info = Some (r, info') \<and> abs_fs ops info' = a"
proof (cases "S_ISREG (i_mode inode)")
  case False
  then show ?thesis using spec by (simp add: spec_write_inode_def fs_call_def sfs_write_inode_def)
next
  case True
  let ?t = "table ops info" and ?bs = "sb_block_size (si_sb info)"
  obtain u where ok: "table_ok ops info" and u: "used_ok info u"
    and rng: "\<And>i b. i < entry_cnt info \<Longrightarrow> b \<in> set (fe_blocks (?t ! i)) \<Longrightarrow> b \<noteq> 0 \<Longrightarrow> unat b < length u"
    using inv by (rule fs_invE) blast
  obtain f where f: "a_file (abs_fs ops info) (i_ino inode) = Some f"
    using spec True by (auto simp: spec_write_inode_def split: option.splits)
  obtain i where i: "i_ino inode = int i + 1" "i < entry_cnt info" "fe_live (?t ! i)"
    and fe: "f = \<lparr>af_name = the (fe_fname (?t ! i)), af_size = fe_size (?t ! i),
      af_time = fe_timestamp (?t ! i), af_perms = fe_perms (?t ! i), af_held = held (?t ! i)\<rparr>"
    using f by (rule a_file_abs)
  let ?sz = "Some (c_int (i_size inode))" and ?p = "Some (perms_of_mode (i_mode inode))"
  let ?tm = "Some (c_int (if i_mtime inode > i_ctime inode then i_mtime inode else i_ctime inode))"
  let ?fe = "set_attrs ?sz ?tm ?p (?t ! i)" and ?n = "blocks_needed ?bs (word_of_int (i_size inode))"
  have attrs: "fe_size ?fe = word_of_int (i_size inode)"
    "fe_timestamp ?fe = word_of_int (max (i_mtime inode) (i_ctime inode))"
    "fe_perms ?fe = word_of_int (perms_of_mode (i_mode inode))"
    using perms_of_mode_range [of "i_mode inode"] by (auto simp: set_attrs_def c_int_def max_def)
  have nz: "?bs \<noteq> 0" using bs by auto
  obtain info' where up: "sfs_update ops info (int i + 1) ?sz ?tm ?p = Some (0, info')"
    and info': "table ops info' = ?t[i := cut_blocks ?n ?fe]" "si_sb info' = si_sb info"
      "used_ok info' (clear_used (filter (\<lambda>b. b \<noteq> 0) (drop ?n (fe_blocks ?fe))) u)"
    using sfs_update_eq [OF ok i(2) u rng [OF i(2)] nz blocks_needed_small [OF bs], of ?sz ?tm ?p]
    unfolding attrs by blast
  have "wf_fe ?fe" "fe_live ?fe" using i(3) wf_entry [OF ok i(2)] i(2) by (simp_all add: attr_simps nth_table)
  note abs = cut_abs [OF inv u i(2) this(1) i(3) this(2) set_attrs_simps(2) info']
  have "held ?fe = held (?t ! i)" by (simp add: held_def)
  note abs = abs [unfolded attrs this attr_simps(7)]
  show ?thesis
    using spec True f up abs by (simp add: spec_write_inode_def Let_def fs_call_def sfs_write_inode_def i(1) fe)
qed

lemma fs_call_refines:
  assumes "fs_inv ops info" "1 < unat (sb_block_size (si_sb info))"
    and "spec_call (sb_block_size (si_sb info)) c (abs_fs ops info) = Some (r, a)"
  shows "\<exists>info'. fs_call ops c info = Some (r, info') \<and> abs_fs ops info' = a"
  using assms create_refines unlink_refines block_refines write_inode_refines by (cases c) simp_all

end

text \<open>The contract gives what \<open>fs_call_inv\<close> asks for.\<close>

lemma spec_call_ok:
  assumes "spec_call bs c (abs_fs ops info) = Some x"
  shows "call_ok (si_sb info) c \<or> (\<exists>inode. c = FC_write_inode inode \<and> \<not> S_ISREG (i_mode inode))"
  using assms
  by (cases c) (auto simp: spec_create_def spec_unlink_def spec_block_def spec_write_inode_def ino_ok_def
      a_file_def entry_cnt_def split: if_splits option.splits)

context buffer_cache
begin

lemma fs_calls_refine:
  assumes "fs_inv ops info" "1 < unat (sb_block_size (si_sb info))"
    and "spec_calls (sb_block_size (si_sb info)) cs (abs_fs ops info) = Some (rs, a)"
  shows "\<exists>info'. fs_calls ops cs info = Some (rs, info') \<and> abs_fs ops info' = a \<and> fs_inv ops info'"
  using assms
proof (induction cs arbitrary: info rs)
  case (Cons c cs)
  let ?bs = "sb_block_size (si_sb info)"
  obtain r a1 rs' where c: "spec_call ?bs c (abs_fs ops info) = Some (r, a1)"
    and cs: "spec_calls ?bs cs a1 = Some (rs', a)" "rs = r # rs'"
    using Cons.prems(3) by (auto split: Option.bind_splits)
  obtain info1 where i1: "fs_call ops c info = Some (r, info1)" "abs_fs ops info1 = a1"
    using fs_call_refines [OF Cons.prems(1,2) c] by blast
  have "fs_inv ops info1"
    using spec_call_ok [OF c]
  proof
    assume "call_ok (si_sb info) c"
    then show ?thesis using fs_call_inv [OF Cons.prems(1,2)] i1(1) by fastforce
  qed (use i1(1) Cons.prems(1) in \<open>auto simp: fs_call_def sfs_write_inode_def\<close>)
  moreover have "si_sb info1 = si_sb info" using fs_call_sb i1(1) by blast
  ultimately show ?case using Cons.IH [of info1 rs'] Cons.prems(2) cs i1 by auto
qed simp

end

end
