(* ===== verification/Sfs_Data_Properties.thy ===== *)
theory Sfs_Data_Properties
  imports Sfs_Spec Sfs_Sample
begin

text \<open>
  The calls on a mounted file system against the abstract file system of \<open>Sfs_Spec\<close>, and its file
  data: pages written and read through the module's address-space operations. The witnesses use the mounted disk of \<open>Sfs_Sample\<close>.
\<close>

section \<open>The sample disk\<close>

lemma init_browsing_dev:
  "init_browsing ops vmalloc info = Some (r, info') \<Longrightarrow> si_dev info' = si_dev info"
  by (auto simp: init_browsing_def Let_def split: Option.bind_splits sum.splits option.splits if_splits)

lemma sample_data:
  obtains info u where "fs_inv rb_ops info" "data_ok rb_ops info" "used_ok info u" "entry_cnt info = 8"
    and "table rb_ops info = replicate 8 zero_fe" "free_data_blocks info u = [2, 3, 4, 5, 6, 7, 8, 9]"
    and "si_dev info = sample_disk" "data_start info = 2"
proof -
  obtain info u where s: "init_browsing rb_ops zero_mem (kzalloc_info sample_disk) = Some (0, info)"
    "fs_inv rb_ops info" "si_sb info = format_sb 5120" "si_used info = Obj u" "length u = 10"
    "\<And>k. k < 10 \<Longrightarrow> u ! k = 0 \<longleftrightarrow> 2 \<le> k" "table rb_ops info = replicate 8 zero_fe"
    by (rule sample_mount) blast
  have dev: "si_dev info = sample_disk"
    using init_browsing_dev [OF s(1)] by (simp add: kzalloc_info_def)
  have l: "length sample_disk = 5120" by (simp add: sample_disk_def)
  have "sb_entry_table_block_start (format_sb 5120) = 1" by (simp add: format_sb_def Let_def)
  then have "entry_addr (format_sb 5120) 8 = 1024" by (simp add: entry_addr_def sample_sb)
  moreover have bs: "sb_block_size (format_sb 5120) = 512" by (simp add: format_sb_def Let_def)
  ultimately have "data_ok rb_ops info"
    by (simp add: data_ok_def s(3) entry_cnt_def sample_sb dev rb_ops_def rb_bread_eq l)
  moreover have "used_ok info u" using s(2,4) by (auto simp: fs_inv_def used_ok_def)
  moreover have "free_data_blocks info u = filter (\<lambda>k. 2 \<le> k) [2 ..< 10]"
    unfolding free_data_blocks_def s(3) sample_sb using s(6) by (intro filter_cong) auto
  moreover have "filter (\<lambda>k. 2 \<le> k) [2 ..< 10 :: nat] = [2, 3, 4, 5, 6, 7, 8, 9]" by code_simp
  ultimately show ?thesis
    using s(2,3,7) dev by (intro that [of info u]) (simp_all add: entry_cnt_def sample_sb)
qed

section \<open>The abstract file system\<close>

text \<open>
  C8. Creating, unlinking, mapping blocks and writing inodes back refine an abstract file system
  whose state is an array of files (name, attributes, the positions that hold data) and a number of
  free blocks: whatever sequence of calls the specification allows, the module returns the results
  it gives and ends in a state that stands for its state. Names stay distinct, and the free and held
  blocks together never become more.
\<close>

theorem calls_refine_spec:
  assumes "buffer_cache ops" "fs_inv ops info" "1 < unat (sb_block_size (si_sb info))"
    and "spec_calls (sb_block_size (si_sb info)) cs (abs_fs ops info) = Some (rs, a)"
  shows "\<exists>info'. fs_calls ops cs info = Some (rs, info') \<and> abs_fs ops info' = a \<and> fs_inv ops info' \<and>
    (a_names (abs_fs ops info) \<longrightarrow> a_names a) \<and> a_space a \<le> a_space (abs_fs ops info)"
  using buffer_cache.fs_calls_refine [OF assms] spec_calls_keeps [OF assms(4)] by blast

definition two_blocks :: "fs_call list" where
  "two_blocks = [FC_create [97] 0x1B6 1 (Some sample_inode), FC_create [97] 0x1B6 2 None,
     FC_block 1 0 True, FC_block 1 2 True, FC_unlink [97] sample_inode]"

text \<open>The second of the two blocks is lost, since the file has a hole before it.\<close>

lemma two_blocks_spec:
  "spec_calls bs two_blocks \<lparr>a_files = replicate 8 None, a_free = 8\<rparr> =
     Some ([0, - EIO, 0, 0, 0], \<lparr>a_files = replicate 8 None, a_free = 7\<rparr>)"
  by code_simp

lemma calls_refine_spec_witness:
  "\<exists>info info'. fs_inv rb_ops info \<and> fs_calls rb_ops two_blocks info = Some ([0, - EIO, 0, 0, 0], info') \<and>
    abs_fs rb_ops info' = \<lparr>a_files = replicate 8 None, a_free = 7\<rparr>"
proof -
  obtain info u where s: "fs_inv rb_ops info" "data_ok rb_ops info" "used_ok info u" "entry_cnt info = 8"
    "table rb_ops info = replicate 8 zero_fe" "free_data_blocks info u = [2, 3, 4, 5, 6, 7, 8, 9]"
    by (rule sample_data) blast
  have a: "abs_fs rb_ops info = \<lparr>a_files = replicate 8 None, a_free = 8\<rparr>"
    by (simp add: abs_fs_used [OF s(3)] s(5,6))
  have "sb_block_size (si_sb info) = bd_block_size rb_ops" using s(2) by (simp add: data_ok_def)
  then have "1 < unat (sb_block_size (si_sb info))" by (simp add: rb_ops_def)
  from calls_refine_spec [OF rb_cache s(1) this, unfolded a, OF two_blocks_spec] s(1) show ?thesis by blast
qed

section \<open>Pages\<close>

text \<open>
  C9. File data survives: writing whole blocks of a file of any size, when there are as many free
  blocks as the file has holes there, succeeds and keeps the invariant of C1; reading these blocks,
  when the size of the file reaches them, gives what was written, and every page of any file that
  could be read before and does not overlap reads, at the same size, the same as before.
\<close>

theorem page_write_then_read:
  assumes "buffer_cache ops" "fs_inv ops info" "data_ok ops info" "i < entry_cnt info"
    and "pieces_ok ops ds" "\<forall>(k, off, xs) \<in> set ds. off = 0 \<and> length xs = unat (bd_block_size ops)"
    and "used_ok info u" "length (holes (table ops info ! i) (map fst ds)) \<le> length (free_data_blocks info u)"
  shows "\<exists>info'. write_page ops isz info (int i + 1) ds = Some (0, info') \<and> fs_inv ops info' \<and>
    (\<forall>z. (\<forall>k \<in> fst ` set ds. k * unat (bd_block_size ops) < z) \<longrightarrow>
       sfs_readpage ops z info' (int i + 1) (map fst ds) = Some (Inr (concat (map (snd \<circ> snd) ds)), info')) \<and>
    (\<forall>z j ls xs. j < entry_cnt info \<and> (j \<noteq> i \<or> set ls \<inter> fst ` set ds = {}) \<and>
       sfs_readpage ops z info (int j + 1) ls = Some (Inr xs, info) \<longrightarrow>
       sfs_readpage ops z info' (int j + 1) ls = Some (Inr xs, info'))"
  using write_then_readpage [OF assms(1-5,7,8,6), of isz] by blast

lemma page_write_then_read_witness:
  "\<exists>info info'. write_page rb_ops 0 info 1 [(0, 0, replicate 512 7), (1, 0, replicate 512 8)] = Some (0, info') \<and>
    sfs_readpage rb_ops 1024 info' 1 [0, 1] = Some (Inr (replicate 512 7 @ replicate 512 8), info')"
proof -
  let ?ds = "[(0, 0, replicate 512 7), (1, 0, replicate 512 8)] :: piece list"
  obtain info u where s: "fs_inv rb_ops info" "data_ok rb_ops info" "used_ok info u" "entry_cnt info = 8"
    "table rb_ops info = replicate 8 zero_fe" "free_data_blocks info u = [2, 3, 4, 5, 6, 7, 8, 9]"
    by (rule sample_data) blast
  have b: "unat (bd_block_size rb_ops) = 512" by (simp add: rb_ops_def)
  have p: "pieces_ok rb_ops ?ds" by (simp add: pieces_ok_def b)
  have q: "\<forall>(k, off, xs) \<in> set ?ds. off = 0 \<and> length xs = unat (bd_block_size rb_ops)"
    by (simp add: b)
  have f: "length (holes (table rb_ops info ! 0) (map fst ?ds)) \<le> length (free_data_blocks info u)"
    by (simp add: s(6) holes_def)
  have i: "0 < entry_cnt info" using s(4) by simp
  obtain info' where w: "write_page rb_ops 0 info (int 0 + 1) ?ds = Some (0, info')"
    and r: "(\<forall>k \<in> fst ` set ?ds. k * unat (bd_block_size rb_ops) < 1024) \<Longrightarrow>
      sfs_readpage rb_ops 1024 info' (int 0 + 1) (map fst ?ds) = Some (Inr (concat (map (snd \<circ> snd) ?ds)), info')"
    using page_write_then_read [OF rb_cache s(1,2) i p q s(3) f, of 0] by blast
  have "\<forall>k \<in> fst ` set ?ds. k * unat (bd_block_size rb_ops) < 1024" by (simp add: b)
  from r [OF this] w show ?thesis by (intro exI [of _ info] exI [of _ info']) simp
qed

text \<open>
  C10. Writing part of a block that the file does not have yet keeps, around what is written, the
  bytes the disk has in the block it gets: \<open>sfs_get_block\<close> does not mark the buffer as new, so that
  the kernel reads the block instead of clearing it. Up to the end of the file a reader sees the old
  content of the block, that is the data of removed files; behind it the page is cleared when it is
  written out. A write at the end of the file, at \<open>off\<close> in the block, shows the old bytes before \<open>off\<close>.
\<close>

theorem new_block_shows_old_data:
  assumes "buffer_cache ops" "fs_inv ops info" "data_ok ops info" "i < entry_cnt info" "k < 9"
    and "fe_blocks (table ops info ! i) ! k = 0"
    and "xs \<noteq> []" "off + length xs \<le> unat (bd_block_size ops)"
    and "used_ok info u" "free_data_blocks info u \<noteq> []"
    and "z = max isz (k * unat (bd_block_size ops) + off + length xs)"
    and "e = min (unat (bd_block_size ops)) (z - k * unat (bd_block_size ops))"
  shows "\<exists>info' b old. write_page ops isz info (int i + 1) [(k, off, xs)] = Some (0, info') \<and>
    fe_blocks (table ops info' ! i) ! k = b \<and> data_start info \<le> unat b \<and>
    sb_bread ops (si_dev info) b = Some old \<and>
    sfs_readpage ops z info' (int i + 1) [k] =
      Some (Inr (take e (put_bytes off xs old) @ replicate (unat (bd_block_size ops) - e) 0), info')"
proof -
  obtain info' b old where w: "write_page ops isz info (int i + 1) [(k, off, xs)] = Some (0, info')"
    "fe_blocks (table ops info' ! i) ! k = b" "data_start info \<le> unat b"
    and old: "sb_bread ops (si_dev info) b = Some old"
    and r: "sfs_readpage ops z info' (int i + 1) [k] =
      Some (Inr (cut_page (unat (bd_block_size ops)) z k (put_bytes off xs old)), info')"
    unfolding assms(11) using partial_write_keeps_old_data [OF assms(1-10), of isz] by blast
  have "length (put_bytes off xs old) = unat (bd_block_size ops)"
    using buffer_cache.bread_length [OF assms(1) old] assms(8) by simp
  then have "cut_page (unat (bd_block_size ops)) z k (put_bytes off xs old) =
      take e (put_bytes off xs old) @ replicate (unat (bd_block_size ops) - e) 0"
    by (simp add: cut_page_def assms(12) min_def)
  then show ?thesis using w old r by auto
qed

text \<open>One byte is written at offset 100 of an empty file.\<close>

lemma new_block_shows_old_data_witness:
  "\<exists>info info' b old. write_page rb_ops 0 info 1 [(0, 100, [1])] = Some (0, info') \<and>
    sb_bread rb_ops sample_disk b = Some old \<and>
    sfs_readpage rb_ops 101 info' 1 [0] = Some (Inr (take 100 old @ [1] @ replicate 411 0), info')"
proof -
  obtain info u where s: "fs_inv rb_ops info" "data_ok rb_ops info" "used_ok info u" "entry_cnt info = 8"
    "table rb_ops info = replicate 8 zero_fe" "free_data_blocks info u = [2, 3, 4, 5, 6, 7, 8, 9]"
    "si_dev info = sample_disk" by (rule sample_data) blast
  have b: "unat (bd_block_size rb_ops) = 512" by (simp add: rb_ops_def)
  have h: "0 < entry_cnt info" "(0::nat) < 9" "fe_blocks (table rb_ops info ! 0) ! 0 = 0" "[1 :: byte] \<noteq> []"
    "100 + length [1 :: byte] \<le> unat (bd_block_size rb_ops)" "free_data_blocks info u \<noteq> []"
    "101 = max 0 (0 * unat (bd_block_size rb_ops) + 100 + length [1 :: byte])"
    "101 = min (unat (bd_block_size rb_ops)) (101 - 0 * unat (bd_block_size rb_ops))"
    by (simp_all add: b s zero_fe_def)
  obtain info' b old where w: "write_page rb_ops 0 info (int 0 + 1) [(0, 100, [1])] = Some (0, info')"
    "sb_bread rb_ops (si_dev info) b = Some old"
    "sfs_readpage rb_ops 101 info' (int 0 + 1) [0] =
      Some (Inr (take 101 (put_bytes 100 [1] old) @ replicate (unat (bd_block_size rb_ops) - 101) 0), info')"
    using new_block_shows_old_data [OF rb_cache s(1,2) h(1,2,3,4,5) s(3) h(6,7,8)] by blast
  moreover have "length old = 512" using buffer_cache.bread_length [OF rb_cache w(2)] b by simp
  ultimately show ?thesis
    by (intro exI [of _ info] exI [of _ info'] exI [of _ b] exI [of _ old]) (simp add: s(7) b put_bytes_def)
qed

end
