(* ===== verification/Sfs_Releases.thy ===== *)
theory Sfs_Releases
  imports Sfs_Mount
begin

unbundle bit_operations_syntax

text \<open>
  The two earlier releases of the module. \<open>5_sep12/RealSFSModule/real_sfs_bb.c\<close> fills a super
  block from constants. \<open>6_oct12/RealSFSOnBlockDevice\<close> reads the device, but numbers device
  blocks in units of the file system's block size; on a device with that block size it mounts
  what the final release mounts. Its other operations are the final release's, as \<open>oct_same\<close> says.
\<close>

section \<open>The first module\<close>

definition bb_fill_super :: "(int \<Rightarrow> iget_result) \<Rightarrow> bool \<Rightarrow> 'd vfs_super \<Rightarrow> int \<times> 'd vfs_super" where
  "bb_fill_super iget_locked make_root_ok sb =
     (let sb = sb\<lparr>s_blocksize := of_nat SIMULA_FS_BLOCK_SIZE, s_blocksize_bits := 9,
                  s_magic := SIMULA_FS_TYPE\<rparr>
      in case iget_locked 1 of
           Iget_Null \<Rightarrow> (- EACCES, sb)
         | Iget_New inode \<Rightarrow>
             if make_root_ok
             then (0, sb\<lparr>s_root := Some (inode\<lparr>i_mode := S_IFDIR OR 0x1ED, i_sfs_ops := True\<rparr>)\<rparr>)
             else (- ENOMEM, sb\<lparr>s_root := None\<rparr>)
         | Iget_Cached inode \<Rightarrow>
             if make_root_ok then (0, sb\<lparr>s_root := Some inode\<rparr>) else (- ENOMEM, sb\<lparr>s_root := None\<rparr>))"

section \<open>The module on a block device\<close>

definition oct_read_sb_from_real_sfs ::
  "'d bdev_ops \<Rightarrow> 'd sfs_info \<Rightarrow> (int + sfs_super_block) option" where
  "oct_read_sb_from_real_sfs ops info =
     (case sb_bread ops (si_dev info) 0 of
        None \<Rightarrow> Some (Inl (- EIO))
      | Some b \<Rightarrow>
          if length b < SIMULA_FS_BLOCK_SIZE then None
          else Some (Inr (decode_sb (take SIMULA_FS_BLOCK_SIZE b))))"

definition oct_read_from_real_sfs ::
  "'d bdev_ops \<Rightarrow> 'd sfs_info \<Rightarrow> u32 \<Rightarrow> u32 \<Rightarrow> u32 \<Rightarrow> (int + byte list) option" where
  "oct_read_from_real_sfs ops info block offset len =
     (let block_size = sb_block_size (si_sb info) in
      if block_size = 0 \<and> block_size \<le> offset then None
      else
        let (block, offset) = (if block_size \<le> offset
              then (block + offset div block_size, offset mod block_size) else (block, offset))
        in if offset + len > block_size then Some (Inl (- EINVAL))
           else case sb_bread ops (si_dev info) block of
               None \<Rightarrow> Some (Inl (- EIO))
             | Some b \<Rightarrow>
                 if unat offset + unat len \<le> length b
                 then Some (Inr (get_bytes (unat offset) (unat len) b))
                 else None)"

fun oct_mark_entries ::
  "'d bdev_ops \<Rightarrow> 'd sfs_info \<Rightarrow> nat list \<Rightarrow> byte list \<Rightarrow> (int + byte list) option" where
  "oct_mark_entries ops info [] u = Some (Inr u)"
| "oct_mark_entries ops info (i # is) u = do {
     r \<leftarrow> oct_read_from_real_sfs ops info (sb_entry_table_block_start (si_sb info))
            (word_of_int (int i * int SIMULA_FS_ENTRY_SIZE)) 64;
     case r of
       Inl e \<Rightarrow> Some (Inl (- ENOMEM))
     | Inr bs \<Rightarrow>
         let fe = decode_fe bs in
         if \<not> fe_live fe then oct_mark_entries ops info is u
         else do {
           u' \<leftarrow> mark_blocks u (fe_blocks fe);
           oct_mark_entries ops info is u'
         }
   }"

definition oct_init_browsing ::
  "'d bdev_ops \<Rightarrow> (u32 \<Rightarrow> byte list option) \<Rightarrow> 'd sfs_info \<Rightarrow> (int \<times> 'd sfs_info) option" where
  "oct_init_browsing ops vmalloc info = do {
     r \<leftarrow> oct_read_sb_from_real_sfs ops info;
     case r of
       Inl e \<Rightarrow> Some (- EIO, info)
     | Inr sb \<Rightarrow>
         let info = info\<lparr>si_sb := sb\<rparr> in
         if sb_type sb \<noteq> SIMULA_FS_TYPE then Some (- EINVAL, info)
         else (case vmalloc (sb_partition_size sb) of
           None \<Rightarrow> Some (- ENOMEM, info)
         | Some mem \<Rightarrow>
             let d = unat (sb_data_block_start sb); p = unat (sb_partition_size sb) in do {
               u1 \<leftarrow> fill_used mem 0 d 1;
               u2 \<leftarrow> fill_used u1 d (p - d) 0;
               m \<leftarrow> oct_mark_entries ops info [0..<entry_cnt info] u2;
               (case m of
                  Inl e \<Rightarrow> Some (e, info)
                | Inr u \<Rightarrow> Some (0, info\<lparr>si_used := Obj u, si_registered := True\<rparr>))
             })
   }"

text \<open>\<open>vfree\<close> of the flags; they may be absent, but not freed before.\<close>

definition oct_shut_browsing :: "'d sfs_info \<Rightarrow> 'd sfs_info option" where
  "oct_shut_browsing info =
     (case si_used info of
        Null \<Rightarrow> Some info
      | Obj u \<Rightarrow> Some (info\<lparr>si_used := Dangling\<rparr>)
      | Dangling \<Rightarrow> None)"

function oct_bit_pos_loop :: "u32 \<Rightarrow> int \<Rightarrow> int" where
  "oct_bit_pos_loop val i = (if val = 0 then i else oct_bit_pos_loop (drop_bit 1 val) (i + 1))"
  by pat_completeness auto
termination
proof (relation "measure (\<lambda>(val, i). unat val)")
  fix val :: u32 and i :: int
  assume "val \<noteq> 0"
  then show "((drop_bit 1 val, i + 1), val, i) \<in> measure (\<lambda>(val, i). unat val)"
    by (simp add: drop_bit_eq_div unat_div_distrib unat_gt_0 [symmetric])
qed simp

declare oct_bit_pos_loop.simps [simp del]

definition oct_get_bit_pos :: "u32 \<Rightarrow> int" where
  "oct_get_bit_pos val = oct_bit_pos_loop val 0 - 1"

definition oct_fill_super ::
  "'d bdev_ops \<Rightarrow> bool \<Rightarrow> (u32 \<Rightarrow> byte list option) \<Rightarrow> (int \<Rightarrow> iget_result) \<Rightarrow> bool \<Rightarrow>
   'd vfs_super \<Rightarrow> (int \<times> 'd vfs_super) option" where
  "oct_fill_super ops kzalloc_ok vmalloc iget_locked make_root_ok sb =
     (if \<not> kzalloc_ok then Some (- ENOMEM, sb)
      else do {
        (r, info) \<leftarrow> oct_init_browsing ops vmalloc (kzalloc_info (s_dev sb));
        if r < 0 then Some (- EIO, sb)
        else
          let sb = sb\<lparr>s_fs_info := Obj info, s_magic := sb_type (si_sb info),
                s_blocksize := sb_block_size (si_sb info),
                s_blocksize_bits := oct_get_bit_pos (sb_block_size (si_sb info))\<rparr>
          in case iget_locked 0 of
               Iget_Null \<Rightarrow> do {
                 _ \<leftarrow> oct_shut_browsing info;
                 Some (- EACCES, sb\<lparr>s_fs_info := Dangling\<rparr>)
               }
             | root \<Rightarrow>
                 if \<not> make_root_ok then do {
                   _ \<leftarrow> oct_shut_browsing info;
                   Some (- ENOMEM, sb\<lparr>s_fs_info := Dangling\<rparr>)
                 }
                 else (case root of
                   Iget_New inode \<Rightarrow> Some (0, sb\<lparr>s_root := Some (inode\<lparr>
                     i_mode := S_IFDIR OR 0x1FF, i_sfs_ops := True\<rparr>)\<rparr>)
                 | Iget_Cached inode \<Rightarrow> Some (0, sb\<lparr>s_root := Some inode\<rparr>)
                 | Iget_Null \<Rightarrow> None)
      })"

definition oct_kill_sb :: "'d vfs_super \<Rightarrow> 'd vfs_super option" where
  "oct_kill_sb sb =
     (case s_fs_info sb of
        Null \<Rightarrow> Some sb
      | Obj info \<Rightarrow> do {
          info \<leftarrow> oct_shut_browsing info;
          Some (sb\<lparr>s_dev := si_dev info, s_fs_info := Dangling\<rparr>)
        }
      | Dangling \<Rightarrow> None)"

section \<open>What October shares with November\<close>

lemma oct_read_sb_same: "oct_read_sb_from_real_sfs ops info = read_sb_from_real_sfs ops info"
  by (auto simp: oct_read_sb_from_real_sfs_def read_sb_from_real_sfs_def get_bytes_def split: option.split)

lemma oct_shut_browsing_same: "oct_shut_browsing info = shut_browsing info"
  by (simp add: oct_shut_browsing_def shut_browsing_def split: ptr.split)

lemma oct_get_bit_pos_same: "oct_get_bit_pos val = get_bit_pos val"
proof -
  have "oct_bit_pos_loop val i = bit_pos_loop val i" for i
    by (induction val i rule: bit_pos_loop.induct)
      (subst oct_bit_pos_loop.simps, subst bit_pos_loop.simps, simp)
  then show ?thesis by (simp add: oct_get_bit_pos_def get_bit_pos_def)
qed

lemma oct_kill_sb_same: "oct_kill_sb sb = sfs_kill_sb sb"
  by (simp add: oct_kill_sb_def sfs_kill_sb_def oct_shut_browsing_same split: ptr.split)

lemmas oct_same [simp] = oct_read_sb_same oct_shut_browsing_same oct_get_bit_pos_same oct_kill_sb_same

section \<open>The two readers agree\<close>

text \<open>No byte address up to the one read exceeds 32 bits.\<close>

lemma oct_read_same:
  assumes bd: "bd_block_size ops = sb_block_size (si_sb info)" "bd_block_size ops \<noteq> 0"
    and addr: "unat block * unat (bd_block_size ops) + unat offset < 2 ^ 32"
  shows "oct_read_from_real_sfs ops info block offset len = read_from_real_sfs ops info block offset len"
proof -
  let ?bs = "bd_block_size ops"
  let ?n = "unat block * unat ?bs + unat offset"
  have pos: "0 < unat ?bs" using bd(2) by (simp add: unat_gt_0)
  have abs: "block * ?bs + offset = of_nat ?n" by simp
  have u: "unat (block * ?bs + offset) = ?n"
    unfolding abs using addr by (simp add: unat_of_nat del: of_nat_add of_nat_mult)
  have dv: "?n div unat ?bs = unat block + unat offset div unat ?bs"
    using pos by simp
  have q: "unat ((block * ?bs + offset) div ?bs) = unat block + unat (offset div ?bs)"
    by (simp only: unat_div_distrib u dv)
  have blk: "(block * ?bs + offset) div ?bs = block + offset div ?bs"
    using unat_eq_imp_of_nat [OF q] by simp
  have "unat ((block * ?bs + offset) mod ?bs) = unat (offset mod ?bs)"
    by (simp only: unat_mod_distrib u) simp
  then have off: "(block * ?bs + offset) mod ?bs = offset mod ?bs" by (metis unsigned_word_eqI)
  have small: "block + offset div ?bs = block" "offset mod ?bs = offset" if "\<not> ?bs \<le> offset"
  proof -
    have lt: "unat offset < unat ?bs" using that by (simp add: word_le_nat_alt)
    have "unat (offset div ?bs) = 0" using lt by (simp add: unat_div_distrib)
    then show "block + offset div ?bs = block" by (simp add: unat_eq_zero)
    have "unat (offset mod ?bs) = unat offset" using lt by (simp add: unat_mod_distrib)
    then show "offset mod ?bs = offset" by (metis unsigned_word_eqI)
  qed
  show ?thesis
    using bd(2) small
    by (cases "?bs \<le> offset")
      (simp_all add: oct_read_from_real_sfs_def read_from_real_sfs_def bd(1) [symmetric] blk off Let_def
        split: option.split)
qed

lemma oct_mark_entries_same:
  assumes bd: "bd_block_size ops = sb_block_size (si_sb info)"
    and g: "geom_ok (bd_block_size ops) (si_sb info)"
    and "\<And>i. i \<in> set is \<Longrightarrow> i < entry_cnt info"
  shows "oct_mark_entries ops info is u = mark_entries ops info is u"
  using assms(3)
proof (induction "is" arbitrary: u)
  case (Cons i "is")
  let ?st = "sb_entry_table_block_start (si_sb info)"
  have i: "i < unat (sb_entry_count (si_sb info))" using Cons.prems by (simp add: entry_cnt_def)
  have a: "entry_addr (si_sb info) i + 64 \<le> 2 ^ 32" by (rule entry_addr_lt [OF g i])
  have "64 * i < 2 ^ 32" using a by (simp add: entry_addr_def)
  then have o: "unat (word_of_int (int i * 64) :: u32) = 64 * i"
    by (simp add: unat_word_ariths(2) unat_of_nat mult.commute)
  have "oct_read_from_real_sfs ops info ?st (word_of_int (int i * 64)) 64 =
      read_from_real_sfs ops info ?st (word_of_int (int i * 64)) 64"
  proof (rule oct_read_same [OF bd])
    show "bd_block_size ops \<noteq> 0" using g by (auto simp: geom_ok_def)
    show "unat ?st * unat (bd_block_size ops) + unat (word_of_int (int i * 64) :: u32) < 2 ^ 32"
      using a unfolding o by (simp add: entry_addr_def bd)
  qed
  moreover have "oct_mark_entries ops info is = mark_entries ops info is"
    using Cons by (intro ext) simp
  ultimately show ?case
    by (cases "read_from_real_sfs ops info ?st (word_of_int (int i * 64)) 64")
      (auto simp: read_entry_def Let_def split: sum.split)
qed simp

lemma oct_fill_super_same:
  assumes sb: "read_sb_from_real_sfs ops (kzalloc_info (s_dev vs)) = Some (Inr sb)"
    and bd: "bd_block_size ops = sb_block_size sb" and g: "geom_ok (bd_block_size ops) sb"
  shows "oct_fill_super ops kz vmalloc iget mk vs = sfs_fill_super ops kz vmalloc iget mk vs"
proof -
  let ?info = "(kzalloc_info (s_dev vs))\<lparr>si_sb := sb\<rparr>"
  have "oct_mark_entries ops ?info [0..<entry_cnt ?info] u = mark_entries ops ?info [0..<entry_cnt ?info] u" for u
    using bd g by (intro oct_mark_entries_same) auto
  moreover have "?info\<lparr>si_used := Obj u, si_registered := True, si_lock := False\<rparr> =
      ?info\<lparr>si_used := Obj u, si_registered := True\<rparr>" for u
    by (simp add: kzalloc_info_def)
  ultimately have "oct_init_browsing ops vmalloc (kzalloc_info (s_dev vs)) =
      init_browsing ops vmalloc (kzalloc_info (s_dev vs))"
    by (simp add: oct_init_browsing_def init_browsing_def sb Let_def split: option.split)
  then show ?thesis
    unfolding oct_fill_super_def sfs_fill_super_def oct_shut_browsing_same oct_get_bit_pos_same by simp
qed

end
