(* ===== verification/Sfs_File_Properties.thy ===== *)
theory Sfs_File_Properties
  imports Sfs_Calls Sfs_Releases Sfs_Sample
begin

text \<open>
  Properties of the operations on single files: creating, removing, resizing, mapping blocks,
  listing, the entry table and its byte images, modes, and mounting by \<open>sfs_fill_super\<close>.
\<close>

section \<open>Creating and removing\<close>

text \<open>
  C17. Creating a file under a new name of at most 15 characters while an entry is free: the first
  free entry becomes an empty file of that name; a lookup then finds it, and no other name is
  found any differently than before.
\<close>

theorem create_then_lookup:
  assumes "buffer_cache ops" and inv: "fs_inv ops info"
    and fn: "0 \<notin> set fn" "fn \<noteq> []" "length fn \<le> 15"
    and new: "find_file fn (table ops info) = None" and slot: "find_slot (table ops info) = Some k"
  shows "\<exists>info'. sfs_create ops now info fn perms fe = Some (int k + 1, info', new_fe fn now perms) \<and>
    table ops info' = (table ops info)[k := new_fe fn now perms] \<and> fs_inv ops info' \<and>
    sfs_lookup ops info' fn zero_fe = Some (int k + 1, new_fe fn now perms) \<and>
    (\<forall>fn'. fn' \<noteq> fn \<longrightarrow> find_file fn' (table ops info') = find_file fn' (table ops info))"
proof -
  have ok: "table_ok ops info" "names_ok (table ops info)" using inv by (auto simp: fs_inv_def)
  obtain info' where c: "sfs_create ops now info fn perms fe = Some (int k + 1, info', new_fe fn now perms)"
    and t: "table ops info' = (table ops info)[k := new_fe fn now perms]"
    by (rule buffer_cache.sfs_create_new [OF assms(1) ok fn(1) new slot, of now perms fe]) blast
  have inv': "fs_inv ops info'"
    using buffer_cache.fs_inv_create [OF assms(1) inv fn(1), of now perms fe] c by auto
  have live: "fe_live (new_fe fn now perms)" "fe_fname (new_fe fn now perms) = Some fn"
    using fn by (simp_all add: live_new_fe)
  note f = find_file_new [OF new slot live]
  have k: "k < length (table ops info)" using slot by (simp add: find_slot_Some)
  have ok': "table_ok ops info'" "names_ok (table ops info')" using inv' by (auto simp: fs_inv_def)
  have "sfs_lookup ops info' fn zero_fe = Some (int k + 1, new_fe fn now perms)"
    using buffer_cache.sfs_lookup_eq [OF assms(1) ok' fn(1), of zero_fe] f(1) k by (auto simp: t)
  then show ?thesis using c t inv' f(2) by auto
qed

lemma create_then_lookup_witness:
  "\<exists>info info'. fs_inv rb_ops info \<and>
    sfs_create rb_ops 5 info [104, 105] 6 zero_fe = Some (1, info', new_fe [104, 105] 5 6) \<and>
    sfs_lookup rb_ops info' [104, 105] zero_fe = Some (1, new_fe [104, 105] 5 6)"
proof -
  obtain info where s: "fs_inv rb_ops info" "table rb_ops info = replicate 8 zero_fe"
    by (rule sample_facts) blast
  have "find_file [104, 105] (table rb_ops info) = None"
    by (simp add: s(2) find_file_None hit_def)
  moreover have "find_slot (table rb_ops info) = Some 0"
    by (simp add: s(2) find_slot_Some)
  ultimately show ?thesis
    using create_then_lookup [OF rb_cache s(1), of "[104, 105]" 0 5 6 zero_fe] s(1) by auto
qed

text \<open>
  C29. Removing the only file of a name (a name not given twice): its entry becomes free, no lookup finds the name any
  more, other names are found as before, and the flags cleared are exactly those of its leading
  non-zero block numbers.
\<close>

theorem remove_frees:
  assumes "buffer_cache ops" and inv: "fs_inv ops info" and fn: "0 \<notin> set fn"
    and u: "used_ok info u" and i: "find_file fn (table ops info) = Some i"
    and uniq: "\<forall>j < entry_cnt info. hit fn (table ops info ! j) \<longrightarrow> j = i"
  shows "\<exists>info'. sfs_remove ops info fn = Some (int i + 1, info') \<and> fs_inv ops info' \<and>
    table ops info' = (table ops info)[i := zero_fe] \<and> find_file fn (table ops info') = None \<and>
    (\<forall>fn'. fn' \<noteq> fn \<longrightarrow> find_file fn' (table ops info') = find_file fn' (table ops info)) \<and>
    used_ok info' (clear_used (takeWhile (\<lambda>b. b \<noteq> 0) (fe_blocks (table ops info ! i))) u)"
proof -
  have ok: "table_ok ops info" "names_ok (table ops info)" using inv by (auto simp: fs_inv_def)
  have len: "part_size info = length u" using u by (simp add: used_ok_def)
  have blk: "blocks_ok (table ops info) u (data_start info) (part_size info)"
    using inv u by (auto simp: fs_inv_def used_ok_def)
  have il: "i < length (table ops info)" "fe_fname (table ops info ! i) = Some fn"
    using i by (auto simp: find_file_Some hit_def)
  have rng: "unat b < length u" if "b \<in> set (fe_blocks (table ops info ! i))" "b \<noteq> 0" for b
    using blocks_ok_range [OF blk il(1) that] len by simp
  obtain info' where r: "sfs_remove ops info fn = Some (int i + 1, info')"
    and t: "table ops info' = (table ops info)[i := zero_fe]"
    and u': "used_ok info' (clear_used (takeWhile (\<lambda>b. b \<noteq> 0) (fe_blocks (table ops info ! i))) u)"
    by (rule buffer_cache.sfs_remove_some [OF assms(1) ok fn i u rng]) auto
  have "fs_inv ops info'"
    using buffer_cache.fs_inv_remove [OF assms(1) inv fn] r by auto
  moreover have "\<forall>j < length (table ops info). hit fn (table ops info ! j) \<longrightarrow> j = i"
    using uniq by simp
  note g = find_file_gone [OF this _ il(2) zero_fe_free]
  have "find_file fn (table ops info') = None"
    using g(1) [of "fn @ [0]"] by (simp add: t)
  moreover have "\<forall>fn'. fn' \<noteq> fn \<longrightarrow> find_file fn' (table ops info') = find_file fn' (table ops info)"
    using g(2) by (simp add: t)
  ultimately show ?thesis using r t u' by blast
qed

lemma remove_frees_witness:
  "\<exists>info info'. fs_inv rb_ops info \<and> find_file [104] (table rb_ops info) = Some 0 \<and>
    sfs_remove rb_ops info [104] = Some (1, info') \<and> find_file [104] (table rb_ops info') = None"
proof -
  obtain info0 where s: "fs_inv rb_ops info0" "table_ok rb_ops info0" "names_ok (table rb_ops info0)"
    "table rb_ops info0 = replicate 8 zero_fe" "entry_cnt info0 = 8" by (rule sample_facts) blast
  have f: "find_file [104] (table rb_ops info0) = None" "find_slot (table rb_ops info0) = Some 0"
    by (simp_all add: s(4) find_file_None hit_def find_slot_Some)
  have n: "(0 :: byte) \<notin> set [104]" by simp
  obtain info where c: "sfs_create rb_ops 5 info0 [104] 6 zero_fe = Some (int 0 + 1, info, new_fe [104] 5 6)"
    and t: "table rb_ops info = (table rb_ops info0)[0 := new_fe [104] 5 6]"
    by (rule rb.sfs_create_new [OF s(2,3) n f, of 5 6 zero_fe]) blast
  have inv: "fs_inv rb_ops info" using rb.fs_inv_create [OF s(1) n, of 5 6 zero_fe] c by auto
  then obtain u where u: "used_ok info u" by (auto simp: fs_inv_def)
  have l: "fe_live (new_fe [104] 5 6)" "fe_fname (new_fe [104] 5 6) = Some [104]"
    by (simp_all add: live_new_fe)
  have i: "find_file [104] (table rb_ops info) = Some 0"
    using find_file_new(1) [OF f l] by (simp add: t)
  have "\<forall>j < entry_cnt info. hit [104] (table rb_ops info ! j) \<longrightarrow> j = 0"
  proof (intro allI impI)
    fix j assume j: "j < entry_cnt info" "hit [104] (table rb_ops info ! j)"
    have "entry_cnt info = 8" using t s(4) length_table [of rb_ops info] by simp
    then show "j = 0" using j by (cases "j = 0") (simp_all add: t s(4) hit_def)
  qed
  from remove_frees [OF rb_cache inv n u i this] inv i show ?thesis by auto
qed

section \<open>Resizing and mapping\<close>

text \<open>
  C18. Writing an inode back sets the three attributes, keeps the first
  \<open>(size + block_size - 1) / block_size\<close> blocks of the file, and frees exactly the others.
\<close>

theorem update_resizes:
  fixes sz ts perms :: "int option"
  assumes "buffer_cache ops" and inv: "fs_inv ops info" and i: "i < entry_cnt info"
    and u: "used_ok info u" and bs: "1 < unat (sb_block_size (si_sb info))"
  defines "fe \<equiv> set_attrs sz ts perms (table ops info ! i)"
  defines "n \<equiv> unat ((fe_size fe + sb_block_size (si_sb info) - 1) div sb_block_size (si_sb info))"
  shows "\<exists>info'. sfs_update ops info (int i + 1) sz ts perms = Some (0, info') \<and> fs_inv ops info' \<and>
    table ops info' = (table ops info)
      [i := fe\<lparr>fe_blocks := take n (fe_blocks fe) @ replicate (9 - n) 0\<rparr>] \<and>
    used_ok info' (clear_used (filter (\<lambda>b. b \<noteq> 0) (drop n (fe_blocks fe))) u)"
proof -
  have n: "n = blocks_needed (sb_block_size (si_sb info)) (fe_size fe)"
    by (simp add: n_def blocks_needed_def)
  have small: "blocks_needed (sb_block_size (si_sb info)) (fe_size fe) < 2 ^ 31"
    by (rule blocks_needed_small [OF bs])
  have nz: "sb_block_size (si_sb info) \<noteq> 0" using bs by auto
  have ok: "table_ok ops info" using inv by (simp add: fs_inv_def)
  have blk: "blocks_ok (table ops info) u (data_start info) (part_size info)"
    using inv u by (auto simp: fs_inv_def used_ok_def)
  have rng: "unat b < length u" if "b \<in> set (fe_blocks (table ops info ! i))" "b \<noteq> 0" for b
    using blocks_ok_range [OF blk _ that] i u by (simp add: used_ok_def)
  obtain info' where up: "sfs_update ops info (int i + 1) sz ts perms = Some (0, info')"
    and t: "table ops info' = (table ops info)[i := cut_blocks n fe]"
    and u': "used_ok info' (clear_used (filter (\<lambda>b. b \<noteq> 0) (drop n (fe_blocks fe))) u)"
    by (rule buffer_cache.sfs_update_eq [OF assms(1) ok i u rng nz small [unfolded fe_def],
          folded fe_def, folded n]) auto
  have "fs_inv ops info'"
    using buffer_cache.fs_inv_update [OF assms(1) inv i nz small [unfolded fe_def]] up by auto
  then show ?thesis using up t u' by (auto simp: cut_blocks_def)
qed

lemma update_resizes_witness:
  "\<exists>info info'. fs_inv rb_ops info \<and> sfs_update rb_ops info 3 (Some 700) None (Some 4) = Some (0, info') \<and>
    fs_inv rb_ops info' \<and> fe_size (table rb_ops info' ! 2) = 700 \<and> fe_perms (table rb_ops info' ! 2) = 4"
proof -
  obtain info u where s: "fs_inv rb_ops info" "used_ok info u" "table rb_ops info = replicate 8 zero_fe"
    "entry_cnt info = 8" "unat (sb_block_size (si_sb info)) = 512" by (rule sample_facts) blast
  have "\<exists>info'. sfs_update rb_ops info (int 2 + 1) (Some 700) None (Some 4) = Some (0, info') \<and>
      fs_inv rb_ops info' \<and> table rb_ops info' = (table rb_ops info)
        [2 := (set_attrs (Some 700) None (Some 4) zero_fe)\<lparr>fe_blocks := take
          (unat ((700 + sb_block_size (si_sb info) - 1) div sb_block_size (si_sb info)))
          (fe_blocks zero_fe) @ replicate (9 - unat ((700 + sb_block_size (si_sb info) - 1) div
            sb_block_size (si_sb info))) 0\<rparr>]"
    using update_resizes [OF rb_cache s(1) _ s(2), of 2 "Some 700" None "Some 4"] s(3-5)
    by (auto simp: set_attrs_def)
  then show ?thesis using s(1,3) by (force simp: set_attrs_def)
qed

text \<open>
  Mapping a block of a file for writing: a hole gets the first free data block, which from
  then on is flagged, is the file's, and is what every later mapping of the same position gives,
  with or without \<open>create\<close>.
\<close>

theorem get_block_allocates:
  assumes "buffer_cache ops" and inv: "fs_inv ops info" and i: "i < entry_cnt info" and k: "k < 9"
    and u: "used_ok info u" and hole: "fe_blocks (table ops info ! i) ! k = 0"
    and free: "data_start info \<le> m" "m < part_size info" "u ! m = 0"
      "\<forall>j. data_start info \<le> j \<and> j < m \<longrightarrow> u ! j \<noteq> 0"
  shows "\<exists>info'. sfs_get_block ops info (int i + 1) k True = Some (0, info', Some (of_nat m)) \<and>
    fs_inv ops info' \<and> used_ok info' (u[m := 1]) \<and>
    sfs_get_block ops info' (int i + 1) k create = Some (0, info', Some (of_nat m))"
proof -
  have ok: "table_ok ops info" using inv by (simp add: fs_inv_def)
  have f: "find (\<lambda>b. u ! b = 0) [data_start info..<part_size info] = Some m"
    using free by (subst find_Some_iff) (auto intro!: exI [of _ "m - data_start info"])
  obtain info' where g: "sfs_get_block ops info (int i + 1) k True = Some (0, info', Some (of_nat m))"
    and t: "table ops info' = (table ops info)[i := (table ops info ! i)
      \<lparr>fe_blocks := (fe_blocks (table ops info ! i))[k := of_nat m]\<rparr>]"
    and ok': "table_ok ops info'" and u': "used_ok info' (u[m := 1])"
    by (rule buffer_cache.get_block_alloc [OF assms(1) ok i k u hole f]) blast
  have inv': "fs_inv ops info'"
    using buffer_cache.fs_inv_get_block [OF assms(1) inv i, of k True] g by auto
  have i': "i < entry_cnt info'" using i t length_table [of ops info'] by simp
  have len: "k < length (fe_blocks (table ops info ! i))"
    using buffer_cache.wf_entry [OF assms(1) ok i] i k by (simp add: wf_fe_def)
  have e: "fe_blocks (table ops info' ! i) ! k = of_nat m"
    using i len by (simp add: t del: nth_table)
  have "0 < data_start info" using inv by (simp add: fs_inv_def)
  moreover have "m < 2 ^ 31" using free(2) u by (simp add: used_ok_def)
  ultimately have "unat (of_nat m :: u32) \<noteq> 0" using free(1) by (simp add: unat_of_nat)
  then have "fe_blocks (table ops info' ! i) ! k \<noteq> 0" unfolding e by (metis unat_0)
  then show ?thesis
    using buffer_cache.get_block_hit [OF assms(1) ok' i' k] e g inv' u' by auto
qed

section \<open>Listing\<close>

text \<open>
  C19. Reading the directory from the start hands \<open>.\<close>, \<open>..\<close> and then every file of the table
  to the callback, each once, in the order of the table, with its name, inode number (the
  position in the table counted from 1) and the file positions 0, 1, 2, ...
\<close>

theorem readdir_lists_all:
  assumes "buffer_cache ops" "fs_inv ops info"
  shows "\<exists>es. sfs_readdir ops info ino parent collect 0 [] =
      Some (1, 2 + int (length es), [([46], 0, ino, DT_DIR), ([46, 46], 1, parent, DT_DIR)] @ es) \<and>
    map (\<lambda>(n, _, i, _). (n, i)) es =
      map (\<lambda>i. (the (fe_fname (table ops info ! i)), int i + 1))
        (filter (\<lambda>i. fe_live (table ops info ! i)) [0..<entry_cnt info]) \<and>
    map (\<lambda>(_, p, _, _). p) es = map (\<lambda>k. 2 + int k) [0..<length es]"
proof -
  have ok: "table_ok ops info" "names_ok (table ops info)" using assms(2) by (auto simp: fs_inv_def)
  let ?es = "listing (table ops info) 1 2"
  have r: "sfs_readdir ops info ino parent collect 0 [] = Some (1, 2 + int (length ?es),
      [([46], 0, ino, DT_DIR), ([46, 46], 1, parent, DT_DIR)] @ ?es)"
    unfolding buffer_cache.readdir_collect [OF assms(1) ok] by (simp add: length_listing)
  have "map (\<lambda>(n, _, i, _). (n, i)) (listing t j p) =
      map (\<lambda>i. (the (fe_fname (t ! i)), int i + j)) (filter (\<lambda>i. fe_live (t ! i)) [0..<length t])" for t j p
  proof (induction t arbitrary: j p)
    case (Cons fe t)
    have "[0..<length (fe # t)] = 0 # map Suc [0..<length t]"
      by (simp add: upt_conv_Cons map_Suc_upt del: upt_Suc)
    then show ?case using Cons.IH by (simp add: filter_map o_def algebra_simps)
  qed simp
  from this [of "table ops info" 1 2]
  have "map (\<lambda>(n, _, i, _). (n, i)) ?es = map (\<lambda>i. (the (fe_fname (table ops info ! i)), int i + 1))
      (filter (\<lambda>i. fe_live (table ops info ! i)) [0..<entry_cnt info])" by simp
  moreover have "map (\<lambda>(_, p, _, _). p) (listing t j p) = map (\<lambda>k. p + int k) [0..<length (listing t j p)]"
    for t j p
  proof (induction t arbitrary: j p)
    case (Cons fe t)
    show ?case
    proof (cases "fe_live fe")
      case True
      have u: "[0..<Suc n] = 0 # map Suc [0..<n]" for n
        by (simp add: upt_conv_Cons map_Suc_upt del: upt_Suc)
      show ?thesis using Cons.IH [of "j + 1" "p + 1"] True
        by (simp add: u o_def algebra_simps del: upt_Suc)
    qed (use Cons.IH in simp)
  qed simp
  ultimately show ?thesis using r by (intro exI [of _ ?es]) simp
qed

lemma readdir_lists_all_witness:
  "\<exists>info. fs_inv rb_ops info \<and> sfs_readdir rb_ops info 0 0 collect 0 [] =
    Some (1, 2, [([46], 0, 0, DT_DIR), ([46, 46], 1, 0, DT_DIR)])"
proof -
  obtain info where s: "fs_inv rb_ops info" "table rb_ops info = replicate 8 zero_fe" "entry_cnt info = 8"
    by (rule sample_facts) blast
  have "filter (\<lambda>i. fe_live (table rb_ops info ! i)) [0..<entry_cnt info] = []"
    unfolding s(2,3) by (simp add: filter_empty_conv)
  then show ?thesis using readdir_lists_all [OF rb_cache s(1), of 0 0] s(1) by force
qed

section \<open>The entry table and its bytes\<close>

text \<open>
  Writing one entry of the table: the write succeeds, reading that entry gives what was
  written, and reading any other gives what it gave before.
\<close>

theorem write_then_read_entries:
  assumes "buffer_cache ops" and ok: "table_ok ops info" and i: "i < entry_cnt info" and wf: "wf_fe fe"
  shows "\<exists>info'. write_entry ops info (int i) fe = Some (0, info') \<and>
    (\<forall>j < entry_cnt info. read_entry ops info' (int j) =
       (if j = i then Some (Inr fe) else read_entry ops info (int j)))"
proof -
  obtain info' where w: "write_entry ops info (int i) fe = Some (0, info')"
    and t: "table ops info' = (table ops info)[i := fe]" and ok': "table_ok ops info'"
    by (rule buffer_cache.write_entry_table [OF assms]) blast
  have n: "entry_cnt info' = entry_cnt info" using t length_table [of ops info'] by simp
  have "read_entry ops info' (int j) = (if j = i then Some (Inr fe) else read_entry ops info (int j))"
    if j: "j < entry_cnt info" for j
  proof -
    have "entry ops info' j = (table ops info)[i := fe] ! j"
      using t nth_table [of j info' ops] j n by simp
    then show ?thesis
      using j i n buffer_cache.read_entry_table [OF assms(1) ok j]
        buffer_cache.read_entry_table [OF assms(1) ok', of j] by (cases "j = i") simp_all
  qed
  then show ?thesis using w by blast
qed

text \<open>
  C20. The byte images of the two on-disk structures, 64 and 512 bytes, have every field at the
  offset the C structure gives it, the lowest byte of a word first (\<open>name\<close> 0, \<open>size\<close> 16,
  \<open>timestamp\<close> 20, \<open>perms\<close> 24, \<open>blocks\<close> from 28; \<open>type\<close> 0, \<open>block_size\<close> 4, \<open>partition_size\<close> 8,
  \<open>entry_size\<close> 12, \<open>entry_table_size\<close> 16, \<open>entry_table_block_start\<close> 20, \<open>entry_count\<close> 24,
  \<open>data_block_start\<close> 28, \<open>reserved\<close> from 32), and encoding and decoding are inverse to each other.
\<close>

theorem layout_round_trip:
  assumes "wf_fe fe" "wf_sb sb" "length bs = 64" "length cs = 512"
  shows "decode_fe bs =
      \<lparr>fe_name = take 16 bs, fe_size = u32_at bs 16, fe_timestamp = u32_at bs 20, fe_perms = u32_at bs 24,
       fe_blocks = map (\<lambda>i. u32_at bs (28 + 4 * i)) [0..<9]\<rparr> \<and>
    length (encode_fe fe) = 64 \<and> decode_fe (encode_fe fe) = fe \<and> encode_fe (decode_fe bs) = bs \<and>
    decode_sb cs =
      \<lparr>sb_type = u32_at cs 0, sb_block_size = u32_at cs 4, sb_partition_size = u32_at cs 8,
       sb_entry_size = u32_at cs 12, sb_entry_table_size = u32_at cs 16,
       sb_entry_table_block_start = u32_at cs 20, sb_entry_count = u32_at cs 24,
       sb_data_block_start = u32_at cs 28, sb_reserved = map (\<lambda>i. u32_at cs (32 + 4 * i)) [0..<120]\<rparr> \<and>
    length (encode_sb sb) = 512 \<and> decode_sb (encode_sb sb) = sb \<and> encode_sb (decode_sb cs) = cs"
  using assms decode_fe_offsets [of bs] decode_sb_offsets [of cs] encode_decode_fe [of bs] encode_decode_sb [of cs]
  by (simp only: length_encode_fe length_encode_sb decode_encode_fe decode_encode_sb simp_thms)

lemma layout_round_trip_witness:
  "decode_fe (encode_fe (new_fe [65] 1 7)) = new_fe [65] 1 7 \<and>
    fe_size (decode_fe (replicate 16 0 @ [1, 2, 0, 0] @ replicate 44 0)) = 0x201 \<and>
    encode_sb (decode_sb (replicate 512 3)) = replicate 512 3"
proof -
  define bs where "bs = replicate 16 0 @ [1, 2, 0, 0] @ replicate 44 (0 :: byte)"
  have l: "length bs = 64" "length (replicate 512 (3 :: byte)) = 512" by (simp_all add: bs_def)
  have u: "u32_at bs 16 = 0x201" by (simp add: u32_at_def bs_def nth_append)
  have "wf_fe (new_fe [65] 1 7)" "wf_sb (format_sb 5120)" by simp_all
  note r = layout_round_trip [OF this l]
  have "fe_size (decode_fe bs) = 0x201" using r u by (simp only: sfs_file_entry.select_convs)
  then show ?thesis using r unfolding bs_def by blast
qed

section \<open>Mounting through the VFS\<close>

text \<open>
  C21. On a device whose block size is that of the file system the October release mounts exactly
  as the November one, although it computes the device block differently.
\<close>

theorem october_mounts_same:
  assumes "read_sb_from_real_sfs ops (kzalloc_info (s_dev vs)) = Some (Inr sb)"
    and "bd_block_size ops = sb_block_size sb" "geom_ok (bd_block_size ops) sb"
  shows "oct_fill_super ops kz vmalloc iget mk vs = sfs_fill_super ops kz vmalloc iget mk vs"
  by (rule oct_fill_super_same [OF assms])

definition sample_super_block :: "byte list vfs_super" where
  "sample_super_block = \<lparr>s_dev = sample_disk, s_fs_info = Null, s_magic = 0, s_blocksize = 0,
     s_blocksize_bits = 0, s_root = None\<rparr>"

lemma october_mounts_same_witness:
  "oct_fill_super rb_ops True zero_mem (\<lambda>_. Iget_Null) True sample_super_block =
    sfs_fill_super rb_ops True zero_mem (\<lambda>_. Iget_Null) True sample_super_block"
proof (rule october_mounts_same)
  show "read_sb_from_real_sfs rb_ops (kzalloc_info (s_dev sample_super_block)) = Some (Inr (format_sb 5120))"
    by (simp add: sample_super_block_def sample_super)
  show "bd_block_size rb_ops = sb_block_size (format_sb 5120)"
    by (simp add: rb_ops_def format_sb_def Let_def)
  have e: "entry_addr (format_sb 5120) n = 512 + 64 * n" for n
    by (simp add: entry_addr_def format_sb_def Let_def)
  show "geom_ok (bd_block_size rb_ops) (format_sb 5120)"
    by (simp add: geom_ok_def e sample_sb) (simp add: rb_ops_def)
qed

text \<open>
  Permission bits survive the way from a file entry into the mode of an inode
  (\<open>sfs_inode_lookup\<close>) and back (\<open>sfs_write_inode\<close>), and the inode is a regular file.
\<close>

theorem permissions_round_trip:
  assumes "p < 8"
  shows "perms_of_mode (mode_of_perms p) = uint p \<and> S_ISREG (mode_of_perms p)"
  by (rule perms_mode_perms [OF assms])

text \<open>C22. \<open>get_bit_pos\<close> of a non-zero value is its logarithm to base 2, rounded down.\<close>

theorem bit_pos_is_log:
  assumes "val \<noteq> 0"
  shows "\<exists>k. get_bit_pos val = int k \<and> 2 ^ k \<le> unat val \<and> unat val < 2 ^ (k + 1)"
  by (rule get_bit_pos_log [OF assms]) blast

lemma bit_pos_is_log_witness: "get_bit_pos 512 = 9"
proof -
  obtain k where k: "get_bit_pos 512 = int k" "2 ^ k \<le> (512 :: nat)" "(512 :: nat) < 2 ^ (k + 1)"
    using bit_pos_is_log [of 512] by auto
  have "(2 :: nat) ^ k \<le> 2 ^ 9" "(2 :: nat) ^ 9 < 2 ^ (k + 1)" using k(2,3) by simp_all
  then have "k \<le> 9" "9 < k + 1" by (simp_all only: power_increasing_iff power_strict_increasing_iff)
  then show ?thesis using k(1) by simp
qed

text \<open>
  C23. What \<open>sfs_kill_sb\<close>, which the kernel calls after a failed mount too, does after
  \<open>sfs_fill_super\<close>: it frees the same memory twice exactly when the mount failed after
  \<open>init_browsing\<close> had succeeded; after a mount that succeeded it frees everything once.
\<close>

theorem kill_after_fill:
  assumes "sfs_fill_super ops kz vmalloc iget mk sb = Some (ret, sb')" "s_fs_info sb = Null"
  shows "(sfs_kill_sb sb' = None \<longleftrightarrow>
      kz \<and> (\<exists>info. init_browsing ops vmalloc (kzalloc_info (s_dev sb)) = Some (0, info)) \<and>
      (iget 0 = Iget_Null \<or> \<not> mk)) \<and>
    (ret = 0 \<longrightarrow> (\<exists>sb''. sfs_kill_sb sb' = Some sb'' \<and> s_fs_info sb'' = Dangling)) \<and> ret \<le> 0"
  using assms(1)
proof (cases rule: fill_super_cases)
  case (1)
  then show ?thesis using assms(2) kill_null [of sb] by auto
next
  case (2 r info)
  then show ?thesis using assms(2) kill_null [of sb] by auto
next
  case (3 info)
  then show ?thesis using kill_dangling [of sb'] by auto
next
  case (4 info u)
  then show ?thesis using kill_live [of sb' info u] by auto
qed

lemma kill_after_fill_witness:
  "\<exists>ret sb'. sfs_fill_super rb_ops True zero_mem (\<lambda>_. Iget_Null) True sample_super_block = Some (ret, sb') \<and>
    ret \<noteq> 0 \<and> sfs_kill_sb sb' = None"
proof -
  obtain info u where i: "init_browsing rb_ops zero_mem (kzalloc_info sample_disk) = Some (0, info)"
    "si_used info = Obj u" by (rule sample_mount) blast
  then have f: "\<exists>sb'. sfs_fill_super rb_ops True zero_mem (\<lambda>_. Iget_Null) True sample_super_block =
      Some (- EACCES, sb')"
    by (simp add: sfs_fill_super_def sample_super_block_def shut_browsing_def Let_def)
  then obtain sb' where sb: "sfs_fill_super rb_ops True zero_mem (\<lambda>_. Iget_Null) True sample_super_block =
      Some (- EACCES, sb')" by blast
  have "s_fs_info sample_super_block = Null" by (simp add: sample_super_block_def)
  from kill_after_fill [OF sb this] i(1) have "sfs_kill_sb sb' = None"
    by (auto simp: sample_super_block_def)
  then show ?thesis using sb by auto
qed

end
