(* ===== verification/Kernel_Services.thy ===== *)
theory Kernel_Services
  imports Prelude
begin

text \<open>
  What the drivers use of the kernel besides the block layer: copying to and from user memory,
  decimal output of \<open>sprintf\<close>, the tables of \<open>/proc\<close> entries and of character-device
  numbers, and the contract of a module's init and exit functions (\<open>module_life\<close>).
\<close>

section \<open>User memory\<close>

text \<open>
  The accessible bytes behind a user pointer are a list. A copy returns how many bytes it could
  not transfer; \<open>copy_from_user\<close> clears those in the destination. \<open>get_user\<close> and
  \<open>put_user\<close> return \<open>-EFAULT\<close> outside, and \<open>get_user\<close> then sets its variable to zero.
\<close>

definition copy_to_user :: "nat \<Rightarrow> byte list \<Rightarrow> byte list \<Rightarrow> nat \<times> byte list" where
  "copy_to_user off xs ubuf =
     (let k = min (length xs) (length ubuf - off)
      in (length xs - k, put_bytes off (take k xs) ubuf))"

definition copy_from_user :: "nat \<Rightarrow> nat \<Rightarrow> byte list \<Rightarrow> nat \<times> byte list" where
  "copy_from_user off n ubuf =
     (let k = min n (length ubuf - off) in (n - k, get_bytes off k ubuf @ replicate (n - k) 0))"

definition get_user :: "nat \<Rightarrow> byte list \<Rightarrow> int \<times> byte" where
  "get_user i ubuf = (if i < length ubuf then (0, ubuf ! i) else (- EFAULT, 0))"

definition put_user :: "byte \<Rightarrow> nat \<Rightarrow> byte list \<Rightarrow> int \<times> byte list" where
  "put_user v i ubuf = (if i < length ubuf then (0, ubuf[i := v]) else (- EFAULT, ubuf))"

lemma length_copy_from_user [simp]: "length (snd (copy_from_user off n ubuf)) = n"
  by (simp add: copy_from_user_def Let_def get_bytes_def)

lemma copy_to_user_fits [simp]:
  "off + length xs \<le> length ubuf \<Longrightarrow> copy_to_user off xs ubuf = (0, put_bytes off xs ubuf)"
  by (simp add: copy_to_user_def min_def)

lemma copy_from_user_fits [simp]:
  "off + n \<le> length ubuf \<Longrightarrow> copy_from_user off n ubuf = (0, get_bytes off n ubuf)"
  by (auto simp: copy_from_user_def min_def)

lemma get_user_inside [simp]: "i < length ubuf \<Longrightarrow> get_user i ubuf = (0, ubuf ! i)"
  by (simp add: get_user_def)

lemma put_user_inside [simp]: "i < length ubuf \<Longrightarrow> put_user v i ubuf = (0, ubuf[i := v])"
  by (simp add: put_user_def)

lemma length_put_user [simp]: "length (snd (put_user v i ubuf)) = length ubuf"
  by (simp add: put_user_def)

text \<open>\<open>for (i = k; i < n; i++) get_user(dst[i], buf + i)\<close>: \<open>n\<close> bytes, starting at \<open>k\<close>.\<close>

fun get_users :: "nat \<Rightarrow> nat \<Rightarrow> byte list \<Rightarrow> byte list \<Rightarrow> byte list" where
  "get_users k 0 ubuf dst = dst"
| "get_users k (Suc n) ubuf dst = get_users (Suc k) n ubuf (dst[k := snd (get_user k ubuf)])"

text \<open>The bytes \<open>n\<close> calls of \<open>get_user\<close> deliver.\<close>

definition user_bytes :: "nat \<Rightarrow> byte list \<Rightarrow> byte list" where
  "user_bytes n ubuf = take n (ubuf @ replicate n 0)"

lemma length_user_bytes [simp]: "length (user_bytes n ubuf) = n"
  by (simp add: user_bytes_def)

lemma user_bytes_inside [simp]: "n \<le> length ubuf \<Longrightarrow> user_bytes n ubuf = take n ubuf"
  by (simp add: user_bytes_def)

lemma nth_user_bytes: "i < n \<Longrightarrow> user_bytes n ubuf ! i = snd (get_user i ubuf)"
  by (auto simp: user_bytes_def get_user_def nth_append)

lemma nth_get_users:
  "k + n \<le> length dst \<Longrightarrow> i < length dst \<Longrightarrow>
   get_users k n ubuf dst ! i = (if k \<le> i \<and> i < k + n then snd (get_user i ubuf) else dst ! i)"
  by (induction n arbitrary: k dst) (auto simp: nth_list_update)

lemma length_get_users [simp]: "length (get_users k n ubuf dst) = length dst"
  by (induction n arbitrary: k dst) auto

lemma get_users_0:
  "n \<le> length dst \<Longrightarrow> get_users 0 n ubuf dst = user_bytes n ubuf @ drop n dst"
  by (intro nth_equalityI) (auto simp: nth_get_users nth_append nth_user_bytes)

text \<open>
  \<open>for (i = k; i < len && s[i]; i++) put_user(s[i], buf + i)\<close> over a terminated string: the
  number of bytes put and the user memory, the results of \<open>put_user\<close> ignored.
\<close>

fun put_string :: "byte list \<Rightarrow> nat \<Rightarrow> nat \<Rightarrow> byte list \<Rightarrow> nat \<times> byte list" where
  "put_string [] len k ubuf = (k, ubuf)"
| "put_string (c # s) len k ubuf =
     (if k < len \<and> c \<noteq> 0 then put_string s len (Suc k) (snd (put_user c k ubuf)) else (k, ubuf))"

lemma put_string_eq:
  "0 \<notin> set s \<Longrightarrow> k \<le> len \<Longrightarrow> len \<le> length ubuf \<Longrightarrow>
   put_string (s @ 0 # r) len k ubuf =
     (min len (k + length s), put_bytes k (take (len - k) s) ubuf)"
proof (induction s arbitrary: k ubuf)
  case Nil
  then show ?case by (simp add: put_bytes_def)
next
  case (Cons c s)
  show ?case
  proof (cases "k < len")
    case True
    then have "take (len - k) (c # s) = c # take (len - Suc k) s"
      by (simp add: Suc_diff_Suc [symmetric])
    moreover have "put_bytes (Suc k) ys (ubuf[k := c]) = put_bytes k (c # ys) ubuf" for ys
      using True Cons.prems by (simp add: put_bytes_Cons)
    ultimately show ?thesis
      using True Cons.prems Cons.IH [of "Suc k" "ubuf[k := c]"] by simp
  qed (use Cons.prems in \<open>simp add: put_bytes_def\<close>)
qed

section \<open>Decimal output\<close>

fun digits :: "nat \<Rightarrow> byte list" where
  "digits n = (if n < 10 then [48 + of_nat n] else digits (n div 10) @ [48 + of_nat (n mod 10)])"

declare digits.simps [simp del]

definition dec :: "int \<Rightarrow> byte list" where
  "dec n = (if n < 0 then 45 # digits (nat (- n)) else digits (nat n))"

text \<open>\<open>%02d\<close>.\<close>

definition dec02 :: "int \<Rightarrow> byte list" where
  "dec02 n = (if 0 \<le> n \<and> n < 10 then 48 # dec n else dec n)"

lemma digit_not_nul: "k < 10 \<Longrightarrow> (48 + of_nat k :: byte) \<noteq> 0"
proof
  assume k: "k < 10" and "(48 + of_nat k :: byte) = 0"
  then have "(of_nat (48 + k) :: byte) = 0" by simp
  then have "unat (of_nat (48 + k) :: byte) = 0" by (metis unat_0)
  then show False using k by (simp add: unat_of_nat del: of_nat_add)
qed

lemma digits_no_nul: "0 \<notin> set (digits n)"
proof (induction n rule: digits.induct)
  case (1 n)
  then show ?case
    using digit_not_nul [of n] digit_not_nul [of "n mod 10"] by (subst digits.simps) auto
qed

lemma length_digits: "n < 10 ^ k \<Longrightarrow> 0 < k \<Longrightarrow> length (digits n) \<le> k"
proof (induction n arbitrary: k rule: digits.induct)
  case (1 n)
  show ?case
  proof (cases "n < 10")
    case False
    then obtain j where k: "k = Suc j" "0 < j" using 1(2,3) by (cases k; cases "k - 1") auto
    have "n div 10 < 10 ^ j" using 1(2) k by (simp add: less_mult_imp_div_less mult.commute)
    then show ?thesis using 1(1) [OF False, of j] k False by (subst digits.simps) simp
  qed (use 1(3) in \<open>subst digits.simps, simp\<close>)
qed

section \<open>Entries of \<open>/proc\<close>\<close>

text \<open>A path is a list of names from the root; an entry has its mode, size and handlers' data.\<close>

type_synonym path = "string list"

datatype proc_kind = P_dir | P_file | P_link string

record proc_entry =
  pe_kind :: proc_kind
  pe_mode :: nat
  pe_size :: nat
  pe_data :: string

type_synonym proc_tab = "path \<Rightarrow> proc_entry option"

definition mk_entry :: "proc_kind \<Rightarrow> nat \<Rightarrow> proc_entry" where
  "mk_entry k m = \<lparr>pe_kind = k, pe_mode = m, pe_size = 0, pe_data = []\<rparr>"

text \<open>\<open>ok\<close>: the kernel has memory for the entry. Nothing is added when it has not.\<close>

definition create_proc :: "bool \<Rightarrow> path \<Rightarrow> proc_entry \<Rightarrow> proc_tab \<Rightarrow> bool \<times> proc_tab" where
  "create_proc ok p e tab = (if ok then (True, tab(p \<mapsto> e)) else (False, tab))"

definition remove_proc_entry :: "path \<Rightarrow> proc_tab \<Rightarrow> proc_tab" where
  "remove_proc_entry p tab = tab(p := None)"

lemma remove_created [simp]:
  "tab p = None \<Longrightarrow> remove_proc_entry p (tab(p \<mapsto> e)) = tab"
  "tab p = None \<Longrightarrow> remove_proc_entry p tab = tab"
  by (auto simp: remove_proc_entry_def)

lemma remove_created_other:
  "q \<noteq> p \<Longrightarrow> remove_proc_entry p (tab(q \<mapsto> e)) = (remove_proc_entry p tab)(q \<mapsto> e)"
  by (auto simp: remove_proc_entry_def)

section \<open>Loading and unloading a module\<close>

text \<open>
  The contract of an init function, given the kernel's answers, and an exit function: when init
  fails it leaves the kernel's tables as they were, and exit after a successful init restores
  them. \<open>fresh\<close> says that the names the module uses are free, \<open>answers\<close> which answers of the
  kernel the code is written for.
\<close>

locale module_life =
  fixes init :: "'k \<Rightarrow> 's \<Rightarrow> int \<times> 's" and exit :: "'s \<Rightarrow> 's"
    and view :: "'s \<Rightarrow> 'v" and fresh :: "'v \<Rightarrow> bool" and answers :: "'k \<Rightarrow> bool"
  assumes fail_restores:
      "answers k \<Longrightarrow> fresh (view s) \<Longrightarrow> init k s = (r, s') \<Longrightarrow> r < 0 \<Longrightarrow> view s' = view s"
    and exit_restores:
      "answers k \<Longrightarrow> fresh (view s) \<Longrightarrow> init k s = (r, s') \<Longrightarrow> \<not> r < 0 \<Longrightarrow> view (exit s') = view s"
begin

definition cycle :: "'k \<Rightarrow> 's \<Rightarrow> 's" where
  "cycle k s = (let (r, s') = init k s in if r < 0 then s' else exit s')"

lemma cycle_view: "answers k \<Longrightarrow> fresh (view s) \<Longrightarrow> view (cycle k s) = view s"
  by (cases "init k s") (auto simp: cycle_def dest: fail_restores exit_restores)

lemma cycles_view: "\<forall>k \<in> set ks. answers k \<Longrightarrow> fresh (view s) \<Longrightarrow> view (fold cycle ks s) = view s"
  by (induction ks arbitrary: s) (simp_all add: cycle_view)

end

section \<open>Resources of a character driver\<close>

text \<open>
  What a driver holds of the kernel. A call that returns a pointer gives a valid one, NULL, or an
  error encoded in the pointer.
\<close>

datatype kres =
    K_map | K_region | K_class | K_device | K_cdev | K_mem | K_irq | K_io_region

datatype ptr_res = P_valid | P_null | P_err int

fun IS_ERR :: "ptr_res \<Rightarrow> bool" where
  "IS_ERR (P_err e) = True"
| "IS_ERR p = False"

fun PTR_ERR :: "ptr_res \<Rightarrow> int" where
  "PTR_ERR (P_err e) = - e"
| "PTR_ERR p = 0"

record kanswers =
  a_map :: bool
  a_region :: int
  a_class :: ptr_res
  a_device :: ptr_res
  a_cdev :: int
  a_io_region :: bool

text \<open>A resource a call has acquired: none when it failed.\<close>

definition got :: "bool \<Rightarrow> kres \<Rightarrow> kres set \<Rightarrow> kres set" where
  "got ok r h = (if ok then insert r h else h)"

end
