(* ===== verification/Sfs_Register.thy ===== *)
theory Sfs_Register
  imports Sfs_Mount Sfs_Releases Kernel_Services
begin

text \<open>
  Registering the file system and mounting a device: \<open>sfs_init\<close>, \<open>sfs_exit\<close> and \<open>sfs_mount\<close>
  (\<open>sfs_get_sb\<close> on older kernels) of the three kernel releases. The kernel's \<open>mount_bdev\<close> fills
  the super block and, when that fails, gives it up, which calls the module's \<open>kill_sb\<close>.
\<close>

section \<open>Registration\<close>

text \<open>\<open>ans\<close>: what \<open>register_filesystem\<close> returns, negative when the name is taken.\<close>

definition register_filesystem :: "int \<Rightarrow> string \<Rightarrow> string set \<Rightarrow> int \<times> string set" where
  "register_filesystem ans name fss = (if ans < 0 then (ans, fss) else (0, insert name fss))"

definition unregister_filesystem :: "string \<Rightarrow> string set \<Rightarrow> string set" where
  "unregister_filesystem name fss = fss - {name}"

definition sfs_init :: "int \<Rightarrow> string set \<Rightarrow> int \<times> string set" where
  "sfs_init ans fss = register_filesystem ans ''real_sfs'' fss"

definition sfs_exit :: "string set \<Rightarrow> string set" where
  "sfs_exit fss = unregister_filesystem ''real_sfs'' fss"

definition oct_sfs_init :: "int \<Rightarrow> string set \<Rightarrow> int \<times> string set" where
  "oct_sfs_init ans fss = register_filesystem ans ''sfs'' fss"

definition oct_sfs_exit :: "string set \<Rightarrow> string set" where
  "oct_sfs_exit fss = unregister_filesystem ''sfs'' fss"

definition bb_sfs_init :: "int \<Rightarrow> string set \<Rightarrow> int \<times> string set" where
  "bb_sfs_init ans fss = register_filesystem ans ''sfs'' fss"

definition bb_sfs_exit :: "string set \<Rightarrow> string set" where
  "bb_sfs_exit fss = unregister_filesystem ''sfs'' fss"

lemmas fs_register_simps = register_filesystem_def unregister_filesystem_def sfs_init_def sfs_exit_def
  oct_sfs_init_def oct_sfs_exit_def bb_sfs_init_def bb_sfs_exit_def

interpretation sfs_life: module_life sfs_init sfs_exit id "\<lambda>l. ''real_sfs'' \<notin> l" "\<lambda>_. True"
  by unfold_locales (auto simp: fs_register_simps split: if_splits)

interpretation oct_life: module_life oct_sfs_init oct_sfs_exit id "\<lambda>l. ''sfs'' \<notin> l" "\<lambda>_. True"
  by unfold_locales (auto simp: fs_register_simps split: if_splits)

interpretation bb_life: module_life bb_sfs_init bb_sfs_exit id "\<lambda>l. ''sfs'' \<notin> l" "\<lambda>_. True"
  by unfold_locales (auto simp: fs_register_simps split: if_splits)

section \<open>Mounting\<close>

definition mount_bdev ::
    "('s \<Rightarrow> (int \<times> 's) option) \<Rightarrow> ('s \<Rightarrow> 's option) \<Rightarrow> 's \<Rightarrow> (int \<times> 's) option" where
  "mount_bdev fill_super kill_sb sb = do {
     (r, sb) \<leftarrow> fill_super sb;
     if r < 0 then do {
       sb \<leftarrow> kill_sb sb;
       Some (r, sb)
     }
     else Some (0, sb)
   }"

definition sfs_mount ::
  "'d bdev_ops \<Rightarrow> bool \<Rightarrow> (u32 \<Rightarrow> byte list option) \<Rightarrow> (int \<Rightarrow> iget_result) \<Rightarrow> bool \<Rightarrow>
   'd vfs_super \<Rightarrow> (int \<times> 'd vfs_super) option" where
  "sfs_mount ops kzalloc_ok vmalloc iget_locked make_root_ok sb =
     mount_bdev (sfs_fill_super ops kzalloc_ok vmalloc iget_locked make_root_ok) sfs_kill_sb sb"

text \<open>The October release frees like November's; September's keeps nothing to free.\<close>

definition oct_mount ::
  "'d bdev_ops \<Rightarrow> bool \<Rightarrow> (u32 \<Rightarrow> byte list option) \<Rightarrow> (int \<Rightarrow> iget_result) \<Rightarrow> bool \<Rightarrow>
   'd vfs_super \<Rightarrow> (int \<times> 'd vfs_super) option" where
  "oct_mount ops kzalloc_ok vmalloc iget_locked make_root_ok sb =
     mount_bdev (oct_fill_super ops kzalloc_ok vmalloc iget_locked make_root_ok) oct_kill_sb sb"

definition bb_mount :: "(int \<Rightarrow> iget_result) \<Rightarrow> bool \<Rightarrow> 'd vfs_super \<Rightarrow> (int \<times> 'd vfs_super) option" where
  "bb_mount iget_locked make_root_ok sb =
     mount_bdev (\<lambda>sb. Some (bb_fill_super iget_locked make_root_ok sb)) Some sb"

text \<open>What a release must promise so that mounting and unmounting are safe.\<close>

locale safe_mount =
  fixes fill_super :: "'s \<Rightarrow> (int \<times> 's) option" and kill_sb :: "'s \<Rightarrow> 's option" and ready :: "'s \<Rightarrow> bool"
  assumes fill_returns: "ready sb \<Longrightarrow> fill_super sb \<noteq> None"
    and kill_after: "ready sb \<Longrightarrow> fill_super sb = Some (r, sb') \<Longrightarrow> kill_sb sb' \<noteq> None"
begin

lemma mount_unmount:
  assumes "ready sb"
  shows "\<exists>r sb'. mount_bdev fill_super kill_sb sb = Some (r, sb') \<and> (0 \<le> r \<longrightarrow> kill_sb sb' \<noteq> None)"
  using fill_returns [OF assms] kill_after [OF assms] by (fastforce simp: mount_bdev_def)

end

interpretation bb_mounts: safe_mount "\<lambda>sb. Some (bb_fill_super iget_locked make_root_ok sb)" Some "\<lambda>_. True"
  for iget_locked make_root_ok
  by unfold_locales simp_all

text \<open>
  November's release when the kernel has the root inode and its dentry; without them mounting a
  valid file system uses freed memory.
\<close>

definition mount_ready ::
  "'d bdev_ops \<Rightarrow> (u32 \<Rightarrow> byte list option) \<Rightarrow> 'd vfs_super \<Rightarrow> bool" where
  "mount_ready ops vmalloc sb \<longleftrightarrow> s_fs_info sb = Null \<and>
     init_browsing ops vmalloc (kzalloc_info (s_dev sb)) \<noteq> None"

lemma fill_with_root:
  assumes "mount_ready ops vmalloc sb" "iget_locked 0 \<noteq> Iget_Null"
  shows "\<exists>r sb'. sfs_fill_super ops kz vmalloc iget_locked True sb = Some (r, sb') \<and> sfs_kill_sb sb' \<noteq> None"
proof (cases kz)
  case True
  obtain r info where i: "init_browsing ops vmalloc (kzalloc_info (s_dev sb)) = Some (r, info)"
    using assms(1) by (auto simp: mount_ready_def)
  have f: "\<exists>r sb'. sfs_fill_super ops kz vmalloc iget_locked True sb = Some (r, sb')"
    using True i assms(2) by (cases "iget_locked 0") (auto simp: sfs_fill_super_def Let_def)
  then obtain r' sb' where r: "sfs_fill_super ops kz vmalloc iget_locked True sb = Some (r', sb')" by blast
  then show ?thesis
  proof (cases rule: fill_super_cases)
    case 1
    then show ?thesis using True by simp
  next
    case (2 r info)
    then show ?thesis using r assms(1) kill_null [of sb] by (simp add: mount_ready_def)
  next
    case (3 info)
    then show ?thesis using assms(2) by simp
  next
    case (4 info u)
    then show ?thesis using r kill_live [of sb' info u] by auto
  qed
qed (use assms in \<open>simp add: sfs_fill_super_def mount_ready_def kill_null\<close>)

interpretation sfs_mounts: safe_mount "sfs_fill_super ops kz vmalloc iget_locked True" sfs_kill_sb
    "\<lambda>sb. mount_ready ops vmalloc sb \<and> iget_locked 0 \<noteq> Iget_Null"
  for ops kz vmalloc iget_locked
proof unfold_locales
  fix sb :: "'a vfs_super"
  assume a: "mount_ready ops vmalloc sb \<and> iget_locked 0 \<noteq> Iget_Null"
  obtain r sb' where e: "sfs_fill_super ops kz vmalloc iget_locked True sb = Some (r, sb')"
    and k: "sfs_kill_sb sb' \<noteq> None"
    using fill_with_root [of ops vmalloc sb iget_locked kz] a by blast
  show "sfs_fill_super ops kz vmalloc iget_locked True sb \<noteq> None" using e by simp
  show "sfs_kill_sb s \<noteq> None" if "sfs_fill_super ops kz vmalloc iget_locked True sb = Some (q, s)" for q s
    using that e k by simp
qed

lemma sfs_mount_without_root:
  assumes "init_browsing ops vmalloc (kzalloc_info (s_dev sb)) = Some (0, info)" "si_used info = Obj u"
    and "iget_locked 0 = Iget_Null"
  shows "sfs_mount ops True vmalloc iget_locked mk sb = None"
  using assms
  by (simp add: sfs_mount_def mount_bdev_def sfs_fill_super_def shut_browsing_def Let_def sfs_kill_sb_def)

end
