(* ===== verification/Stdin.thy ===== *)
theory Stdin
  imports Prelude
begin

text \<open>
  The standard input of the browsing shell: \<open>scanf("%[^\n]")\<close> and \<open>getchar\<close> take characters
  through the buffer of \<open>stdio\<close>, \<open>read(0, ...)\<close> takes them from the kernel past that buffer.
  A chunk is what one \<open>read\<close> finds waiting; an empty one is an end of file typed by the user.
\<close>

record stdin =
  in_buf :: "byte list"
  in_chunks :: "byte list list"
  in_eof :: bool

definition stdin_size :: "stdin \<Rightarrow> nat" where
  "stdin_size s = length (in_buf s) + (\<Sum>c \<leftarrow> in_chunks s. Suc (length c))"

text \<open>\<open>read(0, buf, n)\<close>: nothing at the end of the input.\<close>

definition read_stdin :: "nat \<Rightarrow> stdin \<Rightarrow> byte list \<times> stdin" where
  "read_stdin n s =
     (case in_chunks s of
        [] \<Rightarrow> ([], s)
      | c # cs \<Rightarrow>
          if length c \<le> n then (c, s\<lparr>in_chunks := cs\<rparr>)
          else (take n c, s\<lparr>in_chunks := drop n c # cs\<rparr>))"

text \<open>One character through the buffer, filled by a \<open>read\<close> of 4096 bytes; the end is sticky.\<close>

definition getchar :: "stdin \<Rightarrow> byte option \<times> stdin" where
  "getchar s =
     (case in_buf s of
        b # bs \<Rightarrow> (Some b, s\<lparr>in_buf := bs\<rparr>)
      | [] \<Rightarrow>
          if in_eof s then (None, s)
          else (case read_stdin 4096 s of
            ([], s') \<Rightarrow> (None, s'\<lparr>in_eof := True\<rparr>)
          | (b # bs, s') \<Rightarrow> (Some b, s'\<lparr>in_buf := bs\<rparr>)))"

lemma read_stdin_size:
  "read_stdin n s = (xs, s') \<Longrightarrow> stdin_size s' + length xs \<le> stdin_size s"
  "read_stdin n s = (xs, s') \<Longrightarrow> in_buf s' = in_buf s"
  by (auto simp: read_stdin_def stdin_size_def split: list.splits if_splits)

lemma getchar_size:
  "getchar s = (Some c, s') \<Longrightarrow> stdin_size s' < stdin_size s"
  "getchar s = (None, s') \<Longrightarrow> stdin_size s' \<le> stdin_size s"
proof -
  obtain xs t where r: "read_stdin 4096 s = (xs, t)" by fastforce
  note sz = read_stdin_size [OF r]
  show "getchar s = (Some c, s') \<Longrightarrow> stdin_size s' < stdin_size s"
    using r sz by (auto simp: getchar_def stdin_size_def split: list.splits if_splits)
  show "getchar s = (None, s') \<Longrightarrow> stdin_size s' \<le> stdin_size s"
    using r sz by (auto simp: getchar_def stdin_size_def split: list.splits if_splits)
qed

text \<open>\<open>scanf("%[^\n]")\<close>: the characters up to a newline, which is pushed back, or the end.\<close>

function scan_line :: "stdin \<Rightarrow> byte list \<times> bool \<times> stdin" where
  "scan_line s =
     (case getchar s of
        (None, s') \<Rightarrow> ([], True, s')
      | (Some c, s') \<Rightarrow>
          if c = 10 then ([], False, s'\<lparr>in_buf := c # in_buf s'\<rparr>)
          else let (cs, e, s'') = scan_line s' in (c # cs, e, s''))"
  by pat_completeness auto
termination
  by (relation "measure stdin_size") (auto dest: getchar_size(1) [OF sym])

declare scan_line.simps [simp del]

text \<open>The result of \<open>scanf\<close>: \<open>EOF\<close> when the input ends at once, 0 for an empty line, else 1.\<close>

definition scanf_line :: "stdin \<Rightarrow> int \<times> byte list \<times> stdin" where
  "scanf_line s =
     (let (line, e, s') = scan_line s
      in (if line \<noteq> [] then 1 else if e then -1 else 0, line, s'))"

lemma scan_line_size:
  "scan_line s = (line, e, s') \<Longrightarrow> stdin_size s' + length line \<le> stdin_size s"
proof (induction s arbitrary: line rule: scan_line.induct)
  case (1 s)
  then show ?case
    by (subst (asm) (2) scan_line.simps)
      (fastforce simp: stdin_size_def dest: getchar_size split: prod.splits option.splits if_splits)
qed

end
