(* ===== verification/Sfs_Browser.thy ===== *)
theory Sfs_Browser
  imports File_Handle Stdin Sfs_Files
begin

unbundle bit_operations_syntax

text \<open>
  The user-space browser of the file system (\<open>4_aug12/RealFS/browse_sfs.c\<close>), over an open file
  handle with a position. The program's globals \<open>sb\<close>, \<open>used_blocks\<close> and \<open>block\<close>, its standard
  input and what it prints are one state record; \<open>b_fe\<close> is the content of the uninitialised
  local \<open>fe\<close> of each function. \<open>ob\<close> says whether \<open>off_t\<close> and \<open>time_t\<close> have 64 bits or 32.
\<close>

datatype msg =
    M_entry "byte list" u32 u32 int \<comment> \<open>name, size, permissions, time\<close>
  | M_exists "byte list"
  | M_no_entries
  | M_missing "byte list"
  | M_no_read "byte list"
  | M_no_write "byte list"
  | M_data "byte list"
  | M_usage
  | M_unknown "byte list"
  | M_newline
  | M_out_of_memory
  | M_welcome u32 u32 u32 u32 u32 \<comment> \<open>block, partition, entry and table sizes, entry count\<close>
  | M_prompt
  | M_no_usage \<comment> \<open>the messages of \<open>main\<close>: usage, a file that does not open, no magic number\<close>
  | M_no_open "byte list"
  | M_no_sfs

record browser =
  b_h :: fhandle
  b_sb :: sfs_super_block
  b_used :: "byte list ptr"
  b_block :: "byte list"
  b_fe :: sfs_file_entry
  b_in :: stdin
  b_out :: "msg list"

definition say :: "msg \<Rightarrow> browser \<Rightarrow> browser" where
  "say m b = b\<lparr>b_out := b_out b @ [m]\<rparr>"

definition seek :: "bool \<Rightarrow> u32 \<Rightarrow> browser \<Rightarrow> browser" where
  "seek ob w b = b\<lparr>b_h := lseek_set (off_of ob w) (b_h b)\<rparr>"

definition table_pos :: "browser \<Rightarrow> u32" where
  "table_pos b = sb_entry_table_block_start (b_sb b) * sb_block_size (b_sb b)"

definition entry_pos :: "nat \<Rightarrow> browser \<Rightarrow> u32" where
  "entry_pos i b = table_pos b + of_nat i * sb_entry_size (b_sb b)"

text \<open>\<open>read(sfs_handle, &fe, sizeof(fe))\<close>: a short read leaves the rest of \<open>fe\<close> as it was.\<close>

definition read_fe :: "sfs_file_entry \<Rightarrow> browser \<Rightarrow> sfs_file_entry \<times> browser" where
  "read_fe fe b =
     (let (xs, h) = sys_read 64 (b_h b)
      in (decode_fe (put_bytes 0 xs (encode_fe fe)), b\<lparr>b_h := h\<rparr>))"

definition put_file :: "byte list \<Rightarrow> browser \<Rightarrow> browser" where
  "put_file xs b = b\<lparr>b_h := snd (sys_write xs (b_h b))\<rparr>"

section \<open>The used-block flags\<close>

fun br_mark_loop :: "nat \<Rightarrow> sfs_file_entry \<Rightarrow> byte list \<Rightarrow> browser \<Rightarrow> (byte list \<times> browser) option" where
  "br_mark_loop 0 fe u b = Some (u, b)"
| "br_mark_loop (Suc n) fe u b =
     (let (fe, b) = read_fe fe b in
      if \<not> fe_live fe then br_mark_loop n fe u b
      else do { u \<leftarrow> mark_blocks u (fe_blocks fe); br_mark_loop n fe u b })"

text \<open>\<open>Inl\<close>: the program exits with that status.\<close>

definition br_init_browsing :: "bool \<Rightarrow> bool \<Rightarrow> browser \<Rightarrow> (int + browser) option" where
  "br_init_browsing ob calloc_ok b =
     (if \<not> calloc_ok then Some (Inl 1)
      else do {
        u \<leftarrow> fill_used (replicate (unat (sb_partition_size (b_sb b))) 0) 0
               (unat (sb_data_block_start (b_sb b))) 1;
        (u, b) \<leftarrow> br_mark_loop (unat (sb_entry_count (b_sb b))) (b_fe b) u (seek ob (table_pos b) b);
        Some (Inr (b\<lparr>b_used := Obj u\<rparr>))
      })"

definition br_shut_browsing :: "browser \<Rightarrow> browser option" where
  "br_shut_browsing b =
     (case b_used b of
        Obj u \<Rightarrow> Some (b\<lparr>b_used := Dangling\<rparr>) | Null \<Rightarrow> Some b | Dangling \<Rightarrow> None)"

definition br_set_used :: "nat \<Rightarrow> byte \<Rightarrow> browser \<Rightarrow> browser option" where
  "br_set_used i v b =
     (case b_used b of
        Obj u \<Rightarrow> if i < length u \<and> i < 2 ^ 31 then Some (b\<lparr>b_used := Obj (u[i := v])\<rparr>) else None
      | _ \<Rightarrow> None)"

definition br_get_data_block :: "browser \<Rightarrow> (int \<times> browser) option" where
  "br_get_data_block b = do {
     r \<leftarrow> scan_free (b_used b) (unat (sb_data_block_start (b_sb b)))
            (unat (sb_partition_size (b_sb b)));
     case r of
       Some i \<Rightarrow> do { b \<leftarrow> br_set_used i 1 b; Some (int i, b) }
     | None \<Rightarrow> Some (-1, b)
   }"

definition br_put_data_block :: "u32 \<Rightarrow> browser \<Rightarrow> browser option" where
  "br_put_data_block i b = br_set_used (unat i) 0 b"

section \<open>Listing, creating, looking up\<close>

text \<open>
  \<open>ctime((time_t *)&fe.timestamp)\<close>: a \<open>time_t\<close> of 64 bits takes the permissions, which come next
  in the entry, for its upper half.
\<close>

definition list_time :: "bool \<Rightarrow> sfs_file_entry \<Rightarrow> int" where
  "list_time ob fe =
     (if ob then uint (fe_timestamp fe) + 2 ^ 32 * sint (fe_perms fe) else sint (fe_timestamp fe))"

fun br_list_loop :: "bool \<Rightarrow> nat \<Rightarrow> sfs_file_entry \<Rightarrow> browser \<Rightarrow> browser option" where
  "br_list_loop ob 0 fe b = Some b"
| "br_list_loop ob (Suc n) fe b =
     (let (fe, b) = read_fe fe b in
      if \<not> fe_live fe then br_list_loop ob n fe b
      else do {
        name \<leftarrow> fe_fname fe;
        br_list_loop ob n fe (say (M_entry name (fe_size fe) (fe_perms fe AND 7) (list_time ob fe)) b)
      })"

definition br_list :: "bool \<Rightarrow> browser \<Rightarrow> browser option" where
  "br_list ob b = br_list_loop ob (unat (sb_entry_count (b_sb b))) (b_fe b) (seek ob (table_pos b) b)"

datatype scan = Scan_Free | Scan_Exists | Scan_End

fun br_create_loop ::
  "byte list \<Rightarrow> nat \<Rightarrow> sfs_file_entry \<Rightarrow> browser \<Rightarrow> (scan \<times> sfs_file_entry \<times> browser) option" where
  "br_create_loop fn 0 fe b = Some (Scan_End, fe, b)"
| "br_create_loop fn (Suc n) fe b =
     (let (fe, b) = read_fe fe b in
      if \<not> fe_live fe then Some (Scan_Free, fe, b)
      else do {
        same \<leftarrow> strcmp_eq (fe_name fe) fn;
        if same then Some (Scan_Exists, fe, b) else br_create_loop fn n fe b
      })"

text \<open>\<open>lseek(sfs_handle, -sb.entry_size, SEEK_CUR)\<close> negates in \<open>unsigned int\<close>.\<close>

definition br_create :: "bool \<Rightarrow> u32 \<Rightarrow> byte list \<Rightarrow> browser \<Rightarrow> browser option" where
  "br_create ob now fn b = do {
     (r, fe, b) \<leftarrow> br_create_loop fn (unat (sb_entry_count (b_sb b))) (b_fe b) (seek ob (table_pos b) b);
     case r of
       Scan_Exists \<Rightarrow> Some (say (M_exists fn) b)
     | Scan_End \<Rightarrow> Some (say M_no_entries b)
     | Scan_Free \<Rightarrow>
         let b = b\<lparr>b_h := lseek_cur (off_of ob (- sb_entry_size (b_sb b))) (b_h b)\<rparr>
         in Some (put_file (encode_fe (fresh_fe fn now 7 fe)) b)
   }"

fun br_lookup_loop ::
  "byte list \<Rightarrow> nat \<Rightarrow> nat \<Rightarrow> sfs_file_entry \<Rightarrow> browser \<Rightarrow> (int \<times> sfs_file_entry \<times> browser) option" where
  "br_lookup_loop fn i 0 fe b = Some (-1, fe, b)"
| "br_lookup_loop fn i (Suc n) fe b =
     (let (fe, b) = read_fe fe b in
      if \<not> fe_live fe then br_lookup_loop fn (Suc i) n fe b
      else do {
        same \<leftarrow> strcmp_eq (fe_name fe) fn;
        if same then Some (int i, fe, b) else br_lookup_loop fn (Suc i) n fe b
      })"

definition br_lookup ::
  "bool \<Rightarrow> byte list \<Rightarrow> browser \<Rightarrow> (int \<times> sfs_file_entry \<times> browser) option" where
  "br_lookup ob fn b =
     br_lookup_loop fn 0 (unat (sb_entry_count (b_sb b))) (b_fe b) (seek ob (table_pos b) b)"

section \<open>Removing and updating\<close>

fun br_put_blocks :: "u32 list \<Rightarrow> browser \<Rightarrow> browser option" where
  "br_put_blocks [] b = Some b"
| "br_put_blocks (x # xs) b =
     (if x = 0 then Some b else do { b \<leftarrow> br_put_data_block x b; br_put_blocks xs b })"

definition write_entry_at :: "bool \<Rightarrow> nat \<Rightarrow> sfs_file_entry \<Rightarrow> browser \<Rightarrow> browser" where
  "write_entry_at ob i fe b = put_file (encode_fe fe) (seek ob (entry_pos i b) b)"

definition br_remove :: "bool \<Rightarrow> byte list \<Rightarrow> browser \<Rightarrow> browser option" where
  "br_remove ob fn b = do {
     (i, fe, b) \<leftarrow> br_lookup ob fn b;
     if i = -1 then Some (say (M_missing fn) b)
     else do {
       b \<leftarrow> br_put_blocks (fe_blocks fe) b;
       Some (write_entry_at ob (nat i) zero_fe b)
     }
   }"

definition br_update ::
  "bool \<Rightarrow> u32 \<Rightarrow> byte list \<Rightarrow> int option \<Rightarrow> bool \<Rightarrow> int option \<Rightarrow> browser \<Rightarrow> browser option" where
  "br_update ob now fn sz update_ts perms b = do {
     (i, fe, b) \<leftarrow> br_lookup ob fn b;
     if i = -1 then Some (say (M_missing fn) b)
     else
       let fe = (case sz of Some s \<Rightarrow> fe\<lparr>fe_size := word_of_int s\<rparr> | None \<Rightarrow> fe);
           fe = (if update_ts then fe\<lparr>fe_timestamp := now\<rparr> else fe);
           fe = (case perms of
                   Some p \<Rightarrow> if p \<le> 7 then fe\<lparr>fe_perms := word_of_int p\<rparr> else fe
                 | None \<Rightarrow> fe)
       in Some (write_entry_at ob (nat i) fe b)
   }"

definition br_chperm :: "bool \<Rightarrow> u32 \<Rightarrow> byte list \<Rightarrow> int \<Rightarrow> browser \<Rightarrow> browser option" where
  "br_chperm ob now fn perm b = br_update ob now fn None False (Some perm) b"

section \<open>Reading a file\<close>

text \<open>
  \<open>read(sfs_handle, block, to_read)\<close> and \<open>write(1, block, to_read)\<close>: more than the 512 bytes of
  \<open>block\<close> is an access outside the array.
\<close>

definition read_block :: "bool \<Rightarrow> u32 \<Rightarrow> u32 \<Rightarrow> browser \<Rightarrow> browser option" where
  "read_block ob pos n b =
     (let b = seek ob pos b; (xs, h) = sys_read (unat n) (b_h b)
      in if 512 < unat n then None
         else Some (b\<lparr>b_h := h, b_block := put_bytes 0 xs (b_block b)\<rparr>))"

fun br_read_loop :: "bool \<Rightarrow> u32 list \<Rightarrow> u32 \<Rightarrow> browser \<Rightarrow> browser option" where
  "br_read_loop ob [] rem b = Some b"
| "br_read_loop ob (x # xs) rem b =
     (if x = 0 then Some b
      else
        let bs = sb_block_size (b_sb b); to_read = (if rem \<ge> bs then bs else rem) in do {
          b \<leftarrow> read_block ob (x * bs) to_read b;
          let b = say (M_data (take (unat to_read) (b_block b))) b;
          if rem - to_read = 0 then Some b else br_read_loop ob xs (rem - to_read) b
        })"

definition br_read :: "bool \<Rightarrow> byte list \<Rightarrow> browser \<Rightarrow> browser option" where
  "br_read ob fn b = do {
     (i, fe, b) \<leftarrow> br_lookup ob fn b;
     if i = -1 then Some (say (M_missing fn) b)
     else if fe_perms fe AND 4 = 0 then Some (say (M_no_read fn) b)
     else br_read_loop ob (fe_blocks fe) (fe_size fe) b
   }"

section \<open>Writing a file\<close>

text \<open>\<open>lseek\<close> to a data block and \<open>write(sfs_handle, block, n)\<close>.\<close>

definition write_block :: "bool \<Rightarrow> u32 \<Rightarrow> nat \<Rightarrow> browser \<Rightarrow> browser option" where
  "write_block ob pos n b =
     (if 512 < n then None else Some (put_file (take n (b_block b)) (seek ob pos b)))"

lemma br_set_used_in: "br_set_used i v b = Some b' \<Longrightarrow> b_in b' = b_in b"
  by (auto simp: br_set_used_def split: ptr.splits if_splits)

lemma get_data_block_in: "br_get_data_block b = Some (r, b') \<Longrightarrow> b_in b' = b_in b"
  by (auto simp: br_get_data_block_def dest: br_set_used_in split: Option.bind_splits option.splits)

lemma write_block_in: "write_block ob pos n b = Some b' \<Longrightarrow> b_in b' = b_in b"
  by (auto simp: write_block_def put_file_def seek_def split: if_splits)

text \<open>
  The loop over standard input. Its result: whether it ended because the input did, \<open>cur_read_i\<close>,
  \<open>total_size\<close>, \<open>block_i\<close>, the entry and the state. An iteration without data ends it, so the
  input shrinks with every other one.
\<close>

function br_write_loop ::
  "bool \<Rightarrow> nat \<Rightarrow> nat \<Rightarrow> u32 \<Rightarrow> nat \<Rightarrow> sfs_file_entry \<Rightarrow> browser \<Rightarrow>
   (bool \<times> nat \<times> u32 \<times> nat \<times> sfs_file_entry \<times> browser) option" where
  "br_write_loop ob ci tr tot bi fe b =
     (case read_stdin tr (b_in b) of
        (xs, inp) \<Rightarrow>
          let bs = sb_block_size (b_sb b); b' = b\<lparr>b_in := inp\<rparr> in
          if xs = [] then Some (True, ci, tot, bi, fe, b')
          else if 512 < ci + length xs then None
          else
            let b' = b'\<lparr>b_block := put_bytes ci xs (b_block b')\<rparr> in
            if length xs = tr then
              if bi = SIMULA_FS_DATA_BLOCK_CNT then Some (False, ci, tot, bi, fe, b')
              else (case br_get_data_block b' of
                  None \<Rightarrow> None
                | Some (free, b2) \<Rightarrow>
                    if free = -1 then Some (False, ci, tot, bi, fe, b2)
                    else (case write_block ob (word_of_int free * bs) (unat bs) b2 of
                        None \<Rightarrow> None
                      | Some b3 \<Rightarrow>
                          br_write_loop ob 0 (unat bs) (tot + bs) (Suc bi)
                            (fe\<lparr>fe_blocks := (fe_blocks fe)[bi := word_of_int free]\<rparr>) b3))
            else br_write_loop ob (ci + length xs) (tr - length xs) tot bi fe b')"
  by pat_completeness auto
termination
proof (relation "measure (\<lambda>(ob, ci, tr, tot, bi, fe, b). stdin_size (b_in b))", goal_cases)
  case (2 ob ci tr tot bi fe b xs inp bs b' b'' r free b2 b3)
  then have "stdin_size inp + length xs \<le> stdin_size (b_in b)"
    by (auto dest: read_stdin_size(1) [OF sym])
  moreover have "b_in b2 = inp" using 2 get_data_block_in [of b'' free b2] by simp
  moreover have "b_in b3 = b_in b2" using 2 write_block_in by blast
  ultimately show ?case using 2 by (cases xs) auto
next
  case (3 ob ci tr tot bi fe b xs inp bs b' b'')
  then have "stdin_size inp + length xs \<le> stdin_size (b_in b)"
    by (auto dest: read_stdin_size(1) [OF sym])
  then show ?case using 3 by (cases xs) auto
qed simp

declare br_write_loop.simps [simp del]

end
