(* ===== verification/Sfs_July.thy ===== *)
theory Sfs_July
  imports Sfs_Browser
begin

unbundle bit_operations_syntax

text \<open>
  The operations of the browsers of July (\<open>3_july12/SimulaFS/browse_sfs.c\<close>) and June
  (\<open>2_june12/device-part19/part19.c\<close>) that August took over: each program has its own copy of
  them. They are defined from their own sources, over the loops of \<open>Sfs_Browser\<close>, and shown to be
  August's, so that what is proved of these holds for the older programs as well.
\<close>

section \<open>July\<close>

definition july_init_browsing :: "bool \<Rightarrow> bool \<Rightarrow> browser \<Rightarrow> (int + browser) option" where
  "july_init_browsing ob calloc_ok b =
     (if \<not> calloc_ok then Some (Inl 1)
      else
        let n = unat (sb_partition_size (b_sb b)); d = unat (sb_data_block_start (b_sb b)) in do {
          u \<leftarrow> fill_used (replicate n 0) 0 d 1;
          (u, b) \<leftarrow> br_mark_loop (unat (sb_entry_count (b_sb b))) (b_fe b) u (seek ob (table_pos b) b);
          Some (Inr (b\<lparr>b_used := Obj u\<rparr>))
        })"

definition july_shut_browsing :: "browser \<Rightarrow> browser option" where
  "july_shut_browsing b =
     (case b_used b of
        Null \<Rightarrow> Some b | Obj u \<Rightarrow> Some (b\<lparr>b_used := Dangling\<rparr>) | Dangling \<Rightarrow> None)"

definition july_get_data_block :: "browser \<Rightarrow> (int \<times> browser) option" where
  "july_get_data_block b =
     (case scan_free (b_used b) (unat (sb_data_block_start (b_sb b))) (unat (sb_partition_size (b_sb b))) of
        None \<Rightarrow> None
      | Some None \<Rightarrow> Some (-1, b)
      | Some (Some i) \<Rightarrow> do { b \<leftarrow> br_set_used i 1 b; Some (int i, b) })"

definition july_put_data_block :: "u32 \<Rightarrow> browser \<Rightarrow> browser option" where
  "july_put_data_block i b = br_set_used (unat i) 0 b"

definition july_list :: "bool \<Rightarrow> browser \<Rightarrow> browser option" where
  "july_list ob b = br_list_loop ob (unat (sb_entry_count (b_sb b))) (b_fe b) (seek ob (table_pos b) b)"

definition july_create :: "bool \<Rightarrow> u32 \<Rightarrow> byte list \<Rightarrow> browser \<Rightarrow> browser option" where
  "july_create ob now fn b =
     (case br_create_loop fn (unat (sb_entry_count (b_sb b))) (b_fe b) (seek ob (table_pos b) b) of
        None \<Rightarrow> None
      | Some (Scan_Exists, fe, b) \<Rightarrow> Some (say (M_exists fn) b)
      | Some (Scan_End, fe, b) \<Rightarrow> Some (say M_no_entries b)
      | Some (Scan_Free, fe, b) \<Rightarrow>
          Some (put_file (encode_fe (fresh_fe fn now 7 fe))
            (b\<lparr>b_h := lseek_cur (off_of ob (- sb_entry_size (b_sb b))) (b_h b)\<rparr>)))"

definition july_lookup ::
  "bool \<Rightarrow> byte list \<Rightarrow> browser \<Rightarrow> (int \<times> sfs_file_entry \<times> browser) option" where
  "july_lookup ob fn b =
     br_lookup_loop fn 0 (unat (sb_entry_count (b_sb b))) (b_fe b) (seek ob (table_pos b) b)"

definition july_update ::
  "bool \<Rightarrow> u32 \<Rightarrow> byte list \<Rightarrow> int option \<Rightarrow> bool \<Rightarrow> int option \<Rightarrow> browser \<Rightarrow> browser option" where
  "july_update ob now fn sz update_ts perms b = do {
     (i, fe, b) \<leftarrow> july_lookup ob fn b;
     if i = -1 then Some (say (M_missing fn) b)
     else
       let fe = fe\<lparr>fe_size := (case sz of Some s \<Rightarrow> word_of_int s | None \<Rightarrow> fe_size fe),
             fe_timestamp := (if update_ts then now else fe_timestamp fe),
             fe_perms := (case perms of Some p \<Rightarrow> if p \<le> 7 then word_of_int p else fe_perms fe
                          | None \<Rightarrow> fe_perms fe)\<rparr>
       in Some (write_entry_at ob (nat i) fe b)
   }"

definition july_chperm :: "bool \<Rightarrow> u32 \<Rightarrow> byte list \<Rightarrow> int \<Rightarrow> browser \<Rightarrow> browser option" where
  "july_chperm ob now fn perm b = july_update ob now fn None False (Some perm) b"

section \<open>June\<close>

definition june_list :: "bool \<Rightarrow> browser \<Rightarrow> browser option" where
  "june_list ob b = br_list_loop ob (unat (sb_entry_count (b_sb b))) (b_fe b) (seek ob (table_pos b) b)"

definition june_create :: "bool \<Rightarrow> u32 \<Rightarrow> byte list \<Rightarrow> browser \<Rightarrow> browser option" where
  "june_create ob now fn b =
     (case br_create_loop fn (unat (sb_entry_count (b_sb b))) (b_fe b) (seek ob (table_pos b) b) of
        None \<Rightarrow> None
      | Some (Scan_Exists, fe, b) \<Rightarrow> Some (say (M_exists fn) b)
      | Some (Scan_End, fe, b) \<Rightarrow> Some (say M_no_entries b)
      | Some (Scan_Free, fe, b) \<Rightarrow>
          Some (put_file (encode_fe (fresh_fe fn now 7 fe))
            (b\<lparr>b_h := lseek_cur (off_of ob (- sb_entry_size (b_sb b))) (b_h b)\<rparr>)))"

section \<open>They are August's\<close>

lemma july_same:
  "july_init_browsing ob calloc_ok b = br_init_browsing ob calloc_ok b"
  "july_shut_browsing b = br_shut_browsing b"
  "july_put_data_block i b = br_put_data_block i b"
  "july_list ob b = br_list ob b"
  "july_lookup ob fn b = br_lookup ob fn b"
  by (simp_all add: july_init_browsing_def br_init_browsing_def july_shut_browsing_def br_shut_browsing_def
      july_put_data_block_def br_put_data_block_def july_list_def br_list_def july_lookup_def br_lookup_def
      Let_def split: ptr.split)

lemma july_get_data_block_same: "july_get_data_block b = br_get_data_block b"
  unfolding july_get_data_block_def br_get_data_block_def
  by (cases "scan_free (b_used b) (unat (sb_data_block_start (b_sb b))) (unat (sb_partition_size (b_sb b)))")
    (auto split: option.split)

lemma july_create_same: "july_create ob now fn b = br_create ob now fn b"
  unfolding july_create_def br_create_def
  by (cases "br_create_loop fn (unat (sb_entry_count (b_sb b))) (b_fe b) (seek ob (table_pos b) b)")
    (auto simp: Let_def split: scan.split)

lemma july_update_same: "july_update ob now fn sz uts perms b = br_update ob now fn sz uts perms b"
  unfolding july_update_def br_update_def july_same(5)
  by (intro arg_cong [of _ _ "Option.bind (br_lookup ob fn b)"] ext)
    (auto simp: Let_def split: prod.split option.split)

lemma july_chperm_same: "july_chperm ob now fn p b = br_chperm ob now fn p b"
  by (simp add: july_chperm_def br_chperm_def july_update_same)

lemma june_same:
  "june_list ob b = br_list ob b"
  "june_create ob now fn b = br_create ob now fn b"
  by (simp_all add: june_list_def br_list_def june_create_def july_create_def flip: july_create_same)

lemmas older_same [simp] = july_same july_get_data_block_same july_create_same july_update_same july_chperm_same june_same

end
