(* ===== verification/Sfs_Shell.thy ===== *)
theory Sfs_Shell
  imports Sfs_July
begin

unbundle bit_operations_syntax

text \<open>
  Writing a file from standard input, the command line of the browser and its main loop, for
  the release of August 2012 (\<open>4_aug12/RealFS/browse_sfs.c\<close>) and, where they differ, that of
  July (\<open>3_july12/SimulaFS/browse_sfs.c\<close>) and June (\<open>2_june12/device-part19/part19.c\<close>).
\<close>

section \<open>Writing a file\<close>

text \<open>The part of \<open>sfs_write\<close> after its checks: data, then the entry.\<close>

definition br_write_data ::
  "bool \<Rightarrow> u32 \<Rightarrow> nat \<Rightarrow> sfs_file_entry \<Rightarrow> browser \<Rightarrow> browser option" where
  "br_write_data ob now i fe b = do {
     (eof, ci, tot, bi, fe, b) \<leftarrow> br_write_loop ob 0 (unat (sb_block_size (b_sb b))) 0 0 fe b;
     (tot, fe, b) \<leftarrow>
       (if eof \<and> ci \<noteq> 0 \<and> bi \<noteq> SIMULA_FS_DATA_BLOCK_CNT then do {
          (free, b) \<leftarrow> br_get_data_block b;
          let fe = fe\<lparr>fe_blocks := (fe_blocks fe)[bi := word_of_int free]\<rparr>;
          if fe_blocks fe ! bi \<noteq> -1 then do {
            b \<leftarrow> write_block ob (fe_blocks fe ! bi * sb_block_size (b_sb b)) ci b;
            Some (tot + of_nat ci, fe, b)
          }
          else Some (tot, fe, b)
        }
        else Some (tot, fe, b));
     Some (write_entry_at ob i (fe\<lparr>fe_size := tot, fe_timestamp := now\<rparr>) b)
   }"

definition br_write :: "bool \<Rightarrow> u32 \<Rightarrow> byte list \<Rightarrow> browser \<Rightarrow> browser option" where
  "br_write ob now fn b = do {
     (i, fe, b) \<leftarrow> br_lookup ob fn b;
     if i = -1 then Some (say (M_missing fn) b)
     else if fe_perms fe AND 2 = 0 then Some (say (M_no_write fn) b)
     else do {
       b \<leftarrow> br_put_blocks (fe_blocks fe) b;
       br_write_data ob now (nat i) fe b
     }
   }"

section \<open>The operations of July\<close>

text \<open>Removing and overwriting do not give blocks back; permissions are not looked at.\<close>

definition july_remove :: "bool \<Rightarrow> byte list \<Rightarrow> browser \<Rightarrow> browser option" where
  "july_remove ob fn b = do {
     (i, fe, b) \<leftarrow> july_lookup ob fn b;
     if i = -1 then Some (say (M_missing fn) b) else Some (write_entry_at ob (nat i) zero_fe b)
   }"

definition july_read :: "bool \<Rightarrow> byte list \<Rightarrow> browser \<Rightarrow> browser option" where
  "july_read ob fn b = do {
     (i, fe, b) \<leftarrow> july_lookup ob fn b;
     if i = -1 then Some (say (M_missing fn) b) else br_read_loop ob (fe_blocks fe) (fe_size fe) b
   }"

definition july_write :: "bool \<Rightarrow> u32 \<Rightarrow> byte list \<Rightarrow> browser \<Rightarrow> browser option" where
  "july_write ob now fn b = do {
     (i, fe, b) \<leftarrow> july_lookup ob fn b;
     if i = -1 then Some (say (M_missing fn) b) else br_write_data ob now (nat i) fe b
   }"

text \<open>June's \<open>sfs_remove\<close> steps back over the entry its loop stopped at.\<close>

fun june_remove_loop ::
  "byte list \<Rightarrow> nat \<Rightarrow> sfs_file_entry \<Rightarrow> browser \<Rightarrow> (bool \<times> browser) option" where
  "june_remove_loop fn 0 fe b = Some (False, b)"
| "june_remove_loop fn (Suc n) fe b =
     (let (fe, b) = read_fe fe b in
      if \<not> fe_live fe then june_remove_loop fn n fe b
      else do {
        same \<leftarrow> strcmp_eq (fe_name fe) fn;
        if same then Some (True, b) else june_remove_loop fn n fe b
      })"

definition june_remove :: "bool \<Rightarrow> byte list \<Rightarrow> browser \<Rightarrow> browser option" where
  "june_remove ob fn b = do {
     (found, b) \<leftarrow> june_remove_loop fn (unat (sb_entry_count (b_sb b))) (b_fe b) (seek ob (table_pos b) b);
     if \<not> found then Some (say (M_missing fn) b)
     else
       let b = b\<lparr>b_h := lseek_cur (off_of ob (- sb_entry_size (b_sb b))) (b_h b)\<rparr>
       in Some (put_file (encode_fe zero_fe) b)
   }"

section \<open>Command lines\<close>

datatype command =
    C_help | C_quit | C_list | C_bad
  | C_create "byte list" | C_remove "byte list" | C_chperm int "byte list"
  | C_read "byte list" | C_write "byte list"

text \<open>\<open>fn = cmd + k; while ( *fn == ' ') fn++;\<close> and the test for an empty name.\<close>

definition cmd_arg :: "nat \<Rightarrow> byte list \<Rightarrow> byte list option" where
  "cmd_arg k cmd =
     (let fn = takeWhile (\<lambda>c. c \<noteq> 0) (dropWhile (\<lambda>c. c = 32) (drop k cmd))
      in if fn = [] then None else Some fn)"

definition cmd_word :: "string \<Rightarrow> byte list \<Rightarrow> bool" where
  "cmd_word w cmd \<longleftrightarrow> take (length w) cmd = str w"

text \<open>A command \<open>w\<close> followed by a space and a name.\<close>

definition cmd_file :: "string \<Rightarrow> (byte list \<Rightarrow> command) \<Rightarrow> byte list \<Rightarrow> command" where
  "cmd_file w c cmd =
     (if cmd ! length w = 32
      then (case cmd_arg (Suc (length w)) cmd of Some fn \<Rightarrow> c fn | None \<Rightarrow> C_bad)
      else C_bad)"

definition parse_cmd :: "byte list \<Rightarrow> command" where
  "parse_cmd line =
     (let cmd = line @ [0]; s = takeWhile (\<lambda>c. c \<noteq> 0) cmd in
      if s = str ''?'' then C_help
      else if s = str ''quit'' then C_quit
      else if s = str ''list'' then C_list
      else if cmd_word ''create'' cmd then cmd_file ''create'' C_create cmd
      else if cmd_word ''remove'' cmd then cmd_file ''remove'' C_remove cmd
      else if cmd_word ''chperm'' cmd then
        if cmd ! 6 = 32 then
          let perm = sint (cmd ! 7) - 48 in
          if 0 \<le> perm \<and> perm \<le> 7 \<and> cmd ! 8 = 32
          then (case cmd_arg 9 cmd of Some fn \<Rightarrow> C_chperm perm fn | None \<Rightarrow> C_bad)
          else C_bad
        else C_bad
      else if cmd_word ''read'' cmd then cmd_file ''read'' C_read cmd
      else if cmd_word ''write'' cmd then cmd_file ''write'' C_write cmd
      else C_bad)"

definition june_parse_cmd :: "byte list \<Rightarrow> command" where
  "june_parse_cmd line =
     (let cmd = line @ [0]; s = takeWhile (\<lambda>c. c \<noteq> 0) cmd in
      if s = str ''?'' then C_help
      else if s = str ''quit'' then C_quit
      else if s = str ''list'' then C_list
      else if cmd_word ''create'' cmd then cmd_file ''create'' C_create cmd
      else if cmd_word ''remove'' cmd then cmd_file ''remove'' C_remove cmd
      else C_bad)"

section \<open>The shell\<close>

datatype release = June | July | August

definition parse_of :: "release \<Rightarrow> byte list \<Rightarrow> command" where
  "parse_of r = (if r = June then june_parse_cmd else parse_cmd)"

definition exec ::
  "release \<Rightarrow> bool \<Rightarrow> u32 \<Rightarrow> byte list \<Rightarrow> command \<Rightarrow> browser \<Rightarrow> (browser \<times> bool) option" where
  "exec r ob now line c b =
     (case c of
        C_help \<Rightarrow> Some (say M_usage b, False)
      | C_quit \<Rightarrow> Some (b, True)
      | C_list \<Rightarrow> map_option (\<lambda>b. (b, False))
          (case r of June \<Rightarrow> june_list ob b | July \<Rightarrow> july_list ob b | August \<Rightarrow> br_list ob b)
      | C_create fn \<Rightarrow> map_option (\<lambda>b. (b, False))
          (case r of June \<Rightarrow> june_create ob now fn b | July \<Rightarrow> july_create ob now fn b
           | August \<Rightarrow> br_create ob now fn b)
      | C_remove fn \<Rightarrow> map_option (\<lambda>b. (b, False))
          (case r of June \<Rightarrow> june_remove ob fn b | July \<Rightarrow> july_remove ob fn b
           | August \<Rightarrow> br_remove ob fn b)
      | C_chperm p fn \<Rightarrow> map_option (\<lambda>b. (b, False))
          (if r = August then br_chperm ob now fn p b else july_chperm ob now fn p b)
      | C_read fn \<Rightarrow> map_option (\<lambda>b. (b, False))
          (if r = August then br_read ob fn b else july_read ob fn b)
      | C_write fn \<Rightarrow> map_option (\<lambda>b. (b, False))
          (if r = August then br_write ob now fn b else july_write ob now fn b)
      | C_bad \<Rightarrow> Some (say M_usage (say (M_unknown (takeWhile (\<lambda>c. c \<noteq> 0) line)) b), False))"

text \<open>One round of \<open>while (!done)\<close>. A line of 256 characters or more overflows \<open>cmd\<close>.\<close>

definition browse_step ::
  "release \<Rightarrow> bool \<Rightarrow> (browser \<Rightarrow> u32) \<Rightarrow> browser \<Rightarrow> (browser \<times> bool) option" where
  "browse_step r ob clock b =
     (let b = say M_prompt b; (ret, line, inp) = scanf_line (b_in b) in
      if ret < 0 then Some (say M_newline (b\<lparr>b_in := inp\<rparr>), True)
      else if 256 \<le> length line then None
      else
        let b = b\<lparr>b_in := snd (getchar inp)\<rparr> in
        if ret = 0 then Some (b, False) else exec r ob (clock b) line (parse_of r line) b)"

section \<open>The input never grows\<close>

lemma keep_in [simp]:
  "b_in (say m b) = b_in b" "b_in (seek ob w b) = b_in b" "b_in (put_file xs b) = b_in b"
  "b_in (write_entry_at ob i fe b) = b_in b" "b_in (snd (read_fe fe b)) = b_in b"
  by (simp_all add: say_def seek_def put_file_def write_entry_at_def read_fe_def split: prod.split)

lemma read_fe_in: "read_fe fe b = (fe', b') \<Longrightarrow> b_in b' = b_in b"
  by (metis keep_in(5) snd_conv)

lemma br_list_loop_in: "br_list_loop ob n fe b = Some b' \<Longrightarrow> b_in b' = b_in b"
  by (induction ob n fe b rule: br_list_loop.induct)
    (auto dest: read_fe_in split: prod.splits if_splits Option.bind_splits)

lemma br_create_loop_in: "br_create_loop fn n fe b = Some (r, fe', b') \<Longrightarrow> b_in b' = b_in b"
  by (induction fn n fe b rule: br_create_loop.induct)
    (auto dest: read_fe_in split: prod.splits if_splits Option.bind_splits)

lemma br_lookup_loop_in: "br_lookup_loop fn i n fe b = Some (k, fe', b') \<Longrightarrow> b_in b' = b_in b"
  by (induction fn i n fe b rule: br_lookup_loop.induct)
    (auto dest: read_fe_in split: prod.splits if_splits Option.bind_splits)

lemma june_remove_loop_in: "june_remove_loop fn n fe b = Some (r, b') \<Longrightarrow> b_in b' = b_in b"
  by (induction fn n fe b rule: june_remove_loop.induct)
    (auto dest: read_fe_in split: prod.splits if_splits Option.bind_splits)

lemma br_lookup_in: "br_lookup ob fn b = Some (k, fe, b') \<Longrightarrow> b_in b' = b_in b"
  by (auto simp: br_lookup_def dest: br_lookup_loop_in)

lemma br_put_blocks_in: "br_put_blocks xs b = Some b' \<Longrightarrow> b_in b' = b_in b"
  by (induction xs b rule: br_put_blocks.induct)
    (auto simp: br_put_data_block_def dest: br_set_used_in split: if_splits Option.bind_splits)

lemma read_block_in: "read_block ob pos n b = Some b' \<Longrightarrow> b_in b' = b_in b"
  by (auto simp: read_block_def Let_def split: prod.splits if_splits)

lemma br_read_loop_in: "br_read_loop ob xs rem b = Some b' \<Longrightarrow> b_in b' = b_in b"
  by (induction ob xs rem b rule: br_read_loop.induct)
    (auto simp: Let_def dest: read_block_in split: if_splits Option.bind_splits)

lemma br_write_loop_in:
  "br_write_loop ob ci tr tot bi fe b = Some (e, ci', tot', bi', fe', b') \<Longrightarrow>
   stdin_size (b_in b') \<le> stdin_size (b_in b)"
proof (induction ob ci tr tot bi fe b rule: br_write_loop.induct)
  case (1 ob ci tr tot bi fe b)
  obtain xs inp where r: "read_stdin tr (b_in b) = (xs, inp)" by fastforce
  have sz: "stdin_size inp + length xs \<le> stdin_size (b_in b)" by (rule read_stdin_size(1) [OF r])
  show ?case
    using 1(3) sz r 1(1) [OF r [symmetric]] 1(2) [OF r [symmetric]]
    by (subst (asm) br_write_loop.simps)
      (force simp: Let_def dest: get_data_block_in write_block_in split: if_splits option.splits)
qed

lemmas op_in = br_list_loop_in br_create_loop_in br_lookup_in june_remove_loop_in br_put_blocks_in
  br_read_loop_in get_data_block_in write_block_in

lemma br_write_data_in:
  "br_write_data ob now i fe b = Some b' \<Longrightarrow> stdin_size (b_in b') \<le> stdin_size (b_in b)"
  by (auto simp: br_write_data_def Let_def dest!: br_write_loop_in op_in
      split: Option.bind_splits if_splits)

lemma exec_in:
  assumes "exec r ob now line c b = Some (b', d)"
  shows "stdin_size (b_in b') \<le> stdin_size (b_in b)"
proof (cases c)
  case (C_list)
  then show ?thesis using assms by (auto simp: exec_def br_list_def dest!: op_in split: release.splits)
next
  case (C_create fn)
  then show ?thesis using assms
    by (auto simp: exec_def br_create_def Let_def dest!: op_in
        split: Option.bind_splits scan.splits release.splits)
next
  case (C_remove fn)
  then show ?thesis using assms
    by (auto simp: exec_def br_remove_def july_remove_def june_remove_def Let_def dest!: op_in
        split: Option.bind_splits if_splits release.splits)
next
  case (C_chperm p fn)
  then show ?thesis using assms
    by (auto simp: exec_def br_chperm_def br_update_def Let_def dest!: op_in
        split: Option.bind_splits if_splits)
next
  case (C_read fn)
  then show ?thesis using assms
    by (auto simp: exec_def br_read_def july_read_def dest!: op_in
        split: Option.bind_splits if_splits)
next
  case (C_write fn)
  then show ?thesis using assms
    by (auto simp: exec_def br_write_def july_write_def dest!: br_write_data_in op_in
        split: Option.bind_splits if_splits)
qed (use assms in \<open>auto simp: exec_def\<close>)

lemma scan_line_end: "scan_line s = (line, False, s') \<Longrightarrow> \<exists>bs. in_buf s' = 10 # bs"
proof (induction s arbitrary: line rule: scan_line.induct)
  case (1 s)
  then show ?case
    by (subst (asm) (2) scan_line.simps) (fastforce split: prod.splits option.splits if_splits)
qed

lemma getchar_rest: "stdin_size (snd (getchar s)) \<le> stdin_size s"
  by (cases "getchar s") (metis getchar_size less_imp_le option.exhaust snd_conv)

lemma browse_step_less:
  assumes "browse_step r ob clock b = Some (b', False)"
  shows "stdin_size (b_in b') < stdin_size (b_in b)"
proof -
  obtain line e inp where s: "scan_line (b_in b) = (line, e, inp)" by (metis prod_cases3)
  have sz: "stdin_size inp + length line \<le> stdin_size (b_in b)" by (rule scan_line_size [OF s])
  let ?b = "(say M_prompt b)\<lparr>b_in := snd (getchar inp)\<rparr>"
  have less: "stdin_size (snd (getchar inp)) < stdin_size (b_in b)" if c: "line \<noteq> [] \<or> \<not> e"
  proof (cases "line = []")
    case True
    then have "\<not> e" using c by simp
    then obtain bs where "in_buf inp = 10 # bs" using s scan_line_end by fastforce
    then have "getchar inp = (Some 10, inp\<lparr>in_buf := bs\<rparr>)" by (simp add: getchar_def)
    then show ?thesis using getchar_size(1) [of inp] sz by fastforce
  next
    case False
    then show ?thesis using sz getchar_rest [of inp] by (cases line) auto
  qed
  consider "line = []" "\<not> e" "b' = ?b"
    | "line \<noteq> []" "exec r ob (clock ?b) line (parse_of r line) ?b = Some (b', False)"
    using assms by (auto simp: browse_step_def scanf_line_def s Let_def split: if_splits)
  then show ?thesis
  proof cases
    case 1
    then show ?thesis using less by simp
  next
    case 2
    then show ?thesis using less exec_in [OF 2(2)] by simp
  qed
qed

section \<open>The programs\<close>

function browse_loop ::
  "release \<Rightarrow> bool \<Rightarrow> (browser \<Rightarrow> u32) \<Rightarrow> browser \<Rightarrow> browser option" where
  "browse_loop r ob clock b =
     (case browse_step r ob clock b of
        None \<Rightarrow> None
      | Some (b', done) \<Rightarrow> if done then Some b' else browse_loop r ob clock b')"
  by pat_completeness auto
termination
  by (relation "measure (\<lambda>(r, ob, clock, b). stdin_size (b_in b))") (auto dest: browse_step_less)

declare browse_loop.simps [simp del]

definition say_welcome :: "browser \<Rightarrow> browser" where
  "say_welcome b =
     (let s = b_sb b
      in say (M_welcome (sb_block_size s) (sb_partition_size s) (sb_entry_size s)
           (sb_entry_table_size s) (sb_entry_count s)) b)"

text \<open>June's shell keeps no flags. The result is the exit status, 0 when the shell ends.\<close>

definition browse_sfs ::
  "bool \<Rightarrow> bool \<Rightarrow> (browser \<Rightarrow> u32) \<Rightarrow> browser \<Rightarrow> (int \<times> browser) option" where
  "browse_sfs ob calloc_ok clock b = do {
     let b = say_welcome b;
     r \<leftarrow> br_init_browsing ob calloc_ok b;
     case r of
       Inl e \<Rightarrow> Some (e, say M_out_of_memory b)
     | Inr b \<Rightarrow> do {
         b \<leftarrow> browse_loop August ob clock b;
         b \<leftarrow> br_shut_browsing b;
         Some (0, b)
       }
   }"

definition july_browse_sfs ::
  "bool \<Rightarrow> bool \<Rightarrow> (browser \<Rightarrow> u32) \<Rightarrow> browser \<Rightarrow> (int \<times> browser) option" where
  "july_browse_sfs ob calloc_ok clock b = do {
     let b = say_welcome b;
     r \<leftarrow> july_init_browsing ob calloc_ok b;
     case r of
       Inl e \<Rightarrow> Some (e, say M_out_of_memory b)
     | Inr b \<Rightarrow> do {
         b \<leftarrow> browse_loop July ob clock b;
         b \<leftarrow> july_shut_browsing b;
         Some (0, b)
       }
   }"

definition june_browse_sfs :: "bool \<Rightarrow> (browser \<Rightarrow> u32) \<Rightarrow> browser \<Rightarrow> (int \<times> browser) option" where
  "june_browse_sfs ob clock b = map_option (\<lambda>b. (0, b)) (browse_loop June ob clock (say_welcome b))"

text \<open>\<open>read(sfs_handle, &sb, sizeof(sb))\<close> into the global \<open>sb\<close>, all zeros before.\<close>

definition read_super :: "browser \<Rightarrow> browser" where
  "read_super b =
     (let (xs, h) = sys_read 512 (b_h b)
      in b\<lparr>b_h := h, b_sb := decode_sb (put_bytes 0 xs (replicate 512 0))\<rparr>)"

text \<open>\<open>open_file\<close> opens a path, \<open>None\<close> for the default file; \<open>b0\<close> gives the rest of the state.\<close>

definition browse_main ::
  "bool \<Rightarrow> bool \<Rightarrow> (browser \<Rightarrow> u32) \<Rightarrow> (byte list \<Rightarrow> fhandle option) \<Rightarrow> byte list list \<Rightarrow>
   browser \<Rightarrow> (int \<times> browser) option" where
  "browse_main ob calloc_ok clock open_file argv b0 =
     (if length argv \<noteq> 2 then Some (1, say M_no_usage b0)
      else (case open_file (argv ! 1) of
        None \<Rightarrow> Some (2, say (M_no_open (argv ! 1)) b0)
      | Some h \<Rightarrow>
          let b = read_super (b0\<lparr>b_h := h\<rparr>) in
          if sb_type (b_sb b) \<noteq> SIMULA_FS_TYPE then Some (3, say M_no_sfs b)
          else browse_sfs ob calloc_ok clock b))"

definition SIMULA_DEFAULT_FILE :: "byte list" where
  "SIMULA_DEFAULT_FILE = str ''.sfsf''"

definition july_main ::
  "bool \<Rightarrow> bool \<Rightarrow> (browser \<Rightarrow> u32) \<Rightarrow> (byte list \<Rightarrow> fhandle option) \<Rightarrow> byte list list \<Rightarrow>
   browser \<Rightarrow> (int \<times> browser) option" where
  "july_main ob calloc_ok clock open_file argv b0 =
     (if 2 < length argv then Some (1, say M_no_usage b0)
      else
        let sfs_file = (if length argv = 2 then argv ! 1 else SIMULA_DEFAULT_FILE) in
        case open_file sfs_file of
          None \<Rightarrow> Some (2, say (M_no_open sfs_file) b0)
        | Some h \<Rightarrow>
            let b = read_super (b0\<lparr>b_h := h\<rparr>) in
            if sb_type (b_sb b) \<noteq> SIMULA_FS_TYPE then Some (3, say M_no_sfs b)
            else july_browse_sfs ob calloc_ok clock b)"

definition june_main ::
  "bool \<Rightarrow> (browser \<Rightarrow> u32) \<Rightarrow> (byte list \<Rightarrow> fhandle option) \<Rightarrow> byte list list \<Rightarrow>
   browser \<Rightarrow> (int \<times> browser) option" where
  "june_main ob clock open_file argv b0 =
     (if 2 < length argv then Some (1, say M_no_usage b0)
      else
        let sfs_file = (if length argv = 2 then argv ! 1 else SIMULA_DEFAULT_FILE) in
        case open_file sfs_file of
          None \<Rightarrow> Some (2, say (M_no_open sfs_file) b0)
        | Some h \<Rightarrow>
            let b = read_super (b0\<lparr>b_h := h\<rparr>) in
            if sb_type (b_sb b) \<noteq> SIMULA_FS_TYPE then Some (3, say M_no_sfs b)
            else june_browse_sfs ob clock b)"

end
