(* ===== verification/Sfs_Browser_Facts.thy ===== *)
theory Sfs_Browser_Facts
  imports Sfs_Shell
begin

unbundle bit_operations_syntax

text \<open>
  What the browser's operations do to the entry table and the data blocks of its file: lookups
  are searches in the table, and an entry written replaces one element.
\<close>

section \<open>The table in the file\<close>

definition tpos :: "browser \<Rightarrow> nat" where
  "tpos b = unat (table_pos b)"

definition tcnt :: "browser \<Rightarrow> nat" where
  "tcnt b = unat (sb_entry_count (b_sb b))"

definition btable :: "browser \<Rightarrow> sfs_file_entry list" where
  "btable b = map (\<lambda>i. decode_fe (get_bytes (tpos b + 64 * i) 64 (fh_data (b_h b)))) [0..<tcnt b]"

text \<open>The whole table is in the file, below \<open>2 ^ 31\<close>, where both kinds of \<open>off_t\<close> agree.\<close>

definition bt_ok :: "browser \<Rightarrow> bool" where
  "bt_ok b \<longleftrightarrow> tpos b + 64 * tcnt b \<le> length (fh_data (b_h b)) \<and> tpos b + 64 * tcnt b < 2 ^ 31 \<and>
     sb_entry_size (b_sb b) = 64 \<and> wf_fe (b_fe b)"

definition at :: "nat \<Rightarrow> browser \<Rightarrow> browser" where
  "at p b = b\<lparr>b_h := (b_h b)\<lparr>fh_pos := p\<rparr>\<rparr>"

lemma at_simps [simp]:
  "fh_data (b_h (at p b)) = fh_data (b_h b)" "fh_pos (b_h (at p b)) = p"
  "fh_fixed (b_h (at p b)) = fh_fixed (b_h b)" "b_sb (at p b) = b_sb b" "b_used (at p b) = b_used b"
  "b_block (at p b) = b_block b" "b_fe (at p b) = b_fe b" "b_in (at p b) = b_in b"
  "b_out (at p b) = b_out b" "at q (at p b) = at q b"
  by (simp_all add: at_def)

lemma table_pos_at [simp]: "table_pos (at p b) = table_pos b" "tpos (at p b) = tpos b"
  "tcnt (at p b) = tcnt b" "btable (at p b) = btable b" "bt_ok (at p b) = bt_ok b"
  by (simp_all add: table_pos_def tpos_def tcnt_def btable_def bt_ok_def)

lemma length_btable [simp]: "length (btable b) = tcnt b"
  by (simp add: btable_def)

lemma nth_btable: "i < tcnt b \<Longrightarrow>
  btable b ! i = decode_fe (get_bytes (tpos b + 64 * i) 64 (fh_data (b_h b)))"
  by (simp add: btable_def)

lemma wf_btable: "bt_ok b \<Longrightarrow> i < tcnt b \<Longrightarrow> wf_fe (btable b ! i)"
  by (simp add: nth_btable bt_ok_def)

lemma seek_at: "unat w < 2 ^ 31 \<Longrightarrow> unat w \<le> length (fh_data (b_h b)) \<Longrightarrow> seek ob w b = at (unat w) b"
  unfolding seek_def at_def by (simp only: off_of_small lseek_simps)

lemma seek_table: "bt_ok b \<Longrightarrow> seek ob (table_pos b) b = at (tpos b) b"
  by (simp add: seek_at bt_ok_def tpos_def)

lemma read_fe_at:
  assumes "bt_ok b" "i < tcnt b" "wf_fe fe"
  shows "read_fe fe (at (tpos b + 64 * i) b) = (btable b ! i, at (tpos b + 64 * Suc i) b)"
proof -
  have "tpos b + 64 * i + 64 \<le> length (fh_data (b_h b))" using assms(1,2) by (simp add: bt_ok_def)
  then show ?thesis
    using assms(2,3) by (simp add: read_fe_def sys_read_inside nth_btable put_bytes_def at_def)
qed

lemma lookup_loop_table:
  assumes ok: "bt_ok b" "names_ok (btable b)" "0 \<notin> set fn" and n: "k + n = tcnt b" and "wf_fe fe"
  shows "\<exists>fe'. br_lookup_loop fn k n fe (at (tpos b + 64 * k) b) = Some
    (case find (\<lambda>i. hit fn (btable b ! i)) [k..<tcnt b] of
       Some i \<Rightarrow> (int i, btable b ! i, at (tpos b + 64 * Suc i) b)
     | None \<Rightarrow> (-1, fe', at (tpos b + 64 * tcnt b) b))"
  using n assms(5)
proof (induction n arbitrary: k fe)
  case 0
  then show ?case by simp
next
  case (Suc n)
  then have k: "k < tcnt b" and kn: "Suc k + n = tcnt b" by auto
  let ?fe = "btable b ! k"
  have rd: "read_fe fe (at (tpos b + 64 * k) b) = (?fe, at (tpos b + 64 * Suc k) b)"
    by (rule read_fe_at [OF ok(1) k Suc.prems(2)])
  obtain fe' where IH: "br_lookup_loop fn (Suc k) n ?fe (at (tpos b + 64 * Suc k) b) = Some
    (case find (\<lambda>i. hit fn (btable b ! i)) [Suc k..<tcnt b] of
       Some i \<Rightarrow> (int i, btable b ! i, at (tpos b + 64 * Suc i) b)
     | None \<Rightarrow> (-1, fe', at (tpos b + 64 * tcnt b) b))"
    using Suc.IH [OF kn wf_btable [OF ok(1) k]] by blast
  have "?fe \<in> set (btable b)" using k by (metis length_btable nth_mem)
  then have "\<exists>t. fe_fname ?fe = Some t \<and> strcmp_eq (fe_name ?fe) fn = Some (t = fn)" if "fe_live ?fe"
    using ok(2,3) that by (auto simp: names_ok_def fe_fname_def strcmp_eq_cstr)
  then show ?case
    using IH k by (intro exI [of _ fe']) (auto simp: rd upt_conv_Cons hit_def)
qed

lemma br_lookup_table:
  assumes "bt_ok b" "names_ok (btable b)" "0 \<notin> set fn"
  shows "\<exists>fe'. br_lookup ob fn b = Some
    (case find_file fn (btable b) of
       Some i \<Rightarrow> (int i, btable b ! i, at (tpos b + 64 * Suc i) b)
     | None \<Rightarrow> (-1, fe', at (tpos b + 64 * tcnt b) b))"
  using lookup_loop_table [OF assms, of 0 "tcnt b" "b_fe b"] assms(1)
  by (simp add: br_lookup_def seek_table find_file_def tcnt_def [symmetric] bt_ok_def)

text \<open>Writing entry \<open>i\<close>: that element, and no byte outside its 64.\<close>

definition put_at :: "nat \<Rightarrow> byte list \<Rightarrow> browser \<Rightarrow> browser" where
  "put_at p xs b = b\<lparr>b_h := (b_h b)\<lparr>fh_data := put_bytes p xs (fh_data (b_h b)),
                                    fh_pos := p + length xs\<rparr>\<rparr>"

lemma put_at_simps [simp]:
  "fh_data (b_h (put_at p xs b)) = put_bytes p xs (fh_data (b_h b))"
  "fh_fixed (b_h (put_at p xs b)) = fh_fixed (b_h b)" "b_sb (put_at p xs b) = b_sb b"
  "b_used (put_at p xs b) = b_used b" "b_block (put_at p xs b) = b_block b"
  "b_fe (put_at p xs b) = b_fe b" "b_in (put_at p xs b) = b_in b" "b_out (put_at p xs b) = b_out b"
  by (simp_all add: put_at_def)

lemma table_pos_put_at [simp]:
  "table_pos (put_at p xs b) = table_pos b" "tpos (put_at p xs b) = tpos b"
  "tcnt (put_at p xs b) = tcnt b"
  by (simp_all add: table_pos_def tpos_def tcnt_def)

lemma put_file_at:
  "p + length xs \<le> length (fh_data (b_h b)) \<Longrightarrow> put_file xs (at p b) = put_at p xs b"
  by (simp add: put_file_def sys_write_inside) (simp add: put_at_def at_def)

lemma entry_pos_small:
  assumes "bt_ok b" "i < tcnt b"
  shows "unat (entry_pos i b) = tpos b + 64 * i"
proof -
  have "entry_pos i b = of_nat (tpos b + 64 * i)"
    using assms(1) by (simp add: entry_pos_def tpos_def bt_ok_def mult.commute)
  then show ?thesis using assms by (simp add: bt_ok_def unat_of_nat del: of_nat_add)
qed

lemma write_entry_at_eq:
  assumes "bt_ok b" "i < tcnt b" "wf_fe fe"
  shows "write_entry_at ob i fe b = put_at (tpos b + 64 * i) (encode_fe fe) b"
proof -
  have "tpos b + 64 * i < 2 ^ 31" "tpos b + 64 * i + 64 \<le> length (fh_data (b_h b))"
    using assms(1,2) by (auto simp: bt_ok_def)
  then show ?thesis
    using assms(3) entry_pos_small [OF assms(1,2)]
    by (simp add: write_entry_at_def seek_at put_file_at)
qed

lemma btable_put_entry:
  assumes "bt_ok b" "i < tcnt b" "wf_fe fe"
  shows "btable (put_at (tpos b + 64 * i) (encode_fe fe) b) = (btable b)[i := fe]"
    and "bt_ok (put_at (tpos b + 64 * i) (encode_fe fe) b)"
proof -
  have fits: "tpos b + 64 * j + 64 \<le> length (fh_data (b_h b))" if "j < tcnt b" for j
    using assms(1) that by (simp add: bt_ok_def)
  have other: "get_bytes (tpos b + 64 * j) 64 (put_bytes (tpos b + 64 * i) (encode_fe fe) D) =
      get_bytes (tpos b + 64 * j) 64 D" if "j < tcnt b" "j \<noteq> i" "D = fh_data (b_h b)" for j D
    using fits [OF that(1)] fits [OF assms(2)] that assms(3) by (intro get_put_disjoint) auto
  show "btable (put_at (tpos b + 64 * i) (encode_fe fe) b) = (btable b)[i := fe]"
    using assms fits [OF assms(2)] other
    by (intro nth_equalityI) (auto simp: nth_btable nth_list_update)
  show "bt_ok (put_at (tpos b + 64 * i) (encode_fe fe) b)"
    using assms(1,3) fits [OF assms(2)] by (simp add: bt_ok_def)
qed

text \<open>A byte range clear of the table leaves it alone.\<close>

lemma btable_put_away:
  assumes "bt_ok b" "tpos b + 64 * tcnt b \<le> p" "p + length xs \<le> length (fh_data (b_h b))"
  shows "btable (put_at p xs b) = btable b" "bt_ok (put_at p xs b)"
proof -
  have "get_bytes (tpos b + 64 * j) 64 (put_bytes p xs D) = get_bytes (tpos b + 64 * j) 64 D"
    if "j < tcnt b" "D = fh_data (b_h b)" for j D
    using assms that by (intro get_put_disjoint) (auto simp: bt_ok_def)
  then show "btable (put_at p xs b) = btable b"
    by (intro nth_equalityI) (auto simp: nth_btable)
  show "bt_ok (put_at p xs b)" using assms by (simp add: bt_ok_def)
qed

section \<open>Creating\<close>

lemma create_loop_table:
  assumes ok: "bt_ok b" "names_ok (btable b)" "0 \<notin> set fn" and n: "k + n = tcnt b" and "wf_fe fe"
  shows "\<exists>fe'. wf_fe fe' \<and> br_create_loop fn n fe (at (tpos b + 64 * k) b) = Some
    (case find (\<lambda>i. \<not> fe_live (btable b ! i) \<or> hit fn (btable b ! i)) [k..<tcnt b] of
       Some i \<Rightarrow> (if fe_live (btable b ! i) then Scan_Exists else Scan_Free, btable b ! i,
                  at (tpos b + 64 * Suc i) b)
     | None \<Rightarrow> (Scan_End, fe', at (tpos b + 64 * tcnt b) b))"
  using n assms(5)
proof (induction n arbitrary: k fe)
  case 0
  then show ?case by auto
next
  case (Suc n)
  then have k: "k < tcnt b" and kn: "Suc k + n = tcnt b" by auto
  let ?fe = "btable b ! k"
  note wf = wf_btable [OF ok(1) k]
  have rd: "read_fe fe (at (tpos b + 64 * k) b) = (?fe, at (tpos b + 64 * Suc k) b)"
    by (rule read_fe_at [OF ok(1) k Suc.prems(2)])
  obtain fe' where wf': "wf_fe fe'"
    and IH: "br_create_loop fn n ?fe (at (tpos b + 64 * Suc k) b) = Some
    (case find (\<lambda>i. \<not> fe_live (btable b ! i) \<or> hit fn (btable b ! i)) [Suc k..<tcnt b] of
       Some i \<Rightarrow> (if fe_live (btable b ! i) then Scan_Exists else Scan_Free, btable b ! i,
                  at (tpos b + 64 * Suc i) b)
     | None \<Rightarrow> (Scan_End, fe', at (tpos b + 64 * tcnt b) b))"
    using Suc.IH [OF kn wf] by blast
  have "?fe \<in> set (btable b)" using k by (metis length_btable nth_mem)
  then have "\<exists>t. fe_fname ?fe = Some t \<and> strcmp_eq (fe_name ?fe) fn = Some (t = fn)" if "fe_live ?fe"
    using ok(2,3) that by (auto simp: names_ok_def fe_fname_def strcmp_eq_cstr)
  then show ?case
    using IH k wf' by (intro exI [of _ fe']) (auto simp: rd upt_conv_Cons hit_def)
qed

lemma br_create_scan:
  assumes "bt_ok b" "names_ok (btable b)" "0 \<notin> set fn"
  shows "\<exists>fe'. wf_fe fe' \<and>
    br_create_loop fn (unat (sb_entry_count (b_sb b))) (b_fe b) (seek ob (table_pos b) b) = Some
    (case find (\<lambda>i. \<not> fe_live (btable b ! i) \<or> hit fn (btable b ! i)) [0..<tcnt b] of
       Some i \<Rightarrow> (if fe_live (btable b ! i) then Scan_Exists else Scan_Free, btable b ! i,
                  at (tpos b + 64 * Suc i) b)
     | None \<Rightarrow> (Scan_End, fe', at (tpos b + 64 * tcnt b) b))"
  using create_loop_table [OF assms, of 0 "tcnt b" "b_fe b"] assms(1)
  by (simp add: seek_table tcnt_def [symmetric] bt_ok_def)

text \<open>
  \<open>-sb.entry_size\<close> as a 32-bit and as a 64-bit \<open>off_t\<close>: the second is almost 4 GiB forward, which
  a device refuses.
\<close>

lemma step_back:
  "64 \<le> q \<Longrightarrow> q \<le> length (fh_data (b_h b)) + 64 \<Longrightarrow>
    (at q b)\<lparr>b_h := lseek_cur (off_of False (- 64)) (b_h (at q b))\<rparr> = at (q - 64) b"
  "fh_fixed (b_h b) \<Longrightarrow> length (fh_data (b_h b)) < q + 4294967232 \<Longrightarrow>
    (at q b)\<lparr>b_h := lseek_cur (off_of True (- 64)) (b_h (at q b))\<rparr> = at q b"
  "\<not> fh_fixed (b_h b) \<Longrightarrow>
    (at q b)\<lparr>b_h := lseek_cur (off_of True (- 64)) (b_h (at q b))\<rparr> = at (q + 4294967232) b"
  by (auto simp: lseek_cur_def off_of_def Let_def at_def)

lemma br_create_free_scan:
  assumes ok: "bt_ok b" "names_ok (btable b)" "0 \<notin> set fn"
    and i: "find_slot (btable b) = Some i" and new: "\<And>j. j < i \<Longrightarrow> \<not> hit fn (btable b ! j)"
  shows "br_create_loop fn (unat (sb_entry_count (b_sb b))) (b_fe b) (seek ob (table_pos b) b) =
      Some (Scan_Free, btable b ! i, at (tpos b + 64 * Suc i) b)"
    and "i < tcnt b" "tpos b + 64 * i + 64 \<le> length (fh_data (b_h b))"
    and "sb_entry_size (b_sb b) = 64"
    and "fresh_fe fn now 7 (btable b ! i) = new_fe fn now 7"
proof -
  have i': "i < tcnt b" "\<not> fe_live (btable b ! i)" "\<And>j. j < i \<Longrightarrow> fe_live (btable b ! j)"
    using i by (auto simp: find_slot_Some)
  have "find (\<lambda>i. \<not> fe_live (btable b ! i) \<or> hit fn (btable b ! i)) [0..<tcnt b] = Some i"
    using i' new by (auto simp: find_upt_Some)
  then show "br_create_loop fn (unat (sb_entry_count (b_sb b))) (b_fe b) (seek ob (table_pos b) b) =
      Some (Scan_Free, btable b ! i, at (tpos b + 64 * Suc i) b)"
    using br_create_scan [OF ok, of ob] i' by auto
  show "i < tcnt b" "tpos b + 64 * i + 64 \<le> length (fh_data (b_h b))" "sb_entry_size (b_sb b) = 64"
    using ok(1) i'(1) by (simp_all add: bt_ok_def)
  show "fresh_fe fn now 7 (btable b ! i) = new_fe fn now 7"
    by (rule fresh_fe_eq [OF wf_btable [OF ok(1) i'(1)]])
qed

text \<open>With a 32-bit \<open>off_t\<close> the file goes into the first free entry, if no earlier one has its name.\<close>

lemma br_create_first_free:
  assumes "bt_ok b" "names_ok (btable b)" "0 \<notin> set fn"
    and "find_slot (btable b) = Some i" and "\<And>j. j < i \<Longrightarrow> \<not> hit fn (btable b ! j)"
  shows "br_create False now fn b = Some (put_at (tpos b + 64 * i) (encode_fe (new_fe fn now 7)) b)"
proof -
  note scan = br_create_free_scan [OF assms]
  show ?thesis
    using scan(3) by (simp add: br_create_def scan(1,4,5) step_back Let_def put_file_at)
qed

text \<open>
  With a 64-bit \<open>off_t\<close> the seek fails on a device below 4 GiB, and the entry is written over the
  one behind the free entry, or over what follows the table. In a regular file the seek succeeds, and
  the table stays as it was.
\<close>

lemma br_create_next:
  assumes "bt_ok b" "names_ok (btable b)" "0 \<notin> set fn"
    and "find_slot (btable b) = Some i" and "\<And>j. j < i \<Longrightarrow> \<not> hit fn (btable b ! j)"
    and dev: "fh_fixed (b_h b)" "length (fh_data (b_h b)) < 2 ^ 32 - 64"
    and room: "tpos b + 64 * i + 128 \<le> length (fh_data (b_h b))"
  shows "br_create True now fn b = Some (put_at (tpos b + 64 * Suc i) (encode_fe (new_fe fn now 7)) b)"
proof -
  note scan = br_create_free_scan [OF assms(1-5)]
  show ?thesis
    using room dev by (simp add: br_create_def scan(1,4,5) step_back Let_def put_file_at)
qed

lemma br_create_far:
  assumes "bt_ok b" "names_ok (btable b)" "0 \<notin> set fn"
    and "find_slot (btable b) = Some i" and "\<And>j. j < i \<Longrightarrow> \<not> hit fn (btable b ! j)"
    and grows: "\<not> fh_fixed (b_h b)"
  shows "\<exists>b'. br_create True now fn b = Some b' \<and> btable b' = btable b \<and> b_used b' = b_used b"
proof -
  note scan = br_create_free_scan [OF assms(1-5)]
  let ?q = "tpos b + 64 * Suc i + 4294967232" and ?e = "encode_fe (new_fe fn now 7)" and ?D = "fh_data (b_h b)"
  let ?b = "put_file ?e (at ?q b)"
  have "br_create True now fn b = Some ?b"
    using grows by (simp add: br_create_def scan(1,4,5) step_back Let_def)
  moreover have "tpos ?b = tpos b" "tcnt ?b = tcnt b" "b_used ?b = b_used b"
    by (simp_all add: put_file_def tpos_def table_pos_def tcnt_def at_def)
  moreover have D: "fh_data (b_h ?b) = put_bytes ?q ?e (?D @ replicate (?q + length ?e - length ?D) 0)"
    using grows by (simp add: put_file_def sys_write_def Let_def)
  have "get_bytes (tpos b + 64 * j) 64 (fh_data (b_h ?b)) = get_bytes (tpos b + 64 * j) 64 ?D"
    if "j < tcnt b" for j
  proof -
    have j: "tpos b + 64 * j + 64 \<le> length ?D" "tpos b + 64 * j + 64 \<le> ?q"
      using assms(1) that by (auto simp: bt_ok_def)
    have "get_bytes (tpos b + 64 * j) 64 (fh_data (b_h ?b)) =
        get_bytes (tpos b + 64 * j) 64 (?D @ replicate (?q + length ?e - length ?D) 0)"
      unfolding D using j by (intro get_put_disjoint) auto
    then show ?thesis using j(1) by (simp add: get_bytes_def)
  qed
  then have "btable ?b = btable b" using calculation(2,3)
    by (intro nth_equalityI) (simp_all add: nth_btable)
  ultimately show ?thesis by blast
qed

section \<open>Removing\<close>

lemma br_put_blocks_eq:
  assumes "b_used b = Obj u" "length u \<le> 2 ^ 31"
    and "\<And>x. x \<in> set bs \<Longrightarrow> x \<noteq> 0 \<Longrightarrow> unat x < length u"
  shows "br_put_blocks bs b = Some (b\<lparr>b_used := Obj (clear_used (takeWhile (\<lambda>x. x \<noteq> 0) bs) u)\<rparr>)"
  using assms
proof (induction bs arbitrary: b u)
  case Nil
  then show ?case by (cases b) simp
next
  case (Cons x bs)
  show ?case
  proof (cases "x = 0")
    case True
    then show ?thesis using Cons.prems(1) by (cases b) simp
  next
    case False
    let ?b = "b\<lparr>b_used := Obj (u[unat x := 0])\<rparr>"
    have "br_put_blocks bs ?b =
        Some (?b\<lparr>b_used := Obj (clear_used (takeWhile (\<lambda>x. x \<noteq> 0) bs) (u[unat x := 0]))\<rparr>)"
      using Cons.prems by (intro Cons.IH) auto
    moreover have "unat x < length u" using Cons.prems(3) False by simp
    ultimately show ?thesis
      using False Cons.prems(1,2) by (simp add: br_put_data_block_def br_set_used_def)
  qed
qed

lemma at_used: "(at p b)\<lparr>b_used := v\<rparr> = at p (b\<lparr>b_used := v\<rparr>)"
  by (simp add: at_def)

lemma used_simps [simp]:
  "tpos (b\<lparr>b_used := v\<rparr>) = tpos b" "tcnt (b\<lparr>b_used := v\<rparr>) = tcnt b"
  "btable (b\<lparr>b_used := v\<rparr>) = btable b" "bt_ok (b\<lparr>b_used := v\<rparr>) = bt_ok b"
  by (simp_all add: tpos_def table_pos_def tcnt_def btable_def bt_ok_def)

lemma put_at_at [simp]: "put_at p xs (at q b) = put_at p xs b"
  by (simp add: put_at_def at_def)

lemma br_remove_some:
  assumes ok: "bt_ok b" "names_ok (btable b)" "0 \<notin> set fn"
    and i: "find_file fn (btable b) = Some i"
    and u: "b_used b = Obj u" "length u \<le> 2 ^ 31"
    and rng: "\<And>x. x \<in> set (fe_blocks (btable b ! i)) \<Longrightarrow> x \<noteq> 0 \<Longrightarrow> unat x < length u"
  shows "br_remove ob fn b = Some (put_at (tpos b + 64 * i) (encode_fe zero_fe)
    (b\<lparr>b_used := Obj (clear_used (takeWhile (\<lambda>x. x \<noteq> 0) (fe_blocks (btable b ! i))) u)\<rparr>))"
proof -
  have i': "i < tcnt b" using i by (simp add: find_file_Some)
  have l: "br_lookup ob fn b = Some (int i, btable b ! i, at (tpos b + 64 * Suc i) b)"
    using br_lookup_table [OF ok, of ob] i by auto
  show ?thesis
    using i' ok(1) u rng
    by (simp add: br_remove_def l br_put_blocks_eq [of _ u] at_used write_entry_at_eq)
qed

end
