(* ===== verification/Sfs_Browser_Data.thy ===== *)
theory Sfs_Browser_Data
  imports Sfs_Browser_Facts
begin

unbundle bit_operations_syntax

text \<open>
  File data in the browser: \<open>sfs_write\<close> stores its input in the first free blocks and leaves every
  other byte of the data area alone, and \<open>sfs_read\<close> prints it from there.
\<close>

section \<open>Storing data\<close>

definition free_blocks :: "byte list \<Rightarrow> nat \<Rightarrow> nat \<Rightarrow> nat list" where
  "free_blocks u lo hi = filter (\<lambda>i. u ! i = 0) [lo..<hi]"

lemma filter_find: "find P xs = (case filter P xs of [] \<Rightarrow> None | x # _ \<Rightarrow> Some x)"
  by (induction xs) auto

lemma distinct_free_blocks [simp]: "distinct (free_blocks u lo hi)"
  by (simp add: free_blocks_def)

lemma free_blocks_set: "k \<in> set (free_blocks u lo hi) \<longleftrightarrow> lo \<le> k \<and> k < hi \<and> u ! k = 0"
  by (auto simp: free_blocks_def)

lemma free_blocks_take:
  assumes "free_blocks u lo hi = k # ks" "hi \<le> length u"
  shows "free_blocks (u[k := 1]) lo hi = ks"
proof -
  have k: "k < length u" using assms free_blocks_set [of k u lo hi] by simp
  have "free_blocks (u[k := 1]) lo hi = filter (\<lambda>i. i \<noteq> k) (free_blocks u lo hi)"
    using k by (auto simp: free_blocks_def nth_list_update conj_commute intro!: filter_cong)
  also have "\<dots> = ks"
  proof -
    have "distinct (k # ks)" using assms(1) distinct_free_blocks by metis
    then show ?thesis by (auto simp: assms(1) filter_id_conv)
  qed
  finally show ?thesis .
qed

lemma get_block_first:
  assumes "b_used b = Obj u" "length u = unat (sb_partition_size (b_sb b))" "length u \<le> 2 ^ 31"
    and "free_blocks u (unat (sb_data_block_start (b_sb b))) (length u) = k # ks"
  shows "br_get_data_block b = Some (int k, b\<lparr>b_used := Obj (u[k := 1])\<rparr>)"
proof -
  have "k < length u" using assms(4) free_blocks_set [of k] by (metis list.set_intros(1))
  then show ?thesis
    using assms
    by (simp add: br_get_data_block_def scan_free_find filter_find free_blocks_def br_set_used_def)
qed

text \<open>What the loop works on: the table, and the data blocks behind it.\<close>

definition store_ok :: "browser \<Rightarrow> byte list \<Rightarrow> bool" where
  "store_ok b u \<longleftrightarrow> bt_ok b \<and> b_used b = Obj u \<and> length (b_block b) = 512 \<and>
     sb_block_size (b_sb b) = 512 \<and> length u = unat (sb_partition_size (b_sb b)) \<and>
     512 * length u \<le> length (fh_data (b_h b)) \<and> 512 * length u \<le> 2 ^ 31 \<and>
     tpos b + 64 * tcnt b \<le> 512 * unat (sb_data_block_start (b_sb b)) \<and>
     0 < unat (sb_data_block_start (b_sb b))"

abbreviation bfree :: "browser \<Rightarrow> byte list \<Rightarrow> nat list" where
  "bfree b u \<equiv> free_blocks u (unat (sb_data_block_start (b_sb b))) (length u)"

lemma block_pos:
  assumes "512 * n \<le> 2 ^ 31" "k < n"
  shows "unat (word_of_int (int k) * 512 :: u32) = 512 * k"
proof -
  have "(word_of_int (int k) * 512 :: u32) = of_nat (512 * k)" by simp
  then show ?thesis using assms by (simp only: unat_of_nat) (simp del: of_nat_mult)
qed

lemma write_block_eq:
  assumes "store_ok b u" "k < length u" "n \<le> 512"
  shows "write_block ob (word_of_int (int k) * 512) n b = Some (put_at (512 * k) (take n (b_block b)) b)"
proof -
  have p: "unat (word_of_int (int k) * 512 :: u32) = 512 * k"
    using assms by (intro block_pos [of "length u"]) (auto simp: store_ok_def)
  have "512 * k < 2 ^ 31" "512 * k + n \<le> length (fh_data (b_h b))" "n \<le> length (b_block b)"
    using assms by (auto simp: store_ok_def)
  then show ?thesis
    using assms(3) p seek_at [of "word_of_int (int k) * 512" b ob] by (simp add: write_block_def put_file_at)
qed

text \<open>\<open>b'\<close> is \<open>b\<close> with the contents \<open>cs\<close> stored in the blocks \<open>ks\<close>, and nothing else changed.\<close>

definition block_of :: "nat \<Rightarrow> browser \<Rightarrow> byte list" where
  "block_of k b = get_bytes (512 * k) 512 (fh_data (b_h b))"

definition stored ::
  "browser \<Rightarrow> byte list \<Rightarrow> nat list \<Rightarrow> byte list list \<Rightarrow> browser \<Rightarrow> byte list \<Rightarrow> bool" where
  "stored b u ks cs b' u' \<longleftrightarrow> store_ok b' u' \<and> b_sb b' = b_sb b \<and> btable b' = btable b \<and>
     b_out b' = b_out b \<and> length u' = length u \<and> bfree b' u' = drop (length ks) (bfree b u) \<and>
     (\<forall>j < length ks. block_of (ks ! j) b' = cs ! j) \<and>
     (\<forall>k < length u. k \<notin> set ks \<longrightarrow> block_of k b' = block_of k b)"

lemma stored_refl: "store_ok b u \<Longrightarrow> stored b u [] [] b u"
  by (simp add: stored_def)

lemma stored_Cons:
  assumes 1: "stored b u [k] [c] b1 u1" and 2: "stored b1 u1 ks cs b' u'"
    and k: "k \<notin> set ks" "k < length u" and len: "length ks = length cs"
  shows "stored b u (k # ks) (c # cs) b' u'"
proof -
  have "block_of k b' = c" using 1 2 k by (simp add: stored_def)
  then have "block_of ((k # ks) ! j) b' = (c # cs) ! j" if "j < length (k # ks)" for j
    using that 2 by (cases j) (auto simp: stored_def)
  moreover have "block_of m b' = block_of m b" if "m < length u" "m \<notin> set (k # ks)" for m
    using that 1 2 by (simp add: stored_def)
  moreover have "bfree b' u' = drop (length (k # ks)) (bfree b u)"
  proof -
    have "bfree b' u' = drop (length ks) (bfree b1 u1)" using 2 unfolding stored_def by blast
    also have "bfree b1 u1 = drop (length [k]) (bfree b u)" using 1 unfolding stored_def by blast
    finally show ?thesis by (simp add: drop_drop)
  qed
  ultimately show ?thesis using 1 2 by (auto simp: stored_def)
qed

lemma block_disjoint:
  assumes "k \<noteq> m" "512 * k + 512 \<le> length D" "512 * m + 512 \<le> length D" "length c = 512"
  shows "get_bytes (512 * m) 512 (put_bytes (512 * k) c D) = get_bytes (512 * m) 512 D"
proof -
  have "k < m \<or> m < k" using assms(1) by auto
  then show ?thesis using assms by (intro get_put_disjoint) auto
qed

text \<open>Overwriting the start of a block is writing the whole block with its old rest.\<close>

lemma put_prefix:
  assumes "length x \<le> n" "p + n \<le> length D"
  shows "put_bytes p x D = put_bytes p (x @ drop (length x) (get_bytes p n D)) D"
proof -
  let ?r = "get_bytes (p + length x) (n - length x) D"
  have r: "drop (length x) (get_bytes p n D) = ?r"
    using assms by (simp add: get_bytes_def drop_take add.commute)
  have "?r = get_bytes (p + length x) (n - length x) (put_bytes p x D)"
    using assms by (intro get_put_disjoint [symmetric]) auto
  then have "put_bytes p x D = put_bytes (p + length x) ?r (put_bytes p x D)" using assms by simp
  also have "\<dots> = put_bytes p (x @ ?r) D" using assms by (subst put_put_append) auto
  finally show ?thesis by (simp add: r)
qed

lemma stored_one:
  assumes ok: "store_ok b u" and f: "bfree b u = k # ks"
    and n: "n \<le> 512" "c = take n (b_block b) @ drop n (block_of k b)"
  defines "b1 \<equiv> put_at (512 * k) (take n (b_block b)) (b\<lparr>b_used := Obj (u[k := 1])\<rparr>)"
  shows "stored b u [k] [c] b1 (u[k := 1])"
proof -
  have k: "unat (sb_data_block_start (b_sb b)) \<le> k" "k < length u"
    using f free_blocks_set [of k u] by (metis list.set_intros(1))+
  let ?D = "fh_data (b_h b)" and ?x = "take n (b_block b)"
  have len: "length ?x = n" using ok n(1) by (simp add: store_ok_def)
  have fits: "512 * j + 512 \<le> length ?D" if "j < length u" for j
    using that ok by (auto simp: store_ok_def)
  have away: "tpos b + 64 * tcnt b \<le> 512 * k" using ok k by (auto simp: store_ok_def)
  have tab: "btable b1 = btable b" "bt_ok b1"
    using btable_put_away [of "b\<lparr>b_used := Obj (u[k := 1])\<rparr>" "512 * k" ?x] ok away fits [OF k(2)] len n(1)
    unfolding b1_def by (auto simp: store_ok_def)
  have put: "put_bytes (512 * k) ?x ?D = put_bytes (512 * k) c ?D"
    using put_prefix [of ?x 512 "512 * k" ?D] fits [OF k(2)] n len by (simp add: block_of_def)
  have lc: "length c = 512" using n len fits [OF k(2)] by (simp add: block_of_def)
  have "block_of k b1 = c" using put lc fits [OF k(2)] by (simp add: block_of_def b1_def)
  moreover have "block_of m b1 = block_of m b" if "m < length u" "m \<noteq> k" for m
    using that put lc fits [OF k(2)] fits [OF that(1)] block_disjoint [of k m ?D c]
    by (simp add: block_of_def b1_def)
  moreover have "store_ok b1 (u[k := 1])"
    using ok tab fits [OF k(2)] len n(1) unfolding b1_def by (simp add: store_ok_def)
  ultimately show ?thesis
    using tab free_blocks_take [OF f] by (simp add: stored_def) (simp add: b1_def f)
qed

section \<open>The writing loop\<close>

definition typed :: "stdin \<Rightarrow> byte list" where
  "typed s = concat (takeWhile (\<lambda>c. c \<noteq> []) (in_chunks s))"

lemma read_stdin_typed:
  assumes "read_stdin n s = (xs, s')" "0 < n"
  shows "xs = [] \<longleftrightarrow> typed s = []" "length xs \<le> n"
    and "xs \<noteq> [] \<Longrightarrow> typed s = xs @ typed s'"
    and "xs \<noteq> [] \<Longrightarrow> stdin_size s' < stdin_size s"
proof -
  have "(xs = [] \<longleftrightarrow> typed s = []) \<and> length xs \<le> n \<and> (xs \<noteq> [] \<longrightarrow> typed s = xs @ typed s')"
  proof (cases "in_chunks s")
    case (Cons c cs)
    then show ?thesis
      using assms append_take_drop_id [of n c]
      by (cases "length c \<le> n"; cases "c = []") (auto simp: read_stdin_def typed_def simp del: append_take_drop_id)
  qed (use assms in \<open>simp add: read_stdin_def typed_def\<close>)
  then show "xs = [] \<longleftrightarrow> typed s = []" "length xs \<le> n" "xs \<noteq> [] \<Longrightarrow> typed s = xs @ typed s'"
    by blast+
  show "xs \<noteq> [] \<Longrightarrow> stdin_size s' < stdin_size s"
    using read_stdin_size(1) [OF assms(1)] by (cases xs) auto
qed

text \<open>The input cut into blocks of 512 bytes.\<close>

fun blocks_of_data :: "nat \<Rightarrow> byte list \<Rightarrow> byte list list" where
  "blocks_of_data 0 d = []"
| "blocks_of_data (Suc q) d = take 512 d # blocks_of_data q (drop 512 d)"

lemma length_blocks_of_data [simp]: "length (blocks_of_data q d) = q"
  by (induction q arbitrary: d) auto

lemma concat_blocks_of_data: "concat (blocks_of_data q d) = take (512 * q) d"
  by (induction q arbitrary: d) (simp_all add: take_add)

lemma store_ok_in [simp]: "store_ok (b\<lparr>b_in := i\<rparr>) u = store_ok b u"
  by (simp add: store_ok_def bt_ok_def tpos_def tcnt_def table_pos_def)

lemma store_ok_block [simp]: "length c = 512 \<Longrightarrow> length (b_block b) = 512 \<Longrightarrow>
    store_ok (b\<lparr>b_block := c\<rparr>) u = store_ok b u"
  by (simp add: store_ok_def bt_ok_def tpos_def tcnt_def table_pos_def)

lemma stored_start:
  "stored (b\<lparr>b_in := i, b_block := c\<rparr>) u ks cs b' u' = stored b u ks cs b' u'"
  by (simp add: stored_def block_of_def btable_def tpos_def tcnt_def table_pos_def)

text \<open>Less than what is missing from a block is left: it goes into \<open>block\<close>, and the loop ends.\<close>

lemma write_loop_part:
  assumes "ci + tr = 512" "length (typed (b_in b)) < tr" "length (b_block b) = 512"
  shows "\<exists>inp c. br_write_loop ob ci tr tot bi fe b =
      Some (True, ci + length (typed (b_in b)), tot, bi, fe, b\<lparr>b_in := inp, b_block := c\<rparr>) \<and>
    length c = 512 \<and> take (ci + length (typed (b_in b))) c = take ci (b_block b) @ typed (b_in b)"
  using assms
proof (induction "stdin_size (b_in b)" arbitrary: b ci tr rule: less_induct)
  case less
  obtain xs inp where r: "read_stdin tr (b_in b) = (xs, inp)" by fastforce
  have tr: "0 < tr" using less.prems by simp
  note read = read_stdin_typed [OF r tr]
  show ?case
  proof (cases "xs = []")
    case True
    have "br_write_loop ob ci tr tot bi fe b = Some (True, ci, tot, bi, fe, b\<lparr>b_in := inp\<rparr>)"
      using r True by (subst br_write_loop.simps) (simp add: Let_def)
    then show ?thesis
      using read(1) True less.prems(3) by (intro exI [of _ inp] exI [of _ "b_block b"]) simp
  next
    case False
    let ?n = "length xs" and ?b = "b\<lparr>b_in := inp, b_block := put_bytes ci xs (b_block b)\<rparr>"
    have t: "typed (b_in b) = xs @ typed inp" by (rule read(3) [OF False])
    then have n: "?n < tr" using less.prems(2) by simp
    have step: "br_write_loop ob ci tr tot bi fe b = br_write_loop ob (ci + ?n) (tr - ?n) tot bi fe ?b"
      using r False n less.prems(1) by (subst br_write_loop.simps) (simp add: Let_def)
    have "stdin_size (b_in ?b) < stdin_size (b_in b)" using read(4) [OF False] by simp
    moreover have "ci + ?n + (tr - ?n) = 512" "length (typed (b_in ?b)) < tr - ?n" "length (b_block ?b) = 512"
      using less.prems n t by simp_all
    ultimately obtain inp' c where IH: "br_write_loop ob (ci + ?n) (tr - ?n) tot bi fe ?b =
        Some (True, ci + ?n + length (typed inp), tot, bi, fe, ?b\<lparr>b_in := inp', b_block := c\<rparr>)"
      "length c = 512" "take (ci + ?n + length (typed inp)) c = take (ci + ?n) (b_block ?b) @ typed inp"
      using less.hyps [of ?b "ci + ?n" "tr - ?n"] by auto
    have "take (ci + ?n) (b_block ?b) = take ci (b_block b) @ xs"
      using less.prems by (simp add: put_bytes_def min_def)
    then show ?thesis using step IH t by (intro exI [of _ inp'] exI [of _ c]) (simp add: add.assoc)
  qed
qed

text \<open>Else the block is filled, in as many pieces as the input comes in, and written.\<close>

lemma write_loop_full:
  assumes ok: "store_ok b u" and f: "bfree b u = k # ks" and bi: "bi < 9"
    and c: "ci + tr = 512" "0 < tr" and r: "read_stdin tr (b_in b) = (xs, inp)" "length xs = tr"
  shows "\<exists>b1. br_write_loop ob ci tr tot bi fe b =
      br_write_loop ob 0 512 (tot + 512) (Suc bi) (fe\<lparr>fe_blocks := (fe_blocks fe)[bi := of_nat k]\<rparr>) b1 \<and>
    stored b u [k] [take ci (b_block b) @ xs] b1 (u[k := 1]) \<and> b_in b1 = inp"
proof -
  let ?c = "take ci (b_block b) @ xs"
  have l: "length (b_block b) = 512" using ok by (simp add: store_ok_def)
  then have lc: "length ?c = 512" and pb: "put_bytes ci xs (b_block b) = ?c"
    using c r(2) by (simp_all add: put_bytes_def)
  let ?b0 = "b\<lparr>b_in := inp, b_block := ?c\<rparr>"
  have ok0: "store_ok ?b0 u"
    using ok store_ok_block [OF lc, of "b\<lparr>b_in := inp\<rparr>" u] l by simp
  have f0: "bfree ?b0 u = k # ks" using f by simp
  have k: "k < length u" using f free_blocks_set [of k u] by (metis list.set_intros(1))
  have u: "b_used ?b0 = Obj u" "length u = unat (sb_partition_size (b_sb ?b0))" "length u \<le> 2 ^ 31"
    using ok0 by (auto simp: store_ok_def)
  have g: "br_get_data_block ?b0 = Some (int k, ?b0\<lparr>b_used := Obj (u[k := 1])\<rparr>)"
    using f0 by (intro get_block_first [OF u]) simp
  let ?b1 = "put_at (512 * k) (take 512 (b_block ?b0)) (?b0\<lparr>b_used := Obj (u[k := 1])\<rparr>)"
  have ok': "store_ok (?b0\<lparr>b_used := Obj (u[k := 1])\<rparr>) (u[k := 1])"
    using ok0 by (simp add: store_ok_def)
  have w: "write_block ob (word_of_int (int k) * 512) 512 (?b0\<lparr>b_used := Obj (u[k := 1])\<rparr>) = Some ?b1"
    using write_block_eq [OF ok', of k 512 ob] k by simp
  have bs: "sb_block_size (b_sb b) = 512" using ok by (simp add: store_ok_def)
  have loop: "br_write_loop ob ci tr tot bi fe b =
      br_write_loop ob 0 512 (tot + 512) (Suc bi) (fe\<lparr>fe_blocks := (fe_blocks fe)[bi := of_nat k]\<rparr>) ?b1"
    using r c bi g w by (subst br_write_loop.simps) (auto simp: Let_def bs pb)
  have "stored ?b0 u [k] [?c] ?b1 (u[k := 1])"
    using lc k ok c(1) by (intro stored_one [OF ok0 f0]) (auto simp: block_of_def store_ok_def min_def)
  then have "stored b u [k] [?c] ?b1 (u[k := 1])" by (simp add: stored_start)
  then show ?thesis using loop by (intro exI [of _ ?b1]) simp
qed

lemma write_loop_fill:
  assumes "store_ok b u" "bfree b u = k # ks" "bi < 9"
    and "ci + tr = 512" "0 < tr" "tr \<le> length (typed (b_in b))"
  shows "\<exists>b1. br_write_loop ob ci tr tot bi fe b =
      br_write_loop ob 0 512 (tot + 512) (Suc bi) (fe\<lparr>fe_blocks := (fe_blocks fe)[bi := of_nat k]\<rparr>) b1 \<and>
    stored b u [k] [take ci (b_block b) @ take tr (typed (b_in b))] b1 (u[k := 1]) \<and>
    typed (b_in b1) = drop tr (typed (b_in b))"
  using assms
proof (induction "stdin_size (b_in b)" arbitrary: b ci tr rule: less_induct)
  case less
  obtain xs inp where r: "read_stdin tr (b_in b) = (xs, inp)" by fastforce
  note read = read_stdin_typed [OF r less.prems(5)]
  have ne: "xs \<noteq> []" using read(1) less.prems(5,6) by auto
  have t: "typed (b_in b) = xs @ typed inp" by (rule read(3) [OF ne])
  have l: "length (b_block b) = 512" using less.prems(1) by (simp add: store_ok_def)
  let ?n = "length xs" and ?b = "b\<lparr>b_in := inp, b_block := put_bytes ci xs (b_block b)\<rparr>"
  show ?case
  proof (cases "?n = tr")
    case True
    then show ?thesis
      using write_loop_full [OF less.prems(1-5) r True, of ob tot fe] t by auto
  next
    case False
    then have n: "?n < tr" using read(2) by simp
    have step: "br_write_loop ob ci tr tot bi fe b = br_write_loop ob (ci + ?n) (tr - ?n) tot bi fe ?b"
      using r ne n less.prems(4) by (subst br_write_loop.simps) (simp add: Let_def)
    have "length (put_bytes ci xs (b_block b)) = 512" using l less.prems(4) n by simp
    then have "store_ok ?b u" using less.prems(1) store_ok_block [of _ "b\<lparr>b_in := inp\<rparr>" u] l by simp
    moreover have "ci + ?n + (tr - ?n) = 512" "0 < tr - ?n" "tr - ?n \<le> length (typed (b_in ?b))"
      "bfree ?b u = k # ks" "stdin_size (b_in ?b) < stdin_size (b_in b)"
      using less.prems n t read(4) [OF ne] by simp_all
    ultimately obtain b1 where IH: "br_write_loop ob (ci + ?n) (tr - ?n) tot bi fe ?b =
        br_write_loop ob 0 512 (tot + 512) (Suc bi) (fe\<lparr>fe_blocks := (fe_blocks fe)[bi := of_nat k]\<rparr>) b1"
      "stored ?b u [k] [take (ci + ?n) (b_block ?b) @ take (tr - ?n) (typed inp)] b1 (u[k := 1])"
      "typed (b_in b1) = drop (tr - ?n) (typed inp)"
      using less.hyps [of ?b "ci + ?n" "tr - ?n"] less.prems(3) by auto
    have c: "take (ci + ?n) (b_block ?b) @ take (tr - ?n) (typed inp) =
        take ci (b_block b) @ take tr (typed (b_in b))"
      using less.prems(4) l t n by (simp add: put_bytes_def min_def)
    then show ?thesis using step IH t n by (intro exI [of _ b1]) (simp add: c stored_start)
  qed
qed

lemma write_loop_step:
  assumes "store_ok b u" "bfree b u = k # ks" "typed (b_in b) = d" "512 \<le> length d" "bi < 9"
  shows "\<exists>b1. br_write_loop ob 0 512 tot bi fe b =
      br_write_loop ob 0 512 (tot + 512) (Suc bi) (fe\<lparr>fe_blocks := (fe_blocks fe)[bi := of_nat k]\<rparr>) b1 \<and>
    stored b u [k] [take 512 d] b1 (u[k := 1]) \<and> typed (b_in b1) = drop 512 d"
  using write_loop_fill [OF assms(1,2,5), of 0 512 ob tot fe] assms(3,4) by simp

text \<open>No whole block is left.\<close>

lemma write_loop_last:
  assumes "store_ok b u" "typed (b_in b) = d" "length d < 512"
  shows "\<exists>b' u'. br_write_loop ob 0 512 tot bi fe b = Some (True, length d, tot, bi, fe, b') \<and>
    stored b u [] [] b' u' \<and> take (length d) (b_block b') = d"
proof -
  have l: "length (b_block b) = 512" using assms(1) by (simp add: store_ok_def)
  then obtain inp c where w: "br_write_loop ob 0 512 tot bi fe b =
      Some (True, length d, tot, bi, fe, b\<lparr>b_in := inp, b_block := c\<rparr>)"
    "length c = 512" "take (length d) c = d"
    using write_loop_part [of 0 512 b ob tot bi fe] assms by auto
  have "store_ok (b\<lparr>b_in := inp, b_block := c\<rparr>) u"
    using assms(1) store_ok_block [OF w(2), of "b\<lparr>b_in := inp\<rparr>" u] l by simp
  then have "stored b u [] [] (b\<lparr>b_in := inp, b_block := c\<rparr>) u"
    using stored_refl stored_start by blast
  then show ?thesis using w by auto
qed

text \<open>A block number goes into the array, then the others behind it.\<close>

lemma put_block_numbers:
  assumes "i < length xs"
  shows "put_bytes (Suc i) ys (xs[i := x]) = put_bytes i (x # ys) xs"
proof -
  have "xs[i := x] = put_bytes i [x] xs" using assms by (simp add: put_bytes_def list_update_take_drop)
  then show ?thesis using assms by (simp add: put_put_append)
qed

lemma write_loop_all:
  assumes "store_ok b u" "typed (b_in b) = d" "length d = 512 * q + r" "r < 512" "bi + q \<le> 9"
    and "q \<le> length (bfree b u)" "length (fe_blocks fe) = 9"
  shows "\<exists>b' u'. br_write_loop ob 0 512 tot bi fe b = Some (True, r, tot + of_nat (512 * q), bi + q,
      fe\<lparr>fe_blocks := put_bytes bi (map of_nat (take q (bfree b u))) (fe_blocks fe)\<rparr>, b') \<and>
    stored b u (take q (bfree b u)) (blocks_of_data q d) b' u' \<and>
    take r (b_block b') = drop (512 * q) d"
  using assms
proof (induction q arbitrary: d b u bi fe tot)
  case 0
  have "fe\<lparr>fe_blocks := put_bytes bi [] (fe_blocks fe)\<rparr> = fe" by (cases fe) (simp add: put_bytes_def)
  then show ?case using 0 write_loop_last [OF 0(1,2), of ob tot bi fe] by simp
next
  case (Suc q)
  obtain k ks where f: "bfree b u = k # ks" using Suc.prems(6) by (cases "bfree b u") auto
  let ?fe = "fe\<lparr>fe_blocks := (fe_blocks fe)[bi := of_nat k]\<rparr>"
  have "512 \<le> length d" "bi < 9" using Suc.prems by auto
  then obtain b1 where step: "br_write_loop ob 0 512 tot bi fe b =
      br_write_loop ob 0 512 (tot + 512) (Suc bi) ?fe b1"
    and st: "stored b u [k] [take 512 d] b1 (u[k := 1])" and ch: "typed (b_in b1) = drop 512 d"
    using write_loop_step [OF Suc.prems(1) f Suc.prems(2), of bi ob tot fe] by auto
  have f1: "bfree b1 (u[k := 1]) = ks" using st f by (auto simp: stored_def)
  have ok1: "store_ok b1 (u[k := 1])" using st by (simp add: stored_def)
  have "length (drop 512 d) = 512 * q + r" "Suc bi + q \<le> 9" "q \<le> length (bfree b1 (u[k := 1]))"
    "length (fe_blocks ?fe) = 9"
    using Suc.prems f f1 by auto
  from Suc.IH [OF ok1 ch this(1) Suc.prems(4) this(2-4), of "tot + 512"]
  obtain b' u' where loop: "br_write_loop ob 0 512 (tot + 512) (Suc bi) ?fe b1 =
      Some (True, r, tot + 512 + of_nat (512 * q), Suc bi + q,
        ?fe\<lparr>fe_blocks := put_bytes (Suc bi) (map of_nat (take q ks)) (fe_blocks ?fe)\<rparr>, b')"
    and st': "stored b1 (u[k := 1]) (take q ks) (blocks_of_data q (drop 512 d)) b' u'"
    and rest: "take r (b_block b') = drop (512 * q) (drop 512 d)"
    unfolding f1 by blast
  have "distinct (k # ks)" "k < length u"
    using distinct_free_blocks f free_blocks_set [of k u] by (metis, metis list.set_intros(1))
  then have S: "stored b u (k # take q ks) (blocks_of_data (Suc q) d) b' u'"
    unfolding blocks_of_data.simps using Suc.prems(6) f
    by (intro stored_Cons [OF st st']) (auto dest: in_set_takeD)
  have P: "put_bytes (Suc bi) (map of_nat (take q ks)) (fe_blocks ?fe) =
      put_bytes bi (map of_nat (take (Suc q) (bfree b u))) (fe_blocks fe)"
    using \<open>bi < 9\<close> Suc.prems(7) by (simp add: put_block_numbers f)
  have "tot + 512 + of_nat (512 * q) = tot + of_nat (512 * Suc q)" "Suc bi + q = bi + Suc q"
    "drop (512 * q) (drop 512 d) = drop (512 * Suc q) d"
    by (simp_all add: algebra_simps)
  then show ?case using loop step S rest f unfolding P by auto
qed

section \<open>The whole write\<close>

lemma stored_append:
  assumes 1: "stored b u ks cs b1 u1" and 2: "stored b1 u1 ks' cs' b' u'"
    and k: "set ks \<inter> set ks' = {}" "\<forall>k \<in> set ks. k < length u"
    and len: "length ks = length cs"
  shows "stored b u (ks @ ks') (cs @ cs') b' u'"
proof -
  have keep: "block_of (ks ! j) b' = cs ! j" if "j < length ks" for j
  proof -
    have "ks ! j \<in> set ks" using that by simp
    then have "ks ! j \<notin> set ks'" "ks ! j < length u" using k by auto
    then show ?thesis using 1 2 that by (simp add: stored_def)
  qed
  then have "block_of ((ks @ ks') ! j) b' = (cs @ cs') ! j" if "j < length (ks @ ks')" for j
    using that 2 len by (auto simp: stored_def nth_append)
  moreover have "block_of m b' = block_of m b" if "m < length u" "m \<notin> set (ks @ ks')" for m
    using that 1 2 by (simp add: stored_def)
  moreover have "bfree b' u' = drop (length (ks @ ks')) (bfree b u)"
  proof -
    have "bfree b' u' = drop (length ks') (bfree b1 u1)" using 2 unfolding stored_def by blast
    also have "bfree b1 u1 = drop (length ks) (bfree b u)" using 1 unfolding stored_def by blast
    finally show ?thesis by (simp add: drop_drop add.commute)
  qed
  ultimately show ?thesis using 1 2 by (auto simp: stored_def)
qed

text \<open>Blocks for \<open>n\<close> bytes, and what the first blocks of a list hold.\<close>

definition nblocks :: "nat \<Rightarrow> nat" where
  "nblocks n = (n + 511) div 512"

definition contents :: "nat list \<Rightarrow> browser \<Rightarrow> byte list" where
  "contents ks b = concat (map (\<lambda>k. block_of k b) ks)"

lemma stored_contents:
  assumes "stored b u ks cs b' u'" "length ks = length cs"
  shows "contents ks b' = concat cs"
proof -
  have "map (\<lambda>k. block_of k b') ks = cs"
    using assms by (intro nth_equalityI) (simp_all add: stored_def)
  then show ?thesis by (simp add: contents_def)
qed

text \<open>The loop from the start of a file: block numbers of the old content stay behind the new ones.\<close>

lemma write_loop_file:
  assumes ok: "store_ok b u" and ch: "typed (b_in b) = d" and d: "length d = 512 * q + r" "r < 512"
    and q: "q \<le> 9" "q \<le> length (bfree b u)" and fe: "length (fe_blocks fe) = 9"
  obtains b' u' where "br_write_loop ob 0 512 0 0 fe b = Some (True, r, of_nat (512 * q), q,
      fe\<lparr>fe_blocks := map of_nat (take q (bfree b u)) @ drop q (fe_blocks fe)\<rparr>, b')"
    and "stored b u (take q (bfree b u)) (blocks_of_data q d) b' u'"
    and "take r (b_block b') = drop (512 * q) d" "store_ok b' u'" "b_sb b' = b_sb b"
    and "bfree b' u' = drop q (bfree b u)" "length u' = length u" "tpos b' = tpos b" "tcnt b' = tcnt b"
proof -
  have bl: "put_bytes 0 (map of_nat (take q (bfree b u))) (fe_blocks fe) =
      map of_nat (take q (bfree b u)) @ drop q (fe_blocks fe)"
    using q by (simp add: put_bytes_def)
  obtain b' u' where loop: "br_write_loop ob 0 512 0 0 fe b = Some (True, r, of_nat (512 * q), q,
      fe\<lparr>fe_blocks := put_bytes 0 (map of_nat (take q (bfree b u))) (fe_blocks fe)\<rparr>, b')"
    and st: "stored b u (take q (bfree b u)) (blocks_of_data q d) b' u'"
    and rest: "take r (b_block b') = drop (512 * q) d"
    using write_loop_all [OF ok ch d, of 0 fe ob 0] q fe by auto
  have pos: "tpos b' = tpos b" "tcnt b' = tcnt b"
    using st by (simp_all add: stored_def tpos_def tcnt_def table_pos_def)
  have "length (take q (bfree b u)) = q" using q by simp
  then have "bfree b' u' = drop q (bfree b u)" using st unfolding stored_def by metis
  with pos show ?thesis
    using st by (intro that [OF loop [unfolded bl] st rest]) (simp_all only: stored_def)
qed

text \<open>
  The entry of a file with the data \<open>d\<close> in the blocks \<open>ks\<close>: numbers of old blocks behind these
  are left, so that the entry of a file that had no more blocks than \<open>d\<close> needs lists just \<open>ks\<close>.
\<close>

definition filled_fe :: "sfs_file_entry \<Rightarrow> byte list \<Rightarrow> u32 \<Rightarrow> nat list \<Rightarrow> sfs_file_entry" where
  "filled_fe fe d now ks = fe\<lparr>fe_size := of_nat (length d), fe_timestamp := now,
     fe_blocks := map of_nat ks @ drop (length ks) (fe_blocks fe)\<rparr>"

lemma filled_fe_simps [simp]:
  "fe_name (filled_fe fe d now ks) = fe_name fe" "fe_perms (filled_fe fe d now ks) = fe_perms fe"
  "fe_size (filled_fe fe d now ks) = of_nat (length d)"
  "fe_blocks (filled_fe fe d now ks) = map of_nat ks @ drop (length ks) (fe_blocks fe)"
  "fe_live (filled_fe fe d now ks) = fe_live fe" "fe_fname (filled_fe fe d now ks) = fe_fname fe"
  "hit fn (filled_fe fe d now ks) = hit fn fe"
  by (simp_all add: filled_fe_def fe_live_def fe_fname_def hit_def)

lemma wf_filled_fe [simp]: "wf_fe fe \<Longrightarrow> length ks \<le> 9 \<Longrightarrow> wf_fe (filled_fe fe d now ks)"
  by (simp add: filled_fe_def wf_fe_def)

text \<open>Data that ends with a block.\<close>

lemma br_write_data_whole:
  fixes now :: u32
  assumes ok: "store_ok b u" and ch: "typed (b_in b) = d" and d: "length d = 512 * q"
    and q: "q \<le> 9" "q \<le> length (bfree b u)"
    and fe: "wf_fe fe" and i: "i < tcnt b"
  defines "fe2 \<equiv> filled_fe fe d now (take q (bfree b u))"
  shows "\<exists>b2 u2. br_write_data ob now i fe b = Some (put_at (tpos b + 64 * i) (encode_fe fe2) b2) \<and>
    stored b u (take q (bfree b u)) (blocks_of_data q d) b2 u2"
proof -
  have bs: "sb_block_size (b_sb b) = 512" using ok by (simp add: store_ok_def)
  obtain b' u' where w: "br_write_loop ob 0 512 0 0 fe b = Some (True, 0, of_nat (512 * q), q,
      fe\<lparr>fe_blocks := map of_nat (take q (bfree b u)) @ drop q (fe_blocks fe)\<rparr>, b')"
    "stored b u (take q (bfree b u)) (blocks_of_data q d) b' u'" "store_ok b' u'"
    "tpos b' = tpos b" "tcnt b' = tcnt b"
    by (rule write_loop_file [OF ok ch _ _ q, of 0 fe ob]) (use d fe in \<open>auto simp: wf_fe_def\<close>)
  have "fe\<lparr>fe_blocks := map of_nat (take q (bfree b u)) @ drop q (fe_blocks fe),
      fe_size := of_nat (512 * q), fe_timestamp := now\<rparr> = fe2"
    using d q by (simp add: fe2_def filled_fe_def)
  then have "br_write_data ob now i fe b = Some (write_entry_at ob i fe2 b')"
    by (simp add: br_write_data_def bs w(1))
  moreover have "wf_fe fe2" using fe q by (simp add: fe2_def)
  ultimately show ?thesis
    using w i write_entry_at_eq [of b' i fe2 ob] by (auto simp: store_ok_def)
qed

text \<open>Data with a rest, which goes into one more block.\<close>

lemma one_more_block:
  assumes "q < length xs" "length ks = q"
  shows "(map f ks @ drop q xs)[q := f k] = map f (ks @ [k]) @ drop (length (ks @ [k])) xs"
    and "(map f (ks @ [k]) @ drop (length (ks @ [k])) xs) ! q = f k"
  using assms by (simp_all add: list_update_append nth_append Cons_nth_drop_Suc [symmetric])

lemma br_write_data_rest:
  fixes now :: u32
  assumes ok: "store_ok b u" and ch: "typed (b_in b) = d" and d: "length d = 512 * q + r" "r < 512" "0 < r"
    and q: "q < 9" "q < length (bfree b u)"
    and fe: "wf_fe fe" and i: "i < tcnt b"
  defines "ks \<equiv> take (Suc q) (bfree b u)"
  shows "\<exists>b2 u2 c. br_write_data ob now i fe b =
      Some (put_at (tpos b + 64 * i) (encode_fe (filled_fe fe d now ks)) b2) \<and>
    stored b u ks (blocks_of_data q d @ [c]) b2 u2 \<and> take r c = drop (512 * q) d"
proof -
  let ?k = "bfree b u ! q" and ?ks = "take q (bfree b u)"
  have bs: "sb_block_size (b_sb b) = 512" using ok by (simp add: store_ok_def)
  obtain b' u' where loop: "br_write_loop ob 0 512 0 0 fe b = Some (True, r, of_nat (512 * q), q,
      fe\<lparr>fe_blocks := map of_nat ?ks @ drop q (fe_blocks fe)\<rparr>, b')"
    and st: "stored b u ?ks (blocks_of_data q d) b' u'" and rest: "take r (b_block b') = drop (512 * q) d"
    and ok': "store_ok b' u'" and b': "b_sb b' = b_sb b" "bfree b' u' = drop q (bfree b u)"
      "length u' = length u" "tpos b' = tpos b" "tcnt b' = tcnt b"
    by (rule write_loop_file [OF ok ch d(1,2), of fe ob]) (use q fe in \<open>auto simp: wf_fe_def\<close>)
  have ks: "ks = ?ks @ [?k]" using q by (simp add: ks_def take_Suc_conv_app_nth)
  have f': "bfree b' u' = ?k # drop (Suc q) (bfree b u)" using b'(2) q by (simp add: Cons_nth_drop_Suc)
  have inside: "k < length u" if "k \<in> set (bfree b u)" for k using that by (simp add: free_blocks_set)
  have k: "?k < length u'" using inside q b'(3) by simp
  let ?b2 = "put_at (512 * ?k) (take r (b_block b')) (b'\<lparr>b_used := Obj (u'[?k := 1])\<rparr>)"
  let ?c = "take r (b_block b') @ drop r (block_of ?k b')"
  have st2: "stored b' u' [?k] [?c] ?b2 (u'[?k := 1])"
    using d by (intro stored_one [OF ok' f']) simp_all
  have "distinct ks" unfolding ks_def by simp
  then have ST: "stored b u ks (blocks_of_data q d @ [?c]) ?b2 (u'[?k := 1])"
    unfolding ks using inside q by (intro stored_append [OF st st2]) (auto dest!: in_set_takeD)
  have g: "br_get_data_block b' = Some (int ?k, b'\<lparr>b_used := Obj (u'[?k := 1])\<rparr>)"
    using ok' by (intro get_block_first [OF _ _ _ f']) (auto simp: store_ok_def)
  have "store_ok (b'\<lparr>b_used := Obj (u'[?k := 1])\<rparr>) (u'[?k := 1])" using ok' by (simp add: store_ok_def)
  from write_block_eq [OF this, of ?k r ob]
  have w: "write_block ob (word_of_int (int ?k) * 512) r (b'\<lparr>b_used := Obj (u'[?k := 1])\<rparr>) = Some ?b2"
    using k d(2) by simp
  have nz: "(of_nat ?k :: u32) \<noteq> -1"
    using small_not_minus_one [of ?k] k ok' by (simp add: store_ok_def)
  have "length ?ks = q" "q < length (fe_blocks fe)" using q fe by (simp_all add: wf_fe_def)
  note bl = one_more_block [OF this(2,1), of of_nat ?k, folded ks]
  have fe2: "fe\<lparr>fe_blocks := map of_nat ks @ drop (length ks) (fe_blocks fe),
      fe_size := of_nat (512 * q) + of_nat r, fe_timestamp := now\<rparr> = filled_fe fe d now ks"
    using d(1) by (simp add: filled_fe_def)
  have "br_write_data ob now i fe b = Some (write_entry_at ob i (filled_fe fe d now ks) ?b2)"
    unfolding br_write_data_def using q d(3) nz w b'(1)
    by (simp add: bs loop g Let_def bl fe2 del: of_nat_mult)
  moreover have "bt_ok ?b2" "wf_fe (filled_fe fe d now ks)"
    using st2 fe q by (simp_all add: stored_def store_ok_def ks_def)
  then have "write_entry_at ob i (filled_fe fe d now ks) ?b2 =
      put_at (tpos b + 64 * i) (encode_fe (filled_fe fe d now ks)) ?b2"
    using i write_entry_at_eq [of ?b2 i "filled_fe fe d now ks" ob] b'(4,5) by simp
  moreover have "take r ?c = drop (512 * q) d" using rest ok' d(1,2) by (simp add: store_ok_def)
  ultimately show ?thesis using ST by metis
qed

lemma br_write_data_stores:
  fixes now :: u32
  assumes ok: "store_ok b u" and ch: "typed (b_in b) = d" and n: "nblocks (length d) \<le> 9"
    and free: "nblocks (length d) \<le> length (bfree b u)"
    and fe: "wf_fe fe" and i: "i < tcnt b"
  defines "ks \<equiv> take (nblocks (length d)) (bfree b u)"
  shows "\<exists>b2 u2 cs. br_write_data ob now i fe b =
      Some (put_at (tpos b + 64 * i) (encode_fe (filled_fe fe d now ks)) b2) \<and>
    stored b u ks cs b2 u2 \<and> length cs = length ks \<and> take (length d) (concat cs) = d"
proof -
  define q r where "q = length d div 512" and "r = length d mod 512"
  have d: "length d = 512 * q + r" "r < 512" by (simp_all add: q_def r_def)
  have nb: "nblocks (length d) = (if r = 0 then q else Suc q)" using d unfolding nblocks_def by auto
  show ?thesis
  proof (cases "r = 0")
    case True
    then have nq: "nblocks (length d) = q" "length d = 512 * q" using nb d by simp_all
    then have "take (length d) (concat (blocks_of_data q d)) = d" "length (blocks_of_data q d) = length ks"
      using free by (simp_all add: concat_blocks_of_data ks_def)
    then show ?thesis
      using br_write_data_whole [OF ok ch nq(2) _ _ fe i, of ob now] n free
      unfolding ks_def nq(1) by blast
  next
    case False
    then have q: "0 < r" "q < 9" "q < length (bfree b u)" using n free nb by auto
    obtain b2 u2 c where w: "br_write_data ob now i fe b =
        Some (put_at (tpos b + 64 * i) (encode_fe (filled_fe fe d now ks)) b2)"
      "stored b u ks (blocks_of_data q d @ [c]) b2 u2" "take r c = drop (512 * q) d"
      using br_write_data_rest [OF ok ch d q fe i, of ob now] False unfolding ks_def nb by auto
    have "length (blocks_of_data q d @ [c]) = length ks" using q False by (simp add: ks_def nb)
    moreover have "take (length d) (concat (blocks_of_data q d @ [c])) = d"
      using d w(3) by (simp add: concat_blocks_of_data min_def)
    ultimately show ?thesis using w(1,2) by metis
  qed
qed

section \<open>Reading back\<close>

definition data_out :: "msg list \<Rightarrow> byte list" where
  "data_out ms = concat (map (\<lambda>m. case m of M_data xs \<Rightarrow> xs | _ \<Rightarrow> []) ms)"

lemma data_out_say [simp]: "data_out (b_out (say (M_data xs) b)) = data_out (b_out b) @ xs"
  by (simp add: data_out_def say_def)

lemma say_simps [simp]:
  "b_h (say m b) = b_h b" "b_sb (say m b) = b_sb b" "b_block (say m b) = b_block b"
  by (simp_all add: say_def)

lemma block_of_at [simp]: "block_of k (at p b) = block_of k b"
  by (simp add: block_of_def)

lemma read_block_eq:
  assumes "unat pos = 512 * k" "512 * k < 2 ^ 31" "512 * k + 512 \<le> length (fh_data (b_h b))"
    and "unat n \<le> 512" "length (b_block b) = 512"
  shows "\<exists>b'. read_block ob pos n b = Some b' \<and> b_sb b' = b_sb b \<and> b_out b' = b_out b \<and>
    fh_data (b_h b') = fh_data (b_h b) \<and> length (b_block b') = 512 \<and>
    take (unat n) (b_block b') = take (unat n) (block_of k b)"
proof -
  have "512 * k + unat n \<le> length (fh_data (b_h b))" using assms by simp
  moreover have "take (unat n) (get_bytes (512 * k) (unat n) D) = take (unat n) (get_bytes (512 * k) 512 D)"
    for D :: "byte list" using assms(4) by (simp add: get_bytes_def min_def)
  ultimately show ?thesis
    using assms
    by (simp add: read_block_def seek_at Let_def sys_read_inside block_of_def)
      (simp add: put_bytes_def)
qed

lemma unat_of_small: "n < 2 ^ 31 \<Longrightarrow> unat (of_nat n :: u32) = n"
  by (simp add: unat_of_nat)

text \<open>One block: at most 512 bytes of it are printed, then the loop goes on with the rest.\<close>

lemma br_read_loop_step:
  assumes bs: "sb_block_size (b_sb b) = 512" and l: "length (b_block b) = 512"
    and k: "0 < k" "512 * k < 2 ^ 31" "512 * k + 512 \<le> length (fh_data (b_h b))" and n: "n < 2 ^ 31"
  shows "\<exists>b1. br_read_loop ob (of_nat k # bls) (of_nat n) b =
      (if n \<le> 512 then Some b1 else br_read_loop ob bls (of_nat (n - 512)) b1) \<and>
    b_sb b1 = b_sb b \<and> fh_data (b_h b1) = fh_data (b_h b) \<and> length (b_block b1) = 512 \<and>
    data_out (b_out b1) = data_out (b_out b) @ take n (block_of k b)"
proof -
  let ?x = "of_nat k :: u32" and ?m = "min n 512"
  have m: "?m < 2 ^ 31" "n - ?m < 2 ^ 31" using n by simp_all
  have "(if (of_nat n :: u32) \<ge> 512 then 512 else of_nat n) = (of_nat ?m :: u32)"
    by (simp add: word_le_nat_alt unat_of_small [OF n] min_def)
  moreover have "unat (of_nat (n - ?m) :: u32) = n - ?m" by (rule unat_of_small [OF m(2)])
  then have "(of_nat (n - ?m) :: u32) = 0 \<longleftrightarrow> n \<le> 512" by (auto simp flip: unat_eq_zero)
  moreover have "unat ?x \<noteq> 0" using unat_of_small [of k] k by simp
  then have "?x \<noteq> 0" by auto
  moreover have pos: "unat (?x * 512) = 512 * k" using block_pos [of "Suc k" k] k by simp
  moreover have "(of_nat n :: u32) - of_nat ?m = of_nat (n - ?m)" by (simp add: of_nat_diff)
  moreover obtain b1 where rb: "read_block ob (?x * 512) (of_nat ?m) b = Some b1" "b_sb b1 = b_sb b"
    "b_out b1 = b_out b" "fh_data (b_h b1) = fh_data (b_h b)" "length (b_block b1) = 512"
    "take ?m (b_block b1) = take ?m (block_of k b)"
    using read_block_eq [OF pos k(2,3), of "of_nat ?m" ob] l unat_of_small [OF m(1)] by auto
  ultimately have step: "br_read_loop ob (?x # bls) (of_nat n) b =
      (if n \<le> 512 then Some (say (M_data (take ?m (b_block b1))) b1)
       else br_read_loop ob bls (of_nat (n - ?m)) (say (M_data (take ?m (b_block b1))) b1))"
    by (simp only: br_read_loop.simps Let_def if_False bs unat_of_small [OF m(1)] Option.bind.simps)
  have "take ?m (block_of k b) = take n (block_of k b)" using k by (simp add: block_of_def min_def)
  then show ?thesis
    using step rb by (intro exI [of _ "say (M_data (take ?m (b_block b1))) b1"]) (simp add: min_def)
qed

text \<open>With nothing left to read, at most an empty piece is printed.\<close>

lemma br_read_loop_zero:
  assumes "sb_block_size (b_sb b) = 512"
  shows "\<exists>b'. br_read_loop ob bls 0 b = Some b' \<and> data_out (b_out b') = data_out (b_out b) \<and>
    fh_data (b_h b') = fh_data (b_h b)"
proof (cases bls)
  case (Cons x xs)
  obtain ys h where r: "sys_read 0 (b_h (seek ob (x * 512) b)) = (ys, h)" by fastforce
  have h: "fh_data h = fh_data (b_h b)"
    using r by (auto simp: sys_read_def seek_def lseek_set_def Let_def)
  let ?b = "(seek ob (x * 512) b)\<lparr>b_h := h, b_block := put_bytes 0 ys (b_block b)\<rparr>"
  have "read_block ob (x * 512) 0 b = Some ?b" using r by (simp add: read_block_def seek_def)
  then show ?thesis
    using h assms by (cases "x = 0") (simp_all add: Cons Let_def seek_def)
qed simp

lemma br_read_loop_prints:
  assumes bs: "sb_block_size (b_sb b) = 512" and l: "length (b_block b) = 512"
    and ks: "\<forall>k \<in> set ks. 0 < k \<and> 512 * k < 2 ^ 31 \<and> 512 * k + 512 \<le> length (fh_data (b_h b))"
    and n: "n \<le> 512 * length ks" "512 * length ks < n + 512" "n < 2 ^ 31"
  shows "\<exists>b'. br_read_loop ob (map of_nat ks @ bls) (of_nat n) b = Some b' \<and>
    data_out (b_out b') = data_out (b_out b) @ take n (contents ks b) \<and>
    fh_data (b_h b') = fh_data (b_h b)"
  using assms
proof (induction ks arbitrary: n b)
  case Nil
  then show ?case using br_read_loop_zero [of b ob bls] by (simp add: contents_def)
next
  case (Cons k ks)
  have k: "0 < k" "512 * k < 2 ^ 31" "512 * k + 512 \<le> length (fh_data (b_h b))"
    using Cons.prems(3) by auto
  obtain b1 where step: "br_read_loop ob (of_nat k # map of_nat ks @ bls) (of_nat n) b =
      (if n \<le> 512 then Some b1 else br_read_loop ob (map of_nat ks @ bls) (of_nat (n - 512)) b1)"
    and b1: "b_sb b1 = b_sb b" "fh_data (b_h b1) = fh_data (b_h b)" "length (b_block b1) = 512"
      "data_out (b_out b1) = data_out (b_out b) @ take n (block_of k b)"
    using br_read_loop_step [OF Cons.prems(1,2) k Cons.prems(6)] by blast
  have lb: "length (block_of k b) = 512" using k by (simp add: block_of_def)
  show ?case
  proof (cases "n \<le> 512")
    case True
    then have "ks = []" using Cons.prems(5) by (cases ks) auto
    then show ?thesis using True step b1 by (simp add: contents_def)
  next
    case False
    have c: "contents ks b1 = contents ks b" using b1(2) by (simp add: contents_def block_of_def)
    have "n - 512 \<le> 512 * length ks" "512 * length ks < n - 512 + 512" "n - 512 < 2 ^ 31"
      using Cons.prems(4-6) False by auto
    moreover have "sb_block_size (b_sb b1) = 512"
      "\<forall>k \<in> set ks. 0 < k \<and> 512 * k < 2 ^ 31 \<and> 512 * k + 512 \<le> length (fh_data (b_h b1))"
      using b1 Cons.prems(1,3) by auto
    ultimately obtain b' where IH: "br_read_loop ob (map of_nat ks @ bls) (of_nat (n - 512)) b1 = Some b'"
      "data_out (b_out b') = data_out (b_out b1) @ take (n - 512) (contents ks b1)"
      "fh_data (b_h b') = fh_data (b_h b1)"
      using Cons.IH [of b1 "n - 512"] b1(3) by blast
    have "take n (contents (k # ks) b) = block_of k b @ take (n - 512) (contents ks b)"
      using False lb by (simp add: contents_def)
    then show ?thesis using step IH c b1 False lb by simp
  qed
qed

section \<open>Writing a file and reading it back\<close>

lemma find_file_update:
  assumes "find_file fn t = Some i" "hit fn fe"
  shows "find_file fn (t[i := fe]) = Some i"
  using assms by (auto simp: find_file_Some nth_list_update)

lemma store_ok_at [simp]: "store_ok (at p b) u = store_ok b u"
  by (simp add: store_ok_def)

lemma nblocks_bounds: "n \<le> 512 * nblocks n" "512 * nblocks n < n + 512"
proof -
  have "(n + 511) div 512 * 512 + (n + 511) mod 512 = n + 511" "(n + 511) mod 512 < 512" by simp_all
  then show "n \<le> 512 * nblocks n" "512 * nblocks n < n + 512" unfolding nblocks_def by linarith+
qed

lemma stored_at [simp]: "stored (at p b) u ks cs b' u' = stored b u ks cs b' u'"
  by (simp add: stored_def)

text \<open>\<open>sfs_write\<close> gives the blocks of the old content back first.\<close>

definition given_back :: "sfs_file_entry \<Rightarrow> byte list \<Rightarrow> byte list" where
  "given_back fe u = clear_used (takeWhile (\<lambda>x. x \<noteq> 0) (fe_blocks fe)) u"

lemma length_given_back [simp]: "length (given_back fe u) = length u"
  by (simp add: given_back_def)

lemma given_back_none [simp]: "fe_blocks fe = replicate 9 0 \<Longrightarrow> given_back fe u = u"
  by (simp add: given_back_def numeral_nat clear_used_def)

lemma stored_used [simp]: "stored (b\<lparr>b_used := v\<rparr>) u ks cs b' u' = stored b u ks cs b' u'"
  by (simp add: stored_def block_of_def)

lemma br_write_stores:
  fixes now :: u32
  assumes ok: "store_ok b u" and names: "names_ok (btable b)" "0 \<notin> set fn"
    and i: "find_file fn (btable b) = Some i"
    and perm: "fe_perms (btable b ! i) AND 2 \<noteq> 0"
    and rng: "\<And>x. x \<in> set (fe_blocks (btable b ! i)) \<Longrightarrow> x \<noteq> 0 \<Longrightarrow> unat x < length u"
  defines "u0 \<equiv> given_back (btable b ! i) u"
  assumes d: "typed (b_in b) = d" "nblocks (length d) \<le> 9" "nblocks (length d) \<le> length (bfree b u0)"
  defines "ks \<equiv> take (nblocks (length d)) (bfree b u0)"
  shows "\<exists>b2 u2 cs. br_write ob now fn b =
      Some (put_at (tpos b + 64 * i) (encode_fe (filled_fe (btable b ! i) d now ks)) b2) \<and>
    stored b u0 ks cs b2 u2 \<and> length cs = length ks \<and> take (length d) (concat cs) = d"
proof -
  let ?b0 = "at (tpos b + 64 * Suc i) b" and ?fe = "btable b ! i"
  let ?b1 = "at (tpos b + 64 * Suc i) (b\<lparr>b_used := Obj u0\<rparr>)"
  have bt: "bt_ok b" and i': "i < tcnt b" using ok i by (simp_all add: store_ok_def find_file_Some)
  have l: "br_lookup ob fn b = Some (int i, ?fe, ?b0)"
    using br_lookup_table [OF bt names, of ob] i by auto
  have "b_used ?b0 = Obj u" "length u \<le> 2 ^ 31" using ok by (auto simp: store_ok_def)
  then have pb: "br_put_blocks (fe_blocks ?fe) ?b0 = Some ?b1"
    using rng by (simp add: br_put_blocks_eq at_used u0_def given_back_def)
  have "store_ok ?b1 u0" using ok by (simp add: store_ok_def u0_def)
  moreover have "typed (b_in ?b1) = d" "nblocks (length d) \<le> length (bfree ?b1 u0)" "i < tcnt ?b1"
    using d i' by simp_all
  ultimately show ?thesis
    using br_write_data_stores [of ?b1 u0 d ?fe i ob now] d(2) wf_btable [OF bt i'] l perm pb
    by (simp add: br_write_def ks_def)
qed

text \<open>The state after the entry was written, too.\<close>

lemma stored_entry:
  assumes st: "stored b u ks cs b2 u2" and len: "length cs = length ks"
    and ks: "set ks \<subseteq> set (bfree b u)" and i: "i < tcnt b" and wf: "wf_fe fe"
  defines "b1 \<equiv> put_at (tpos b + 64 * i) (encode_fe fe) b2"
  shows "btable b1 = (btable b)[i := fe]" "bt_ok b1"
    and "\<And>k. unat (sb_data_block_start (b_sb b)) \<le> k \<Longrightarrow> k < length u \<Longrightarrow> block_of k b1 = block_of k b2"
    and "contents ks b1 = concat cs"
    and "length (fh_data (b_h b1)) = length (fh_data (b_h b2))"
proof -
  have ok2: "store_ok b2 u2" and sb2: "b_sb b2 = b_sb b" and tab2: "btable b2 = btable b"
    and lu: "length u2 = length u"
    using st by (simp_all add: stored_def)
  then have bt2: "bt_ok b2" and pos2: "tpos b2 = tpos b" "tcnt b2 = tcnt b"
    by (simp_all add: store_ok_def tpos_def tcnt_def table_pos_def)
  show "btable b1 = (btable b)[i := fe]" "bt_ok b1"
    using btable_put_entry [OF bt2 _ wf, of i] i unfolding b1_def pos2 tab2 by simp_all
  show "length (fh_data (b_h b1)) = length (fh_data (b_h b2))"
    using bt2 i wf pos2 by (simp add: b1_def bt_ok_def)
  show blk: "block_of k b1 = block_of k b2" if "unat (sb_data_block_start (b_sb b)) \<le> k" "k < length u" for k
  proof -
    have "tpos b + 64 * i + 64 \<le> 512 * k" "512 * k + 512 \<le> length (fh_data (b_h b2))"
      using ok2 that i pos2 sb2 lu by (auto simp: store_ok_def)
    then show ?thesis using wf by (simp add: block_of_def b1_def get_put_disjoint)
  qed
  have "contents ks b1 = contents ks b2"
    using ks blk unfolding contents_def
    by (intro arg_cong [of _ _ concat] map_cong) (auto simp: free_blocks_set)
  then show "contents ks b1 = concat cs" using stored_contents [OF st] len by simp
qed

lemma br_write_read:
  assumes ok: "store_ok b u" and names: "names_ok (btable b)" "0 \<notin> set fn"
    and i: "find_file fn (btable b) = Some i"
    and perms: "fe_perms (btable b ! i) AND 2 \<noteq> 0" "fe_perms (btable b ! i) AND 4 \<noteq> 0"
    and rng: "\<And>x. x \<in> set (fe_blocks (btable b ! i)) \<Longrightarrow> x \<noteq> 0 \<Longrightarrow> unat x < length u"
  defines "u0 \<equiv> given_back (btable b ! i) u"
  assumes d: "typed (b_in b) = d" "nblocks (length d) \<le> 9" "nblocks (length d) \<le> length (bfree b u0)"
  shows "\<exists>b1 b2. br_write ob now fn b = Some b1 \<and> br_read ob fn b1 = Some b2 \<and>
    data_out (b_out b2) = data_out (b_out b) @ d \<and>
    btable b1 = (btable b)[i := (btable b ! i)\<lparr>fe_size := of_nat (length d), fe_timestamp := now,
      fe_blocks := map of_nat (take (nblocks (length d)) (bfree b u0)) @
        drop (nblocks (length d)) (fe_blocks (btable b ! i))\<rparr>]"
proof -
  let ?fe = "btable b ! i" and ?ks = "take (nblocks (length d)) (bfree b u0)"
  let ?fe2 = "filled_fe ?fe d now ?ks"
  obtain b2 u2 cs where
    w: "br_write ob now fn b = Some (put_at (tpos b + 64 * i) (encode_fe ?fe2) b2)"
    and st: "stored b u0 ?ks cs b2 u2" and cs: "length cs = length ?ks" "take (length d) (concat cs) = d"
    using br_write_stores [OF ok names i perms(1) rng d [unfolded u0_def], of ob now] unfolding u0_def by blast
  let ?b1 = "put_at (tpos b + 64 * i) (encode_fe ?fe2) b2"
  have i': "i < tcnt b" "hit fn ?fe" using i by (simp_all add: find_file_Some)
  have lk: "length ?ks = nblocks (length d)" using d(3) by simp
  have "wf_fe ?fe" using wf_btable ok i' by (simp add: store_ok_def)
  then have wf2: "wf_fe ?fe2" using d(2) lk by simp
  have sub: "set ?ks \<subseteq> set (bfree b u0)" by (rule set_take_subset)
  note b1 = stored_entry [OF st cs(1) sub i'(1) wf2]
  have "names_ok (btable ?b1)" "find_file fn (btable ?b1) = Some i"
    using i'(2) unfolding b1(1) by (auto simp: hit_def intro!: names_ok_update names find_file_update [OF i])
  moreover have e1: "btable ?b1 ! i = ?fe2" unfolding b1(1) using i' by simp
  ultimately have l1: "br_lookup ob fn ?b1 = Some (int i, ?fe2, at (tpos ?b1 + 64 * Suc i) ?b1)"
    using br_lookup_table [OF b1(2) _ names(2), of ob] by auto
  let ?b3 = "at (tpos ?b1 + 64 * Suc i) ?b1"
  have blk: "0 < k \<and> 512 * k < 2 ^ 31 \<and> 512 * k + 512 \<le> length (fh_data (b_h b2))" if "k \<in> set ?ks" for k
  proof -
    have "unat (sb_data_block_start (b_sb b)) \<le> k" "k < length u0"
      using that sub by (auto simp: free_blocks_set)
    then show ?thesis using st by (auto simp: stored_def store_ok_def)
  qed
  let ?old = "drop (length ?ks) (fe_blocks ?fe)"
  have "length d \<le> 512 * length ?ks" "512 * length ?ks < length d + 512" "length d < 2 ^ 31"
    using nblocks_bounds [of "length d"] d(2) unfolding lk by auto
  then obtain b3 where r: "br_read_loop ob (map of_nat ?ks @ ?old) (of_nat (length d)) ?b3 = Some b3"
    "data_out (b_out b3) = data_out (b_out ?b3) @ take (length d) (contents ?ks ?b3)"
    using br_read_loop_prints [of ?b3 ?ks "length d" ob ?old] blk b1(5) st
    by (auto simp: stored_def store_ok_def)
  have "br_read ob fn ?b1 = Some b3" using l1 perms r(1) by (simp add: br_read_def)
  moreover have "data_out (b_out b3) = data_out (b_out b) @ d"
    using r(2) b1(4) cs(2) st by (simp add: contents_def stored_def)
  ultimately show ?thesis using w b1(1) lk by (auto simp: filled_fe_def)
qed

end
