(* ===== verification/Browser_Properties.thy ===== *)
theory Browser_Properties
  imports Sfs_Browser_Data Sfs_Sample
begin

unbundle bit_operations_syntax

text \<open>
  Properties of the browsing shell: what is written to a file is what reading it prints, removing
  and creating files, the command lines, and the offset by which \<open>sfs_create\<close> steps back.
\<close>

section \<open>A browser on the sample disk\<close>

definition sample_browser :: "byte list \<Rightarrow> browser" where
  "sample_browser d =
     \<lparr>b_h = \<lparr>fh_data = replicate 5120 0, fh_pos = 0, fh_fixed = True\<rparr>, b_sb = format_sb 5120,
      b_used = Obj [1, 1, 0, 0, 0, 0, 0, 0, 0, 0], b_block = replicate 512 0, b_fe = zero_fe,
      b_in = \<lparr>in_buf = [], in_chunks = (if d = [] then [] else [d]), in_eof = False\<rparr>, b_out = []\<rparr>"

definition sample_used :: "byte list" where
  "sample_used = [1, 1, 0, 0, 0, 0, 0, 0, 0, 0]"

lemma sample_geometry: "tpos (sample_browser d) = 512" "tcnt (sample_browser d) = 8"
  by (simp_all add: tpos_def table_pos_def tcnt_def sample_browser_def sample_sb)
    (simp add: format_sb_def Let_def)

lemma sample_browser_ok: "store_ok (sample_browser d) sample_used"
  unfolding store_ok_def bt_ok_def sample_geometry
  by (simp add: sample_browser_def sample_used_def sample_sb) (simp add: format_sb_def Let_def)

lemma sample_bt_ok: "bt_ok (sample_browser d)"
  using sample_browser_ok by (simp add: store_ok_def)

lemma sample_btable: "btable (sample_browser d) = replicate 8 zero_fe"
proof (rule nth_equalityI)
  fix i assume "i < length (btable (sample_browser d))"
  then have i: "i < 8" by (simp add: sample_geometry)
  have "get_bytes (512 + 64 * i) 64 (replicate 5120 (0::byte)) = replicate 64 0"
    using i by (simp add: get_bytes_def)
  then show "btable (sample_browser d) ! i = replicate 8 zero_fe ! i"
    using i by (simp add: nth_btable sample_geometry) (simp add: sample_browser_def decode_zeros)
qed (simp add: sample_geometry)

lemma sample_free: "bfree (sample_browser d) sample_used = [2, 3, 4, 5, 6, 7, 8, 9]"
proof -
  have s: "unat (sb_data_block_start (b_sb (sample_browser d))) = 2"
    by (simp add: sample_browser_def sample_sb)
  have l: "length sample_used = 10" by (simp add: sample_used_def)
  show ?thesis unfolding s l
    by (simp add: free_blocks_def upt_conv_Cons sample_used_def)
qed

text \<open>With one file \<open>a\<close> in the first entry.\<close>

definition one_file :: "byte list \<Rightarrow> u32 list \<Rightarrow> browser" where
  "one_file d bs = put_at 512 (encode_fe ((new_fe [97] 5 7)\<lparr>fe_blocks := bs\<rparr>)) (sample_browser d)"

lemma one_file_facts:
  assumes "length bs = 9"
  shows "bt_ok (one_file d bs)" "btable (one_file d bs) = (replicate 8 zero_fe)[0 := (new_fe [97] 5 7)\<lparr>fe_blocks := bs\<rparr>]"
    and "store_ok (one_file d bs) sample_used" "names_ok (btable (one_file d bs))"
    and "find_file [97] (btable (one_file d bs)) = Some 0"
    and "b_used (one_file d bs) = Obj sample_used"
proof -
  let ?fe = "(new_fe [97] 5 7)\<lparr>fe_blocks := bs\<rparr>"
  have wf: "wf_fe ?fe" using assms wf_new_fe [of "[97]" 5 7] by (simp add: wf_fe_def)
  have z: "(0::nat) < tcnt (sample_browser d)" by (simp add: sample_geometry)
  note p = btable_put_entry [OF sample_bt_ok z wf, unfolded sample_geometry mult_0_right add_0_right]
  show b: "bt_ok (one_file d bs)" using p by (simp add: one_file_def)
  show t: "btable (one_file d bs) = (replicate 8 zero_fe)[0 := ?fe]"
    using p by (simp add: one_file_def sample_btable)
  show "store_ok (one_file d bs) sample_used"
    using b sample_browser_ok [of d] wf
    by (simp add: store_ok_def one_file_def) (simp add: sample_browser_def sample_sb)
  have nm: "fe_fname ?fe = Some [97]" "fe_live ?fe"
    using fname_new_fe [of "[97]" 5 7] live_new_fe [of "[97]" 5 7]
    by (simp_all add: fe_fname_def fe_live_def)
  have z8: "replicate 8 zero_fe = zero_fe # replicate 7 zero_fe" by (simp add: numeral_nat)
  show "names_ok (btable (one_file d bs))"
    unfolding t z8 using nm by (auto simp: names_ok_def)
  show "find_file [97] (btable (one_file d bs)) = Some 0"
    unfolding t z8 using nm by (simp add: find_file_Some hit_def)
  show "b_used (one_file d bs) = Obj sample_used"
    by (simp add: one_file_def sample_browser_def sample_used_def)
qed

section \<open>Files\<close>

text \<open>
  C24. Writing what the user types, in pieces of any size up to the end of file, to a file with both
  permissions, whatever it had before: when the free blocks, with those of the old content given
  back, are enough for it, and nine are, reading the file afterwards prints exactly what was typed.
  The entry has the length as its size and the first free blocks as its first blocks, the block
  numbers behind them stay as they were, and no other entry changes.
\<close>

theorem write_then_read_prints:
  fixes now :: u32
  assumes "store_ok b u" "names_ok (btable b)" "0 \<notin> set fn" "find_file fn (btable b) = Some i"
    and "fe_perms (btable b ! i) AND 2 \<noteq> 0" "fe_perms (btable b ! i) AND 4 \<noteq> 0"
    and "\<And>x. x \<in> set (fe_blocks (btable b ! i)) \<Longrightarrow> x \<noteq> 0 \<Longrightarrow> unat x < length u"
    and "typed (b_in b) = d" "nblocks (length d) \<le> 9"
    and "nblocks (length d) \<le> length (bfree b (given_back (btable b ! i) u))"
  shows "\<exists>b1 b2. br_write ob now fn b = Some b1 \<and> br_read ob fn b1 = Some b2 \<and>
    data_out (b_out b2) = data_out (b_out b) @ d \<and>
    btable b1 = (btable b)[i := (btable b ! i)\<lparr>fe_size := of_nat (length d), fe_timestamp := now,
      fe_blocks := map of_nat (take (nblocks (length d)) (bfree b (given_back (btable b ! i) u))) @
        drop (nblocks (length d)) (fe_blocks (btable b ! i))\<rparr>]"
  by (rule br_write_read [OF assms])

text \<open>A file that has two blocks, and 700 bytes typed in two pieces.\<close>

lemma write_then_read_prints_witness:
  "\<exists>b b1 b2. btable b ! 0 = (new_fe [97] 5 7)\<lparr>fe_blocks := [2, 3, 0, 0, 0, 0, 0, 0, 0]\<rparr> \<and>
    in_chunks (b_in b) = [replicate 600 33, replicate 100 34, [], [113]] \<and>
    br_write True 9 [97] b = Some b1 \<and> br_read True [97] b1 = Some b2 \<and>
    data_out (b_out b2) = replicate 600 33 @ replicate 100 34"
proof -
  let ?bs = "[2, 3, 0, 0, 0, 0, 0, 0, 0] :: u32 list" and ?d = "replicate 600 33 @ replicate 100 (34::byte)"
  let ?a = "one_file [] ?bs"
  let ?b = "?a\<lparr>b_in := \<lparr>in_buf = [], in_chunks = [replicate 600 33, replicate 100 34, [], [113]], in_eof = False\<rparr>\<rparr>"
  have l: "length ?bs = 9" by simp
  note f = one_file_facts [OF l, of "[]"]
  have same: "btable ?b = btable ?a" "bfree ?b v = bfree ?a v" for v
    by (simp_all add: btable_def tpos_def tcnt_def table_pos_def)
  have e: "btable ?a ! 0 = (new_fe [97] 5 7)\<lparr>fe_blocks := ?bs\<rparr>" unfolding f(2) by simp
  have p: "fe_perms (btable ?b ! 0) AND 2 \<noteq> 0" "fe_perms (btable ?b ! 0) AND 4 \<noteq> 0"
    "\<And>x. x \<in> set (fe_blocks (btable ?b ! 0)) \<Longrightarrow> x \<noteq> 0 \<Longrightarrow> unat x < length sample_used"
    unfolding same e by (auto simp: new_fe_def sample_used_def)
  have t: "typed (b_in ?b) = ?d" by (simp add: typed_def)
  have "length ?d = 700" by simp
  then have n: "nblocks (length ?d) = 2" by (simp only: nblocks_def)
  have g: "given_back (btable ?b ! 0) sample_used = sample_used"
    unfolding same e by (simp add: given_back_def clear_used_def sample_used_def)
  have "nblocks (length ?d) \<le> 9" "nblocks (length ?d) \<le> length (bfree ?b (given_back (btable ?b ! 0) sample_used))"
    unfolding n g unfolding same using sample_free [of "[]"] by (simp_all add: one_file_def)
  note w = write_then_read_prints [OF _ _ _ _ p t this, of "[97]" True 9]
  have "b_out ?b = []" by (simp add: one_file_def sample_browser_def)
  moreover have "btable ?b ! 0 = (new_fe [97] 5 7)\<lparr>fe_blocks := ?bs\<rparr>" using e by (simp only: same)
  moreover have "store_ok ?b sample_used" "names_ok (btable ?b)" "0 \<notin> set [97::byte]"
    "find_file [97] (btable ?b) = Some 0"
    unfolding same using f(3,4,5) by simp_all
  from w [OF this] obtain b1 b2 where "br_write True 9 [97] ?b = Some b1" "br_read True [97] b1 = Some b2"
    "data_out (b_out b2) = data_out (b_out ?b) @ ?d" by blast
  ultimately show ?thesis by (intro exI [of _ ?b] exI [of _ b1] exI [of _ b2]) (simp add: data_out_def)
qed

text \<open>
  Removing a file: its entry is zeroed in the table on disk, the other entries keep their
  bytes, and the flags of its blocks, up to the first zero, are cleared.
\<close>

theorem remove_zeroes_entry:
  assumes "bt_ok b" "names_ok (btable b)" "0 \<notin> set fn" "find_file fn (btable b) = Some i"
    and "b_used b = Obj u" "length u \<le> 2 ^ 31"
    and "\<And>x. x \<in> set (fe_blocks (btable b ! i)) \<Longrightarrow> x \<noteq> 0 \<Longrightarrow> unat x < length u"
  shows "\<exists>b'. br_remove ob fn b = Some b' \<and> btable b' = (btable b)[i := zero_fe] \<and>
    b_used b' = Obj (clear_used (takeWhile (\<lambda>x. x \<noteq> 0) (fe_blocks (btable b ! i))) u) \<and>
    fh_data (b_h b') = put_bytes (tpos b + 64 * i) (replicate 64 0) (fh_data (b_h b)) \<and>
    b_out b' = b_out b"
proof -
  let ?b = "b\<lparr>b_used := Obj (clear_used (takeWhile (\<lambda>x. x \<noteq> 0) (fe_blocks (btable b ! i))) u)\<rparr>"
  have i: "i < tcnt ?b" using assms(4) by (simp add: find_file_Some)
  have ok: "bt_ok ?b" using assms(1) by simp
  have "btable (put_at (tpos b + 64 * i) (encode_fe zero_fe) ?b) = (btable b)[i := zero_fe]"
    using btable_put_entry(1) [OF ok i wf_zero_fe] by simp
  then show ?thesis
    using br_remove_some [OF assms, of ob] by (simp add: encode_zero_fe)
qed

text \<open>
  With a 32-bit \<open>off_t\<close>, creating a file writes its entry over the first free one and nothing
  else, if no entry before that has the name.
\<close>

theorem create_fills_first_free:
  assumes "bt_ok b" "names_ok (btable b)" "0 \<notin> set fn" "find_slot (btable b) = Some i"
    and "\<And>j. j < i \<Longrightarrow> \<not> hit fn (btable b ! j)"
  shows "\<exists>b'. br_create False now fn b = Some b' \<and> btable b' = (btable b)[i := new_fe fn now 7] \<and>
    b_used b' = b_used b \<and> b_out b' = b_out b \<and>
    fh_data (b_h b') = put_bytes (tpos b + 64 * i) (encode_fe (new_fe fn now 7)) (fh_data (b_h b))"
proof -
  have i: "i < tcnt b" using assms(4) by (simp add: find_slot_Some)
  show ?thesis
    using br_create_first_free [OF assms, of now] btable_put_entry(1) [OF assms(1) i wf_new_fe]
    by simp
qed




section \<open>Command lines\<close>

text \<open>How a user writes a command.\<close>

fun cmd_line :: "command \<Rightarrow> byte list" where
  "cmd_line C_help = str ''?''"
| "cmd_line C_quit = str ''quit''"
| "cmd_line C_list = str ''list''"
| "cmd_line C_bad = str ''!''"
| "cmd_line (C_create fn) = str ''create'' @ 32 # fn"
| "cmd_line (C_remove fn) = str ''remove'' @ 32 # fn"
| "cmd_line (C_chperm p fn) = str ''chperm'' @ 32 # word_of_int (p + 48) # 32 # fn"
| "cmd_line (C_read fn) = str ''read'' @ 32 # fn"
| "cmd_line (C_write fn) = str ''write'' @ 32 # fn"

definition name_ok :: "byte list \<Rightarrow> bool" where
  "name_ok fn \<longleftrightarrow> fn \<noteq> [] \<and> hd fn \<noteq> 32 \<and> 0 \<notin> set fn \<and> 10 \<notin> set fn"

fun cmd_ok :: "command \<Rightarrow> bool" where
  "cmd_ok (C_create fn) = name_ok fn"
| "cmd_ok (C_remove fn) = name_ok fn"
| "cmd_ok (C_chperm p fn) = (name_ok fn \<and> 0 \<le> p \<and> p \<le> 7)"
| "cmd_ok (C_read fn) = name_ok fn"
| "cmd_ok (C_write fn) = name_ok fn"
| "cmd_ok _ = True"

lemma take_to_nul: "0 \<notin> set xs \<Longrightarrow> takeWhile (\<lambda>c. c \<noteq> (0::byte)) (xs @ [0]) = xs"
  by (induction xs) auto

lemma cmd_arg_name:
  "name_ok fn \<Longrightarrow> length pre = k \<Longrightarrow> cmd_arg k (pre @ fn @ [0]) = Some fn"
  by (cases fn) (auto simp: name_ok_def cmd_arg_def take_to_nul)

lemma perm_cases: "0 \<le> p \<Longrightarrow> p \<le> 7 \<Longrightarrow> p \<in> {0, 1, 2, 3, 4, 5, 6, 7 :: int}"
  by auto

lemma take_arg: "name_ok fn \<Longrightarrow> takeWhile (\<lambda>c. c \<noteq> (0::byte)) (dropWhile (\<lambda>c. c = 32) (fn @ [0])) = fn"
  using cmd_arg_name [of fn "[]" 0] by (simp add: cmd_arg_def Let_def split: if_splits)

lemma parse_line: "cmd_ok c \<Longrightarrow> parse_cmd (cmd_line c) = c"
proof (cases c)
  case (C_chperm p fn)
  assume "cmd_ok c"
  then have "name_ok fn" "p \<in> {0, 1, 2, 3, 4, 5, 6, 7}"
    using C_chperm perm_cases by auto
  moreover from this(1) have "fn \<noteq> []" by (simp add: name_ok_def)
  ultimately show ?thesis using C_chperm
    by (auto simp: parse_cmd_def cmd_word_def str_def Let_def cmd_arg_def take_arg)
qed (auto simp: parse_cmd_def cmd_word_def cmd_file_def str_def Let_def cmd_arg_def take_arg name_ok_def)

lemma cmd_line_no_newline: "cmd_ok c \<Longrightarrow> 10 \<notin> set (cmd_line c)"
proof (cases c)
  case (C_chperm p fn)
  assume "cmd_ok c"
  then have "name_ok fn" "p \<in> {0, 1, 2, 3, 4, 5, 6, 7}"
    using C_chperm perm_cases by auto
  then show ?thesis using C_chperm by (auto simp: str_def name_ok_def)
qed (auto simp: str_def name_ok_def)

lemma getchar_buf: "in_buf s = c # cs \<Longrightarrow> getchar s = (Some c, s\<lparr>in_buf := cs\<rparr>)"
  by (simp add: getchar_def)

lemma scan_line_buf:
  "in_buf s = line @ 10 # rest \<Longrightarrow> 10 \<notin> set line \<Longrightarrow>
   scan_line s = (line, False, s\<lparr>in_buf := 10 # rest\<rparr>)"
proof (induction line arbitrary: s)
  case Nil
  then show ?case by (subst scan_line.simps) (simp add: getchar_buf)
next
  case (Cons c line)
  then show ?case by (subst scan_line.simps) (simp add: getchar_buf)
qed

text \<open>
  A command waiting on a line of fewer than 256 characters is what the shell executes, after
  its prompt, with exactly that line taken from the input.
\<close>

theorem shell_executes_line:
  assumes "in_buf (b_in b) = cmd_line c @ 10 # rest" "cmd_ok c" "length (cmd_line c) < 256"
  shows "browse_step August ob clock b =
    (let b1 = (say M_prompt b)\<lparr>b_in := (b_in b)\<lparr>in_buf := rest\<rparr>\<rparr>
     in exec August ob (clock b1) (cmd_line c) c b1)"
proof -
  have "cmd_line c \<noteq> []" by (cases c) (simp_all add: str_def)
  then show ?thesis
    using assms scan_line_buf [OF assms(1) cmd_line_no_newline [OF assms(2)]] parse_line [OF assms(2)]
    by (simp add: browse_step_def scanf_line_def parse_of_def getchar_buf Let_def)
qed

end
