(* ===== verification/Sfs_Session.thy ===== *)
theory Sfs_Session
  imports Sfs_Browser_Data Sfs_Mount
begin

unbundle bit_operations_syntax

text \<open>
  Sessions of the browser of August: the state in which \<open>init_browsing\<close> leaves it and which writing
  keeps (\<open>Sfs_Commands\<close> has the other commands): names are terminated, no file has a hole, no block
  belongs to two files, and the flags are exactly the blocks of the files.
\<close>

section \<open>The disk of the browser\<close>

text \<open>
  The super block the browser works with is the one on the disk, the table starts after it and
  before the data area, and the data area starts in the partition.
\<close>

definition disk_ok :: "browser \<Rightarrow> bool" where
  "disk_ok b \<longleftrightarrow> get_bytes 0 512 (fh_data (b_h b)) = encode_sb (b_sb b) \<and> wf_sb (b_sb b) \<and>
     sb_type (b_sb b) = SIMULA_FS_TYPE \<and> 0 < unat (sb_entry_table_block_start (b_sb b)) \<and>
     unat (sb_entry_table_block_start (b_sb b)) \<le> unat (sb_data_block_start (b_sb b)) \<and>
     unat (sb_data_block_start (b_sb b)) \<le> unat (sb_partition_size (b_sb b))"

lemma entry_addr_tpos:
  assumes "store_ok b u" "disk_ok b"
  shows "entry_addr (b_sb b) i = tpos b + 64 * i" "512 dvd tpos b" "512 \<le> tpos b"
proof -
  let ?s = "sb_entry_table_block_start (b_sb b)"
  have "512 * unat ?s \<le> 2 ^ 31" using assms by (auto simp: store_ok_def disk_ok_def)
  then have "unat (?s * 512) = unat ?s * 512"
    by (subst unat_mult_lem [THEN iffD1]) simp_all
  then have t: "tpos b = unat ?s * 512"
    using assms(1) by (simp add: tpos_def table_pos_def store_ok_def)
  then show "entry_addr (b_sb b) i = tpos b + 64 * i" "512 dvd tpos b" "512 \<le> tpos b"
    using assms by (simp_all add: entry_addr_def store_ok_def disk_ok_def)
qed

section \<open>The flags at the start\<close>

lemma br_mark_loop_eq:
  assumes ok: "bt_ok b" and cl: "\<And>fe. fe \<in> set (btable b) \<Longrightarrow> clean_fe fe"
    and rng: "\<And>x. x \<in> set (owned_blocks (btable b)) \<Longrightarrow> unat x < length u"
    and n: "k + n = tcnt b" and wf: "wf_fe fe"
  shows "br_mark_loop n fe u (at (tpos b + 64 * k) b) =
    Some (set_flags (owned_blocks (drop k (btable b))) u, at (tpos b + 64 * tcnt b) b)"
  using n wf rng
proof (induction n arbitrary: k fe u)
  case 0
  then show ?case by (simp add: owned_blocks_def)
next
  case (Suc n)
  then have k: "k < tcnt b" and kn: "Suc k + n = tcnt b" by auto
  let ?fe = "btable b ! k"
  have rd: "read_fe fe (at (tpos b + 64 * k) b) = (?fe, at (tpos b + 64 * Suc k) b)"
    by (rule read_fe_at [OF ok k Suc.prems(2)])
  have mem: "?fe \<in> set (btable b)" using k by (metis length_btable nth_mem)
  have split: "owned_blocks (drop k (btable b)) = owned ?fe @ owned_blocks (drop (Suc k) (btable b))"
    using k by (simp add: owned_blocks_def Cons_nth_drop_Suc [symmetric])
  have IH: "br_mark_loop n ?fe v (at (tpos b + 64 * Suc k) b) =
      Some (set_flags (owned_blocks (drop (Suc k) (btable b))) v, at (tpos b + 64 * tcnt b) b)"
    if "length v = length u" for v
    using that Suc.prems(3) by (intro Suc.IH [OF kn wf_btable [OF ok k]]) simp
  have o: "if fe_live ?fe then owned ?fe = takeWhile (\<lambda>x. x \<noteq> 0) (fe_blocks ?fe) else owned ?fe = []"
    using cl [OF mem] by (auto simp: clean_fe_def)
  have "unat x < length u" if "x \<in> set (owned ?fe)" for x
    using Suc.prems(3) mem that by (auto simp: owned_blocks_def)
  then have "fe_live ?fe \<Longrightarrow> mark_blocks u (fe_blocks ?fe) = Some (set_flags (owned ?fe) u)"
    using o mark_blocks_eq [of "fe_blocks ?fe" u] by simp
  then show ?case using rd IH o by (cases "fe_live ?fe") (simp_all add: split)
qed

lemma br_init_flags:
  assumes ok: "bt_ok b" and cl: "clean_table (btable b) d p"
    and dp: "d = unat (sb_data_block_start (b_sb b))" "p = unat (sb_partition_size (b_sb b))" "d \<le> p" "p \<le> 2 ^ 31"
  shows "br_init_browsing ob True b =
    Some (Inr ((at (tpos b + 64 * tcnt b) b)\<lparr>b_used := Obj (mount_flags (btable b) d p)\<rparr>))"
proof -
  let ?v = "replicate d 1 @ replicate (p - d) (0::byte)"
  have f: "fill_used (replicate p 0) 0 d 1 = Some ?v" using dp by (simp add: fill_used_eq)
  have len: "length ?v = p" using dp by simp
  have "br_mark_loop (tcnt b) (b_fe b) ?v (at (tpos b + 64 * 0) b) =
      Some (set_flags (owned_blocks (drop 0 (btable b))) ?v, at (tpos b + 64 * tcnt b) b)"
    using cl ok by (intro br_mark_loop_eq) (auto simp: clean_table_def bt_ok_def len simp del: length_append)
  then show ?thesis
    using f by (simp add: br_init_browsing_def seek_table [OF ok] tcnt_def [symmetric] dp(1,2) [symmetric]
        mount_flags_def)
qed

section \<open>Flags and files\<close>

text \<open>
  The flags say exactly which blocks belong to files: no block is listed twice, every block listed
  is flagged, and no other block of the data area is.
\<close>

definition exact :: "sfs_file_entry list \<Rightarrow> byte list \<Rightarrow> nat \<Rightarrow> nat \<Rightarrow> bool" where
  "exact t u d p \<longleftrightarrow> blocks_ok t u d p \<and>
     (\<forall>k. d \<le> k \<and> k < p \<and> u ! k \<noteq> 0 \<longrightarrow> k \<in> unat ` set (owned_blocks t))"

lemma exact_flag:
  "exact t u d p \<Longrightarrow> d \<le> k \<Longrightarrow> k < p \<Longrightarrow> u ! k \<noteq> 0 \<longleftrightarrow> k \<in> unat ` set (owned_blocks t)"
  by (auto simp: exact_def blocks_ok_def)

lemma owned_blocks_same: "i < length t \<Longrightarrow> owned fe = owned (t ! i) \<Longrightarrow> owned_blocks (t[i := fe]) = owned_blocks t"
  by (metis owned_blocks_split)

lemma exact_same: "exact t u d p \<Longrightarrow> i < length t \<Longrightarrow> owned fe = owned (t ! i) \<Longrightarrow> exact (t[i := fe]) u d p"
  by (simp add: exact_def blocks_ok_def owned_blocks_same)

text \<open>File \<open>i\<close> gives all its blocks back.\<close>

lemma exact_give_back:
  assumes e: "exact t u d (length u)" and i: "i < length t" and fe: "owned fe = []"
  shows "exact (t[i := fe]) (clear_used (owned (t ! i)) u) d (length u)"
proof -
  have "blocks_ok (t[i := fe]) (clear_used (owned (t ! i)) u) d (length u)"
    using e fe by (intro blocks_ok_shrink [OF _ i refl]) (auto simp: exact_def)
  moreover have "k \<in> unat ` set (owned_blocks (t[i := fe]))"
    if k: "d \<le> k" "k < length u" "clear_used (owned (t ! i)) u ! k \<noteq> 0" for k
  proof -
    obtain A B where t: "owned_blocks t = A @ owned (t ! i) @ B" "owned_blocks (t[i := fe]) = A @ owned fe @ B"
      using owned_blocks_split [OF i] by metis
    have "u ! k \<noteq> 0" "k \<notin> unat ` set (owned (t ! i))"
      using k by (auto simp: nth_clear_used split: if_splits)
    then show ?thesis using exact_flag [OF e k(1,2)] by (auto simp: t fe)
  qed
  ultimately show ?thesis by (simp add: exact_def)
qed

text \<open>File \<open>i\<close>, which has no blocks, gets the free blocks \<open>ks\<close>.\<close>

lemma exact_fill:
  assumes ok: "exact t u d p" and i: "i < length t" "owned (t ! i) = []"
    and ks: "distinct ks" "\<forall>k \<in> set ks. d \<le> k \<and> k < p \<and> u ! k = 0" "0 < d" "p \<le> 2 ^ 31"
    and fe: "fe_blocks fe = map of_nat ks @ replicate z 0"
    and v: "\<forall>k. d \<le> k \<and> k < p \<longrightarrow> (v ! k \<noteq> 0 \<longleftrightarrow> u ! k \<noteq> 0 \<or> k \<in> set ks)"
  shows "exact (t[i := fe]) v d p" "owned fe = map of_nat ks"
proof -
  obtain A B where t: "owned_blocks t = A @ owned (t ! i) @ B"
    and t': "owned_blocks (t[i := fe]) = A @ owned fe @ B"
    using owned_blocks_split [OF i(1)] by metis
  have blk: "blocks_ok t u d p" using ok by (simp add: exact_def)
  have k32: "unat (of_nat k :: u32) = k" if "k \<in> set ks" for k
    using ks(2,4) that by (intro unat_of_small) fastforce
  then have nz: "(of_nat k :: u32) \<noteq> 0" if "k \<in> set ks" for k
    using ks(2,3) that by fastforce
  have f: "owned fe = map of_nat ks" using nz by (simp add: owned_def fe filter_id_conv)
  then show "owned fe = map of_nat ks" .
  have "inj_on (of_nat :: nat \<Rightarrow> u32) (set ks)" using k32 by (metis inj_onI)
  moreover have "of_nat k \<notin> set (owned_blocks t)" if "k \<in> set ks" for k
    using blk ks(2) k32 [OF that] that by (auto simp: blocks_ok_def)
  ultimately have "distinct (A @ map of_nat ks @ B)"
    using blk ks(1) by (auto simp: blocks_ok_def t i(2) distinct_map)
  moreover have "d \<le> unat x \<and> unat x < p \<and> v ! unat x \<noteq> 0" if "x \<in> set (A @ map of_nat ks @ B)" for x
    using that blk ks(2) v k32 by (auto simp: blocks_ok_def t i(2))
  moreover have "k \<in> unat ` set (A @ map of_nat ks @ B)" if "d \<le> k" "k < p" "v ! k \<noteq> 0" for k
  proof (cases "k \<in> set ks")
    case True
    then have "k = unat (of_nat k :: u32)" using k32 by simp
    then show ?thesis using True by (intro image_eqI [of _ _ "of_nat k"]) auto
  next
    case False
    then have "k \<in> unat ` set (owned_blocks t)" using exact_flag [OF ok that(1,2)] v that by blast
    then show ?thesis by (auto simp: t i(2))
  qed
  ultimately show "exact (t[i := fe]) v d p" by (simp add: exact_def blocks_ok_def t' f del: set_append)
qed

section \<open>The state of a session\<close>

text \<open>Names are terminated, no file has a hole, and the flags are exact.\<close>

abbreviation bstart :: "browser \<Rightarrow> nat" where
  "bstart b \<equiv> unat (sb_data_block_start (b_sb b))"

definition session_ok :: "browser \<Rightarrow> byte list \<Rightarrow> bool" where
  "session_ok b u \<longleftrightarrow> store_ok b u \<and> disk_ok b \<and> (\<forall>fe \<in> set (btable b). clean_fe fe) \<and>
     exact (btable b) u (bstart b) (length u)"

lemma session_clean:
  "session_ok b u \<Longrightarrow> clean_table (btable b) (bstart b) (unat (sb_partition_size (b_sb b)))"
  by (auto simp: session_ok_def clean_table_def exact_def blocks_ok_def store_ok_def)

lemma session_names: "session_ok b u \<Longrightarrow> names_ok (btable b)"
  by (auto simp: session_ok_def clean_fe_def names_ok_def)

text \<open>After \<open>br_init_browsing\<close> the session is in such a state.\<close>

lemma session_starts:
  assumes st: "store_ok b v" "disk_ok b" and cl: "clean_table (btable b) (bstart b) (length v)"
  shows "\<exists>b' u. br_init_browsing ob True b = Some (Inr b') \<and> session_ok b' u \<and> btable b' = btable b"
proof -
  let ?u = "mount_flags (btable b) (bstart b) (length v)"
  let ?b = "(at (tpos b + 64 * tcnt b) b)\<lparr>b_used := Obj ?u\<rparr>"
  have v: "bstart b \<le> length v" "length v = unat (sb_partition_size (b_sb b))" "length v \<le> 2 ^ 31"
    using st by (auto simp: store_ok_def disk_ok_def)
  have "br_init_browsing ob True b = Some (Inr ?b)"
    using br_init_flags [OF _ cl refl v(2,1,3)] st(1) by (simp add: store_ok_def)
  moreover have "store_ok ?b ?u" using st(1) v by (simp add: store_ok_def length_mount_flags)
  moreover have "disk_ok ?b" using st(2) by (simp add: disk_ok_def)
  moreover have "exact (btable b) ?u (bstart b) (length v)"
    using cl nth_mount_flags [OF v(1), of _ "btable b"] by (auto simp: exact_def blocks_ok_def clean_table_def)
  ultimately show ?thesis
    using cl v(1) by (intro exI [of _ ?b] exI [of _ ?u]) (auto simp: session_ok_def clean_table_def length_mount_flags)
qed

section \<open>Entries\<close>

lemma store_ok_put_entry:
  assumes "store_ok b u" "i < tcnt b" "wf_fe fe"
  shows "store_ok (put_at (tpos b + 64 * i) (encode_fe fe) b) u"
proof -
  have "tpos b + 64 * i + 64 \<le> length (fh_data (b_h b))"
    using assms by (auto simp: store_ok_def bt_ok_def)
  then show ?thesis
    using assms btable_put_entry(2) [of b i fe] by (simp add: store_ok_def)
qed

lemma disk_ok_put_entry:
  assumes "store_ok b u" "disk_ok b" "i < tcnt b" "wf_fe fe"
  shows "disk_ok (put_at (tpos b + 64 * i) (encode_fe fe) b)"
proof -
  have "tpos b + 64 * i + 64 \<le> length (fh_data (b_h b))"
    using assms by (auto simp: store_ok_def bt_ok_def)
  then have "get_bytes 0 512 (put_bytes (tpos b + 64 * i) (encode_fe fe) (fh_data (b_h b))) =
      get_bytes 0 512 (fh_data (b_h b))"
    using entry_addr_tpos(3) [OF assms(1,2)] assms(4) by (intro get_put_disjoint) auto
  then show ?thesis using assms(2) by (simp add: disk_ok_def)
qed

lemma disk_ok_stored:
  assumes "stored b u ks cs b2 u2" "disk_ok b" "0 < length u" "0 \<notin> set ks"
  shows "disk_ok b2"
proof -
  have "block_of 0 b2 = block_of 0 b" "b_sb b2 = b_sb b" using assms(1,3,4) by (auto simp: stored_def)
  then show ?thesis using assms(2) by (simp add: disk_ok_def block_of_def)
qed

lemma free_after_stored:
  assumes st: "stored b u (take n (bfree b u)) cs b2 u2" and n: "n \<le> length (bfree b u)"
    and k: "bstart b \<le> k" "k < length u"
  shows "u2 ! k \<noteq> 0 \<longleftrightarrow> u ! k \<noteq> 0 \<or> k \<in> set (take n (bfree b u))"
proof -
  have free: "bfree b2 u2 = drop n (bfree b u)" "length u2 = length u" "b_sb b2 = b_sb b"
    using st n by (auto simp: stored_def min_def)
  have "u2 ! k = 0 \<longleftrightarrow> k \<in> set (bfree b2 u2)" using k free(2,3) by (simp add: free_blocks_set)
  moreover have "u ! k = 0 \<longleftrightarrow> k \<in> set (bfree b u)" using k by (simp add: free_blocks_set)
  moreover have "set (bfree b u) = set (take n (bfree b u)) \<union> set (drop n (bfree b u))"
    by (simp flip: set_append)
  moreover have "set (take n (bfree b u)) \<inter> set (drop n (bfree b u)) = {}"
    by (simp add: set_take_disj_set_drop_if_distinct)
  ultimately show ?thesis unfolding free(1) by auto
qed

lemma clean_filled:
  assumes o: "owned fe = map of_nat ks" and fe: "fe_blocks fe = map of_nat ks @ replicate z 0"
    and live: "fe_live fe" "fe_fname fe \<noteq> None"
  shows "clean_fe fe"
proof -
  have "0 \<notin> set (owned fe)" by (simp add: owned_def)
  then have "x \<noteq> 0" if "x \<in> set (map of_nat ks)" for x :: u32 using that o by metis
  then have "takeWhile (\<lambda>x. x \<noteq> 0) (map of_nat ks @ replicate z (0::u32)) =
      map of_nat ks @ takeWhile (\<lambda>x. x \<noteq> 0) (replicate z 0)"
    by (rule takeWhile_append2)
  moreover have "takeWhile (\<lambda>x. x \<noteq> 0) (replicate z (0::u32)) = []" by (cases z) simp_all
  ultimately show ?thesis using o fe live by (simp add: clean_fe_def)
qed

lemma no_holes: "filter P xs = takeWhile P xs \<Longrightarrow> filter P (dropWhile P xs) = []"
  by (induction xs) (auto split: if_splits)

text \<open>A clean entry behind its blocks, and one without blocks.\<close>

lemma clean_blocks:
  assumes cl: "clean_fe fe" "fe_live fe" and n: "length (owned fe) \<le> n"
  shows "drop n (fe_blocks fe) = replicate (length (fe_blocks fe) - n) 0"
    and "takeWhile (\<lambda>x. x \<noteq> 0) (fe_blocks fe) = owned fe"
proof -
  let ?P = "\<lambda>x :: u32. x \<noteq> 0" and ?bs = "fe_blocks fe"
  show t: "takeWhile ?P ?bs = owned fe" using cl by (simp add: clean_fe_def)
  have "filter ?P (dropWhile ?P ?bs) = []" by (rule no_holes) (simp only: t owned_def)
  then have z: "\<And>x. x \<in> set (dropWhile ?P ?bs) \<Longrightarrow> x = 0" unfolding filter_empty_conv by blast
  have "drop n ?bs = drop (n - length (owned fe)) (dropWhile ?P ?bs)"
    using n unfolding dropWhile_eq_drop t drop_drop by simp
  then have "\<forall>x \<in> set (drop n ?bs). x = 0" using z by (metis in_set_dropD)
  then show "drop n ?bs = replicate (length ?bs - n) 0"
    using replicate_length_same [of "drop n ?bs" 0] by simp
qed

text \<open>Putting an entry into the table keeps the session in such a state when the flags fit it.\<close>

lemma session_put:
  assumes s: "session_ok b u" and i: "i < tcnt b" and fe: "wf_fe fe" "clean_fe fe"
    and u: "length u' = length u" "exact ((btable b)[i := fe]) u' (bstart b) (length u)"
  defines "b1 \<equiv> put_at (tpos b + 64 * i) (encode_fe fe) (b\<lparr>b_used := Obj u'\<rparr>)"
  shows "session_ok b1 u'" "btable b1 = (btable b)[i := fe]"
proof -
  let ?b = "b\<lparr>b_used := Obj u'\<rparr>"
  have ok: "store_ok ?b u'" "disk_ok ?b" and cl: "\<forall>fe \<in> set (btable b). clean_fe fe" and bt: "bt_ok ?b"
    using s u(1) by (simp_all add: session_ok_def store_ok_def disk_ok_def)
  show t: "btable b1 = (btable b)[i := fe]"
    using btable_put_entry(1) [OF bt _ fe(1), of i] i by (simp add: b1_def)
  show "session_ok b1 u'"
    using store_ok_put_entry [OF ok(1) _ fe(1), of i] disk_ok_put_entry [OF ok _ fe(1), of i] i cl fe(2) t u
    by (auto simp: session_ok_def b1_def dest!: set_update_subset_insert [THEN subsetD])
qed

text \<open>So does an entry without blocks in the place of one without blocks.\<close>

lemma used_same: "b_used b = v \<Longrightarrow> b\<lparr>b_used := v\<rparr> = b"
  by (cases b) simp

lemma session_put_empty:
  assumes s: "session_ok b u" and i: "i < tcnt b" "owned (btable b ! i) = []"
    and fe: "wf_fe fe" "clean_fe fe" "owned fe = []"
  defines "b1 \<equiv> put_at (tpos b + 64 * i) (encode_fe fe) b"
  shows "session_ok b1 u" "btable b1 = (btable b)[i := fe]"
proof -
  have "exact ((btable b)[i := fe]) u (bstart b) (length u)"
    using s i fe(3) by (intro exact_same) (simp_all add: session_ok_def)
  moreover have "b\<lparr>b_used := Obj u\<rparr> = b" using s by (intro used_same) (simp add: session_ok_def store_ok_def)
  ultimately show "session_ok b1 u" "btable b1 = (btable b)[i := fe]"
    using session_put [OF s i(1) fe(1,2) refl] by (simp_all add: b1_def)
qed

section \<open>Writing\<close>

text \<open>A file gives its blocks back: the flags are exact for the table without them.\<close>

lemma exact_given_back:
  assumes s: "session_ok b u" and i: "i < tcnt b" "fe_live (btable b ! i)"
  shows "exact ((btable b)[i := (btable b ! i)\<lparr>fe_blocks := replicate 9 0\<rparr>]) (given_back (btable b ! i) u)
    (bstart b) (length u)"
proof -
  let ?fe = "btable b ! i" and ?none = "(btable b ! i)\<lparr>fe_blocks := replicate 9 0\<rparr>"
  have ex: "exact (btable b) u (bstart b) (length u)" and cl: "clean_fe ?fe"
    using s i(1) by (simp_all add: session_ok_def)
  have "owned ?none = []" by (simp add: owned_def)
  then show ?thesis
    using exact_give_back [OF ex] i(1) clean_blocks(2) [OF cl i(2) order_refl]
    by (simp add: given_back_def)
qed

text \<open>Writing a file keeps the session in such a state, and the file has its data.\<close>

lemma session_write:
  fixes now :: u32
  assumes s: "session_ok b u" and fn: "0 \<notin> set fn" and i: "find_file fn (btable b) = Some i"
    and perm: "fe_perms (btable b ! i) AND 2 \<noteq> 0"
  defines "u0 \<equiv> given_back (btable b ! i) u"
  assumes d: "typed (b_in b) = d" "nblocks (length d) \<le> 9" "nblocks (length d) \<le> length (bfree b u0)"
    and old: "length (owned (btable b ! i)) \<le> nblocks (length d)"
  defines "ks \<equiv> take (nblocks (length d)) (bfree b u0)"
  shows "\<exists>b1 u1. br_write ob now fn b = Some b1 \<and> session_ok b1 u1 \<and>
    btable b1 = (btable b)[i := filled_fe (btable b ! i) d now ks] \<and> take (length d) (contents ks b1) = d \<and>
    b_sb b1 = b_sb b \<and> b_out b1 = b_out b \<and> owned (filled_fe (btable b ! i) d now ks) = map of_nat ks \<and>
    (\<forall>k. bstart b \<le> k \<and> k < length u \<and> k \<notin> set ks \<longrightarrow> block_of k b1 = block_of k b)"
proof -
  let ?fe = "btable b ! i" and ?t = "btable b"
  let ?fe2 = "filled_fe ?fe d now ks" and ?none = "?fe\<lparr>fe_blocks := replicate 9 0\<rparr>"
  have ok: "store_ok b u" "disk_ok b" and ex: "exact ?t u (bstart b) (length u)"
    and cl: "\<forall>fe \<in> set ?t. clean_fe fe"
    using s by (simp_all add: session_ok_def)
  have i': "i < tcnt b" "hit fn ?fe" using i by (simp_all add: find_file_Some)
  then have fe: "clean_fe ?fe" "fe_live ?fe" "wf_fe ?fe" "fe_fname ?fe \<noteq> None"
    using cl wf_btable ok(1) by (simp_all add: hit_def store_ok_def)
  have rng: "unat x < length u" if "x \<in> set (fe_blocks ?fe)" "x \<noteq> 0" for x
    using blocks_ok_range [of ?t u "bstart b" "length u" i x] ex i'(1) that by (simp add: exact_def)
  obtain b2 u2 cs where w: "br_write ob now fn b = Some (put_at (tpos b + 64 * i) (encode_fe ?fe2) b2)"
    and st: "stored b u0 ks cs b2 u2" and cs: "length cs = length ks" "take (length d) (concat cs) = d"
    using br_write_stores [OF ok(1) session_names [OF s] fn i perm rng d [unfolded u0_def], of ob now]
    unfolding ks_def u0_def by blast
  let ?b1 = "put_at (tpos b + 64 * i) (encode_fe ?fe2) b2"
  have lk: "length ks = nblocks (length d)" using d(3) by (simp add: ks_def)
  have lu: "length u0 = length u" by (simp add: u0_def)
  have bl: "fe_blocks ?fe2 = map of_nat ks @ replicate (9 - length ks) 0"
    using clean_blocks(1) [OF fe(1,2), of "length ks"] old lk fe(3) by (simp add: wf_fe_def)
  have wf: "wf_fe ?fe2" using fe(3) lk d(2) by simp
  have sub: "set ks \<subseteq> set (bfree b u0)" unfolding ks_def by (rule set_take_subset)
  note b1 = stored_entry [OF st cs(1) sub i'(1) wf]
  have p: "0 < bstart b" "length u \<le> 2 ^ 31" using ok(1) by (auto simp: store_ok_def)
  have ks: "distinct ks" "\<forall>k \<in> set ks. bstart b \<le> k \<and> k < length u \<and> u0 ! k = 0"
    using sub lu by (auto simp: ks_def free_blocks_set)
  have st': "store_ok b2 u2" "b_sb b2 = b_sb b" "length u2 = length u" "b_out b2 = b_out b"
    using st lu by (simp_all add: stored_def)
  have pos: "tpos b2 = tpos b" "tcnt b2 = tcnt b" using st'(2) by (simp_all add: tpos_def tcnt_def table_pos_def)
  have ex0: "exact (?t[i := ?none]) u0 (bstart b) (length u)"
    unfolding u0_def by (rule exact_given_back [OF s i'(1) fe(2)])
  have il: "i < length (?t[i := ?none])" "owned (?t[i := ?none] ! i) = []"
    using i' by (simp_all add: owned_def)
  have v: "\<forall>k. bstart b \<le> k \<and> k < length u \<longrightarrow> (u2 ! k \<noteq> 0 \<longleftrightarrow> u0 ! k \<noteq> 0 \<or> k \<in> set ks)"
    using free_after_stored [OF _ d(3)] st lu unfolding ks_def by metis
  note fill = exact_fill [OF ex0 il ks p bl v, simplified]
  have "clean_fe ?fe2" using clean_filled [OF fill(2) bl] fe by simp
  then have "\<forall>fe \<in> set (btable ?b1). clean_fe fe"
    using cl b1(1) by (auto dest!: set_update_subset_insert [THEN subsetD])
  moreover have "store_ok ?b1 u2"
    using store_ok_put_entry [OF st'(1) _ wf, of i] i'(1) pos by simp
  moreover have "0 \<notin> set ks" "0 < length u0" using ks(2) p(1) ok lu by (fastforce, auto simp: disk_ok_def store_ok_def)
  then have "disk_ok b2" using disk_ok_stored [OF st ok(2)] by simp
  then have "disk_ok ?b1" using disk_ok_put_entry [OF st'(1) _ _ wf, of i] i'(1) pos by simp
  moreover have "exact (btable ?b1) u2 (bstart ?b1) (length u2)"
    using fill(1) st' b1(1) by simp
  ultimately have "session_ok ?b1 u2" by (simp add: session_ok_def)
  moreover have "block_of k ?b1 = block_of k b" if "bstart b \<le> k" "k < length u" "k \<notin> set ks" for k
    using that b1(3) [of k] st lu by (simp add: stored_def)
  ultimately show ?thesis using w b1(1,4) cs(2) st'(2,4) fill(2) by (intro exI [of _ ?b1] exI [of _ u2]) simp
qed

text \<open>The blocks of every other file stay flagged when the old content is given back.\<close>

lemma others_flagged:
  assumes s: "session_ok b u" and i: "i < tcnt b" "fe_live (btable b ! i)"
    and j: "j < tcnt b" "j \<noteq> i" "x \<in> set (owned (btable b ! j))"
  shows "given_back (btable b ! i) u ! unat x \<noteq> 0" "bstart b \<le> unat x" "unat x < length u"
proof -
  let ?fe = "btable b ! i" and ?none = "(btable b ! i)\<lparr>fe_blocks := replicate 9 0\<rparr>"
  note e = exact_given_back [OF s i]
  have "x \<in> set (owned_blocks ((btable b)[i := ?none]))"
    using owned_subset [of j "(btable b)[i := ?none]"] j by auto
  then show "given_back ?fe u ! unat x \<noteq> 0" "bstart b \<le> unat x" "unat x < length u"
    using e by (auto simp: exact_def blocks_ok_def)
qed

end
