(* ===== verification/Sfs_Commands.thy ===== *)
theory Sfs_Commands
  imports Sfs_Session
begin

unbundle bit_operations_syntax

text \<open>
  The commands of the browser of August in a session: each returns and keeps the state of
  \<open>Sfs_Session\<close>, and so does the shell, from \<open>init_browsing\<close> to its end. Two commands have a
  condition: \<open>create\<close> needs a 32-bit \<open>off_t\<close>, and what is typed after \<open>write\<close> has to fit, and to fill
  at least as many blocks as the file had.
\<close>

section \<open>Commands that change nothing on the disk\<close>

text \<open>The same disk, super block and flags: only the file position, the block buffer's content, the input and output differ.\<close>

definition quiet :: "browser \<Rightarrow> browser \<Rightarrow> bool" where
  "quiet b b' \<longleftrightarrow> fh_data (b_h b') = fh_data (b_h b) \<and> b_sb b' = b_sb b \<and> b_used b' = b_used b \<and>
     b_fe b' = b_fe b \<and> length (b_block b') = length (b_block b)"

lemma quiet_refl [simp]: "quiet b b"
  by (simp add: quiet_def)

lemma quiet_trans: "quiet a b \<Longrightarrow> quiet b c \<Longrightarrow> quiet a c"
  by (simp add: quiet_def)

lemma quiet_simps [simp]:
  "quiet b (say m b') = quiet b b'" "quiet b (at p b') = quiet b b'" "quiet b (b'\<lparr>b_in := i\<rparr>) = quiet b b'"
  "quiet b (seek ob w b') = quiet b b'" "quiet (at p b) b' = quiet b b'" "quiet (say m b) b' = quiet b b'"
  by (simp_all add: quiet_def say_def seek_def)

lemma quiet_table: "quiet b b' \<Longrightarrow> tpos b' = tpos b" "quiet b b' \<Longrightarrow> tcnt b' = tcnt b"
  "quiet b b' \<Longrightarrow> btable b' = btable b" "quiet b b' \<Longrightarrow> bt_ok b' = bt_ok b"
  by (simp_all add: quiet_def tpos_def tcnt_def table_pos_def btable_def bt_ok_def)

lemma quiet_session: "quiet b b' \<Longrightarrow> session_ok b' u = session_ok b u"
  by (simp add: session_ok_def store_ok_def disk_ok_def quiet_table) (simp add: quiet_def)

text \<open>\<open>sfs_list\<close>\<close>

lemma say_at: "say m (at p b) = at p (say m b)"
  by (simp add: say_def at_def)

lemma data_out_other [simp]:
  "data_out (b_out (say (M_entry n s p t) b)) = data_out (b_out b)"
  "data_out (b_out (say (M_exists n) b)) = data_out (b_out b)"
  "data_out (b_out (say (M_missing n) b)) = data_out (b_out b)"
  "data_out (b_out (say (M_unknown n) b)) = data_out (b_out b)"
  "data_out (b_out (say M_no_entries b)) = data_out (b_out b)"
  "data_out (b_out (say M_usage b)) = data_out (b_out b)"
  by (simp_all add: data_out_def say_def)

lemma list_loop_quiet:
  assumes "bt_ok b" "names_ok (btable b)" "k + n = tcnt b" "wf_fe fe"
  shows "\<exists>b'. br_list_loop ob n fe (at (tpos b + 64 * k) b) = Some b' \<and> quiet b b' \<and>
    data_out (b_out b') = data_out (b_out b)"
  using assms
proof (induction n arbitrary: k fe b)
  case (Suc n)
  then have k: "k < tcnt b" by simp
  let ?fe = "btable b ! k"
  have rd: "read_fe fe (at (tpos b + 64 * k) b) = (?fe, at (tpos b + 64 * Suc k) b)"
    by (rule read_fe_at [OF Suc.prems(1) k Suc.prems(4)])
  have IH: "\<exists>b''. br_list_loop ob n ?fe (at (tpos b + 64 * Suc k) b') = Some b'' \<and> quiet b b'' \<and>
      data_out (b_out b'') = data_out (b_out b')" if "quiet b b'" for b'
  proof -
    have "\<exists>b''. br_list_loop ob n ?fe (at (tpos b' + 64 * Suc k) b') = Some b'' \<and> quiet b' b'' \<and>
        data_out (b_out b'') = data_out (b_out b')"
      using Suc.prems k wf_btable [OF Suc.prems(1) k] quiet_table [OF that]
      by (intro Suc.IH) simp_all
    then show ?thesis using quiet_trans [OF that] quiet_table(1) [OF that] by auto
  qed
  have "?fe \<in> set (btable b)" using k by (metis length_btable nth_mem)
  then obtain t where t: "fe_live ?fe \<Longrightarrow> fe_fname ?fe = Some t"
    using Suc.prems(2) by (auto simp: names_ok_def)
  show ?case
    using t IH [OF quiet_refl] IH [of "say (M_entry t (fe_size ?fe) (fe_perms ?fe AND 7) (list_time ob ?fe)) b"]
    by (cases "fe_live ?fe") (simp_all add: rd say_at)
qed simp

lemma session_list:
  assumes "session_ok b u"
  shows "\<exists>b'. br_list ob b = Some b' \<and> quiet b b' \<and> data_out (b_out b') = data_out (b_out b)"
proof -
  have "bt_ok b" "wf_fe (b_fe b)" using assms by (simp_all add: session_ok_def store_ok_def bt_ok_def)
  then show ?thesis
    using list_loop_quiet [of b 0 "tcnt b" "b_fe b" ob] session_names [OF assms]
    by (simp add: br_list_def seek_table tcnt_def [symmetric])
qed

text \<open>\<open>sfs_read\<close>, whatever block numbers and size the entry has\<close>

lemma read_block_quiet:
  assumes "unat n \<le> 512" "length (b_block b) = 512"
  shows "\<exists>b'. read_block ob pos n b = Some b' \<and> quiet b b'"
proof -
  obtain xs h where r: "sys_read (unat n) (b_h (seek ob pos b)) = (xs, h)" by fastforce
  have "fh_data h = fh_data (b_h b)" "length xs \<le> unat n"
    using r by (auto simp: sys_read_def seek_def lseek_set_def Let_def get_bytes_def)
  then show ?thesis
    using r assms by (simp add: read_block_def quiet_def) (simp add: seek_def)
qed

lemma read_loop_quiet:
  assumes "sb_block_size (b_sb b) = 512" "length (b_block b) = 512"
  shows "\<exists>b'. br_read_loop ob bls n b = Some b' \<and> quiet b b'"
  using assms
proof (induction bls arbitrary: n b)
  case (Cons x bls)
  let ?n = "if 512 \<le> n then 512 else n"
  have "unat ?n \<le> 512" by (auto simp: word_le_nat_alt)
  then obtain b1 where b1: "read_block ob (x * 512) ?n b = Some b1" "quiet b b1"
    using read_block_quiet Cons.prems(2) by blast
  let ?b1 = "say (M_data (take (unat ?n) (b_block b1))) b1"
  obtain b2 where b2: "br_read_loop ob bls (n - ?n) ?b1 = Some b2" "quiet ?b1 b2"
    using Cons.IH [of ?b1 "n - ?n"] b1(2) Cons.prems by (auto simp: quiet_def)
  have "quiet b b2" using b1(2) b2(2) quiet_trans by simp
  then show ?case
    using b1 b2(1) unfolding br_read_loop.simps Let_def Cons.prems(1) by simp
qed simp

lemma session_read:
  assumes s: "session_ok b u" and fn: "0 \<notin> set fn"
  shows "\<exists>b'. br_read ob fn b = Some b' \<and> quiet b b'"
proof -
  have ok: "bt_ok b" "sb_block_size (b_sb b) = 512" "length (b_block b) = 512"
    using s by (simp_all add: session_ok_def store_ok_def)
  obtain fe' where l: "br_lookup ob fn b = Some
    (case find_file fn (btable b) of
       Some i \<Rightarrow> (int i, btable b ! i, at (tpos b + 64 * Suc i) b)
     | None \<Rightarrow> (-1, fe', at (tpos b + 64 * tcnt b) b))"
    using br_lookup_table [OF ok(1) session_names [OF s] fn] by blast
  show ?thesis
  proof (cases "find_file fn (btable b)")
    case (Some i)
    then show ?thesis
      using l read_loop_quiet [of "at (tpos b + 64 * Suc i) b" ob] ok by (auto simp: br_read_def)
  qed (use l in \<open>simp add: br_read_def\<close>)
qed

section \<open>Commands that change the table\<close>

text \<open>\<open>sfs_create\<close>, which needs a 32-bit \<open>off_t\<close>\<close>

lemma clean_new_fe: "0 \<notin> set fn \<Longrightarrow> clean_fe (new_fe fn now perms)"
  by (simp add: clean_fe_def owned_def numeral_nat)

lemma session_create_near:
  assumes s: "session_ok b u" and fn: "0 \<notin> set fn"
  shows "\<exists>b'. br_create False now fn b = Some b' \<and> session_ok b' u"
proof -
  have ok: "bt_ok b" using s by (simp add: session_ok_def store_ok_def)
  note names = session_names [OF s]
  let ?P = "\<lambda>i. \<not> fe_live (btable b ! i) \<or> hit fn (btable b ! i)"
  obtain fe' where loop: "br_create_loop fn (unat (sb_entry_count (b_sb b))) (b_fe b) (seek False (table_pos b) b) =
    Some (case find ?P [0..<tcnt b] of
       Some i \<Rightarrow> (if fe_live (btable b ! i) then Scan_Exists else Scan_Free, btable b ! i,
                  at (tpos b + 64 * Suc i) b)
     | None \<Rightarrow> (Scan_End, fe', at (tpos b + 64 * tcnt b) b))"
    using br_create_scan [OF ok names fn] by blast
  consider "find ?P [0..<tcnt b] = None"
    | i where "find ?P [0..<tcnt b] = Some i" "fe_live (btable b ! i)"
    | i where "find ?P [0..<tcnt b] = Some i" "\<not> fe_live (btable b ! i)"
    by (cases "find ?P [0..<tcnt b]") auto
  then show ?thesis
  proof cases
    case 1
    then show ?thesis using loop quiet_session [OF _, of b _ u] s by (simp add: br_create_def)
  next
    case (2 i)
    then show ?thesis using loop quiet_session [OF _, of b _ u] s by (simp add: br_create_def)
  next
    case (3 i)
    then have i: "i < tcnt b" "\<And>j. j < i \<Longrightarrow> fe_live (btable b ! j) \<and> \<not> hit fn (btable b ! j)"
      by (auto simp: find_upt_Some)
    then have slot: "find_slot (btable b) = Some i" using 3 by (simp add: find_slot_Some)
    have "clean_fe (btable b ! i)" using s i(1) by (simp add: session_ok_def)
    then have "owned (btable b ! i) = []" "owned (new_fe fn now 7) = []"
      using 3 by (simp_all add: clean_fe_def owned_def numeral_nat)
    then show ?thesis
      using session_put_empty(1) [OF s i(1) _ wf_new_fe clean_new_fe [OF fn], of now 7]
        br_create_first_free [OF ok names fn slot, of now] i(2) by auto
  qed
qed

text \<open>\<open>sfs_remove\<close>\<close>

lemma session_remove:
  assumes s: "session_ok b u" and fn: "0 \<notin> set fn"
  shows "\<exists>b' u'. br_remove ob fn b = Some b' \<and> session_ok b' u'"
proof -
  have ok: "bt_ok b" "b_used b = Obj u" "length u \<le> 2 ^ 31" and ex: "exact (btable b) u (bstart b) (length u)"
    using s by (auto simp: session_ok_def store_ok_def)
  note names = session_names [OF s]
  show ?thesis
  proof (cases "find_file fn (btable b)")
    case None
    then obtain fe' where "br_lookup ob fn b = Some (-1, fe', at (tpos b + 64 * tcnt b) b)"
      using br_lookup_table [OF ok(1) names fn, of ob] by auto
    then show ?thesis
      using quiet_session [of b "say (M_missing fn) (at (tpos b + 64 * tcnt b) b)" u] s
      by (auto simp: br_remove_def)
  next
    case (Some i)
    let ?fe = "btable b ! i"
    have i: "i < tcnt b" "hit fn ?fe" using Some by (simp_all add: find_file_Some)
    have rng: "unat x < length u" if "x \<in> set (fe_blocks ?fe)" "x \<noteq> 0" for x
      using blocks_ok_range [of "btable b" u "bstart b" "length u" i x] ex i(1) that by (simp add: exact_def)
    have "clean_fe ?fe" "fe_live ?fe" using s i by (simp_all add: session_ok_def hit_def)
    then have tw: "takeWhile (\<lambda>x. x \<noteq> 0) (fe_blocks ?fe) = owned ?fe"
      using clean_blocks(2) by blast
    have z: "owned zero_fe = []" by (simp add: owned_def zero_fe_def numeral_nat)
    have "exact ((btable b)[i := zero_fe]) (clear_used (owned ?fe) u) (bstart b) (length u)"
      using exact_give_back [OF ex _ z] i(1) by simp
    then show ?thesis
      using br_remove_some [OF ok(1) names fn Some ok(2,3) rng, of ob]
        session_put(1) [OF s i(1) wf_zero_fe, of "clear_used (owned ?fe) u"] z
      unfolding tw by (auto simp: clean_fe_def)
  qed
qed

text \<open>\<open>sfs_chperm\<close>\<close>

lemma session_chperm:
  assumes s: "session_ok b u" and fn: "0 \<notin> set fn"
  shows "\<exists>b'. br_chperm ob now fn p b = Some b' \<and> session_ok b' u"
proof -
  have ok: "bt_ok b" "b_used b = Obj u" and ex: "exact (btable b) u (bstart b) (length u)"
    using s by (auto simp: session_ok_def store_ok_def)
  note look = br_lookup_table [OF ok(1) session_names [OF s] fn, of ob]
  show ?thesis
  proof (cases "find_file fn (btable b)")
    case None
    then show ?thesis
      using look quiet_session [OF _, of b _ u] s by (auto simp: br_chperm_def br_update_def)
  next
    case (Some i)
    define fe where "fe = (if p \<le> 7 then (btable b ! i)\<lparr>fe_perms := word_of_int p\<rparr> else btable b ! i)"
    have i: "i < tcnt b" using Some by (simp add: find_file_Some)
    have same: "owned fe = owned (btable b ! i)" "fe_blocks fe = fe_blocks (btable b ! i)"
      "fe_name fe = fe_name (btable b ! i)"
      by (simp_all add: fe_def owned_def)
    have wf: "wf_fe fe" using wf_btable [OF ok(1) i] same by (simp add: wf_fe_def)
    have "clean_fe (btable b ! i)" using s i by (simp add: session_ok_def)
    then have cl: "clean_fe fe" unfolding clean_fe_def fe_live_def fe_fname_def same .
    have "exact ((btable b)[i := fe]) u (bstart b) (length u)" using exact_same [OF ex] i same(1) by simp
    then have "session_ok (put_at (tpos b + 64 * i) (encode_fe fe) (b\<lparr>b_used := Obj u\<rparr>)) u"
      using session_put(1) [OF s i wf cl refl] by simp
    moreover have "b\<lparr>b_used := Obj u\<rparr> = b" using ok(2) by (rule used_same)
    ultimately show ?thesis
      using look Some i wf ok(1) unfolding br_chperm_def br_update_def
      by (auto simp: Let_def fe_def [symmetric] write_entry_at_eq)
  qed
qed

section \<open>One command\<close>

text \<open>
  The condition on \<open>write\<close>, when it writes at all; \<open>create\<close> with a 64-bit \<open>off_t\<close> is only
  considered on a device smaller than 4 GiB.
\<close>

definition safe_write :: "byte list \<Rightarrow> browser \<Rightarrow> byte list \<Rightarrow> bool" where
  "safe_write fn b u =
     (case find_file fn (btable b) of
        None \<Rightarrow> True
      | Some i \<Rightarrow>
          let fe = btable b ! i; n = nblocks (length (typed (b_in b)))
          in fe_perms fe AND 2 = 0 \<or>
             n \<le> 9 \<and> length (owned fe) \<le> n \<and> n \<le> length (bfree b (given_back fe u)))"

definition safe_cmd :: "bool \<Rightarrow> command \<Rightarrow> browser \<Rightarrow> bool" where
  "safe_cmd ob c b =
     (case c of
        C_create fn \<Rightarrow> \<not> ob
      | C_write fn \<Rightarrow> (case b_used b of Obj u \<Rightarrow> safe_write fn b u | _ \<Rightarrow> False)
      | _ \<Rightarrow> True)"

lemma session_write_any:
  fixes now :: u32
  assumes s: "session_ok b u" and fn: "0 \<notin> set fn" and safe: "safe_write fn b u"
  shows "\<exists>b' u'. br_write ob now fn b = Some b' \<and> session_ok b' u'"
proof -
  have ok: "bt_ok b" using s by (auto simp: session_ok_def store_ok_def)
  obtain fe' where look: "br_lookup ob fn b = Some
    (case find_file fn (btable b) of
       Some i \<Rightarrow> (int i, btable b ! i, at (tpos b + 64 * Suc i) b)
     | None \<Rightarrow> (-1, fe', at (tpos b + 64 * tcnt b) b))"
    using br_lookup_table [OF ok session_names [OF s] fn] by blast
  have quiet: "session_ok (say m (at p b)) u" for m p
    using quiet_session [of b "say m (at p b)"] s by simp
  show ?thesis
  proof (cases "find_file fn (btable b)")
    case None
    then show ?thesis using look quiet by (auto simp: br_write_def)
  next
    case (Some i)
    then show ?thesis
      using look quiet session_write [OF s fn Some, of _ ob now] safe
      by (cases "fe_perms (btable b ! i) AND 2 = 0") (auto simp: br_write_def safe_write_def Let_def)
  qed
qed

text \<open>The names the shell passes on are terminated where they end.\<close>

fun cmd_names_ok :: "command \<Rightarrow> bool" where
  "cmd_names_ok (C_create fn) = (0 \<notin> set fn)"
| "cmd_names_ok (C_remove fn) = (0 \<notin> set fn)"
| "cmd_names_ok (C_chperm p fn) = (0 \<notin> set fn)"
| "cmd_names_ok (C_read fn) = (0 \<notin> set fn)"
| "cmd_names_ok (C_write fn) = (0 \<notin> set fn)"
| "cmd_names_ok _ = True"

lemma cmd_arg_no_nul: "cmd_arg k cmd = Some fn \<Longrightarrow> 0 \<notin> set fn"
  by (auto simp: cmd_arg_def Let_def split: if_splits dest: set_takeWhileD)

lemma parse_names: "cmd_names_ok (parse_cmd line)"
  unfolding parse_cmd_def cmd_file_def Let_def
  by (simp split: option.split) (blast dest: cmd_arg_no_nul)

lemma exec_session:
  assumes s: "session_ok b u" and names: "cmd_names_ok c" and safe: "safe_cmd ob c b"
  shows "\<exists>b' done u'. exec August ob now line c b = Some (b', done) \<and> session_ok b' u'"
proof -
  have u: "b_used b = Obj u" using s by (simp add: session_ok_def store_ok_def)
  have quiet: "Ex (session_ok b')" if "quiet b b'" for b' using quiet_session [OF that] s by auto
  show ?thesis
  proof (cases c)
    case (C_create fn)
    then have fn: "0 \<notin> set fn" using names by simp
    then show ?thesis using session_create_near [OF s fn, of now] safe by (auto simp: exec_def C_create safe_cmd_def)
  next
    case (C_write fn)
    then have "safe_write fn b u" "0 \<notin> set fn" using names safe u by (simp_all add: safe_cmd_def)
    then show ?thesis using session_write_any [OF s, of fn ob now] by (auto simp: exec_def C_write)
  next
    case (C_remove fn)
    then show ?thesis using session_remove [OF s, of fn ob] names by (auto simp: exec_def)
  next
    case (C_chperm p fn)
    then show ?thesis using session_chperm [OF s, of fn ob now p] names by (auto simp: exec_def)
  next
    case (C_read fn)
    then show ?thesis using session_read [OF s, of fn ob] names by (auto simp: exec_def intro: quiet)
  next
    case C_list
    then show ?thesis using session_list [OF s, of ob] by (auto simp: exec_def intro: quiet)
  qed (auto simp: exec_def intro!: quiet)
qed

section \<open>One round of the shell\<close>

text \<open>What the user may type next: a line that fits, with a command as above.\<close>

definition allowed :: "bool \<Rightarrow> browser \<Rightarrow> bool" where
  "allowed ob b =
     (case scanf_line (b_in b) of (ret, line, inp) \<Rightarrow>
        ret < 0 \<or> length line < 256 \<and>
          (ret = 0 \<or> safe_cmd ob (parse_cmd line) ((say M_prompt b)\<lparr>b_in := snd (getchar inp)\<rparr>)))"

lemma step_session:
  assumes s: "session_ok b u" and ok: "allowed ob b"
  shows "\<exists>b' done u'. browse_step August ob clock b = Some (b', done) \<and> session_ok b' u'"
proof -
  obtain ret line inp where l: "scanf_line (b_in b) = (ret, line, inp)" by (metis prod_cases3)
  have quiet: "Ex (session_ok b')" if "quiet b b'" for b' using quiet_session [OF that] s by auto
  let ?b = "(say M_prompt b)\<lparr>b_in := snd (getchar inp)\<rparr>"
  show ?thesis
  proof (cases "ret \<le> 0")
    case True
    then show ?thesis using l ok by (auto simp: browse_step_def allowed_def Let_def intro!: quiet)
  next
    case False
    then have "length line < 256" "safe_cmd ob (parse_cmd line) ?b" using l ok by (auto simp: allowed_def)
    moreover have "session_ok ?b u" using quiet_session [of b ?b u] s by simp
    ultimately show ?thesis
      using False l exec_session [of ?b u "parse_cmd line" ob "clock ?b" line] parse_names
      by (auto simp: browse_step_def parse_of_def Let_def)
  qed
qed

section \<open>The whole program\<close>

text \<open>The states at the head of the loop of a run of \<open>browse_sfs\<close>.\<close>

inductive browsing :: "bool \<Rightarrow> (browser \<Rightarrow> u32) \<Rightarrow> browser \<Rightarrow> browser \<Rightarrow> bool" for ob clock b0 where
  start: "br_init_browsing ob True (say_welcome b0) = Some (Inr b) \<Longrightarrow> browsing ob clock b0 b"
| round: "browsing ob clock b0 b \<Longrightarrow> browse_step August ob clock b = Some (b', False) \<Longrightarrow>
    browsing ob clock b0 b'"

text \<open>A disk on which the browser may start: one that was formatted or left by a session.\<close>

definition start_ok :: "browser \<Rightarrow> bool" where
  "start_ok b \<longleftrightarrow> (\<exists>v. store_ok b v) \<and> disk_ok b \<and>
     clean_table (btable b) (bstart b) (unat (sb_partition_size (b_sb b)))"

lemma quiet_start: "quiet b b' \<Longrightarrow> start_ok b' = start_ok b"
  by (simp add: start_ok_def store_ok_def disk_ok_def quiet_table) (simp add: quiet_def)

lemma quiet_welcome: "quiet b (say_welcome b)"
  by (simp add: say_welcome_def Let_def)

lemma start_session:
  assumes "start_ok b0"
  shows "\<exists>b u. br_init_browsing ob True (say_welcome b0) = Some (Inr b) \<and> session_ok b u \<and> btable b = btable b0"
proof -
  have st: "start_ok (say_welcome b0)" using quiet_start [OF quiet_welcome] assms by simp
  then obtain v where "store_ok (say_welcome b0) v" by (auto simp: start_ok_def)
  moreover from this have "length v = unat (sb_partition_size (b_sb (say_welcome b0)))" by (simp add: store_ok_def)
  ultimately show ?thesis
    using session_starts [of "say_welcome b0" v ob] st quiet_table(3) [OF quiet_welcome, of b0]
    by (simp add: start_ok_def)
qed

lemma browsing_session:
  assumes "browsing ob clock b0 b" "start_ok b0" "\<And>b. browsing ob clock b0 b \<Longrightarrow> allowed ob b"
  shows "\<exists>u. session_ok b u"
  using assms(1)
proof induction
  case (start b)
  then show ?case using start_session [OF assms(2), of ob] by auto
next
  case (round b b')
  then show ?case using step_session assms(3) by (metis option.inject prod.inject)
qed

lemma loop_session:
  assumes "browsing ob clock b0 b" "start_ok b0" "\<And>b. browsing ob clock b0 b \<Longrightarrow> allowed ob b"
  shows "\<exists>b' u. browse_loop August ob clock b = Some b' \<and> session_ok b' u"
  using assms(1)
proof (induction "stdin_size (b_in b)" arbitrary: b rule: less_induct)
  case less
  obtain u where "session_ok b u" using browsing_session [OF less.prems assms(2,3)] by blast
  then obtain b1 dn u1 where step: "browse_step August ob clock b = Some (b1, dn)" and s1: "session_ok b1 u1"
    using step_session assms(3) [OF less.prems] by blast
  show ?case
  proof (cases dn)
    case True
    then show ?thesis using step s1 by (subst browse_loop.simps) auto
  next
    case False
    then have "browse_step August ob clock b = Some (b1, False)" using step by simp
    with less.hyps [OF browse_step_less [OF this] browsing.round [OF less.prems this]]
    show ?thesis by (subst browse_loop.simps) simp
  qed
qed

text \<open>The program ends with status 0, and its disk is one on which it may start again.\<close>

lemma session_start:
  assumes "session_ok b u"
  shows "start_ok b"
  using assms session_clean [OF assms] by (auto simp: session_ok_def start_ok_def)

lemma program_session:
  assumes st: "start_ok b0" and all: "\<And>b. browsing ob clock b0 b \<Longrightarrow> allowed ob b"
  shows "\<exists>b1 u b'. browse_sfs ob True clock b0 = Some (0, b') \<and> session_ok b1 u \<and>
    b' = b1\<lparr>b_used := Dangling\<rparr>"
proof -
  obtain b where init: "br_init_browsing ob True (say_welcome b0) = Some (Inr b)"
    using start_session [OF st, of ob] by blast
  obtain b1 u where loop: "browse_loop August ob clock b = Some b1" and s: "session_ok b1 u"
    using loop_session [OF browsing.start [OF init] st all] by blast
  have "b_used b1 = Obj u" using s by (simp add: session_ok_def store_ok_def)
  then show ?thesis
    using init loop s by (auto simp: browse_sfs_def br_shut_browsing_def Let_def)
qed

end
