(* ===== verification/Sfs_Store.thy ===== *)
theory Sfs_Store
  imports Sfs_Commands
begin

unbundle bit_operations_syntax

text \<open>
  The disk of a browser session as a store of named byte lists, and what the commands do to it:
  writing replaces the data of one name, removing takes one away, creating adds an empty one, and
  reading prints what the store has.
\<close>

section \<open>The store\<close>

definition file_data :: "browser \<Rightarrow> sfs_file_entry \<Rightarrow> byte list" where
  "file_data b fe = take (unat (fe_size fe)) (contents (map unat (owned fe)) b)"

definition files :: "browser \<Rightarrow> byte list \<Rightarrow> byte list option" where
  "files b x = map_option (\<lambda>j. file_data b (btable b ! j)) (find_file x (btable b))"

lemma contents_cong: "(\<And>k. k \<in> set ks \<Longrightarrow> block_of k b' = block_of k b) \<Longrightarrow> contents ks b' = contents ks b"
  by (simp add: contents_def cong: map_cong)

lemma file_data_cong:
  "(\<And>x. x \<in> set (owned fe) \<Longrightarrow> block_of (unat x) b' = block_of (unat x) b) \<Longrightarrow> file_data b' fe = file_data b fe"
  unfolding file_data_def by (intro arg_cong [of _ _ "take _"] contents_cong) auto

lemma files_quiet: "quiet b b' \<Longrightarrow> files b' = files b"
proof -
  assume q: "quiet b b'"
  then have "block_of k b' = block_of k b" for k by (simp add: block_of_def quiet_def)
  then have "file_data b' fe = file_data b fe" for fe by (rule file_data_cong)
  then show ?thesis using quiet_table(3) [OF q] by (simp add: files_def fun_eq_iff)
qed

lemma find_file_same: "hit x fe = hit x (t ! i) \<Longrightarrow> find_file x (t[i := fe]) = find_file x t"
proof -
  assume h: "hit x fe = hit x (t ! i)"
  have "hit x (t[i := fe] ! k) = hit x (t ! k)" if "k \<in> set [0..<length t]" for k
    using that h by (cases "k = i") simp_all
  then show ?thesis unfolding find_file_def length_list_update by (intro find_cong) simp_all
qed

lemma hit_name: "hit x fe \<Longrightarrow> hit y fe \<longleftrightarrow> y = x"
  by (auto simp: hit_def)

lemma map_find_file:
  "(\<And>j. j < length t \<Longrightarrow> hit x (t ! j) \<Longrightarrow> f j = g j) \<Longrightarrow> map_option f (find_file x t) = map_option g (find_file x t)"
  by (cases "find_file x t") (auto dest: find_file_Some [THEN iffD1])

lemma file_blocks_range:
  assumes "session_ok b u" "i < tcnt b" "x \<in> set (owned (btable b ! i))"
  shows "bstart b \<le> unat x" "unat x < length u"
  using assms owned_subset [of i "btable b"] by (auto simp: session_ok_def exact_def blocks_ok_def)

text \<open>Data blocks are out of the way when an entry is put into the table.\<close>

lemma block_put_entry:
  assumes s: "session_ok b u" and i: "i < tcnt b" and wf: "wf_fe fe" and k: "bstart b \<le> k" "k < length u"
  shows "block_of k (put_at (tpos b + 64 * i) (encode_fe fe) (b\<lparr>b_used := v\<rparr>)) = block_of k b"
proof -
  have "tpos b + 64 * i + 64 \<le> 512 * k" "512 * k + 512 \<le> length (fh_data (b_h b))"
    using s k i by (auto simp: session_ok_def store_ok_def)
  then show ?thesis using wf by (simp add: block_of_def get_put_disjoint)
qed

lemma files_put:
  fixes v :: "byte list ptr"
  assumes s: "session_ok b u" and i: "i < tcnt b" and fe: "wf_fe fe" "set (owned fe) \<subseteq> set (owned (btable b ! i))"
  defines "b1 \<equiv> put_at (tpos b + 64 * i) (encode_fe fe) (b\<lparr>b_used := v\<rparr>)"
  shows "files b1 x = map_option (\<lambda>j. file_data b ((btable b)[i := fe] ! j)) (find_file x ((btable b)[i := fe]))"
proof -
  have bt: "bt_ok (b\<lparr>b_used := v\<rparr>)" using s by (simp add: session_ok_def store_ok_def)
  have t: "btable b1 = (btable b)[i := fe]"
    using btable_put_entry(1) [OF bt _ fe(1), of i] i by (simp add: b1_def)
  have "file_data b1 ((btable b)[i := fe] ! j) = file_data b ((btable b)[i := fe] ! j)" if "j < tcnt b" for j
  proof (rule file_data_cong)
    fix y assume "y \<in> set (owned ((btable b)[i := fe] ! j))"
    then have "y \<in> set (owned (btable b ! j))" using that fe(2) by (cases "j = i") auto
    then show "block_of (unat y) b1 = block_of (unat y) b"
      using file_blocks_range [OF s that] block_put_entry [OF s i fe(1)] unfolding b1_def by blast
  qed
  then show ?thesis
    unfolding files_def t by (auto simp: find_file_Some intro!: option.map_cong)
qed

section \<open>Reading\<close>

lemma read_block_prints:
  assumes "sb_block_size (b_sb b) = 512" "length (b_block b) = 512"
    and k: "0 < k" "512 * k < 2 ^ 31" "512 * k + 512 \<le> length (fh_data (b_h b))"
  shows "\<exists>b'. read_block ob (of_nat k * 512) (if 512 \<le> n then 512 else n) b = Some b' \<and> quiet b b' \<and>
    b_out b' = b_out b \<and> take (min (unat n) 512) (b_block b') = take (unat n) (block_of k b)"
proof -
  let ?n = "if 512 \<le> n then 512 else n"
  have n: "unat ?n = min (unat n) 512" by (auto simp: word_le_nat_alt)
  then have n512: "unat ?n \<le> 512" by simp
  have pos: "unat (of_nat k * 512 :: u32) = 512 * k" using block_pos [of "Suc k" k] k by simp
  obtain b1 where "read_block ob (of_nat k * 512) ?n b = Some b1" "b_out b1 = b_out b"
    "take (unat ?n) (b_block b1) = take (unat ?n) (block_of k b)"
    using read_block_eq [OF pos k(2,3) n512 assms(2), of ob] by blast
  moreover obtain b2 where "read_block ob (of_nat k * 512) ?n b = Some b2" "quiet b b2"
    using read_block_quiet [OF n512 assms(2)] by blast
  moreover have "take (min (unat n) 512) (block_of k b) = take (unat n) (block_of k b)"
    using k by (simp add: block_of_def min_def)
  ultimately show ?thesis by (simp only: n) auto
qed

lemma read_loop_prints:
  assumes "sb_block_size (b_sb b) = 512" "length (b_block b) = 512"
    and "\<forall>k \<in> set ks. 0 < k \<and> 512 * k < 2 ^ 31 \<and> 512 * k + 512 \<le> length (fh_data (b_h b))"
  shows "\<exists>b'. br_read_loop ob (map of_nat ks @ replicate z 0) n b = Some b' \<and> quiet b b' \<and>
    data_out (b_out b') = data_out (b_out b) @ take (unat n) (contents ks b)"
  using assms
proof (induction ks arbitrary: n b)
  case Nil
  then show ?case by (cases z) (simp_all add: contents_def)
next
  case (Cons k ks)
  have k: "0 < k" "512 * k < 2 ^ 31" "512 * k + 512 \<le> length (fh_data (b_h b))"
    using Cons.prems(3) by auto
  let ?n = "if 512 \<le> n then 512 else n"
  obtain b1 where rb: "read_block ob (of_nat k * 512) ?n b = Some b1" and q: "quiet b b1"
    and out: "b_out b1 = b_out b" "take (min (unat n) 512) (b_block b1) = take (unat n) (block_of k b)"
    using read_block_prints [OF Cons.prems(1,2) k, of ob n] by blast
  let ?b1 = "say (M_data (take (unat n) (block_of k b))) b1"
  have un: "unat ?n = min (unat n) 512" by (auto simp: word_le_nat_alt)
  have "unat (of_nat k :: u32) \<noteq> 0" using unat_of_small [of k] k by simp
  then have nz: "of_nat k \<noteq> (0::u32)" by auto
  have lb: "length (block_of k b) = 512" using k by (simp add: block_of_def)
  have step: "br_read_loop ob (of_nat k # bls) n b =
      (if n - ?n = 0 then Some ?b1 else br_read_loop ob bls (n - ?n) ?b1)" for bls
    using rb nz unfolding br_read_loop.simps Let_def Cons.prems(1) by (simp only: if_False Option.bind.simps un out(2))
  show ?case
  proof (cases "n - ?n = 0")
    case True
    then have "unat n \<le> 512" by (auto simp: word_le_nat_alt split: if_splits)
    then show ?thesis using True step [of "map of_nat ks @ replicate z 0"] q out(1) lb
      by (simp add: contents_def)
  next
    case False
    then have n: "512 \<le> n" by (auto split: if_splits)
    then have sub: "unat (n - 512) = unat n - 512" by (simp add: unat_sub)
    have "contents ks ?b1 = contents ks b" using q by (simp add: contents_def block_of_def quiet_def)
    moreover obtain b' where "br_read_loop ob (map of_nat ks @ replicate z 0) (n - 512) ?b1 = Some b'"
      "quiet ?b1 b'" "data_out (b_out b') = data_out (b_out ?b1) @ take (unat (n - 512)) (contents ks ?b1)"
      using Cons.IH [of ?b1 "n - 512"] Cons.prems q by (auto simp: quiet_def)
    moreover have "512 \<le> unat n" using n by (simp add: word_le_nat_alt)
    ultimately show ?thesis
      using False step [of "map of_nat ks @ replicate z 0"] n q out(1) lb quiet_trans [of b b1 b']
      by (simp add: sub contents_def)
  qed
qed

lemma store_read:
  assumes s: "session_ok b u" and fn: "0 \<notin> set fn" and i: "find_file fn (btable b) = Some i"
    and perm: "fe_perms (btable b ! i) AND 4 \<noteq> 0"
  shows "\<exists>b'. br_read ob fn b = Some b' \<and> quiet b b' \<and>
    data_out (b_out b') = data_out (b_out b) @ file_data b (btable b ! i)"
proof -
  let ?fe = "btable b ! i" and ?b = "at (tpos b + 64 * Suc i) b"
  let ?ks = "map unat (owned ?fe)"
  have ok: "bt_ok b" "sb_block_size (b_sb b) = 512" "length (b_block b) = 512" and st: "store_ok b u"
    using s by (simp_all add: session_ok_def store_ok_def)
  have i': "i < tcnt b" "hit fn ?fe" using i by (simp_all add: find_file_Some)
  have l: "br_lookup ob fn b = Some (int i, ?fe, ?b)"
    using br_lookup_table [OF ok(1) session_names [OF s] fn, of ob] i by auto
  have cl: "clean_fe ?fe" "fe_live ?fe" using s i' by (simp_all add: session_ok_def hit_def)
  have "length (fe_blocks ?fe) = 9" using wf_btable [OF ok(1) i'(1)] by (simp add: wf_fe_def)
  then have "fe_blocks ?fe = owned ?fe @ replicate (9 - length (owned ?fe)) 0"
    using clean_blocks(1) [OF cl order_refl] clean_blocks(2) [OF cl order_refl]
    by (metis append_take_drop_id takeWhile_eq_take)
  then have bl: "fe_blocks ?fe = map of_nat ?ks @ replicate (9 - length (owned ?fe)) 0"
    by (simp add: comp_def)
  have "0 < k \<and> 512 * k < 2 ^ 31 \<and> 512 * k + 512 \<le> length (fh_data (b_h ?b))" if "k \<in> set ?ks" for k
    using that file_blocks_range [OF s i'(1)] st by (fastforce simp: store_ok_def)
  then obtain b' where "br_read_loop ob (fe_blocks ?fe) (fe_size ?fe) ?b = Some b'" "quiet ?b b'"
    "data_out (b_out b') = data_out (b_out ?b) @ take (unat (fe_size ?fe)) (contents ?ks ?b)"
    using read_loop_prints [of ?b ?ks ob "9 - length (owned ?fe)" "fe_size ?fe"] ok(2,3) unfolding bl by auto
  then show ?thesis using l perm by (simp add: br_read_def file_data_def contents_def)
qed

section \<open>Writing\<close>

lemma store_write:
  fixes now :: u32
  assumes s: "session_ok b u" and fn: "0 \<notin> set fn" and i: "find_file fn (btable b) = Some i"
    and perm: "fe_perms (btable b ! i) AND 2 \<noteq> 0"
    and d: "typed (b_in b) = d" "nblocks (length d) \<le> 9"
      "nblocks (length d) \<le> length (bfree b (given_back (btable b ! i) u))"
    and old: "length (owned (btable b ! i)) \<le> nblocks (length d)"
  shows "\<exists>b1 u1. br_write ob now fn b = Some b1 \<and> session_ok b1 u1 \<and> files b1 = (files b)(fn \<mapsto> d) \<and>
    b_out b1 = b_out b"
proof -
  let ?fe = "btable b ! i" and ?ks = "take (nblocks (length d)) (bfree b (given_back (btable b ! i) u))"
  let ?fe2 = "filled_fe ?fe d now ?ks"
  obtain b1 u1 where w: "br_write ob now fn b = Some b1" "session_ok b1 u1" "b_out b1 = b_out b"
    and t1: "btable b1 = (btable b)[i := ?fe2]" and c1: "take (length d) (contents ?ks b1) = d"
    and o: "owned ?fe2 = map of_nat ?ks"
    and blk: "\<forall>k. bstart b \<le> k \<and> k < length u \<and> k \<notin> set ?ks \<longrightarrow> block_of k b1 = block_of k b"
    using session_write [OF s fn i perm d old, of ob now] by blast
  have i': "i < tcnt b" "hit fn ?fe" using i by (simp_all add: find_file_Some)
  then have live: "fe_live ?fe" by (simp add: hit_def)
  have k32: "unat (of_nat k :: u32) = k" if "k \<in> set ?ks" for k
  proof -
    have "k < length u" using in_set_takeD [OF that] by (simp add: free_blocks_set)
    moreover have "512 * length u \<le> 2 ^ 31" using s by (simp add: session_ok_def store_ok_def)
    ultimately show ?thesis by (intro unat_of_small) simp
  qed
  have "map unat (owned ?fe2) = ?ks" unfolding o map_map using k32 by (intro map_idI) simp
  moreover have "unat (fe_size ?fe2) = length d"
    using d(2) nblocks_bounds(1) [of "length d"] unfolding filled_fe_simps by (intro unat_of_small) simp
  ultimately have new: "file_data b1 ?fe2 = d" using c1 by (simp add: file_data_def)
  have other: "file_data b1 (btable b ! j) = file_data b (btable b ! j)" if j: "j < tcnt b" "j \<noteq> i" for j
  proof (rule file_data_cong)
    fix x assume x: "x \<in> set (owned (btable b ! j))"
    note f = others_flagged [OF s i'(1) live j x]
    have "unat x \<notin> set ?ks" using f(1) in_set_takeD [of "unat x"] by (metis free_blocks_set)
    then show "block_of (unat x) b1 = block_of (unat x) b" using blk f(2,3) by blast
  qed
  have "files b1 x = ((files b)(fn \<mapsto> d)) x" for x
  proof (cases "x = fn")
    case True
    have "find_file fn (btable b1) = Some i" unfolding t1 using i' by (intro find_file_update [OF i]) simp
    then show ?thesis using True new i' by (simp add: files_def t1)
  next
    case False
    then have n: "\<not> hit x ?fe" using i'(2) hit_name by blast
    then have "find_file x (btable b1) = find_file x (btable b)" unfolding t1 by (intro find_file_same) simp
    moreover have "file_data b1 (btable b1 ! j) = file_data b (btable b ! j)"
      if "j < length (btable b)" "hit x (btable b ! j)" for j
    proof -
      have "j \<noteq> i" using that n by auto
      then show ?thesis using that other by (simp add: t1)
    qed
    ultimately show ?thesis
      using False map_find_file [of "btable b" x "\<lambda>j. file_data b1 (btable b1 ! j)"] by (simp add: files_def)
  qed
  then have "files b1 = (files b)(fn \<mapsto> d)" by blast
  then show ?thesis using w by blast
qed

section \<open>Removing, creating, changing permissions\<close>

text \<open>When the entry written has the blocks of the old one, or none, nothing else moves.\<close>

lemma files_put_other:
  assumes s: "session_ok b u" and i: "i < tcnt b" and fe: "wf_fe fe" "set (owned fe) \<subseteq> set (owned (btable b ! i))"
    and x: "\<not> hit x (btable b ! i)" "\<not> hit x fe"
  shows "files (put_at (tpos b + 64 * i) (encode_fe fe) (b\<lparr>b_used := v\<rparr>)) x = files b x"
proof -
  have f: "find_file x ((btable b)[i := fe]) = find_file x (btable b)" using x by (intro find_file_same) simp
  show ?thesis
    unfolding files_put [OF s i fe] f unfolding files_def
  proof (rule map_find_file)
    fix j assume "hit x (btable b ! j)"
    then have "i \<noteq> j" using x(1) by auto
    then show "file_data b ((btable b)[i := fe] ! j) = file_data b (btable b ! j)" by simp
  qed
qed

lemma store_remove:
  assumes s: "session_ok b u" and fn: "0 \<notin> set fn" and i: "find_file fn (btable b) = Some i"
    and one: "\<And>j. j < tcnt b \<Longrightarrow> hit fn (btable b ! j) \<Longrightarrow> j = i"
  shows "\<exists>b1 u1. br_remove ob fn b = Some b1 \<and> session_ok b1 u1 \<and> files b1 = (files b)(fn := None) \<and>
    b_out b1 = b_out b"
proof -
  have ok: "bt_ok b" "b_used b = Obj u" "length u \<le> 2 ^ 31" and ex: "exact (btable b) u (bstart b) (length u)"
    using s by (auto simp: session_ok_def store_ok_def)
  have i': "i < tcnt b" "hit fn (btable b ! i)" using i by (simp_all add: find_file_Some)
  have rng: "unat x < length u" if "x \<in> set (fe_blocks (btable b ! i))" "x \<noteq> 0" for x
    using blocks_ok_range [of "btable b" u "bstart b" "length u" i x] ex i'(1) that by (simp add: exact_def)
  have z: "set (owned zero_fe) \<subseteq> set (owned (btable b ! i))" by (simp add: owned_def zero_fe_def)
  obtain b1 u1 where b1: "br_remove ob fn b = Some b1" "session_ok b1 u1"
    using session_remove [OF s fn] by blast
  then obtain v where e: "b1 = put_at (tpos b + 64 * i) (encode_fe zero_fe) (b\<lparr>b_used := v\<rparr>)"
    using br_remove_some [OF ok(1) session_names [OF s] fn i ok(2,3) rng, of ob] by auto
  have "files b1 x = ((files b)(fn := None)) x" for x
  proof (cases "x = fn")
    case True
    have "\<not> hit fn ((btable b)[i := zero_fe] ! j)" if "j < tcnt b" for j
      using one [OF that] that by (cases "j = i") (auto simp: hit_def)
    then have "find_file fn ((btable b)[i := zero_fe]) = None" by (simp add: find_file_def find_upt_None)
    then show ?thesis unfolding e files_put [OF s i'(1) wf_zero_fe z] using True by simp
  next
    case False
    then have "\<not> hit x (btable b ! i)" using i'(2) hit_name by blast
    then show ?thesis
      using files_put_other [OF s i'(1) wf_zero_fe z, of x v] False unfolding e by (simp add: hit_def)
  qed
  then have "files b1 = (files b)(fn := None)" by blast
  moreover have "b_out b1 = b_out b" by (simp add: e)
  ultimately show ?thesis using b1 by blast
qed

lemma store_create:
  assumes s: "session_ok b u" and fn: "0 \<notin> set fn" "fn \<noteq> []" "length fn \<le> 15"
    and i: "find_slot (btable b) = Some i" and first: "\<And>j. j < i \<Longrightarrow> \<not> hit fn (btable b ! j)"
  shows "\<exists>b1. br_create False now fn b = Some b1 \<and> session_ok b1 u \<and> files b1 = (files b)(fn \<mapsto> []) \<and>
    b_out b1 = b_out b"
proof -
  let ?fe = "new_fe fn now 7"
  have ok: "bt_ok b" "b_used b = Obj u" using s by (simp_all add: session_ok_def store_ok_def)
  have i': "i < tcnt b" "\<not> fe_live (btable b ! i)" using i by (auto simp: find_slot_Some)
  have hit: "hit x ?fe \<longleftrightarrow> x = fn" for x using fn by (auto simp: hit_def live_new_fe)
  have o: "set (owned ?fe) \<subseteq> set (owned (btable b ! i))" "file_data b ?fe = []"
    by (simp_all add: owned_def file_data_def contents_def)
  obtain b1 where b1: "br_create False now fn b = Some b1" "session_ok b1 u"
    using session_create_near [OF s fn(1)] by blast
  then have e: "b1 = put_at (tpos b + 64 * i) (encode_fe ?fe) (b\<lparr>b_used := Obj u\<rparr>)"
    using br_create_first_free [OF ok(1) session_names [OF s] fn(1) i first, of now] used_same [OF ok(2)] by simp
  have "files b1 x = ((files b)(fn \<mapsto> [])) x" for x
  proof (cases "x = fn")
    case True
    have "find_file fn ((btable b)[i := ?fe]) = Some i" using i' hit first by (simp add: find_file_Some)
    then show ?thesis unfolding e files_put [OF s i'(1) wf_new_fe o(1)] using True i' o(2) by simp
  next
    case False
    then show ?thesis
      using files_put_other [OF s i'(1) wf_new_fe o(1), of x "Obj u"] i'(2) hit [of x] unfolding e
      by (simp add: hit_def)
  qed
  then have "files b1 = (files b)(fn \<mapsto> [])" by blast
  then show ?thesis using b1 e by simp
qed

lemma store_chperm:
  assumes s: "session_ok b u" and fn: "0 \<notin> set fn"
  shows "\<exists>b1. br_chperm ob now fn p b = Some b1 \<and> session_ok b1 u \<and> files b1 = files b \<and>
    data_out (b_out b1) = data_out (b_out b)"
proof -
  have ok: "bt_ok b" "b_used b = Obj u" using s by (simp_all add: session_ok_def store_ok_def)
  note look = br_lookup_table [OF ok(1) session_names [OF s] fn, of ob]
  obtain b1 where b1: "br_chperm ob now fn p b = Some b1" "session_ok b1 u"
    using session_chperm [OF s fn] by blast
  show ?thesis
  proof (cases "find_file fn (btable b)")
    case None
    then obtain fe' where "br_lookup ob fn b = Some (-1, fe', at (tpos b + 64 * tcnt b) b)" using look by auto
    then have "b1 = say (M_missing fn) (at (tpos b + 64 * tcnt b) b)"
      using b1(1) by (auto simp: br_chperm_def br_update_def)
    then show ?thesis using b1 files_quiet [of b b1] by simp
  next
    case (Some i)
    define fe where "fe = (if p \<le> 7 then (btable b ! i)\<lparr>fe_perms := word_of_int p\<rparr> else btable b ! i)"
    have i: "i < tcnt b" using Some by (simp add: find_file_Some)
    have fields: "fe_blocks fe = fe_blocks (btable b ! i)" "fe_name fe = fe_name (btable b ! i)"
      "fe_size fe = fe_size (btable b ! i)"
      by (simp_all add: fe_def)
    then have same: "hit x fe = hit x (btable b ! i)" "owned fe = owned (btable b ! i)"
      "file_data b fe = file_data b (btable b ! i)" for x
      by (simp_all add: hit_def fe_live_def fe_fname_def owned_def file_data_def)
    have wf: "wf_fe fe" using wf_btable [OF ok(1) i] fields by (simp add: wf_fe_def)
    have "br_chperm ob now fn p b = Some (put_at (tpos b + 64 * i) (encode_fe fe) b)"
      using look Some i wf ok(1) unfolding br_chperm_def br_update_def
      by (auto simp: Let_def fe_def [symmetric] write_entry_at_eq)
    then have e: "b1 = put_at (tpos b + 64 * i) (encode_fe fe) (b\<lparr>b_used := Obj u\<rparr>)"
      using b1(1) used_same [OF ok(2)] by simp
    have o: "set (owned fe) \<subseteq> set (owned (btable b ! i))" by (simp add: same(2))
    have "files b1 x = files b x" for x
      unfolding e files_put [OF s i wf o] find_file_same [OF same(1)] unfolding files_def
      by (rule map_find_file) (use i in \<open>simp add: nth_list_update same(3)\<close>)
    then have "files b1 = files b" by blast
    then show ?thesis using b1 e by simp
  qed
qed

section \<open>A content shorter than the old one\<close>

text \<open>The blocks of the old content are given back before the new ones are taken: there are enough.\<close>

lemma given_back_free:
  assumes s: "session_ok b u" and i: "i < tcnt b" "fe_live (btable b ! i)"
  defines "fs \<equiv> bfree b (given_back (btable b ! i) u)"
  shows "unat ` set (owned (btable b ! i)) \<subseteq> set fs" "length (owned (btable b ! i)) \<le> length fs"
    and "length (owned (btable b ! i)) \<le> 9"
proof -
  let ?fe = "btable b ! i"
  have ex: "exact (btable b) u (bstart b) (length u)" and cl: "clean_fe ?fe" and st: "store_ok b u"
    using s i(1) by (simp_all add: session_ok_def)
  then have wf: "wf_fe ?fe" using wf_btable i(1) by (simp add: store_ok_def)
  show sub: "unat ` set (owned ?fe) \<subseteq> set fs"
    using file_blocks_range [OF s i(1)]
    by (auto simp: fs_def free_blocks_set given_back_def clean_blocks(2) [OF cl i(2) order_refl] nth_clear_used)
  have "distinct (owned ?fe)"
    using ex i(1) owned_blocks_split [of i "btable b"] by (metis distinct_append exact_def blocks_ok_def length_btable)
  then have "card (unat ` set (owned ?fe)) = length (owned ?fe)"
    using card_image [of unat "set (owned ?fe)"] by (simp add: distinct_card inj_on_def unsigned_word_eqI)
  then show "length (owned ?fe) \<le> length fs" using card_mono [OF _ sub] card_length [of fs] by simp
  show "length (owned ?fe) \<le> 9"
    using wf length_filter_le [of _ "fe_blocks ?fe"] by (simp add: owned_def wf_fe_def)
qed

text \<open>A number left behind is that of a block given back: it is free, or listed twice.\<close>

text \<open>A number left behind is that of a block given back: it is free, or listed twice.\<close>

lemma stale_number:
  assumes i: "i < length t" and x: "x \<in> set (filter (\<lambda>x. x \<noteq> 0) (drop (length ks) (fe_blocks fe)))"
    and fe: "fe_blocks fe = map of_nat ks @ drop (length ks) (fe_blocks fe)"
    and free: "u ! unat x = 0 \<or> unat x \<in> set ks"
  shows "\<not> blocks_ok (t[i := fe]) u d p"
proof -
  have nz: "x \<noteq> 0" using x by simp
  have o: "owned fe = filter (\<lambda>x. x \<noteq> 0) (map of_nat ks) @ filter (\<lambda>x. x \<noteq> 0) (drop (length ks) (fe_blocks fe))"
    unfolding owned_def by (subst fe) simp
  have sub: "set (owned fe) \<subseteq> set (owned_blocks (t[i := fe]))"
    using owned_subset [of i "t[i := fe]"] i by simp
  show ?thesis
  proof (cases "unat x \<in> set ks")
    case True
    then have "x \<in> set (filter (\<lambda>x. x \<noteq> 0) (map of_nat ks))" using nz by (auto intro!: image_eqI [of _ _ "unat x"])
    then have "\<not> distinct (owned fe)" unfolding o using x by auto
    then show ?thesis
      using owned_blocks_split [OF i] unfolding blocks_ok_def by (metis distinct_append)
  next
    case False
    then have "u ! unat x = 0" "x \<in> set (owned_blocks (t[i := fe]))" using free sub x unfolding o by auto
    then show ?thesis by (auto simp: blocks_ok_def)
  qed
qed

lemma short_write:
  fixes now :: u32
  assumes s: "session_ok b u" and fn: "0 \<notin> set fn" and i: "find_file fn (btable b) = Some i"
    and perm: "fe_perms (btable b ! i) AND 2 \<noteq> 0" and d: "typed (b_in b) = d"
    and short: "nblocks (length d) < length (owned (btable b ! i))"
  shows "\<exists>b1 u1. br_write ob now fn b = Some b1 \<and> b_used b1 = Obj u1 \<and>
    \<not> blocks_ok (btable b1) u1 (bstart b1) (length u1)"
proof -
  let ?fe = "btable b ! i" and ?n = "nblocks (length d)"
  let ?v = "given_back ?fe u"
  let ?ks = "take ?n (bfree b ?v)"
  let ?fe2 = "filled_fe ?fe d now ?ks"
  have ok: "store_ok b u" and ex: "exact (btable b) u (bstart b) (length u)"
    using s by (simp_all add: session_ok_def)
  have i': "i < tcnt b" "hit fn ?fe" using i by (simp_all add: find_file_Some)
  have cl: "clean_fe ?fe" "fe_live ?fe" "wf_fe ?fe"
    using s i' wf_btable ok by (simp_all add: session_ok_def store_ok_def hit_def)
  note tw = clean_blocks(2) [OF cl(1,2) order_refl]
  have rng: "unat x < length u" if "x \<in> set (fe_blocks ?fe)" "x \<noteq> 0" for x
    using blocks_ok_range [of "btable b" u "bstart b" "length u" i x] ex i'(1) that by (simp add: exact_def)
  note old = given_back_free [OF s i'(1) cl(2)]
  then have n: "?n \<le> 9" "?n \<le> length (bfree b ?v)" using short by simp_all
  obtain b2 u2 cs where w: "br_write ob now fn b = Some (put_at (tpos b + 64 * i) (encode_fe ?fe2) b2)"
    and st: "stored b ?v ?ks cs b2 u2" and cs: "length cs = length ?ks"
    using br_write_stores [OF ok session_names [OF s] fn i perm rng d n, of ob now] by blast
  let ?b1 = "put_at (tpos b + 64 * i) (encode_fe ?fe2) b2"
  have wf: "wf_fe ?fe2" using cl(3) n(1) by simp
  note b1 = stored_entry [OF st cs set_take_subset i'(1) wf]
  have "store_ok b2 u2" and st': "b_sb b2 = b_sb b" "length u2 = length u"
    using st by (simp_all add: stored_def)
  then have st2: "b_used b2 = Obj u2" by (simp add: store_ok_def)
  define x where "x = owned ?fe ! ?n"
  have x: "x \<in> set (owned ?fe)" "x = fe_blocks ?fe ! ?n" "x \<noteq> 0"
    using short nth_mem [OF short] tw unfolding x_def by (auto simp: owned_def) (metis takeWhile_nth)
  have dr: "drop (length ?ks) (fe_blocks ?fe2) = drop ?n (fe_blocks ?fe)" using n(2) by simp
  have "?n < length (fe_blocks ?fe)" using short old(3) cl(3) by (simp add: wf_fe_def)
  then have xd: "x \<in> set (filter (\<lambda>x. x \<noteq> 0) (drop (length ?ks) (fe_blocks ?fe2)))"
    using x(2,3) unfolding dr by (simp add: Cons_nth_drop_Suc [symmetric])
  have bl: "fe_blocks ?fe2 = map of_nat ?ks @ drop (length ?ks) (fe_blocks ?fe2)" by simp
  note k = file_blocks_range [OF s i'(1) x(1)]
  have "?v ! unat x = 0" using old(1) x(1) by (auto simp: free_blocks_set)
  then have "u2 ! unat x = 0 \<or> unat x \<in> set ?ks" using free_after_stored [OF st n(2) k(1)] k(2) by auto
  then have "\<not> blocks_ok (btable ?b1) u2 (bstart b) (length u)"
    unfolding b1(1) using i'(1) by (intro stale_number [OF _ xd bl]) simp_all
  then show ?thesis using w st' st2 by auto
qed

section \<open>The shell as a store of files\<close>

text \<open>
  What a command means: \<open>m\<close> are the files, \<open>d\<close> is what is typed after the command, \<open>out\<close> is the
  file data printed so far.
\<close>

fun store_exec ::
  "command \<Rightarrow> byte list \<Rightarrow> (byte list \<Rightarrow> byte list option) \<Rightarrow> byte list \<Rightarrow>
   (byte list \<Rightarrow> byte list option) \<times> byte list" where
  "store_exec (C_create fn) d m out = (if m fn = None then m(fn \<mapsto> []) else m, out)"
| "store_exec (C_remove fn) d m out = (m(fn := None), out)"
| "store_exec (C_write fn) d m out = (if m fn = None then m else m(fn \<mapsto> d), out)"
| "store_exec (C_read fn) d m out = (m, case m fn of None \<Rightarrow> out | Some xs \<Rightarrow> out @ xs)"
| "store_exec _ d m out = (m, out)"

text \<open>
  When the shell does that: names have at most 15 characters and are not given twice, permissions
  allow it, there is an entry left to create and room to write.
\<close>

definition plain_cmd :: "bool \<Rightarrow> command \<Rightarrow> browser \<Rightarrow> byte list \<Rightarrow> bool" where
  "plain_cmd ob c b u =
     (case c of
        C_create fn \<Rightarrow> \<not> ob \<and> fn \<noteq> [] \<and> length fn \<le> 15 \<and>
          (case (find_slot (btable b), find_file fn (btable b)) of
             (Some i, Some j) \<Rightarrow> j < i | (None, None) \<Rightarrow> False | _ \<Rightarrow> True)
      | C_remove fn \<Rightarrow> length (filter (hit fn) (btable b)) \<le> 1
      | C_read fn \<Rightarrow> (case find_file fn (btable b) of
            None \<Rightarrow> True | Some i \<Rightarrow> fe_perms (btable b ! i) AND 4 \<noteq> 0)
      | C_write fn \<Rightarrow> (case find_file fn (btable b) of
            None \<Rightarrow> True
          | Some i \<Rightarrow> fe_perms (btable b ! i) AND 2 \<noteq> 0 \<and>
              (let n = nblocks (length (typed (b_in b)))
               in n \<le> 9 \<and> length (owned (btable b ! i)) \<le> n \<and>
                  n \<le> length (bfree b (given_back (btable b ! i) u))))
      | _ \<Rightarrow> True)"

lemma files_None: "files b fn = None \<longleftrightarrow> find_file fn (btable b) = None"
  by (simp add: files_def)

lemma files_Some: "find_file fn (btable b) = Some i \<Longrightarrow> files b fn = Some (file_data b (btable b ! i))"
  by (simp add: files_def)

lemma one_hit:
  assumes "length (filter P t) \<le> 1" "i < length t" "P (t ! i)" "j < length t" "P (t ! j)"
  shows "j = i"
proof (rule ccontr)
  assume "j \<noteq> i"
  then have "card {i, j} \<le> card {k. k < length t \<and> P (t ! k)}"
    using assms(2-5) by (intro card_mono) auto
  then show False using \<open>j \<noteq> i\<close> assms(1) by (simp add: length_filter_conv_card)
qed

text \<open>A command that only says something.\<close>

lemma store_says:
  assumes s: "session_ok b u" and q: "quiet b b'" and out: "data_out (b_out b') = data_out (b_out b)"
  shows "session_ok b' u" "files b' = files b" "data_out (b_out b') = data_out (b_out b)"
  using quiet_session [OF q, of u] files_quiet [OF q] s out by simp_all

lemma create_exists:
  assumes s: "session_ok b u" and fn: "0 \<notin> set fn" and j: "find_file fn (btable b) = Some j"
    and early: "\<And>i. find_slot (btable b) = Some i \<Longrightarrow> j < i"
  shows "\<exists>b'. br_create ob now fn b = Some b' \<and> quiet b b' \<and> data_out (b_out b') = data_out (b_out b)"
proof -
  have ok: "bt_ok b" using s by (simp add: session_ok_def store_ok_def)
  have j': "j < tcnt b" "hit fn (btable b ! j)" "\<And>k. k < j \<Longrightarrow> \<not> hit fn (btable b ! k)"
    using j by (auto simp: find_file_Some)
  have "fe_live (btable b ! k)" if "k < j" for k
  proof (rule ccontr)
    assume dead: "\<not> fe_live (btable b ! k)"
    then have "find_slot (btable b) \<noteq> None" using that j'(1) by (auto simp: find_slot_def find_upt_None intro!: exI [of _ k])
    then obtain i where i: "find_slot (btable b) = Some i" by blast
    then have "i \<le> k" using dead by (metis find_slot_Some not_le_imp_less)
    then show False using early [OF i] that by simp
  qed
  then have "find (\<lambda>i. \<not> fe_live (btable b ! i) \<or> hit fn (btable b ! i)) [0..<tcnt b] = Some j"
    using j' by (simp add: find_upt_Some)
  moreover have "fe_live (btable b ! j)" using j'(2) by (simp add: hit_def)
  ultimately show ?thesis
    using br_create_scan [OF ok session_names [OF s] fn, of ob] by (auto simp: br_create_def)
qed

text \<open>The shell executes a command as the store does.\<close>

definition as_store :: "bool \<Rightarrow> u32 \<Rightarrow> byte list \<Rightarrow> command \<Rightarrow> browser \<Rightarrow> bool" where
  "as_store ob now line c b \<longleftrightarrow> (\<exists>b' done u'. exec August ob now line c b = Some (b', done) \<and> session_ok b' u' \<and>
     store_exec c (typed (b_in b)) (files b) (data_out (b_out b)) = (files b', data_out (b_out b')))"

lemma as_storeI:
  assumes "exec August ob now line c b = Some (b', dn)" "session_ok b' u'"
    and "store_exec c (typed (b_in b)) (files b) (data_out (b_out b)) = (files b', data_out (b_out b'))"
  shows "as_store ob now line c b"
  using assms unfolding as_store_def by blast

lemma as_store_says:
  assumes "session_ok b u" "exec August ob now line c b = Some (b', dn)" "quiet b b'"
    and "data_out (b_out b') = data_out (b_out b)"
    and "store_exec c (typed (b_in b)) (files b) (data_out (b_out b)) = (files b, data_out (b_out b))"
  shows "as_store ob now line c b"
  using assms store_says [OF assms(1,3,4)] by (intro as_storeI [of ob now line c b b' dn u]) simp_all

lemma missing_file:
  assumes s: "session_ok b u" and fn: "0 \<notin> set fn" and n: "find_file fn (btable b) = None"
  defines "b' \<equiv> say (M_missing fn) (at (tpos b + 64 * tcnt b) b)"
  shows "br_remove ob fn b = Some b'" "br_read ob fn b = Some b'" "br_write ob now fn b = Some b'"
    and "quiet b b'" "data_out (b_out b') = data_out (b_out b)" "files b fn = None"
proof -
  have "bt_ok b" using s by (simp add: session_ok_def store_ok_def)
  then obtain fe' where "br_lookup ob fn b = Some (-1, fe', at (tpos b + 64 * tcnt b) b)"
    using br_lookup_table [OF _ session_names [OF s] fn, of ob] n by auto
  then show "br_remove ob fn b = Some b'" "br_read ob fn b = Some b'" "br_write ob now fn b = Some b'"
    by (simp_all add: br_remove_def br_read_def br_write_def b'_def)
  show "quiet b b'" "data_out (b_out b') = data_out (b_out b)" "files b fn = None"
    using n by (simp_all add: b'_def files_None)
qed

lemma shell_create:
  assumes s: "session_ok b u" and fn: "0 \<notin> set fn" and plain: "plain_cmd ob (C_create fn) b u"
  shows "as_store ob now line (C_create fn) b"
proof -
  have p: "fn \<noteq> []" "length fn \<le> 15" "\<not> ob" using plain by (simp_all add: plain_cmd_def)
  show ?thesis
  proof (cases "find_file fn (btable b)")
    case None
    then obtain i where i: "find_slot (btable b) = Some i"
      using plain by (auto simp: plain_cmd_def split: option.splits)
    have "\<not> hit fn (btable b ! j)" if "j < i" for j
      using None that i by (auto simp: find_file_def find_upt_None find_slot_Some)
    then show ?thesis
      using store_create [OF s fn p(1,2) i, of now] p(3) None
      by (auto simp: exec_def files_None intro!: as_storeI)
  next
    case (Some j)
    then have "j < i" if "find_slot (btable b) = Some i" for i
      using plain that by (simp add: plain_cmd_def)
    then obtain b' where "br_create ob now fn b = Some b'" "quiet b b'" "data_out (b_out b') = data_out (b_out b)"
      using create_exists [OF s fn Some, of ob now] by blast
    then show ?thesis
      using files_Some [OF Some] by (intro as_store_says [OF s, where b' = b' and dn = False]) (simp_all add: exec_def)
  qed
qed

lemma shell_remove:
  assumes s: "session_ok b u" and fn: "0 \<notin> set fn" and plain: "plain_cmd ob (C_remove fn) b u"
  shows "as_store ob now line (C_remove fn) b"
proof (cases "find_file fn (btable b)")
  case None
  note m = missing_file [OF s fn None]
  have "(files b)(fn := None) = files b" using m(6) by (simp add: fun_upd_idem)
  then show ?thesis
    using m(1) by (intro as_store_says [OF s _ m(4,5), where dn = False]) (simp_all add: exec_def)
next
  case (Some i)
  have "j = i" if "j < tcnt b" "hit fn (btable b ! j)" for j
    using one_hit [of "hit fn" "btable b" i j] plain that Some by (simp add: plain_cmd_def find_file_Some)
  then show ?thesis using store_remove [OF s fn Some, of ob] by (auto simp: exec_def intro!: as_storeI)
qed

lemma shell_write:
  assumes s: "session_ok b u" and fn: "0 \<notin> set fn" and plain: "plain_cmd ob (C_write fn) b u"
  shows "as_store ob now line (C_write fn) b"
proof (cases "find_file fn (btable b)")
  case None
  note m = missing_file [OF s fn None]
  show ?thesis using m(3,6) by (intro as_store_says [OF s _ m(4,5), where dn = False]) (simp_all add: exec_def)
next
  case (Some i)
  let ?n = "nblocks (length (typed (b_in b)))"
  have p: "fe_perms (btable b ! i) AND 2 \<noteq> 0" "?n \<le> 9"
    "?n \<le> length (bfree b (given_back (btable b ! i) u))" "length (owned (btable b ! i)) \<le> ?n"
    using plain Some by (simp_all add: plain_cmd_def Let_def)
  show ?thesis
    using store_write [OF s fn Some p(1) refl p(2-4), of ob now] files_Some [OF Some]
    by (auto simp: exec_def intro!: as_storeI)
qed

lemma shell_read:
  assumes s: "session_ok b u" and fn: "0 \<notin> set fn" and plain: "plain_cmd ob (C_read fn) b u"
  shows "as_store ob now line (C_read fn) b"
proof (cases "find_file fn (btable b)")
  case None
  note m = missing_file [OF s fn None]
  show ?thesis using m(2,6) by (intro as_store_says [OF s _ m(4,5), where dn = False]) (simp_all add: exec_def)
next
  case (Some i)
  then have "fe_perms (btable b ! i) AND 4 \<noteq> 0" using plain by (simp add: plain_cmd_def)
  then obtain b' where "br_read ob fn b = Some b'" and q: "quiet b b'"
    and "data_out (b_out b') = data_out (b_out b) @ file_data b (btable b ! i)"
    using store_read [OF s fn Some, of ob] by blast
  then show ?thesis
    using quiet_session [OF q, of u] files_quiet [OF q] s files_Some [OF Some]
    by (intro as_storeI [of _ _ _ _ _ b' False u]) (simp_all add: exec_def)
qed

lemma shell_store:
  assumes s: "session_ok b u" and names: "cmd_names_ok c" and plain: "plain_cmd ob c b u"
  shows "as_store ob now line c b"
proof (cases c)
  case (C_chperm p fn)
  then show ?thesis
    using store_chperm [OF s, of fn ob now p] names by (auto simp: exec_def intro!: as_storeI)
next
  case C_list
  obtain b' where "br_list ob b = Some b'" "quiet b b'" "data_out (b_out b') = data_out (b_out b)"
    using session_list [OF s, of ob] by blast
  then show ?thesis using C_list by (intro as_store_says [OF s, where b' = b' and dn = False]) (simp_all add: exec_def)
qed (use names plain in \<open>auto simp: exec_def intro!: shell_create shell_remove shell_write shell_read as_store_says s\<close>)

end
