(* ===== verification/Sfs_Write_Back.thy ===== *)
theory Sfs_Write_Back
  imports Sfs_Spec
begin

text \<open>
  Writing an inode back after its pages: \<open>sfs_write_inode\<close> changes one block of the device, the one
  with the entry, and the pages inside the new size read as before.
\<close>

declare nth_table [simp del]

text \<open>Of the device only the block with the entry changes.\<close>

lemma put_data_block_dev:
  "sfs_put_data_block info b = Some info' \<Longrightarrow> si_dev info' = si_dev info \<and> si_sb info' = si_sb info"
  by (auto simp: sfs_put_data_block_def spin_lock_def spin_unlock_def set_used_def
      split: Option.bind_splits option.splits if_splits ptr.splits)

lemma drop_blocks_dev:
  "drop_blocks info bs js = Some (info', bs') \<Longrightarrow>
   si_dev info' = si_dev info \<and> si_sb info' = si_sb info \<and> length bs' = length bs"
proof (induction js arbitrary: info bs)
  case (Cons i js)
  then show ?case
    by (auto split: if_splits Option.bind_splits dest!: put_data_block_dev)
qed simp

lemma update_dev:
  assumes c: "buffer_cache ops" and ok: "table_ok ops info" and i: "i < entry_cnt info"
    and w: "sfs_update ops info (int i + 1) sz ts p = Some (r, info')"
    and b: "b \<noteq> slot_blk (bd_block_size ops) (si_sb info) i"
  shows "sb_bread ops (si_dev info') b = sb_bread ops (si_dev info) b"
proof -
  let ?fe = "set_attrs sz ts p (table ops info ! i)"
  have wf: "wf_fe (table ops info ! i)" using buffer_cache.wf_entry [OF c ok i] i by (simp add: nth_table)
  obtain info1 bs js where d: "drop_blocks info (fe_blocks ?fe) js = Some (info1, bs)"
    and w': "write_entry ops info1 (int i) (?fe\<lparr>fe_blocks := bs\<rparr>) = Some (r, info')"
    using w by (auto simp: sfs_update_unfold buffer_cache.get_file_entry_eq [OF c ok i] Let_def
        split: if_splits Option.bind_splits)
  note d = drop_blocks_dev [OF d]
  have "wf_fe (?fe\<lparr>fe_blocks := bs\<rparr>)" using wf d by (simp add: wf_fe_def)
  moreover have "geom_ok (bd_block_size ops) (si_sb info1)" using ok d by (simp add: table_ok_def)
  ultimately show ?thesis
    using write_entry_dev [OF _ _ w' c, of b] d i b by (simp add: entry_cnt_def)
qed

text \<open>
  A page inside the size written back reads as before; the entry gets the attributes of the inode.
\<close>

lemma write_inode_page:
  assumes c: "buffer_cache ops" and inv: "fs_inv ops info" and d: "data_ok ops info"
    and i: "i < entry_cnt info" "i_ino inode = int i + 1" and reg: "S_ISREG (i_mode inode)"
    and bs: "1 < unat (sb_block_size (si_sb info))"
    and r: "sfs_readpage ops z info (int i + 1) ls = Some (Inr xs, info)"
    and ls: "\<forall>l \<in> set ls. l < blocks_needed (sb_block_size (si_sb info)) (word_of_int (c_int (i_size inode)))"
  shows "\<exists>info' fe. sfs_write_inode ops info inode = Some (0, info') \<and> fs_inv ops info' \<and> data_ok ops info' \<and>
    si_sb info' = si_sb info \<and> table ops info' = (table ops info)[i := fe] \<and>
    fe_name fe = fe_name (table ops info ! i) \<and> fe_size fe = word_of_int (c_int (i_size inode)) \<and>
    fe_perms fe = word_of_int (perms_of_mode (i_mode inode)) \<and>
    (\<forall>b. b \<noteq> slot_blk (bd_block_size ops) (si_sb info) i \<longrightarrow>
       sb_bread ops (si_dev info') b = sb_bread ops (si_dev info) b) \<and>
    sfs_readpage ops z info' (int i + 1) ls = Some (Inr xs, info')"
proof -
  let ?sz = "Some (c_int (i_size inode))" and ?p = "Some (perms_of_mode (i_mode inode))"
  let ?tm = "Some (c_int (if i_mtime inode > i_ctime inode then i_mtime inode else i_ctime inode))"
  let ?fe = "set_attrs ?sz ?tm ?p (table ops info ! i)"
  let ?n = "blocks_needed (sb_block_size (si_sb info)) (fe_size ?fe)"
  obtain u where ok: "table_ok ops info" and u: "used_ok info u"
    and rng: "\<And>b. b \<in> set (fe_blocks (table ops info ! i)) \<Longrightarrow> b \<noteq> 0 \<Longrightarrow> unat b < length u"
    using inv i(1) by (rule_tac fs_invE [OF inv]) blast
  have sz: "fe_size ?fe = word_of_int (c_int (i_size inode))"
    and p: "fe_perms ?fe = word_of_int (perms_of_mode (i_mode inode))"
    using perms_of_mode_range [of "i_mode inode"] by (simp_all add: set_attrs_def)
  have nz: "sb_block_size (si_sb info) \<noteq> 0" using bs by auto
  obtain info' where up: "sfs_update ops info (int i + 1) ?sz ?tm ?p = Some (0, info')"
    and t': "table ops info' = (table ops info)[i := cut_blocks ?n ?fe]" and sb: "si_sb info' = si_sb info"
    using buffer_cache.sfs_update_eq [OF c ok i(1) u rng nz blocks_needed_small [OF bs], of ?sz ?tm ?p] by metis
  have inv': "fs_inv ops info'"
    using buffer_cache.fs_inv_update [OF c inv i(1) nz blocks_needed_small [OF bs], of ?sz ?tm ?p] up by auto
  note dev = update_dev [OF c ok i(1) up]
  have d': "data_ok ops info'"
    using data_ok_slot [OF d _ i(1) sb dev] ok by (simp add: table_ok_def)
  have "geom_ok (bd_block_size ops) (si_sb info)" using ok by (simp add: table_ok_def)
  note low = slot_blk_below_data [OF this d i(1)]
  have "file_block ops info' i l = file_block ops info i l \<and> block_data ops info' i l = block_data ops info i l"
    if l: "l \<in> set ls" "l < 9" "file_block ops info i l \<noteq> 0" for l
  proof -
    have "l < ?n" using ls l(1) by (simp add: sz)
    moreover have "length (fe_blocks (table ops info ! i)) = 9"
      using buffer_cache.wf_entry [OF c ok i(1)] i(1) by (simp add: nth_table wf_fe_def)
    ultimately have fb: "file_block ops info' i l = file_block ops info i l"
      using l(2) i(1) by (simp add: t' cut_blocks_def nth_append)
    moreover have "file_block ops info i l \<noteq> slot_blk (bd_block_size ops) (si_sb info) i"
      using low file_block_data(1) [OF inv i(1) c l(2,3)] by auto
    ultimately show ?thesis using dev by (simp add: block_data_def)
  qed
  note page = readpage_kept [OF c inv d inv' d' sb i(1) r this]
  have "sfs_write_inode ops info inode = Some (0, info')" using up reg i(2) by (simp add: sfs_write_inode_def)
  then show ?thesis using inv' d' sb t' dev page sz p
    by (intro exI [of _ info'] exI [of _ "cut_blocks ?n ?fe"]) (simp add: cut_blocks_def)
qed

end
