(* ===== verification/Sfs_Exchange.thy ===== *)
theory Sfs_Exchange
  imports Sfs_Session Sfs_Write_Back Ram_Cache
begin

unbundle bit_operations_syntax

text \<open>
  One disk, two programs: the browser of August reads and writes the device as a file, the kernel
  module reads and writes it through the buffer cache. Both see the same table and the same blocks,
  compute the same flags from them, and each reads the data the other has written.
\<close>

declare nth_table [simp del]

section \<open>The same table\<close>

text \<open>What the module and the browser have to agree on.\<close>

definition same_disk :: "byte list sfs_info \<Rightarrow> browser \<Rightarrow> bool" where
  "same_disk info b \<longleftrightarrow> si_sb info = b_sb b \<and> si_dev info = fh_data (b_h b)"

lemma disk_limits:
  assumes "store_ok b u" "disk_ok b"
  shows "tpos b + 64 * tcnt b \<le> 512 * unat (sb_data_block_start (b_sb b))"
    "512 * unat (sb_data_block_start (b_sb b)) \<le> 512 * unat (sb_partition_size (b_sb b))"
    "512 * unat (sb_partition_size (b_sb b)) \<le> length (fh_data (b_h b))"
    "512 * unat (sb_partition_size (b_sb b)) \<le> 2 ^ 31"
  using assms by (auto simp: store_ok_def disk_ok_def)

text \<open>The block and offset the module computes for an entry are the browser's position of it.\<close>

lemma slot_place:
  assumes ok: "store_ok b u" "disk_ok b" and i: "i < tcnt b"
  shows "512 * unat (slot_blk 512 (b_sb b) i) + slot_off 512 (b_sb b) i = tpos b + 64 * i"
    and "512 * unat (slot_blk 512 (b_sb b) i) + 512 \<le> length (fh_data (b_h b))"
proof -
  note lim = disk_limits [OF ok] and a = entry_addr_tpos [OF ok]
  have "(tpos b + 64 * i) div 512 < 2 ^ 32" using lim i by simp
  then have blk: "512 * unat (slot_blk 512 (b_sb b) i) = (tpos b + 64 * i) div 512 * 512"
    by (simp add: slot_blk_def a(1) unat_of_nat)
  then show "512 * unat (slot_blk 512 (b_sb b) i) + slot_off 512 (b_sb b) i = tpos b + 64 * i"
    by (simp add: slot_off_def a(1))
  have "(tpos b + 64 * i) div 512 < unat (sb_data_block_start (b_sb b))"
    using lim(1) i by (intro less_mult_imp_div_less) simp
  then show "512 * unat (slot_blk 512 (b_sb b) i) + 512 \<le> length (fh_data (b_h b))"
    using lim blk by simp
qed

lemma module_sees_table:
  assumes ok: "store_ok b u" "disk_ok b" and same: "same_disk info b"
  shows "table rb_ops info = btable b" "table_ok rb_ops info" "data_ok rb_ops info"
proof -
  note lim = disk_limits [OF ok] and a = entry_addr_tpos [OF ok]
  have bd: "bd_block_size rb_ops = 512" by (simp add: rb_ops_def)
  have sb: "si_sb info = b_sb b" "si_dev info = fh_data (b_h b)" "entry_cnt info = tcnt b"
    using same by (simp_all add: same_disk_def entry_cnt_def tcnt_def)
  have "64 dvd tpos b" using a(2) by (rule dvd_trans [rotated]) simp
  then have geom: "geom_ok 512 (b_sb b)"
    using lim by (simp add: geom_ok_def a(1) tcnt_def [symmetric])
  have ent: "entry rb_ops info i = btable b ! i" if i: "i < tcnt b" for i
  proof -
    have off: "slot_off 512 (b_sb b) i + 64 \<le> 512" using slot_off_gap [OF geom, of i] by simp
    have "get_bytes (slot_off 512 (b_sb b) i) 64 (get_bytes (512 * unat (slot_blk 512 (b_sb b) i)) 512 D) =
        get_bytes (tpos b + 64 * i) 64 D" for D :: "byte list"
      using off by (simp add: get_bytes_def drop_take slot_place(1) [OF ok i, symmetric] min_def add.commute)
    then show ?thesis
      using slot_place(2) [OF ok i] i by (simp add: entry_def bd sb nth_btable rb_ops_def rb_bread_eq)
  qed
  show "table rb_ops info = btable b"
    using ent by (intro nth_equalityI) (simp_all add: sb nth_table)
  show "table_ok rb_ops info"
    using geom slot_place(2) [OF ok] by (simp add: table_ok_def bd sb) (simp add: rb_ops_def rb_bread_eq)
  have "entry_addr (b_sb b) (tcnt b) \<le> unat (sb_data_block_start (b_sb b)) * 512"
    using lim by (simp add: a(1))
  moreover have "sb_block_size (b_sb b) = 512" using ok by (simp add: store_ok_def)
  ultimately show "data_ok rb_ops info"
    using lim by (auto simp: data_ok_def bd sb) (auto simp: rb_ops_def rb_bread_eq)
qed

text \<open>The blocks are the same, too.\<close>

lemma module_sees_block:
  assumes "same_disk info b" "512 * unat x + 512 \<le> length (fh_data (b_h b))"
  shows "sb_bread rb_ops (si_dev info) x = Some (block_of (unat x) b)"
  using assms by (simp add: same_disk_def rb_ops_def rb_bread_eq block_of_def)

section \<open>The same flags\<close>

text \<open>The module, mounting the same disk, computes the same flags.\<close>

lemma module_mounts:
  assumes ok: "store_ok b u" "disk_ok b"
    and cl: "clean_table (btable b) d p"
    and dp: "d = unat (sb_data_block_start (b_sb b))" "p = unat (sb_partition_size (b_sb b))"
    and mem: "vmalloc (sb_partition_size (b_sb b)) = Some mem" "length mem = p"
  obtains info where "init_browsing rb_ops vmalloc (kzalloc_info (fh_data (b_h b))) = Some (0, info)"
    and "fs_inv rb_ops info" "same_disk info b" "si_used info = Obj (mount_flags (btable b) d p)"
proof -
  let ?k = "kzalloc_info (fh_data (b_h b))" and ?sb = "b_sb b"
  let ?info = "?k\<lparr>si_sb := ?sb\<rparr>"
  have same: "same_disk ?info b" by (simp add: same_disk_def)
  note tab = module_sees_table [OF ok same]
  have lim: "0 < d" "d \<le> p" "p \<le> 2 ^ 31" "512 \<le> length (fh_data (b_h b))"
    using ok by (auto simp: store_ok_def disk_ok_def dp)
  have "read_sb_from_real_sfs rb_ops ?k = Some (Inr ?sb)"
    using ok(2) lim(4)
    by (simp add: read_sb_from_real_sfs_def rb_ops_def rb_bread_eq get_bytes_def decode_encode_sb disk_ok_def)
  moreover have "sb_type ?sb = SIMULA_FS_TYPE" using ok(2) by (simp add: disk_ok_def)
  ultimately have init: "init_browsing rb_ops vmalloc ?k = Some (0, ?info\<lparr>si_registered := True,
      si_lock := False, si_used := Obj (mount_flags (btable b) d p)\<rparr>)"
    "fs_inv rb_ops (?info\<lparr>si_registered := True, si_lock := False,
      si_used := Obj (mount_flags (btable b) d p)\<rparr>)"
    using rb.init_browsing_inv [where info = ?k and sb = ?sb and vmalloc = vmalloc and mem = mem]
      mem tab(1,2) cl lim unfolding dp by simp_all
  show ?thesis by (rule that [OF init]) (simp_all add: same_disk_def)
qed

section \<open>From the browser to the module\<close>

lemma free_data_blocks_bfree:
  assumes "same_disk info b" "length u = part_size info"
  shows "free_data_blocks info u = bfree b u"
  using assms by (simp add: free_data_blocks_def free_blocks_def same_disk_def)

text \<open>A page of a file whose blocks are \<open>ks\<close>, as the module reads it.\<close>

lemma module_reads_blocks:
  assumes s: "session_ok b u" and inv: "fs_inv rb_ops info" and same: "same_disk info b"
    and i: "i < tcnt b" and blks: "fe_blocks (btable b ! i) = map of_nat ks @ replicate z 0"
    and ks: "\<forall>k \<in> set ks. 0 < k \<and> k < length u" and len: "length ks \<le> 9"
    and sz: "512 * length ks < isz + 512"
  shows "sfs_readpage rb_ops isz info (int i + 1) [0..<length ks] = Some (Inr (contents ks b), info)"
proof -
  have ok: "store_ok b u" "disk_ok b" using s by (simp_all add: session_ok_def)
  note tab = module_sees_table [OF ok same]
  have i': "i < entry_cnt info" using i same by (simp add: same_disk_def entry_cnt_def tcnt_def)
  have k32: "unat (of_nat k :: u32) = k" if "k \<in> set ks" for k
    using ks that ok(1) by (intro unat_of_small) (fastforce simp: store_ok_def)
  have fb: "file_block rb_ops info i k = of_nat (ks ! k)" if "k < length ks" for k
    using that by (simp add: tab(1) blks nth_append)
  have data: "block_data rb_ops info i k = block_of (ks ! k) b" if k: "k < length ks" for k
  proof -
    have m: "ks ! k \<in> set ks" using k by simp
    then have "512 * (ks ! k) + 512 \<le> length (fh_data (b_h b))"
      using ks ok(1) by (fastforce simp: store_ok_def)
    then show ?thesis
      using module_sees_block [OF same, of "of_nat (ks ! k)"] k32 [OF m] by (simp add: block_data_def fb [OF k])
  qed
  have nz: "\<forall>k \<in> set [0..<length ks]. k < 9 \<and> file_block rb_ops info i k \<noteq> 0"
  proof
    fix k assume "k \<in> set [0..<length ks]"
    then have k: "k < length ks" by simp
    then have "unat (of_nat (ks ! k) :: u32) \<noteq> 0" using ks k32 by fastforce
    then show "k < 9 \<and> file_block rb_ops info i k \<noteq> 0" using k len by (auto simp: fb)
  qed
  have "map (block_data rb_ops info i) [0..<length ks] = map (\<lambda>k. block_of k b) ks"
    using data by (intro nth_equalityI) simp_all
  then show ?thesis
    using readpage_mapped [OF rb.buffer_cache_axioms inv tab(3) i' nz, of isz] sz
    by (fastforce simp: contents_def rb_ops_def)
qed

lemma browser_to_module:
  fixes now :: u32
  assumes s: "session_ok b u" and fn: "0 \<notin> set fn" and i: "find_file fn (btable b) = Some i"
    and perm: "fe_perms (btable b ! i) AND 2 \<noteq> 0"
    and d: "typed (b_in b) = d" "nblocks (length d) \<le> 9"
      "nblocks (length d) \<le> length (bfree b (given_back (btable b ! i) u))"
    and old: "length (owned (btable b ! i)) \<le> nblocks (length d)"
    and mem: "\<And>n. \<exists>m. vmalloc n = Some m \<and> length m = unat n"
  shows "\<exists>b1 u1 info fe xs. br_write ob now fn b = Some b1 \<and> session_ok b1 u1 \<and> same_disk info b1 \<and>
    find_file fn (btable b1) = Some i \<and> btable b1 ! i = fe \<and>
    init_browsing rb_ops vmalloc (kzalloc_info (fh_data (b_h b1))) = Some (0, info) \<and> fs_inv rb_ops info \<and>
    sfs_lookup rb_ops info fn zero_fe = Some (int i + 1, fe) \<and> fe_size fe = of_nat (length d) \<and>
    fe_timestamp fe = now \<and> fe_perms fe = fe_perms (btable b ! i) \<and>
    sfs_readpage rb_ops (length d) info (int i + 1) [0..<nblocks (length d)] = Some (Inr xs, info) \<and>
    take (length d) xs = d"
proof -
  let ?ks = "take (nblocks (length d)) (bfree b (given_back (btable b ! i) u))"
  obtain b1 u1 where w: "br_write ob now fn b = Some b1" and s1: "session_ok b1 u1"
    and t1: "btable b1 = (btable b)[i := filled_fe (btable b ! i) d now ?ks]"
    and c1: "take (length d) (contents ?ks b1) = d" and sb1: "b_sb b1 = b_sb b"
    using session_write [OF s fn i perm d old] by blast
  have ok1: "store_ok b1 u1" "disk_ok b1" and ok: "store_ok b u" using s s1 by (simp_all add: session_ok_def)
  obtain m where m: "vmalloc (sb_partition_size (b_sb b1)) = Some m"
    "length m = unat (sb_partition_size (b_sb b1))" using mem by blast
  obtain info where init: "init_browsing rb_ops vmalloc (kzalloc_info (fh_data (b_h b1))) = Some (0, info)"
    and inv: "fs_inv rb_ops info" and same: "same_disk info b1"
    by (rule module_mounts [where vmalloc = vmalloc and b = b1 and d = "bstart b1", OF ok1 session_clean [OF s1] refl refl m]) blast
  have tab: "table rb_ops info = btable b1" "table_ok rb_ops info"
    using module_sees_table [OF ok1 same] by simp_all
  have i': "i < tcnt b" "hit fn (btable b ! i)" using i by (simp_all add: find_file_Some)
  then have e1: "btable b1 ! i = filled_fe (btable b ! i) d now ?ks" by (simp add: t1)
  have found: "find_file fn (btable b1) = Some i"
    unfolding t1 by (rule find_file_update [OF i]) (simp add: i'(2))
  then have "find_file fn (table rb_ops info) = Some i" by (simp add: tab(1))
  moreover have "names_ok (table rb_ops info)" unfolding tab(1) by (rule session_names [OF s1])
  ultimately have l: "sfs_lookup rb_ops info fn zero_fe = Some (int i + 1, filled_fe (btable b ! i) d now ?ks)"
    using rb.sfs_lookup_eq [OF tab(2) _ fn, of zero_fe] e1 by (auto simp: tab(1))
  have "length u1 = length u" using ok ok1 sb1 by (simp add: store_ok_def)
  moreover have "0 < bstart b" using ok by (simp add: store_ok_def)
  ultimately have ks: "\<forall>k \<in> set ?ks. 0 < k \<and> k < length u1"
    by (auto simp: free_blocks_set dest!: in_set_takeD)
  have lk: "length ?ks = nblocks (length d)" using d(3) by simp
  have i1: "i < tcnt b1" using i' sb1 by (simp add: tcnt_def)
  have wf: "wf_fe (btable b ! i)" using wf_btable i' ok by (simp add: store_ok_def)
  have "clean_fe (btable b ! i)" using s i' by (simp add: session_ok_def)
  then have z: "drop (length ?ks) (fe_blocks (btable b ! i)) = replicate (9 - length ?ks) 0"
    using clean_blocks(1) [of "btable b ! i" "length ?ks"] i' old wf unfolding lk
    by (simp add: hit_def wf_fe_def)
  then have "sfs_readpage rb_ops (length d) info (int i + 1) [0..<nblocks (length d)] = Some (Inr (contents ?ks b1), info)"
    using module_reads_blocks [OF s1 inv same i1 _ ks, of "9 - length ?ks" "length d", unfolded lk] d(2) e1 z lk
      nblocks_bounds(2) [of "length d"] by simp
  then show ?thesis using w init inv l c1 s1 same found e1
    by (intro exI [of _ b1] exI [of _ u1] exI [of _ info] exI [of _ "filled_fe (btable b ! i) d now ?ks"]
        exI [of _ "contents ?ks b1"]) (simp add: filled_fe_def)
qed

section \<open>Both readers\<close>

lemma block_prefix:
  assumes "k \<le> length bs"
  shows "bs = map of_nat (map (\<lambda>l. unat (bs ! l)) [0..<k]) @ drop k (bs :: u32 list)"
proof -
  have "map of_nat (map (\<lambda>l. unat (bs ! l)) [0..<k]) = take k bs"
    using assms by (intro nth_equalityI) simp_all
  then show ?thesis by simp
qed

text \<open>The first blocks of a file, when the module can read them.\<close>

lemma readable_blocks:
  assumes ok: "store_ok b u" "disk_ok b" and same: "same_disk info b" and inv: "fs_inv rb_ops info"
    and i: "i < tcnt b" and r: "sfs_readpage rb_ops isz info (int i + 1) [0..<n] = Some (Inr xs, info')"
    and sz: "512 * n < isz + 512"
  defines "ks \<equiv> map (\<lambda>l. unat (fe_blocks (btable b ! i) ! l)) [0..<n]"
  shows "n \<le> 9" "xs = contents ks b"
    and "\<forall>k \<in> set ks. 0 < k \<and> 512 * k < 2 ^ 31 \<and> 512 * k + 512 \<le> length (fh_data (b_h b))"
    and "fe_blocks (btable b ! i) = map of_nat ks @ drop n (fe_blocks (btable b ! i))"
proof -
  note tab = module_sees_table [OF ok same] and c = rb.buffer_cache_axioms
  have i': "i < entry_cnt info" using i same by (simp add: same_disk_def entry_cnt_def tcnt_def)
  have reach: "\<forall>k \<in> set [0..<n]. k * blk_size rb_ops < isz" using sz by (auto simp: rb_ops_def)
  have m: "\<forall>k \<in> set [0..<n]. k < 9 \<and> file_block rb_ops info i k \<noteq> 0"
    using readpage_Inr(2) [OF c inv tab(3) i' r] reach unfolding readable_def by (meson leD)
  then show n: "n \<le> 9" by (cases n) auto
  have "length (fe_blocks (btable b ! i)) = 9" using wf_btable [OF _ i] ok by (simp add: store_ok_def wf_fe_def)
  then show "fe_blocks (btable b ! i) = map of_nat ks @ drop n (fe_blocks (btable b ! i))"
    unfolding ks_def using n by (intro block_prefix) simp
  have rng: "0 < k \<and> 512 * k < 2 ^ 31 \<and> 512 * k + 512 \<le> length (fh_data (b_h b))"
    if "l < n" "k = unat (file_block rb_ops info i l)" for k l
  proof -
    have "data_start info \<le> k" "k < part_size info"
      using file_block_data [OF inv i' c, of l] m that by auto
    then show ?thesis using ok same by (auto simp: same_disk_def store_ok_def)
  qed
  then show "\<forall>k \<in> set ks. 0 < k \<and> 512 * k < 2 ^ 31 \<and> 512 * k + 512 \<le> length (fh_data (b_h b))"
    by (auto simp: ks_def tab(1))
  have "map (block_data rb_ops info i) [0..<n] = map (\<lambda>k. block_of k b) ks"
    using rng module_sees_block [OF same]
    by (intro nth_equalityI) (auto simp: ks_def block_data_def tab(1))
  then show "xs = contents ks b"
    using readpage_mapped [OF c inv tab(3) i' m reach] r by (simp add: contents_def)
qed

lemma both_readers:
  assumes ok: "store_ok b u" "disk_ok b" and same: "same_disk info b" and inv: "fs_inv rb_ops info"
    and fn: "0 \<notin> set fn" and i: "find_file fn (btable b) = Some i"
    and perm: "fe_perms (btable b ! i) AND 4 \<noteq> 0"
    and r: "sfs_readpage rb_ops (unat (fe_size (btable b ! i))) info (int i + 1)
      [0..<nblocks (unat (fe_size (btable b ! i)))] = Some (Inr xs, info')"
  shows "\<exists>b'. br_read ob fn b = Some b' \<and>
    data_out (b_out b') = data_out (b_out b) @ take (unat (fe_size (btable b ! i))) xs \<and>
    fh_data (b_h b') = fh_data (b_h b)"
proof -
  let ?fe = "btable b ! i"
  let ?n = "unat (fe_size ?fe)"
  let ?m = "nblocks ?n"
  let ?ks = "map (\<lambda>l. unat (fe_blocks ?fe ! l)) [0..<?m]" and ?b0 = "at (tpos b + 64 * Suc i) b"
  have i': "i < tcnt b" using i by (simp add: find_file_Some)
  note f = readable_blocks [OF ok same inv i' r nblocks_bounds(2)]
  have "names_ok (btable b)"
    using inv module_sees_table(1) [OF ok same] by (simp add: fs_inv_def)
  then have l: "br_lookup ob fn b = Some (int i, ?fe, ?b0)"
    using br_lookup_table [OF _ _ fn, of b ob] ok(1) i by (auto simp: store_ok_def)
  have n: "?n \<le> 512 * length ?ks" "512 * length ?ks < ?n + 512" "?n < 2 ^ 31"
    using nblocks_bounds [of ?n] f(1) by auto
  have b0: "sb_block_size (b_sb ?b0) = 512" "length (b_block ?b0) = 512"
    using ok(1) by (simp_all add: store_ok_def)
  have "\<forall>k \<in> set ?ks. 0 < k \<and> 512 * k < 2 ^ 31 \<and> 512 * k + 512 \<le> length (fh_data (b_h ?b0))"
    using f(3) by simp
  from br_read_loop_prints [OF b0 this n, of ob "drop ?m (fe_blocks ?fe)"]
  obtain b' where "br_read_loop ob (fe_blocks ?fe) (fe_size ?fe) ?b0 = Some b'"
    "data_out (b_out b') = data_out (b_out b) @ take ?n (contents ?ks ?b0)"
    "fh_data (b_h b') = fh_data (b_h b)"
    unfolding f(4) [symmetric] by auto
  moreover have "contents ?ks ?b0 = xs" using f(2) by (simp add: contents_def)
  ultimately show ?thesis using l perm by (simp add: br_read_def)
qed

section \<open>From the module to the browser\<close>

text \<open>The browser over the device as the module has left it.\<close>

definition reopen :: "byte list \<Rightarrow> browser \<Rightarrow> browser" where
  "reopen d b = b\<lparr>b_h := (b_h b)\<lparr>fh_data := d\<rparr>\<rparr>"

lemma reopen_simps [simp]:
  "fh_data (b_h (reopen d b)) = d" "b_sb (reopen d b) = b_sb b" "b_used (reopen d b) = b_used b"
  "b_block (reopen d b) = b_block b" "b_fe (reopen d b) = b_fe b" "b_out (reopen d b) = b_out b"
  "tpos (reopen d b) = tpos b" "tcnt (reopen d b) = tcnt b"
  by (simp_all add: reopen_def tpos_def tcnt_def table_pos_def)

lemma slot_blk_pos:
  assumes "store_ok b u" "disk_ok b" "i < tcnt b"
  shows "0 < unat (slot_blk 512 (b_sb b) i)"
proof (rule ccontr)
  assume "\<not> ?thesis"
  then have "slot_off 512 (b_sb b) i = tpos b + 64 * i" using slot_place(1) [OF assms] by simp
  moreover have "slot_off 512 (b_sb b) i < 512" by (simp add: slot_off_def)
  ultimately show False using entry_addr_tpos(3) [OF assms(1,2)] by simp
qed

text \<open>
  What the module may have done: written data blocks, and the block of entry \<open>i\<close>. Then the browser
  finds its disk again.
\<close>

definition wrote_file :: "nat \<Rightarrow> byte list sfs_info \<Rightarrow> byte list sfs_info \<Rightarrow> bool" where
  "wrote_file i info info' \<longleftrightarrow> si_sb info' = si_sb info \<and> table_ok rb_ops info' \<and> data_ok rb_ops info' \<and>
     (\<forall>x. unat x < data_start info \<and> x \<noteq> slot_blk 512 (si_sb info) i \<longrightarrow>
        sb_bread rb_ops (si_dev info') x = sb_bread rb_ops (si_dev info) x)"

lemma rb_readable: "sb_bread rb_ops d x \<noteq> None \<longleftrightarrow> 512 * unat x + 512 \<le> length d"
  by (simp add: rb_ops_def rb_bread_eq)

lemma wrote_file_length:
  assumes ok: "store_ok b u" "disk_ok b" and same: "same_disk info b" and i: "i < tcnt b"
    and w: "wrote_file i info info'"
  shows "512 * length u \<le> length (si_dev info')"
proof -
  let ?d = "si_dev info'" and ?s = "slot_blk 512 (b_sb b) i"
  have sb: "si_sb info = b_sb b" "si_sb info' = b_sb b" "si_dev info = fh_data (b_h b)"
    using same w by (simp_all add: same_disk_def wrote_file_def)
  have lu: "length u = unat (sb_partition_size (b_sb b))" "0 < length u" "512 * length u \<le> 2 ^ 31"
    using ok by (auto simp: store_ok_def disk_ok_def)
  have slot: "sb_bread rb_ops ?d ?s \<noteq> None"
    using w i sb(2) by (auto simp: wrote_file_def table_ok_def entry_cnt_def tcnt_def rb_ops_def)
  define x :: u32 where "x = of_nat (length u - 1)"
  have x: "unat x = length u - 1" using lu(3) unfolding x_def by (intro unat_of_small) simp
  consider "x = ?s" | "bstart b \<le> unat x" | "unat x < bstart b" "x \<noteq> ?s" by linarith
  then have "sb_bread rb_ops ?d x \<noteq> None"
  proof cases
    case 2
    moreover have "unat x < unat (sb_partition_size (b_sb b))" using x lu by simp
    ultimately show ?thesis using w sb(2) by (auto simp: wrote_file_def data_ok_def)
  next
    case 3
    then have "sb_bread rb_ops ?d x = sb_bread rb_ops (fh_data (b_h b)) x"
      using w sb by (simp add: wrote_file_def)
    moreover have "sb_bread rb_ops (fh_data (b_h b)) x \<noteq> None"
      unfolding rb_readable using disk_limits [OF ok] lu x by simp
    ultimately show ?thesis by simp
  qed (use slot in simp)
  then show ?thesis unfolding rb_readable using x lu(2) by simp
qed

lemma reopen_ok:
  assumes ok: "store_ok b u" "disk_ok b" and same: "same_disk info b" and i: "i < tcnt b"
    and w: "wrote_file i info info'"
  shows "store_ok (reopen (si_dev info') b) u" "disk_ok (reopen (si_dev info') b)"
    and "same_disk info' (reopen (si_dev info') b)"
proof -
  let ?d = "si_dev info'"
  have sb: "si_sb info = b_sb b" "si_sb info' = b_sb b" "si_dev info = fh_data (b_h b)"
    using same w by (simp_all add: same_disk_def wrote_file_def)
  note lim = disk_limits [OF ok] and len = wrote_file_length [OF assms]
  have lu: "length u = unat (sb_partition_size (b_sb b))" "0 < length u"
    using ok by (auto simp: store_ok_def disk_ok_def)
  show "store_ok (reopen ?d b) u"
    using ok(1) len lim lu by (simp add: store_ok_def bt_ok_def)
  have "(0::u32) \<noteq> slot_blk 512 (b_sb b) i" "0 < bstart b"
    using slot_blk_pos [OF ok i] ok(1) by (auto simp: store_ok_def)
  then have "sb_bread rb_ops ?d 0 = sb_bread rb_ops (fh_data (b_h b)) 0"
    using w sb by (simp add: wrote_file_def)
  moreover have "512 \<le> length ?d" "512 \<le> length (fh_data (b_h b))" using len lu lim by simp_all
  ultimately have "get_bytes 0 512 ?d = get_bytes 0 512 (fh_data (b_h b))" by (simp add: rb_ops_def rb_bread_eq)
  then show "disk_ok (reopen ?d b)" using ok(2) by (simp add: disk_ok_def)
  show "same_disk info' (reopen ?d b)" using sb(2) by (simp add: same_disk_def)
qed

lemma blocks_needed_512: "n < 2 ^ 30 \<Longrightarrow> blocks_needed 512 (of_nat n) = nblocks n"
proof -
  assume n: "n < 2 ^ 30"
  have "(of_nat n + 512 - 1 :: u32) = of_nat (n + 511)" by simp
  moreover have "unat (of_nat (n + 511) :: u32) = n + 511" using n by (intro unat_of_small) simp
  ultimately show ?thesis by (simp only: blocks_needed_def nblocks_def unat_div_distrib) simp
qed

lemma module_writes_file:
  assumes ok: "store_ok b u" "disk_ok b" and same: "same_disk info b" and inv: "fs_inv rb_ops info"
    and i: "i < tcnt b" and used: "used_ok info v"
    and fits: "length (holes (btable b ! i) [0..<nblocks (length d)]) \<le> length (free_data_blocks info v)"
    and ds: "map fst ds = [0..<nblocks (length d)]" "\<forall>(k, off, xs) \<in> set ds. off = 0 \<and> length xs = 512"
    and n: "nblocks (length d) \<le> 9"
    and ino: "i_ino inode = int i + 1" "S_ISREG (i_mode inode)" "i_size inode = int (length d)"
  obtains info1 info2 fe where "write_page rb_ops isz info (int i + 1) ds = Some (0, info1)"
    and "sfs_write_inode rb_ops info1 inode = Some (0, info2)" "fs_inv rb_ops info2" "wrote_file i info info2"
    and "table rb_ops info2 = (btable b)[i := fe]" "fe_name fe = fe_name (btable b ! i)"
    and "fe_size fe = of_nat (length d)" "fe_perms fe = word_of_int (perms_of_mode (i_mode inode))"
    and "sfs_readpage rb_ops (length d) info2 (int i + 1) [0..<nblocks (length d)] =
      Some (Inr (concat (map (snd \<circ> snd) ds)), info2)"
proof -
  note tab = module_sees_table [OF ok same] and c = rb.buffer_cache_axioms
  have bd: "bd_block_size rb_ops = 512" by (simp add: rb_ops_def)
  have sb: "si_sb info = b_sb b" and bs: "sb_block_size (b_sb b) = 512"
    using same ok(1) by (simp_all add: same_disk_def store_ok_def)
  have i': "i < entry_cnt info" using i sb by (simp add: entry_cnt_def tcnt_def)
  have ld: "length d < 2 ^ 30" using n nblocks_bounds(1) [of "length d"] by simp
  have "k < 9" if "(k, x) \<in> set ds" for k x
  proof -
    have "k \<in> set (map fst ds)" using that by force
    then show ?thesis using n unfolding ds(1) by simp
  qed
  then have pieces: "pieces_ok rb_ops ds"
    using ds(2) unfolding pieces_ok_def bd ds(1) by fastforce
  have fits': "length (holes (table rb_ops info ! i) (map fst ds)) \<le> length (free_data_blocks info v)"
    using fits by (simp add: tab(1) ds(1))
  have whole: "\<forall>(k, off, xs) \<in> set ds. off = 0 \<and> length xs = unat (bd_block_size rb_ops)"
    using ds(2) by (simp add: bd)
  have u512: "unat (512 :: u32) = 512" by simp
  from write_then_readpage [OF c inv tab(3) i' pieces used fits' whole, of isz]
  obtain info1 bs1 where w: "write_page rb_ops isz info (int i + 1) ds = Some (0, info1)" "fs_inv rb_ops info1"
      "data_ok rb_ops info1" "si_sb info1 = b_sb b"
    and t1: "table rb_ops info1 = (btable b)[i := (btable b ! i)\<lparr>fe_blocks := bs1\<rparr>]"
    and low1: "\<forall>x. unat x < data_start info \<and> x \<noteq> slot_blk 512 (b_sb b) i \<longrightarrow>
      sb_bread rb_ops (si_dev info1) x = sb_bread rb_ops (si_dev info) x"
    and page: "\<And>z. (\<forall>k \<in> fst ` set ds. k * 512 < z) \<Longrightarrow>
      sfs_readpage rb_ops z info1 (int i + 1) [0..<nblocks (length d)] =
      Some (Inr (concat (map (snd \<circ> snd) ds)), info1)"
    unfolding blocks_only_def tab(1) bd sb ds(1) u512 by blast
  have i1: "i < entry_cnt info1" using i w(4) by (simp add: entry_cnt_def tcnt_def)
  have sz: "(word_of_int (c_int (i_size inode)) :: u32) = of_nat (length d)"
    using ino(3) by (simp add: c_int_def)
  have needed: "\<forall>l \<in> set [0..<nblocks (length d)]. l < blocks_needed (sb_block_size (si_sb info1)) (word_of_int (c_int (i_size inode)))"
    unfolding sz w(4) bs blocks_needed_512 [OF ld] by simp
  have "k * 512 < length d" if "k < nblocks (length d)" for k
    using that nblocks_bounds(2) [of "length d"] by simp
  then have "\<forall>k \<in> fst ` set ds. k * 512 < length d"
    using ds(1) by (metis atLeastLessThan_iff list.set_map set_upt)
  note page = page [OF this]
  from write_inode_page [OF c w(2,3) i1 ino(1,2) _ page needed]
  obtain info2 fe where v: "sfs_write_inode rb_ops info1 inode = Some (0, info2)" "fs_inv rb_ops info2"
      "data_ok rb_ops info2" "si_sb info2 = b_sb b" "table rb_ops info2 = (table rb_ops info1)[i := fe]"
      "fe_name fe = fe_name (btable b ! i)" "fe_size fe = of_nat (length d)"
      "fe_perms fe = word_of_int (perms_of_mode (i_mode inode))"
    and low2: "\<forall>x. x \<noteq> slot_blk 512 (b_sb b) i \<longrightarrow> sb_bread rb_ops (si_dev info2) x = sb_bread rb_ops (si_dev info1) x"
    and page2: "sfs_readpage rb_ops (length d) info2 (int i + 1) [0..<nblocks (length d)] =
      Some (Inr (concat (map (snd \<circ> snd) ds)), info2)"
    using i unfolding sz w(4) bd bs t1 by auto
  have "wrote_file i info info2"
    using v(2,3,4) low1 low2 unfolding wrote_file_def by (simp add: sb fs_inv_def)
  then show ?thesis by (rule that [OF w(1) v(1,2) _ _ v(6,7,8) page2]) (simp add: v(5) t1)
qed

lemma module_to_browser:
  assumes ok: "store_ok b u" "disk_ok b" and same: "same_disk info b" and inv: "fs_inv rb_ops info"
    and fn: "0 \<notin> set fn" and i: "find_file fn (btable b) = Some i"
    and used: "used_ok info v"
    and fits: "length (holes (btable b ! i) [0..<nblocks (length d)]) \<le> length (free_data_blocks info v)"
    and ds: "map fst ds = [0..<nblocks (length d)]" "\<forall>(k, off, xs) \<in> set ds. off = 0 \<and> length xs = 512"
      "take (length d) (concat (map (snd \<circ> snd) ds)) = d" and n: "nblocks (length d) \<le> 9"
    and ino: "i_ino inode = int i + 1" "S_ISREG (i_mode inode)" "i_size inode = int (length d)"
      "(word_of_int (perms_of_mode (i_mode inode)) :: u32) AND 4 \<noteq> 0"
  shows "\<exists>info1 info2 b'. write_page rb_ops isz info (int i + 1) ds = Some (0, info1) \<and>
    sfs_write_inode rb_ops info1 inode = Some (0, info2) \<and> fs_inv rb_ops info2 \<and>
    br_read ob fn (reopen (si_dev info2) b) = Some b' \<and> data_out (b_out b') = data_out (b_out b) @ d"
proof -
  have i': "i < tcnt b" "hit fn (btable b ! i)" using i by (simp_all add: find_file_Some)
  have ld: "length d < 2 ^ 31" using n nblocks_bounds(1) [of "length d"] by simp
  obtain info1 info2 fe where w: "write_page rb_ops isz info (int i + 1) ds = Some (0, info1)"
      "sfs_write_inode rb_ops info1 inode = Some (0, info2)" "fs_inv rb_ops info2" "wrote_file i info info2"
    and t: "table rb_ops info2 = (btable b)[i := fe]" and fe: "fe_name fe = fe_name (btable b ! i)"
      "fe_size fe = of_nat (length d)" "fe_perms fe = word_of_int (perms_of_mode (i_mode inode))"
    and page: "sfs_readpage rb_ops (length d) info2 (int i + 1) [0..<nblocks (length d)] =
      Some (Inr (concat (map (snd \<circ> snd) ds)), info2)"
    by (rule module_writes_file [OF ok same inv i'(1) used fits ds(1,2) n ino(1,2,3)])
  note re = reopen_ok [OF ok same i'(1) w(4)]
  have t2: "btable (reopen (si_dev info2) b) = (btable b)[i := fe]"
    using module_sees_table(1) [OF re] t by simp
  have "hit fn fe" using i'(2) fe(1) by (simp add: hit_def fe_live_def fe_fname_def)
  then have f2: "find_file fn (btable (reopen (si_dev info2) b)) = Some i"
    unfolding t2 by (rule find_file_update [OF i])
  have e2: "btable (reopen (si_dev info2) b) ! i = fe" using i'(1) by (simp add: t2)
  have sz2: "unat (fe_size (btable (reopen (si_dev info2) b) ! i)) = length d"
    unfolding e2 fe(2) using ld by (intro unat_of_small) simp
  have "fe_perms (btable (reopen (si_dev info2) b) ! i) AND 4 \<noteq> 0" unfolding e2 fe(3) by (rule ino(4))
  from both_readers [OF re w(3) fn f2 this, unfolded sz2, OF page, of ob] ds(3)
  show ?thesis using w(1,2,3) by auto
qed

end
