(* ===== verification/Exchange_Properties.thy ===== *)
theory Exchange_Properties
  imports Sfs_Exchange Browser_Properties
begin

unbundle bit_operations_syntax

text \<open>
  Properties of the browser and the kernel module together, on one disk. The witnesses use the
  disk of \<open>Sfs_Sample\<close> with one file.
\<close>

section \<open>A file on the sample disk\<close>

definition disk_browser :: "byte list \<Rightarrow> browser" where
  "disk_browser d = (sample_browser d)\<lparr>b_h := \<lparr>fh_data = sample_disk, fh_pos = 0, fh_fixed = True\<rparr>\<rparr>"

definition file_browser :: "byte list \<Rightarrow> browser" where
  "file_browser d = put_at 512 (encode_fe (new_fe [97] 5 7)) (disk_browser d)"

lemma disk_browser_geometry: "tpos (disk_browser d) = 512" "tcnt (disk_browser d) = 8"
  "b_sb (disk_browser d) = format_sb 5120" "fh_data (b_h (disk_browser d)) = sample_disk"
  using sample_geometry [of d]
  by (simp_all add: disk_browser_def tpos_def tcnt_def table_pos_def) (simp add: sample_browser_def)

lemma length_sample_disk: "length sample_disk = 5120"
  by (simp add: sample_disk_def)

lemma disk_browser_ok: "store_ok (disk_browser d) sample_used" "disk_ok (disk_browser d)"
proof -
  show "store_ok (disk_browser d) sample_used"
    using sample_browser_ok [of d] length_sample_disk
    by (simp add: store_ok_def bt_ok_def disk_browser_geometry sample_geometry)
      (simp add: disk_browser_def sample_browser_def)
  have "get_bytes 0 512 sample_disk = encode_sb (format_sb 5120)"
    by (rule formatted_reads(1) [of 1 "replicate 5120 0"]) (simp_all add: sample_disk_def)
  then show "disk_ok (disk_browser d)"
    by (simp add: disk_ok_def disk_browser_geometry sample_sb) (simp add: format_sb_def Let_def)
qed

lemma disk_browser_table: "btable (disk_browser d) = replicate 8 zero_fe"
proof -
  let ?info = "(kzalloc_info sample_disk)\<lparr>si_sb := format_sb 5120\<rparr>"
  have "same_disk ?info (disk_browser d)" by (simp add: same_disk_def disk_browser_geometry)
  note m = module_sees_table(1) [OF disk_browser_ok this]
  have b: "blocks_of 5120 div 10 = 1" by (simp add: blocks_of_def)
  have "table rb_ops ?info = replicate (8 * 1) zero_fe"
    by (rule formatted_table(2) [of 1 5120 "replicate 5120 0" sample_disk]) (simp_all add: b sample_disk_def)
  then show ?thesis using m by simp
qed

lemma sample_used_tail: "2 \<le> k \<Longrightarrow> k < length sample_used \<Longrightarrow> sample_used ! k = 0"
proof -
  have u: "sample_used = replicate 2 1 @ replicate 8 0" by (simp add: sample_used_def numeral_nat)
  show "2 \<le> k \<Longrightarrow> k < length sample_used \<Longrightarrow> sample_used ! k = 0"
    unfolding u by (auto simp: nth_append simp del: replicate_Suc)
qed

lemma session_disk: "session_ok (disk_browser d) sample_used"
  using disk_browser_ok [of d]
  by (simp add: session_ok_def disk_browser_table clean_fe_def exact_def blocks_ok_def owned_blocks_def
      map_replicate_const disk_browser_geometry sample_sb sample_used_tail)

lemma file_facts: "fe_live (new_fe [97] 5 7)" "fe_fname (new_fe [97] 5 7) = Some [97]"
  "clean_fe (new_fe [97] 5 7)" "hit [97] (new_fe [97] 5 7)"
  using fname_new_fe [of "[97]" 5 7] live_new_fe [of "[97]" 5 7]
  by (simp_all add: clean_fe_def hit_def owned_def new_fe_def [of _ _ 7] fe_fname_def fe_live_def)

lemma session_file:
  "session_ok (file_browser d) sample_used" "btable (file_browser d) = (replicate 8 zero_fe)[0 := new_fe [97] 5 7]"
proof -
  have z: "0 < tcnt (disk_browser d)" "owned (btable (disk_browser d) ! 0) = []"
    "owned (new_fe [97] 5 7) = []"
    by (simp_all add: disk_browser_geometry disk_browser_table new_fe_def owned_def zero_fe_def)
  note p = session_put_empty [OF session_disk z(1,2) wf_new_fe file_facts(3) z(3)]
  show "session_ok (file_browser d) sample_used"
    "btable (file_browser d) = (replicate 8 zero_fe)[0 := new_fe [97] 5 7]"
    using p unfolding disk_browser_geometry disk_browser_table
    by (simp_all only: file_browser_def mult_0_right add_0_right)
qed

lemma find_in_file: "find_file [97] (btable (file_browser d)) = Some 0"
  unfolding session_file(2) using file_facts(4) by (simp add: find_file_Some)

text \<open>What writing \<open>d\<close>, 700 bytes, to that file needs.\<close>

abbreviation bangs :: "byte list" where
  "bangs \<equiv> replicate 700 33"

lemma bangs_blocks: "nblocks (length bangs) = 2" "[0..<2] = [0, 1::nat]"
  by (simp_all add: nblocks_def upt_rec)

lemma bangs_fit:
  "fe_perms (btable (file_browser bangs) ! 0) AND 2 \<noteq> 0"
  "typed (b_in (file_browser bangs)) = bangs" "nblocks (length bangs) \<le> 9"
  "nblocks (length bangs) \<le>
     length (bfree (file_browser bangs) (given_back (btable (file_browser bangs) ! 0) sample_used))"
  "length (owned (btable (file_browser bangs) ! 0)) \<le> nblocks (length bangs)"
  "b_out (file_browser bangs) = []" "0 \<notin> set [97::byte]"
proof -
  have fe: "btable (file_browser bangs) ! 0 = new_fe [97] 5 7" unfolding session_file(2) by simp
  then show "fe_perms (btable (file_browser bangs) ! 0) AND 2 \<noteq> 0"
    "length (owned (btable (file_browser bangs) ! 0)) \<le> nblocks (length bangs)"
    by (simp_all add: new_fe_def owned_def)
  show "typed (b_in (file_browser bangs)) = bangs" "b_out (file_browser bangs) = []"
    by (simp_all add: typed_def file_browser_def disk_browser_def sample_browser_def)
  have "fe_blocks (new_fe [97] 5 7) = replicate 9 0" by (simp add: new_fe_def)
  then have "bfree (file_browser bangs) (given_back (btable (file_browser bangs) ! 0) sample_used) =
      [2, 3, 4, 5, 6, 7, 8, 9]"
    using sample_free [of bangs] unfolding fe by (simp add: file_browser_def disk_browser_def)
  then show "nblocks (length bangs) \<le>
      length (bfree (file_browser bangs) (given_back (btable (file_browser bangs) ! 0) sample_used))"
    unfolding bangs_blocks by simp
  show "nblocks (length bangs) \<le> 9" unfolding bangs_blocks by simp
qed simp

lemma zero_mem_ok: "\<exists>m. zero_mem n = Some m \<and> length m = unat n"
  by (simp add: zero_mem_def)

section \<open>Properties\<close>

text \<open>
  C11. A file written with the browser of August can be read through the kernel module of November:
  after \<open>sfs_write\<close> of \<open>d\<close>, typed in pieces of any size, to a file that had no more blocks than \<open>d\<close>
  needs, the module mounts the disk, looks the name up, finds the size of \<open>d\<close>, the time and the
  permissions, and reading its blocks gives \<open>d\<close>.
\<close>

theorem module_reads_browser_file:
  assumes "session_ok b u" "0 \<notin> set fn" "find_file fn (btable b) = Some i"
    and "fe_perms (btable b ! i) AND 2 \<noteq> 0" "typed (b_in b) = d" "nblocks (length d) \<le> 9"
    and "nblocks (length d) \<le> length (bfree b (given_back (btable b ! i) u))"
    and "length (owned (btable b ! i)) \<le> nblocks (length d)"
    and "\<And>n. \<exists>m. vmalloc n = Some m \<and> length m = unat n"
  shows "\<exists>b1 info fe xs. br_write ob now fn b = Some b1 \<and>
    init_browsing rb_ops vmalloc (kzalloc_info (fh_data (b_h b1))) = Some (0, info) \<and> fs_inv rb_ops info \<and>
    sfs_lookup rb_ops info fn zero_fe = Some (int i + 1, fe) \<and> fe_size fe = of_nat (length d) \<and>
    fe_timestamp fe = now \<and> fe_perms fe = fe_perms (btable b ! i) \<and>
    sfs_readpage rb_ops (length d) info (int i + 1) [0..<nblocks (length d)] = Some (Inr xs, info) \<and>
    take (length d) xs = d"
  using browser_to_module [OF assms] by blast

lemma module_reads_browser_file_witness:
  "\<exists>b1 info fe xs. br_write True 9 [97] (file_browser bangs) = Some b1 \<and>
    init_browsing rb_ops zero_mem (kzalloc_info (fh_data (b_h b1))) = Some (0, info) \<and>
    sfs_lookup rb_ops info [97] zero_fe = Some (1, fe) \<and> fe_size fe = 700 \<and>
    sfs_readpage rb_ops 700 info 1 [0, 1] = Some (Inr xs, info) \<and> take 700 xs = bangs"
  using module_reads_browser_file [OF session_file(1) bangs_fit(7) find_in_file bangs_fit(1-5) zero_mem_ok,
      of True 9, unfolded bangs_blocks] by auto

text \<open>
  C12. A file written through the kernel module can be read with the browser: on a mounted disk,
  after whole blocks are written to the first pages of a file and its inode is written back with
  the size of the data, the browser that opens the device the module has left prints exactly the
  data when it is told to read the file, and the module's invariant still holds.
\<close>

theorem browser_reads_module_file:
  assumes "store_ok b u" "disk_ok b" "same_disk info b" "fs_inv rb_ops info"
    and "0 \<notin> set fn" "find_file fn (btable b) = Some i" "used_ok info v"
    and "length (holes (btable b ! i) [0..<nblocks (length d)]) \<le> length (free_data_blocks info v)"
    and "map fst ds = [0..<nblocks (length d)]" "\<forall>(k, off, xs) \<in> set ds. off = 0 \<and> length xs = 512"
    and "take (length d) (concat (map (snd \<circ> snd) ds)) = d" "nblocks (length d) \<le> 9"
    and "i_ino inode = int i + 1" "S_ISREG (i_mode inode)" "i_size inode = int (length d)"
    and "(word_of_int (perms_of_mode (i_mode inode)) :: u32) AND 4 \<noteq> 0"
  shows "\<exists>info1 info2 b'. write_page rb_ops isz info (int i + 1) ds = Some (0, info1) \<and>
    sfs_write_inode rb_ops info1 inode = Some (0, info2) \<and> fs_inv rb_ops info2 \<and>
    br_read ob fn (reopen (si_dev info2) b) = Some b' \<and> data_out (b_out b') = data_out (b_out b) @ d"
  by (rule module_to_browser [OF assms])

lemma browser_reads_module_file_witness:
  "\<exists>info info1 info2 b'.
    init_browsing rb_ops zero_mem (kzalloc_info (fh_data (b_h (file_browser [])))) = Some (0, info) \<and>
    write_page rb_ops 0 info 1 [(0, 0, replicate 512 7), (1, 0, replicate 512 8)] = Some (0, info1) \<and>
    sfs_write_inode rb_ops info1 sample_inode = Some (0, info2) \<and>
    br_read True [97] (reopen (si_dev info2) (file_browser [])) = Some b' \<and>
    data_out (b_out b') = replicate 512 7 @ replicate 88 8"
proof -
  let ?b = "file_browser []" and ?d = "replicate 512 7 @ replicate 88 (8::byte)"
  let ?ds = "[(0::nat, 0::nat, replicate 512 (7::byte)), (1, 0, replicate 512 8)]"
  have ok: "store_ok ?b sample_used" "disk_ok ?b" using session_file(1) by (simp_all add: session_ok_def)
  have sb: "b_sb ?b = format_sb 5120" by (simp add: file_browser_def disk_browser_geometry)
  obtain m where m: "zero_mem (sb_partition_size (b_sb ?b)) = Some m"
    "length m = unat (sb_partition_size (b_sb ?b))" using zero_mem_ok by blast
  obtain info where init: "init_browsing rb_ops zero_mem (kzalloc_info (fh_data (b_h ?b))) = Some (0, info)"
    and inv: "fs_inv rb_ops info" and same: "same_disk info ?b"
    and v: "si_used info = Obj (mount_flags (btable ?b) (bstart ?b) (unat (sb_partition_size (b_sb ?b))))"
    by (rule module_mounts [where vmalloc = zero_mem and b = ?b, OF ok session_clean [OF session_file(1)] refl refl m])
  have "owned (new_fe [97] 5 7) = []" by (simp add: owned_def new_fe_def)
  then have flags: "mount_flags (btable ?b) 2 10 = [1, 1, 0, 0, 0, 0, 0, 0, 0, 0]"
    unfolding session_file(2) by (simp add: mount_flags_def owned_blocks_def eval_nat_numeral)
  have used: "used_ok info [1, 1, 0, 0, 0, 0, 0, 0, 0, 0]"
    using inv v flags by (auto simp: fs_inv_def used_ok_def sb sample_sb)
  have g: "data_start info = 2" "part_size info = 10"
    using same by (simp_all add: same_disk_def sb sample_sb)
  have fb: "length (free_data_blocks info [1, 1, 0, 0, 0, 0, 0, 0, 0, 0]) = 8"
    by (simp add: free_data_blocks_def g upt_rec)
  have n: "nblocks (length ?d) = 2" by (simp add: nblocks_def)
  have fits: "length (holes (btable ?b ! 0) [0..<nblocks (length ?d)]) \<le>
      length (free_data_blocks info [1, 1, 0, 0, 0, 0, 0, 0, 0, 0])"
    unfolding n fb by (simp add: holes_def bangs_blocks)
  have "map fst ?ds = [0..<nblocks (length ?d)]" unfolding n bangs_blocks by simp
  moreover have "i_ino sample_inode = int 0 + 1" "S_ISREG (i_mode sample_inode)" "i_size sample_inode = int (length ?d)"
    "(word_of_int (perms_of_mode (i_mode sample_inode)) :: u32) AND 4 \<noteq> 0"
    by (simp_all add: sample_inode_def) code_simp+
  moreover have "data_out (b_out ?b) = []"
    by (simp add: file_browser_def disk_browser_def sample_browser_def data_out_def)
  ultimately show ?thesis
    using browser_reads_module_file [OF ok same inv bangs_fit(7) find_in_file used fits, of ?ds sample_inode 0 True]
      init n by auto
qed

text \<open>
  The browser's \<open>sfs_read\<close> and the module's read operation agree: when the module can read the
  blocks of a file up to its size, the browser prints exactly these bytes, cut to the size, and
  does not change the disk.
\<close>

theorem readers_agree:
  assumes "store_ok b u" "disk_ok b" "same_disk info b" "fs_inv rb_ops info"
    and "0 \<notin> set fn" "find_file fn (btable b) = Some i" "fe_perms (btable b ! i) AND 4 \<noteq> 0"
    and "sfs_readpage rb_ops (unat (fe_size (btable b ! i))) info (int i + 1)
      [0..<nblocks (unat (fe_size (btable b ! i)))] = Some (Inr xs, info')"
  shows "\<exists>b'. br_read ob fn b = Some b' \<and>
    data_out (b_out b') = data_out (b_out b) @ take (unat (fe_size (btable b ! i))) xs \<and>
    fh_data (b_h b') = fh_data (b_h b)"
  by (rule both_readers [OF assms])

text \<open>
  Before anything is written, the browser and the module compute the same flags from the table.
\<close>

theorem same_flags:
  assumes "store_ok b v" "disk_ok b"
    and "clean_table (btable b) (bstart b) (unat (sb_partition_size (b_sb b)))"
    and "vmalloc (sb_partition_size (b_sb b)) = Some mem" "length mem = unat (sb_partition_size (b_sb b))"
  shows "\<exists>b' info u. br_init_browsing ob True b = Some (Inr b') \<and> b_used b' = Obj u \<and>
    init_browsing rb_ops vmalloc (kzalloc_info (fh_data (b_h b))) = Some (0, info) \<and> si_used info = Obj u"
proof -
  have p: "bt_ok b" "bstart b \<le> unat (sb_partition_size (b_sb b))" "unat (sb_partition_size (b_sb b)) \<le> 2 ^ 31"
    using assms(1,2) by (auto simp: store_ok_def disk_ok_def)
  obtain info where "init_browsing rb_ops vmalloc (kzalloc_info (fh_data (b_h b))) = Some (0, info)"
    "si_used info = Obj (mount_flags (btable b) (bstart b) (unat (sb_partition_size (b_sb b))))"
    by (rule module_mounts [where vmalloc = vmalloc and b = b, OF assms(1-3) refl refl assms(4,5)]) blast
  then show ?thesis using br_init_flags [OF p(1) assms(3) refl refl p(2,3), of ob] by auto
qed

end
