(* ===== verification/Session_Properties.thy ===== *)
theory Session_Properties
  imports Sfs_Store Exchange_Properties
begin

unbundle bit_operations_syntax

text \<open>
  Properties of whole sessions of the browser of August: the shell from its start to its end, the
  kernel module after it, and the store of files it implements. The witnesses use the disks of
  \<open>Exchange_Properties\<close>.
\<close>

section \<open>A session\<close>

text \<open>Commands other than \<open>write\<close> leave the input to the next line.\<close>

lemma exec_keeps_in:
  assumes "exec August ob now line c b = Some (b', d)" "\<And>fn. c \<noteq> C_write fn"
  shows "b_in b' = b_in b"
proof (cases c)
  case (C_list)
  then show ?thesis using assms by (auto simp: exec_def br_list_def dest!: op_in)
next
  case (C_create fn)
  then show ?thesis using assms
    by (auto simp: exec_def br_create_def Let_def dest!: op_in split: Option.bind_splits scan.splits)
next
  case (C_remove fn)
  then show ?thesis using assms
    by (auto simp: exec_def br_remove_def Let_def dest!: op_in split: Option.bind_splits if_splits)
next
  case (C_chperm p fn)
  then show ?thesis using assms
    by (auto simp: exec_def br_chperm_def br_update_def Let_def dest!: op_in
        split: Option.bind_splits if_splits)
next
  case (C_read fn)
  then show ?thesis using assms
    by (auto simp: exec_def br_read_def dest!: op_in split: Option.bind_splits if_splits)
qed (use assms in \<open>auto simp: exec_def\<close>)

lemma start_keeps_in:
  assumes "start_ok b0" "br_init_browsing ob True (say_welcome b0) = Some (Inr b)"
  shows "b_in b = b_in b0"
proof -
  have "start_ok (say_welcome b0)" using quiet_start [OF quiet_welcome] assms(1) by simp
  moreover from this have "bt_ok (say_welcome b0)" "bstart (say_welcome b0) \<le> unat (sb_partition_size (b_sb (say_welcome b0)))"
    "unat (sb_partition_size (b_sb (say_welcome b0))) \<le> 2 ^ 31"
    by (auto simp: start_ok_def store_ok_def disk_ok_def)
  ultimately have "b_in b = b_in (say_welcome b0)"
    using br_init_flags [of "say_welcome b0", OF _ _ refl refl, of ob] assms(2) by (auto simp: start_ok_def)
  then show ?thesis by (simp add: say_welcome_def Let_def)
qed

text \<open>The input of the witnesses: a file is created and listed.\<close>

definition two_lines :: stdin where
  "two_lines = \<lparr>in_buf = [], in_chunks = [str ''create a'' @ 10 # str ''list'' @ [10]], in_eof = False\<rparr>"

definition one_line :: stdin where
  "one_line = \<lparr>in_buf = str ''list'' @ [10], in_chunks = [], in_eof = False\<rparr>"

definition no_line :: stdin where
  "no_line = \<lparr>in_buf = [], in_chunks = [], in_eof = False\<rparr>"

definition user_browser :: browser where
  "user_browser = (disk_browser [])\<lparr>b_in := two_lines\<rparr>"

lemma lines_read:
  "scanf_line two_lines = (1, str ''create a'', one_line\<lparr>in_buf := 10 # in_buf one_line\<rparr>)"
  "scanf_line one_line = (1, str ''list'', no_line\<lparr>in_buf := [10]\<rparr>)"
  "scanf_line no_line = (-1, [], no_line\<lparr>in_eof := True\<rparr>)"
  "snd (getchar (one_line\<lparr>in_buf := 10 # in_buf one_line\<rparr>)) = one_line"
  "snd (getchar (no_line\<lparr>in_buf := [10]\<rparr>)) = no_line"
  "parse_cmd (str ''create a'') = C_create [97]" "parse_cmd (str ''list'') = C_list"
  "str ''create a'' \<noteq> []" "length (str ''create a'') < 256" "str ''list'' \<noteq> []" "length (str ''list'') < 256"
  by code_simp+

lemma user_start: "start_ok user_browser"
proof -
  have "start_ok (disk_browser [])" by (rule session_start [OF session_disk])
  then show ?thesis using quiet_start [of "disk_browser []" user_browser] by (simp add: user_browser_def)
qed

lemma user_input:
  assumes "browsing False clock user_browser b"
  shows "b_in b \<in> {two_lines, one_line, no_line}"
  using assms
proof induction
  case (start b)
  then show ?case using start_keeps_in [OF user_start start] by (simp add: user_browser_def)
next
  case (round b b')
  let ?p = "\<lambda>i. (say M_prompt b)\<lparr>b_in := i\<rparr>"
  from round.IH consider "b_in b = two_lines" | "b_in b = one_line" | "b_in b = no_line" by blast
  then show ?case
  proof cases
    case 1
    then have "exec August False (clock (?p one_line)) (str ''create a'') (C_create [97]) (?p one_line) = Some (b', False)"
      using round.hyps(2) by (simp add: browse_step_def lines_read parse_of_def Let_def split: if_splits)
    then show ?thesis using exec_keeps_in by fastforce
  next
    case 2
    then have "exec August False (clock (?p no_line)) (str ''list'') C_list (?p no_line) = Some (b', False)"
      using round.hyps(2) by (simp add: browse_step_def lines_read parse_of_def Let_def split: if_splits)
    then show ?thesis using exec_keeps_in by fastforce
  next
    case 3
    then show ?thesis using round.hyps(2) by (simp add: browse_step_def lines_read Let_def)
  qed
qed

lemma user_allowed: "browsing False clock user_browser b \<Longrightarrow> allowed False b"
  using user_input [of clock b]
  by (auto simp: allowed_def lines_read safe_cmd_def)

section \<open>Properties\<close>

text \<open>
  C15. The shell never fails and never breaks the disk: in a session started on a clean disk, as long
  as every line typed is shorter than 256 characters, no file is created with a 64-bit \<open>off_t\<close>, and
  what is typed for a write fits (nine blocks, and the free ones with those given back) and fills at
  least the blocks its file had, each state the loop reaches has a disk whose names are terminated,
  whose files have no holes and whose flags are exactly the blocks of the files, and the next round
  returns.
\<close>

theorem session_invariant:
  assumes "start_ok b0" "\<And>b. browsing ob clock b0 b \<Longrightarrow> allowed ob b"
    and "browsing ob clock b0 b"
  shows "\<exists>u b' done. session_ok b u \<and> browse_step August ob clock b = Some (b', done)"
proof -
  obtain u where "session_ok b u" using browsing_session [OF assms(3,1,2)] by blast
  then show ?thesis using step_session [of b u ob clock] assms(2,3) by blast
qed

lemma session_invariant_witness:
  "\<exists>b u b' done. b_in b = two_lines \<and> session_ok b u \<and> browse_step August False (\<lambda>_. 3) b = Some (b', done)"
proof -
  obtain b where "br_init_browsing False True (say_welcome user_browser) = Some (Inr b)"
    using start_session [OF user_start, of False] by blast
  then have "browsing False (\<lambda>_. 3) user_browser b" "b_in b = two_lines"
    using start_keeps_in [OF user_start] by (auto simp: user_browser_def intro: browsing.start)
  then show ?thesis
    using session_invariant [OF user_start user_allowed [where clock = "\<lambda>_. 3"]] by blast
qed

text \<open>
  C14. The whole program and the module: a run of \<open>browse_sfs\<close> with the same conditions (a clean
  disk; lines shorter than 256 characters; \<open>create\<close> only with a 32-bit \<open>off_t\<close>; writes that fit and fill
  at least the blocks their file had) ends with status 0, and the kernel module of November mounts
  the disk it leaves, with its invariant, the same table, and exactly the blocks of the files in use.
\<close>

theorem session_then_mount:
  assumes "start_ok b0" "\<And>b. browsing ob clock b0 b \<Longrightarrow> allowed ob b"
    and "\<And>n. \<exists>m. vmalloc n = Some m \<and> length m = unat n"
  shows "\<exists>b' info v. browse_sfs ob True clock b0 = Some (0, b') \<and>
    init_browsing rb_ops vmalloc (kzalloc_info (fh_data (b_h b'))) = Some (0, info) \<and>
    fs_inv rb_ops info \<and> table rb_ops info = btable b' \<and> si_used info = Obj v \<and>
    (\<forall>k. data_start info \<le> k \<and> k < part_size info \<longrightarrow>
       (v ! k \<noteq> 0 \<longleftrightarrow> k \<in> unat ` set (owned_blocks (btable b'))))"
proof -
  obtain b1 u where run: "browse_sfs ob True clock b0 = Some (0, b1\<lparr>b_used := Dangling\<rparr>)" and s: "session_ok b1 u"
    using program_session [OF assms(1,2)] by blast
  have ok: "store_ok b1 u" "disk_ok b1" using s by (simp_all add: session_ok_def)
  obtain m where m: "vmalloc (sb_partition_size (b_sb b1)) = Some m" "length m = unat (sb_partition_size (b_sb b1))"
    using assms(3) by blast
  obtain info where init: "init_browsing rb_ops vmalloc (kzalloc_info (fh_data (b_h b1))) = Some (0, info)"
    and inv: "fs_inv rb_ops info" and same: "same_disk info b1"
    and v: "si_used info = Obj (mount_flags (btable b1) (bstart b1) (unat (sb_partition_size (b_sb b1))))"
    by (rule module_mounts [where vmalloc = vmalloc and b = b1, OF ok session_clean [OF s] refl refl m])
  have "bstart b1 \<le> unat (sb_partition_size (b_sb b1))" using ok(2) by (simp add: disk_ok_def)
  then have "mount_flags (btable b1) (bstart b1) (unat (sb_partition_size (b_sb b1))) ! k \<noteq> 0 \<longleftrightarrow>
      k \<in> unat ` set (owned_blocks (btable b1))" if "data_start info \<le> k" "k < part_size info" for k
    using nth_mount_flags that same by (simp add: same_disk_def)
  then show ?thesis using run init inv v module_sees_table(1) [OF ok same] by auto
qed

lemma session_then_mount_witness:
  "\<exists>b' info. browse_sfs False True (\<lambda>_. 3) user_browser = Some (0, b') \<and>
    init_browsing rb_ops zero_mem (kzalloc_info (fh_data (b_h b'))) = Some (0, info) \<and> fs_inv rb_ops info"
  using session_then_mount [OF user_start user_allowed [where clock = "\<lambda>_. 3"] zero_mem_ok] by blast

text \<open>
  C13. The shell is a store of files: a command executed in a session does to the files, as the
  table and the blocks give them, and to the file data printed, what it does in the store
  (\<open>create\<close> adds an empty file unless it exists, \<open>write\<close> replaces the data of an existing one,
  \<open>remove\<close> takes one away, \<open>read\<close> prints one, the others change nothing), and every other file keeps
  its data. The conditions are those of \<open>plain_cmd\<close>. For \<open>create\<close>: a 32-bit \<open>off_t\<close>, a name of 1
  to 15 characters, an entry left for a new name, and no free entry before the one that has the name
  already. For \<open>remove\<close>: the name is in the table once at most. For \<open>read\<close>: the file, if there, has
  the permission. For \<open>write\<close>: the file, if there, has the permission, and the content has at most nine
  blocks, fits in the free blocks with those given back, and fills at least the blocks the file had.
\<close>

theorem shell_refines_store:
  assumes "session_ok b u" "cmd_names_ok c" "plain_cmd ob c b u"
  shows "\<exists>b' done u'. exec August ob now line c b = Some (b', done) \<and> session_ok b' u' \<and>
    store_exec c (typed (b_in b)) (files b) (data_out (b_out b)) = (files b', data_out (b_out b'))"
  using shell_store [OF assms] by (simp add: as_store_def)

lemma shell_refines_store_witness:
  "\<exists>b' u'. exec August True 9 (str ''write a'') (C_write [97]) (file_browser bangs) = Some (b', False) \<and>
    session_ok b' u' \<and> files (file_browser bangs) [97] = Some [] \<and> files b' [97] = Some bangs"
proof -
  let ?b = "file_browser bangs"
  have fe: "btable ?b ! 0 = new_fe [97] 5 7" unfolding session_file(2) by simp
  have "file_data ?b (btable ?b ! 0) = []" unfolding fe by (simp add: file_data_def new_fe_def)
  then have f: "files ?b [97] = Some []" using files_Some [OF find_in_file] by simp
  have n: "cmd_names_ok (C_write [97])" by simp
  have p: "plain_cmd True (C_write [97]) ?b sample_used"
    using bangs_fit(1-5) by (simp add: plain_cmd_def find_in_file Let_def)
  obtain b' dn u' where b': "exec August True 9 (str ''write a'') (C_write [97]) ?b = Some (b', dn)"
    "session_ok b' u'" "(files ?b)([97] \<mapsto> bangs) = files b'"
    using shell_refines_store [OF session_file(1) [of bangs] n p, where now = 9 and line = "str ''write a''"]
      f bangs_fit(2) by auto
  moreover have "files b' [97] = Some bangs" using b'(3) by (metis fun_upd_same)
  ultimately show ?thesis using f by (auto simp: exec_def)
qed

text \<open>
  C16. Overwriting a file with a content that needs fewer blocks than it had breaks the disk: a number
  of the old content stays in the entry, and its block is free or listed twice.
\<close>

theorem short_write_breaks:
  assumes "session_ok b u" "0 \<notin> set fn" "find_file fn (btable b) = Some i"
    and "fe_perms (btable b ! i) AND 2 \<noteq> 0" "typed (b_in b) = d"
    and "nblocks (length d) < length (owned (btable b ! i))"
  shows "\<exists>b1 u1. br_write ob now fn b = Some b1 \<and> b_used b1 = Obj u1 \<and>
    \<not> blocks_ok (btable b1) u1 (bstart b1) (length u1)"
  by (rule short_write [OF assms])

text \<open>700 bytes, then 5.\<close>

lemma short_write_breaks_witness:
  "\<exists>b1 b2 u2. br_write True 9 [97] (file_browser bangs) = Some b1 \<and>
    br_write True 10 [97] (b1\<lparr>b_in := \<lparr>in_buf = [], in_chunks = [replicate 5 34, []], in_eof = False\<rparr>\<rparr>) = Some b2 \<and>
    b_used b2 = Obj u2 \<and> \<not> blocks_ok (btable b2) u2 (bstart b2) (length u2)"
proof -
  let ?i = "\<lparr>in_buf = [], in_chunks = [replicate 5 34, []], in_eof = False\<rparr> :: stdin" and ?fe = "btable (file_browser bangs) ! 0"
  let ?ks = "take (nblocks (length bangs)) (bfree (file_browser bangs) (given_back ?fe sample_used))"
  let ?fe2 = "filled_fe ?fe bangs 9 ?ks"
  obtain b1 u1 where w: "br_write True 9 [97] (file_browser bangs) = Some b1" and s: "session_ok b1 u1"
    and t: "btable b1 = (btable (file_browser bangs))[0 := ?fe2]" and o: "owned ?fe2 = map of_nat ?ks"
    using session_write [OF session_file(1) bangs_fit(7) find_in_file bangs_fit(1-5), of True 9] by blast
  let ?b = "b1\<lparr>b_in := ?i\<rparr>"
  have q: "quiet b1 ?b" by simp
  have t0: "btable ?b = (btable (file_browser bangs))[0 := ?fe2]" using quiet_table(3) [OF q] t by simp
  have i: "0 < length (btable (file_browser bangs))" using find_in_file [of bangs] by (simp add: find_file_Some)
  have e: "btable ?b ! 0 = ?fe2" unfolding t0 using i by simp
  have "hit [97] ?fe2" using find_in_file [of bangs] by (simp add: find_file_Some)
  then have f: "find_file [97] (btable ?b) = Some 0" unfolding t0 by (intro find_file_update find_in_file)
  have p: "fe_perms (btable ?b ! 0) AND 2 \<noteq> 0" unfolding e using bangs_fit(1) by simp
  have d: "typed (b_in ?b) = replicate 5 34" by (simp add: typed_def)
  have "length (owned (btable ?b ! 0)) = nblocks (length bangs)" unfolding e o using bangs_fit(4) by simp
  then have "nblocks (length (replicate 5 (34::byte))) < length (owned (btable ?b ! 0))"
    unfolding bangs_blocks by (simp add: nblocks_def)
  from short_write_breaks [OF _ bangs_fit(7) f p d this, of u1 True 10]
  show ?thesis using quiet_session [OF q, of u1] s w by auto
qed

end
