(* ===== verification/Disk_Properties.thy ===== *)
theory Disk_Properties
  imports Ram_Cache
begin

text \<open>
  Properties of the disk on RAM: the partitions a reader finds on it, requests, and
  loading and unloading the block driver.
\<close>

section \<open>Partitions\<close>

lemma boot_sectors_only:
  assumes "1024 * 512 \<le> length disk" "copy_mbr_n_br 4 disk = Some d"
    and "s < 1024" "s \<notin> {0, 320, 448, 576}"
  shows "get_bytes (512 * s) 512 d = get_bytes (512 * s) 512 disk"
proof -
  have tl: "length (encode_table 4 def_part_table) = 64" by (simp add: def_part_table_def)
  have away: "get_bytes (512 * s) 512 (put_bytes (512 * k) xs D) = get_bytes (512 * s) 512 D \<and>
      1024 * 512 \<le> length (put_bytes (512 * k) xs D)"
    if "k \<noteq> s" "length xs = 512" "k < 1024" "1024 * 512 \<le> length D" for k xs D
  proof -
    have "k < s \<or> s < k" using that(1) by auto
    then show ?thesis using that(2-4) assms(3) by (auto intro!: get_put_disjoint)
  qed
  let ?d0 = "put_bytes (512 * 0) (mbr_sector (encode_table 4 def_part_table)) disk"
  let ?d1 = "put_bytes (512 * 320) (br_sector (log_tab 0)) ?d0"
  let ?d2 = "put_bytes (512 * 448) (br_sector (log_tab 1)) ?d1"
  have d: "d = put_bytes (512 * 576) (br_sector (log_tab 2)) ?d2"
    using copy_mbr_n_br_eq [OF assms(1)] assms(2) by simp
  have ne: "576 \<noteq> s" "448 \<noteq> s" "320 \<noteq> s" "0 \<noteq> s" using assms(4) by auto
  have sec: "length (br_sector (log_tab k)) = 512" if "k < 3" for k using that by simp
  note a0 = away [OF ne(4) length_sectors(2) [OF tl] _ assms(1)]
  note a1 = away [OF ne(3) sec, of 0 ?d0]
  note a2 = away [OF ne(2) sec, of 1 ?d1]
  note a3 = away [OF ne(1) sec, of 2 ?d2]
  show ?thesis unfolding d using a0 a1 a2 a3 by simp
qed

lemma table_geometry:
  "\<forall>p \<in> set def_part_table. chs_ok 0 p"
  "\<forall>i < 3. \<forall>p \<in> set (def_log_part_table ! i). part_type p \<noteq> 5 \<longrightarrow>
    chs_ok (32 * def_log_part_br_cyl ! i) p"
  by (auto simp: def_part_table_def def_log_part_table_def def_log_part_br_cyl_def chs_ok_def
      part_def zero_part_def less_Suc_eq numeral_3_eq_3 take_bit_nat_def)

text \<open>
  C26. Partitioning any memory of 1024 sectors, on a machine whose \<open>unsigned long\<close> has 4 bytes: a
  reader that follows the boot records finds three primary partitions, one extended, that do not
  overlap and fill the disk from sector 1, and in the extended one three logical partitions that do
  not overlap; only the four boot sectors are written. The cylinder and sector numbers agree with the
  linear sector numbers in every entry of the tables but the links from one logical partition to the next.
\<close>

theorem disk_partitioned:
  assumes "length disk = 1024 * 512"
  shows "\<exists>d. copy_mbr_n_br 4 disk = Some d \<and>
    primaries d = Some disk_primaries \<and> ranges_ok disk_primaries 1 1024 \<and>
    logicals 3 d 320 320 = Some disk_logicals \<and> ranges_ok disk_logicals 320 640 \<and>
    (\<forall>s < 1024. s \<notin> {0, 320, 448, 576} \<longrightarrow> get_bytes (512 * s) 512 d = get_bytes (512 * s) 512 disk) \<and>
    (\<forall>p \<in> set def_part_table. chs_ok 0 p) \<and>
    (\<forall>i < 3. \<forall>p \<in> set (def_log_part_table ! i). part_type p \<noteq> 5 \<longrightarrow>
      chs_ok (32 * def_log_part_br_cyl ! i) p)"
proof -
  have len: "1024 * 512 \<le> length disk" using assms by simp
  obtain d where d: "copy_mbr_n_br 4 disk = Some d" using copy_mbr_n_br_eq [OF len] by blast
  have "ranges_ok disk_primaries 1 1024" "ranges_ok disk_logicals 320 640"
    by (simp_all add: disk_primaries_def disk_logicals_def)
  then show ?thesis
    using d partitioned_disk [OF len d] boot_sectors_only [OF len d] table_geometry by blast
qed

lemma disk_partitioned_witness:
  "\<exists>d. copy_mbr_n_br 4 (replicate (1024 * 512) 7) = Some d \<and> primaries d = Some disk_primaries \<and>
    logicals 3 d 320 320 = Some disk_logicals \<and> get_bytes 512 512 d = replicate 512 7"
proof -
  have l: "length (replicate (1024 * 512) (7::byte)) = 1024 * 512" by (rule length_replicate)
  have g: "get_bytes (512 * 1) 512 (replicate (1024 * 512) (7::byte)) = replicate 512 7"
    unfolding get_bytes_def drop_replicate take_replicate by simp
  have s: "(1::nat) < 1024" "(1::nat) \<notin> {0, 320, 448, 576}" by simp_all
  from disk_partitioned [OF l] g s show ?thesis by (metis mult.right_neutral)
qed

section \<open>Requests\<close>

text \<open>
  C27. A write request followed by a read request of the same sectors, cut into segments of any
  whole numbers of sectors: both end without error, the read delivers the bytes written, and no
  other byte of the device changes.
\<close>

theorem request_write_then_read:
  assumes "req_ok w d" "rq_data_dir w = WRITE" "req_ok r d" "rq_data_dir r = READ"
    and "blk_rq_pos r = blk_rq_pos w" "blk_rq_sectors r = blk_rq_sectors w"
  shows "\<exists>d' r'. rb_request [w, r] (Obj d) = Some ([(w, 0), (r', 0)], Obj d') \<and>
    concat (map seg_bytes (rq_segs r')) = concat (map seg_bytes (rq_segs w)) \<and> length d' = length d \<and>
    (\<forall>i < length d. i < 512 * unat (blk_rq_pos w) \<or>
        512 * unat (blk_rq_pos w) + 512 * unat (blk_rq_sectors w) \<le> i \<longrightarrow> d' ! i = d ! i)"
proof -
  let ?xs = "concat (map seg_bytes (rq_segs w))" and ?p = "512 * unat (blk_rq_pos w)"
  let ?d = "put_bytes ?p ?xs d"
  have l: "length ?xs = 512 * unat (blk_rq_sectors w)" "?p + length ?xs \<le> length d"
    using assms(1) length_concat_segs [of "rq_segs w"] by (simp_all add: req_ok_def)
  then have len: "length ?d = length d" by simp
  then have ok: "req_ok r ?d" using assms(3) by (simp add: req_ok_def)
  have w: "rb_transfer w (Obj d) = Some (0, w, Obj ?d)"
    by (rule rb_transfer_write [OF assms(1,2)])
  let ?r = "r\<lparr>rq_segs := segs_fill (rq_segs r) ?xs\<rparr>"
  have sl: "segs_len (rq_segs r) = length ?xs" using assms(3,6) l(1) by (simp add: req_ok_def)
  then have "get_bytes ?p (segs_len (rq_segs r)) ?d = ?xs" using l(2) by simp
  then have r: "rb_transfer r (Obj ?d) = Some (0, ?r, Obj ?d)"
    using rb_transfer_read [OF ok assms(4)] assms(5) by simp
  have "concat (map seg_bytes (rq_segs ?r)) = ?xs"
    using segs_bytes_fill [of "rq_segs r" ?xs] sl assms(3) by (simp add: req_ok_def)
  moreover have "?d ! i = d ! i" if "i < length d" "i < ?p \<or> ?p + 512 * unat (blk_rq_sectors w) \<le> i" for i
    using that l by (auto simp: nth_put_bytes)
  ultimately show ?thesis using w r len by (intro exI [of _ ?d] exI [of _ ?r]) auto
qed

lemma request_write_then_read_witness:
  "\<exists>d' r'. rb_request [\<lparr>rq_data_dir = WRITE, blk_rq_pos = 1, blk_rq_sectors = 1,
        rq_segs = [\<lparr>bv_data = replicate 512 7, bv_len = 512\<rparr>]\<rparr>,
      \<lparr>rq_data_dir = READ, blk_rq_pos = 1, blk_rq_sectors = 1,
        rq_segs = [\<lparr>bv_data = replicate 512 0, bv_len = 512\<rparr>]\<rparr>] (Obj (replicate 2048 3)) =
      Some r' \<and> snd r' = Obj d' \<and> length d' = 2048 \<and> d' ! 0 = 3 \<and>
    concat (map seg_bytes (rq_segs (fst (fst r' ! 1)))) = replicate 512 7"
proof -
  let ?w = "\<lparr>rq_data_dir = WRITE, blk_rq_pos = 1, blk_rq_sectors = 1,
    rq_segs = [\<lparr>bv_data = replicate 512 7, bv_len = 512\<rparr>]\<rparr>"
  let ?r = "\<lparr>rq_data_dir = READ, blk_rq_pos = 1, blk_rq_sectors = 1,
    rq_segs = [\<lparr>bv_data = replicate 512 0, bv_len = 512\<rparr>]\<rparr>"
  let ?d = "replicate 2048 3 :: byte list"
  have ok: "req_ok ?w ?d" "req_ok ?r ?d" by (simp_all add: req_ok_def seg_ok_def)
  have dir: "rq_data_dir ?w = WRITE" "rq_data_dir ?r = READ"
    "blk_rq_pos ?r = blk_rq_pos ?w" "blk_rq_sectors ?r = blk_rq_sectors ?w" by simp_all
  obtain d' r' where x: "rb_request [?w, ?r] (Obj ?d) = Some ([(?w, 0), (r', 0)], Obj d')"
    "concat (map seg_bytes (rq_segs r')) = concat (map seg_bytes (rq_segs ?w))" "length d' = length ?d"
    "\<forall>i < length ?d. i < 512 * unat (blk_rq_pos ?w) \<or>
        512 * unat (blk_rq_pos ?w) + 512 * unat (blk_rq_sectors ?w) \<le> i \<longrightarrow> d' ! i = ?d ! i"
    using request_write_then_read [OF ok(1) dir(1) ok(2) dir(2-4)] by blast
  have "d' ! 0 = 3" using x(4) by simp
  moreover have "concat (map seg_bytes (rq_segs ?w)) = replicate 512 7" by (simp add: seg_bytes_def)
  ultimately show ?thesis
    using x(1-3) by (intro exI [of _ d'] exI [of _ "([(?w, 0), (r', 0)], Obj d')"]) simp
qed

text \<open>
  C28. Every request the loop fetches is ended, in the order of the queue; one with a segment that
  is not a whole number of sectors, or whose segments do not add up to its sectors, ends in -EIO.
\<close>

theorem bad_request_ends_in_error:
  assumes "rb_request q p = Some (done, p')"
  shows "map (\<lambda>(r, _). (rq_data_dir r, blk_rq_pos r, blk_rq_sectors r)) done =
      map (\<lambda>r. (rq_data_dir r, blk_rq_pos r, blk_rq_sectors r)) q \<and>
    (\<forall>i < length q. (\<exists>bv \<in> set (rq_segs (q ! i)). bv_len bv mod 512 \<noteq> 0) \<or>
        sum_list (map (\<lambda>bv. ucast (bv_len bv div 512)) (rq_segs (q ! i))) \<noteq>
          (ucast (blk_rq_sectors (q ! i)) :: u64) \<longrightarrow> snd (done ! i) = - EIO)"
proof -
  have off: "rb_segments dir st bvs off ret p = Some (off', ret', bvs', p') \<Longrightarrow>
      off' = off + sum_list (map (\<lambda>bv. ucast (bv_len bv div 512)) bvs)" for dir st bvs off ret p off' ret' bvs' p'
    by (induction bvs arbitrary: off ret p off' ret' bvs' p')
      (fastforce simp: Let_def add.assoc split: Option.bind_splits if_splits)+
  have one: "ret = - EIO" if "rb_transfer r p = Some (ret, r', p')"
    "(\<exists>bv \<in> set (rq_segs r). bv_len bv mod 512 \<noteq> 0) \<or>
      sum_list (map (\<lambda>bv. ucast (bv_len bv div 512)) (rq_segs r)) \<noteq> (ucast (blk_rq_sectors r) :: u64)"
    for r p ret r' p'
    using that(2)
  proof
    assume "\<exists>bv \<in> set (rq_segs r). bv_len bv mod 512 \<noteq> 0"
    then show ?thesis using rb_transfer_misaligned [OF that(1)] by blast
  next
    assume "sum_list (map (\<lambda>bv. ucast (bv_len bv div 512)) (rq_segs r)) \<noteq> (ucast (blk_rq_sectors r) :: u64)"
    then show ?thesis using that(1)
      by (auto simp: rb_transfer_def dest!: off split: Option.bind_splits if_splits)
  qed
  have "snd (done ! i) = - EIO" if "rb_request q p = Some (done, p')" "i < length q"
    "(\<exists>bv \<in> set (rq_segs (q ! i)). bv_len bv mod 512 \<noteq> 0) \<or>
      sum_list (map (\<lambda>bv. ucast (bv_len bv div 512)) (rq_segs (q ! i))) \<noteq>
        (ucast (blk_rq_sectors (q ! i)) :: u64)" for i q p "done" p'
    using that
  proof (induction q arbitrary: p "done" p' i)
    case (Cons r q)
    obtain ret r' p1 done1 where t: "rb_transfer r p = Some (ret, r', p1)"
      "rb_request q p1 = Some (done1, p')" "done = (r', ret) # done1"
      using Cons.prems(1) by (auto split: Option.bind_splits)
    show ?case
    proof (cases i)
      case 0
      then show ?thesis using one [OF t(1)] Cons.prems(3) t(3) by simp
    next
      case (Suc j)
      then show ?thesis using Cons.IH [OF t(2), of j] Cons.prems(2,3) t(3) by simp
    qed
  qed simp
  then show ?thesis using assms rb_request_done [OF assms] by blast
qed

lemma bad_request_ends_in_error_witness:
  "\<exists>r p'. rb_request [\<lparr>rq_data_dir = READ, blk_rq_pos = 0, blk_rq_sectors = 1,
      rq_segs = [\<lparr>bv_data = replicate 700 0, bv_len = 700\<rparr>]\<rparr>] (Obj (replicate 1024 3)) = Some ([(r, - EIO)], p')"
proof -
  let ?r = "\<lparr>rq_data_dir = READ, blk_rq_pos = 0, blk_rq_sectors = 1,
    rq_segs = [\<lparr>bv_data = replicate 700 0, bv_len = 700\<rparr>]\<rparr>"
  obtain x p' where x: "rb_request [?r] (Obj (replicate 1024 3)) = Some ([x], p')"
    by (simp add: rb_transfer_def Let_def ramdevice_read_obj)
  have "(700 :: u32) mod 512 \<noteq> 0" by simp
  then have "snd x = - EIO" using bad_request_ends_in_error [OF x] by simp
  then show ?thesis using x by (cases x) auto
qed

section \<open>Loading the block driver\<close>

text \<open>
  C30. When the kernel gives a major number, loading the driver either fails with an error and
  holds nothing, or it holds its memory, queue, registration and a disk of 1024 sectors, and
  unloading it then gives back everything, without a double release.
\<close>

theorem block_driver_all_or_nothing:
  assumes "rb_init ls k st = Some (ret, st')" "rb_idle st"
    and "0 < k_register_blkdev k" "k_register_blkdev k < 2 ^ 20"
  shows "if ret < 0 then rb_idle st'
    else ret = 0 \<and> rb_live st' \<and> rb_size st' = 1024 \<and> (\<exists>st2. rb_cleanup st' = Some st2 \<and> rb_idle st2)"
  using rb_init_outcome [OF assms] rb_cleanup_live [of st'] by auto

definition idle_driver :: rb_state where
  "idle_driver = \<lparr>rb_data = Null, rb_size = 0, rb_major = 0, blk_reg = False, rb_queue = Null, rb_disk = Null\<rparr>"

lemma block_driver_all_or_nothing_witness:
  "\<exists>st'. rb_init 4 \<lparr>k_vmalloc = Some (replicate (1024 * 512) 0), k_register_blkdev = 254,
      k_blk_init_queue = True, k_alloc_disk = False\<rparr> idle_driver = Some (- ENOMEM, st') \<and> rb_idle st'"
proof -
  let ?k = "\<lparr>k_vmalloc = Some (replicate (1024 * 512) 0), k_register_blkdev = 254,
    k_blk_init_queue = True, k_alloc_disk = False\<rparr>"
  have "length (replicate (1024 * 512) (0::byte)) = RB_DEVICE_SIZE * RB_SECTOR_SIZE"
    unfolding length_replicate by simp
  then obtain d where "ramdevice_init 4 (Some (replicate (1024 * 512) 0)) = Some (1024, Obj d)"
    using ramdevice_init_eq by blast
  then obtain st' where i: "rb_init 4 ?k idle_driver = Some (- ENOMEM, st')"
    by (simp add: rb_init_def rb_ram_cleanup_def ramdevice_cleanup_def unregister_blkdev_def
        blk_cleanup_queue_def Let_def word_le_nat_alt)
  have "rb_idle idle_driver" by (simp add: rb_idle_def idle_driver_def)
  from block_driver_all_or_nothing [OF i this] i show ?thesis by simp
qed

text \<open>
  A failing \<open>register_blkdev\<close> is not noticed, since its negative result goes into an unsigned
  variable: the driver loads although it is not registered.
\<close>

theorem register_error_unnoticed:
  assumes "k_register_blkdev k < 0" "- (2 ^ 12) \<le> k_register_blkdev k"
    and "k_vmalloc k = Some m" "length m = RB_DEVICE_SIZE * RB_SECTOR_SIZE"
    and "k_blk_init_queue k" "k_alloc_disk k"
  shows "\<exists>st'. rb_init 4 k st = Some (0, st') \<and> \<not> blk_reg st'"
  by (rule rb_init_register_error [OF assms])

end
