(* ===== verification/Char_Device.thy ===== *)
theory Char_Device
  imports Kernel_Services
begin

text \<open>
  The message device driven by \<open>ioctl\<close> (\<open>charexample/chardev.c\<close>) with the program that talks
  to it (\<open>charexample/ioctl.c\<close>), and the counting device (\<open>lkm3_char/chardev.c\<close>). A pointer
  into the message buffer is an offset, \<open>None\<close> for NULL; a read outside the buffer has no result.
\<close>

section \<open>The driver\<close>

definition BUF_LEN :: nat where [simp]: "BUF_LEN = 80"

definition SUCCESS :: int where [simp]: "SUCCESS = 0"

record chardev =
  Device_Open :: int
  cd_Message :: "byte list"
  Message_Ptr :: "nat option"
  module_refs :: int

definition device_open :: "chardev \<Rightarrow> int \<times> chardev" where
  "device_open d =
     (if Device_Open d \<noteq> 0 then (- EBUSY, d)
      else (SUCCESS, d\<lparr>Device_Open := Device_Open d + 1, Message_Ptr := Some 0,
                       module_refs := module_refs d + 1\<rparr>))"

definition device_release :: "chardev \<Rightarrow> int \<times> chardev" where
  "device_release d =
     (SUCCESS, d\<lparr>Device_Open := Device_Open d - 1, module_refs := module_refs d - 1\<rparr>)"

text \<open>
  \<open>while (length && *Message_Ptr) put_user( *(Message_Ptr++), buffer++), ...\<close> from the rest of
  the message on; the count of bytes and the user memory.
\<close>

fun device_read_loop :: "byte list \<Rightarrow> nat \<Rightarrow> nat \<Rightarrow> byte list \<Rightarrow> (nat \<times> byte list) option" where
  "device_read_loop rest 0 k ubuf = Some (k, ubuf)"
| "device_read_loop [] (Suc n) k ubuf = None"
| "device_read_loop (c # rest) (Suc n) k ubuf =
     (if c = 0 then Some (k, ubuf)
      else device_read_loop rest n (Suc k) (snd (put_user c k ubuf)))"

definition device_read :: "nat \<Rightarrow> byte list \<Rightarrow> chardev \<Rightarrow> (int \<times> byte list \<times> chardev) option" where
  "device_read len ubuf d =
     (case Message_Ptr d of
        None \<Rightarrow> None
      | Some p \<Rightarrow>
          if length (cd_Message d) \<le> p then None
          else if cd_Message d ! p = 0 then Some (0, ubuf, d)
          else do {
            (n, ubuf) \<leftarrow> device_read_loop (drop p (cd_Message d)) len 0 ubuf;
            Some (int n, ubuf, d\<lparr>Message_Ptr := Some (p + n)\<rparr>)
          })"

definition device_write :: "nat \<Rightarrow> byte list \<Rightarrow> chardev \<Rightarrow> int \<times> chardev" where
  "device_write len ubuf d =
     (let i = min len BUF_LEN
      in (int i, d\<lparr>cd_Message := get_users 0 i ubuf (cd_Message d), Message_Ptr := Some 0\<rparr>))"

text \<open>\<open>for (i = 0; ch && i < BUF_LEN; i++, temp++) get_user(ch, temp)\<close>.\<close>

function set_msg_len :: "byte \<Rightarrow> nat \<Rightarrow> byte list \<Rightarrow> nat" where
  "set_msg_len ch i ubuf =
     (if ch \<noteq> 0 \<and> i < 80 then set_msg_len (snd (get_user i ubuf)) (Suc i) ubuf else i)"
  by pat_completeness auto
termination
  by (relation "measure (\<lambda>(ch, i, ubuf). 80 - i)") auto

declare set_msg_len.simps [simp del]

datatype ioctl_cmd = IOCTL_SET_MSG | IOCTL_GET_MSG | IOCTL_GET_NTH_BYTE | Ioctl_Other

text \<open>
  \<open>ubuf\<close> is the user memory \<open>ioctl_param\<close> points to, \<open>param\<close> its value as a number. A \<open>char\<close>
  is returned with its sign.
\<close>

definition device_ioctl ::
  "ioctl_cmd \<Rightarrow> nat \<Rightarrow> byte list \<Rightarrow> chardev \<Rightarrow> (int \<times> byte list \<times> chardev) option" where
  "device_ioctl cmd param ubuf d =
     (case cmd of
        IOCTL_SET_MSG \<Rightarrow>
          let i = set_msg_len (snd (get_user 0 ubuf)) 0 ubuf;
              (_, d) = device_write i ubuf d
          in Some (SUCCESS, ubuf, d)
      | IOCTL_GET_MSG \<Rightarrow> do {
          (i, ubuf, d) \<leftarrow> device_read 99 ubuf d;
          Some (SUCCESS, snd (put_user 0 (nat i) ubuf), d)
        }
      | IOCTL_GET_NTH_BYTE \<Rightarrow>
          if param < length (cd_Message d) then Some (sint (cd_Message d ! param), ubuf, d) else None
      | Ioctl_Other \<Rightarrow> Some (SUCCESS, ubuf, d))"

section \<open>Registering\<close>

text \<open>
  The table of character majors. \<open>ans\<close> is the kernel's answer to a request for the dynamic major
  0, or a negative error; a major that is taken is refused.
\<close>

type_synonym chr_tab = "int \<Rightarrow> string option"

definition register_chrdev :: "int \<Rightarrow> string \<Rightarrow> int \<Rightarrow> chr_tab \<Rightarrow> int \<times> chr_tab" where
  "register_chrdev major name ans tab =
     (if ans < 0 then (ans, tab)
      else let m = (if major = 0 then ans else major)
           in if tab m \<noteq> None then (- EBUSY, tab)
              else (if major = 0 then ans else 0, tab(m \<mapsto> name)))"

definition unregister_chrdev :: "int \<Rightarrow> chr_tab \<Rightarrow> int \<times> chr_tab" where
  "unregister_chrdev major tab =
     (if tab major = None then (- EINVAL, tab) else (0, tab(major := None)))"

definition MAJOR_NUM :: int where "MAJOR_NUM = 100"

definition chardev_init_module :: "int \<Rightarrow> chr_tab \<Rightarrow> int \<times> chr_tab" where
  "chardev_init_module ans tab =
     (let (ret_val, tab) = register_chrdev MAJOR_NUM ''char_dev'' ans tab
      in if ret_val < 0 then (ret_val, tab) else (0, tab))"

definition chardev_cleanup_module :: "chr_tab \<Rightarrow> chr_tab" where
  "chardev_cleanup_module tab = snd (unregister_chrdev MAJOR_NUM tab)"

interpretation chardev_mod: module_life chardev_init_module chardev_cleanup_module id "\<lambda>_. True" "\<lambda>_. True"
  by unfold_locales
    (auto simp: chardev_init_module_def chardev_cleanup_module_def register_chrdev_def
      unregister_chrdev_def MAJOR_NUM_def Let_def split: if_splits)

section \<open>Facts\<close>

definition cd_ok :: "chardev \<Rightarrow> bool" where
  "cd_ok d \<longleftrightarrow> length (cd_Message d) = 80"

lemma get_user_nul [simp]:
  "snd (get_user i (s @ 0 # r)) = (if i < length s then s ! i else if i = length s then 0
     else snd (get_user (i - Suc (length s)) r))"
  by (auto simp: get_user_def nth_append)

text \<open>The length found is that of the string and its NUL, at most 80; none for the empty string.\<close>

lemma set_msg_len_from:
  assumes s: "0 \<notin> set s" and i: "i < length s" "i < 80"
  shows "set_msg_len (s ! i) (Suc i) (s @ 0 # r) = min 80 (Suc (length s))"
  using i
proof (induction "length s - i" arbitrary: i)
  case 0
  then show ?case by simp
next
  case (Suc k)
  have nz: "s ! i \<noteq> 0" using s Suc.prems nth_mem by metis
  show ?case
  proof (cases "Suc i < 80")
    case False
    then have "i = 79" using Suc.prems by simp
    then show ?thesis using Suc.prems by (subst set_msg_len.simps) simp
  next
    case lt: True
    show ?thesis
    proof (cases "Suc i < length s")
      case True
      then show ?thesis
        using Suc.hyps(1) [of "Suc i"] Suc.hyps(2) lt nz
        by (subst set_msg_len.simps) (simp add: nth_append)
    next
      case False
      then have "length s = Suc i" using Suc.prems by simp
      then show ?thesis using lt nz
        by (subst set_msg_len.simps) (simp add: nth_append set_msg_len.simps [of 0])
    qed
  qed
qed

lemma set_msg_len_string:
  assumes "0 \<notin> set s" "s \<noteq> []"
  shows "set_msg_len (snd (get_user 0 (s @ 0 # r))) 0 (s @ 0 # r) = min 80 (Suc (length s))"
proof -
  have "s ! 0 \<noteq> 0" using assms by (cases s) auto
  then show ?thesis
    using assms set_msg_len_from [OF assms(1), of 0 r]
    by (subst set_msg_len.simps) (simp add: nth_append)
qed

lemma device_read_loop_eq:
  "0 \<notin> set s \<Longrightarrow> k + min n (length s) \<le> length ubuf \<Longrightarrow>
   device_read_loop (s @ 0 # r) n k ubuf = Some (k + min n (length s), put_bytes k (take n s) ubuf)"
proof (induction s arbitrary: n k ubuf)
  case Nil
  then show ?case by (cases n) (simp_all add: put_bytes_def)
next
  case (Cons c s)
  show ?case
  proof (cases n)
    case 0
    then show ?thesis by (simp add: put_bytes_def)
  next
    case (Suc m)
    then have "put_bytes (Suc k) (take m s) (ubuf[k := c]) = put_bytes k (c # take m s) ubuf"
      using Cons.prems by (intro put_bytes_Cons) simp
    then show ?thesis using Cons Suc by simp
  qed
qed

lemma device_read_string:
  assumes "cd_Message d = pre @ s @ 0 # r" "Message_Ptr d = Some (length pre)" "0 \<notin> set s"
    and "min len (length s) \<le> length ubuf"
  shows "device_read len ubuf d = Some (int (min len (length s)), put_bytes 0 (take len s) ubuf,
    d\<lparr>Message_Ptr := Some (length pre + min len (length s))\<rparr>)"
proof (cases s)
  case Nil
  moreover have "d\<lparr>Message_Ptr := Some (length pre)\<rparr> = d" using assms(2) by (cases d) simp
  ultimately show ?thesis using assms by (simp add: device_read_def put_bytes_def)
next
  case (Cons c t)
  then show ?thesis
    using assms device_read_loop_eq [OF assms(3), of 0 len ubuf r]
    by (auto simp: device_read_def nth_append)
qed

text \<open>Setting a message and getting it back, for messages of 1 to 79 bytes.\<close>

lemma device_set_msg:
  assumes "0 \<notin> set s" "s \<noteq> []" "length s \<le> 79" "cd_ok d"
  shows "device_ioctl IOCTL_SET_MSG p (s @ 0 # r) d = Some (0, s @ 0 # r,
    d\<lparr>cd_Message := s @ 0 # drop (Suc (length s)) (cd_Message d), Message_Ptr := Some 0\<rparr>)"
  using assms set_msg_len_string [OF assms(1,2), of r]
  by (simp add: device_ioctl_def device_write_def Let_def get_users_0 cd_ok_def min_def)

lemma device_get_msg:
  assumes "cd_Message d = pre @ s @ 0 # r" "Message_Ptr d = Some (length pre)" "0 \<notin> set s"
    and "length s \<le> 98" "length ubuf = 100"
  shows "device_ioctl IOCTL_GET_MSG p ubuf d = Some (0, s @ 0 # drop (Suc (length s)) ubuf,
    d\<lparr>Message_Ptr := Some (length pre + length s)\<rparr>)"
  using assms device_read_string [OF assms(1-3), of 99 ubuf]
  by (simp add: device_ioctl_def put_bytes_def list_update_append min_def Cons_nth_drop_Suc [symmetric])

text \<open>An empty message leaves the one that was set before.\<close>

lemma device_set_empty:
  "device_ioctl IOCTL_SET_MSG p (0 # r) d = Some (0, 0 # r, d\<lparr>Message_Ptr := Some 0\<rparr>)"
  using get_users_0 [of 0 "cd_Message d" "0 # r"]
  by (cases d) (simp add: device_ioctl_def device_write_def set_msg_len.simps [of 0] Let_def)

text \<open>
  A write of 80 bytes or more without NUL leaves none in the buffer: reading to the end of the
  message leaves the buffer.
\<close>

lemma read_loop_no_nul: "0 \<notin> set m \<Longrightarrow> length m < n \<Longrightarrow> device_read_loop m n k ubuf = None"
proof (induction m arbitrary: n k ubuf)
  case Nil
  then show ?case by (cases n) simp_all
next
  case (Cons c m)
  then show ?case by (cases n) simp_all
qed

lemma write_full_unterminated:
  assumes "0 \<notin> set xs" "80 \<le> length xs" "cd_ok d" "80 < len"
  shows "device_read len ubuf (snd (device_write (length xs) xs d)) = None"
proof -
  have m: "get_users 0 80 xs (cd_Message d) = take 80 xs"
    using assms by (simp add: get_users_0 cd_ok_def)
  moreover have "min (length xs) 80 = 80" using assms(2) by simp
  moreover have "0 \<notin> set (take 80 xs)" "take 80 xs ! 0 \<noteq> 0"
    using assms by (auto dest: in_set_takeD simp: set_conv_nth)
  moreover have "device_read_loop (take 80 xs) len 0 ubuf = None"
    using assms by (intro read_loop_no_nul) (auto dest: in_set_takeD)
  ultimately show ?thesis
    using assms(2) by (simp add: device_read_def device_write_def Let_def)
qed

end
