(* ===== verification/Char_Client.thy ===== *)
theory Char_Client
  imports Char_Device
begin

text \<open>
  The program \<open>charexample/ioctl.c\<close>, run against the driver of \<open>Char_Device\<close>: what it prints
  and what it leaves in the device. \<open>Inl\<close>: it exits with status -1, with what it printed. A
  negative result of the driver is -1 for the program.
\<close>

text \<open>The \<open>do\<close> loop of \<open>ioctl_get_nth_byte\<close>; \<open>c\<close> is a \<open>char\<close>, so bytes above 127 are errors.\<close>

function nth_byte_loop :: "chardev \<Rightarrow> nat \<Rightarrow> byte list \<Rightarrow> (byte list + byte list) option" where
  "nth_byte_loop d i out =
     (case device_ioctl IOCTL_GET_NTH_BYTE i [] d of
        None \<Rightarrow> None
      | Some (c, _) \<Rightarrow>
          if c < 0 then Some (Inl (out @ str ''ioctl_get_nth_byte failed at the '' @
            dec (int (Suc i)) @ 39 # str ''th byte:'' @ [10]))
          else
            let out = out @ [word_of_int c]
            in if c \<noteq> 0 then nth_byte_loop d (Suc i) out else Some (Inr out))"
  by pat_completeness auto
termination
  by (relation "measure (\<lambda>(d, i, out). length (cd_Message d) - i)")
    (auto simp: device_ioctl_def split: if_splits)

declare nth_byte_loop.simps [simp del]

definition ioctl_get_nth_byte :: "chardev \<Rightarrow> (byte list + byte list) option" where
  "ioctl_get_nth_byte d =
     map_option (map_sum id (\<lambda>out. out @ [10])) (nth_byte_loop d 0 (str ''get_nth_byte message:''))"

text \<open>\<open>stack\<close>: the bytes of the uninitialised \<open>message[100]\<close>.\<close>

definition ioctl_get_msg :: "byte list \<Rightarrow> chardev \<Rightarrow> (byte list \<times> chardev + byte list \<times> chardev) option" where
  "ioctl_get_msg stack d = do {
     (ret_val, message, d) \<leftarrow> device_ioctl IOCTL_GET_MSG 0 stack d;
     if ret_val < 0 then Some (Inl (str ''ioctl_get_msg failed:-1'' @ [10], d))
     else do {
       m \<leftarrow> cstr message;
       Some (Inr (str ''get_msg message:'' @ m @ [10], d))
     }
   }"

definition ioctl_set_msg :: "byte list \<Rightarrow> chardev \<Rightarrow> (byte list \<times> chardev + chardev) option" where
  "ioctl_set_msg message d = do {
     (ret_val, _, d) \<leftarrow> device_ioctl IOCTL_SET_MSG 0 message d;
     if ret_val < 0 then Some (Inl (str ''ioctl_set_msg failed:-1'' @ [10], d)) else Some (Inr d)
   }"

definition client_msg :: "byte list" where
  "client_msg = str ''Message passed by ioctl'' @ [10]"

text \<open>Whether the end of \<open>main\<close> is reached, the output, the device; leaving closes the file.\<close>

definition client_main :: "byte list \<Rightarrow> chardev \<Rightarrow> (bool \<times> byte list \<times> chardev) option" where
  "client_main stack d =
     (let (fd, d) = device_open d; close = (\<lambda>d. snd (device_release d)) in
      if fd < 0 then Some (False, str ''Can't open device file: char_dev'' @ [10], d)
      else do {
        r \<leftarrow> ioctl_get_nth_byte d;
        case r of
          Inl out \<Rightarrow> Some (False, out, close d)
        | Inr out1 \<Rightarrow> do {
            r \<leftarrow> ioctl_get_msg stack d;
            case r of
              Inl (out, d) \<Rightarrow> Some (False, out1 @ out, close d)
            | Inr (out2, d) \<Rightarrow> do {
                r \<leftarrow> ioctl_set_msg (client_msg @ [0]) d;
                case r of
                  Inl (out, d) \<Rightarrow> Some (False, out1 @ out2 @ out, close d)
                | Inr d \<Rightarrow> Some (True, out1 @ out2, close d)
              }
          }
      })"

section \<open>What it prints\<close>

text \<open>Messages of seven-bit characters.\<close>

definition ascii :: "byte list \<Rightarrow> bool" where
  "ascii s \<longleftrightarrow> (\<forall>b \<in> set s. b \<noteq> 0 \<and> unat b < 128)"

lemma sint_ascii: "unat (b :: byte) < 128 \<Longrightarrow> sint b = int (unat b)"
proof -
  assume "unat b < 128"
  then have "int (unat b) < 128" by linarith
  then have "uint b < 128" by simp
  moreover have "- 128 \<le> uint b" by (rule order_trans [of _ 0]) simp_all
  ultimately show ?thesis
    unfolding sint_uint by (subst signed_take_bit_int_eq_self) simp_all
qed

lemma nth_byte_loop_prints:
  assumes "cd_Message d = pre @ s @ 0 # r" "ascii s"
  shows "nth_byte_loop d (length pre) out = Some (Inr (out @ s @ [0]))"
  using assms
proof (induction s arbitrary: pre out)
  case Nil
  then show ?case
    by (subst nth_byte_loop.simps) (simp add: device_ioctl_def Let_def)
next
  case (Cons c s)
  have c: "c \<noteq> 0" "unat c < 128" using Cons.prems(2) by (simp_all add: ascii_def)
  have s: "sint c = int (unat c)" by (rule sint_ascii [OF c(2)])
  have nz: "uint c \<noteq> 0" using c(1) by (simp add: uint_0_iff)
  have "nth_byte_loop d (length (pre @ [c])) (out @ [c]) = Some (Inr ((out @ [c]) @ s @ [0]))"
    using Cons.prems by (intro Cons.IH) (auto simp: ascii_def)
  moreover have "cd_Message d ! length pre = c" "length pre < length (cd_Message d)"
    using Cons.prems(1) by simp_all
  ultimately show ?case
    using s nz by (subst nth_byte_loop.simps) (simp add: device_ioctl_def Let_def)
qed

text \<open>
  On a closed device with message \<open>s\<close> the program prints \<open>s\<close> twice, once byte by byte with its
  NUL, and leaves its own message.
\<close>

lemma client_main_prints:
  assumes d: "Device_Open d = 0" "cd_ok d" "cd_Message d = s @ 0 # r" and s: "ascii s" "length s \<le> 79"
    and stack: "length stack = 100"
  shows "\<exists>d' r'. client_main stack d = Some (True,
      str ''get_nth_byte message:'' @ s @ [0, 10] @ str ''get_msg message:'' @ s @ [10], d') \<and>
    Device_Open d' = 0 \<and> cd_ok d' \<and> cd_Message d' = client_msg @ 0 # r' \<and>
    module_refs d' = module_refs d"
proof -
  have s0: "0 \<notin> set s" using s(1) by (auto simp: ascii_def)
  let ?d = "d\<lparr>Device_Open := 1, Message_Ptr := Some 0, module_refs := module_refs d + 1\<rparr>"
  have op: "device_open d = (0, ?d)" using d(1) by (simp add: device_open_def)
  have nb: "ioctl_get_nth_byte ?d = Some (Inr (str ''get_nth_byte message:'' @ s @ [0, 10]))"
    using d(3) s(1) nth_byte_loop_prints [of ?d "[]" s r] by (simp add: ioctl_get_nth_byte_def)
  let ?e = "d\<lparr>Device_Open := 1, module_refs := module_refs d + 1, Message_Ptr := Some (length s)\<rparr>"
  have "device_ioctl IOCTL_GET_MSG 0 stack ?d = Some (0, s @ 0 # drop (Suc (length s)) stack, ?e)"
    using device_get_msg [of ?d "[]" s r stack 0] d(3) s0 s(2) stack by simp
  then have gm: "ioctl_get_msg stack ?d = Some (Inr (str ''get_msg message:'' @ s @ [10], ?e))"
    using s0 by (simp add: ioctl_get_msg_def)
  have m: "0 \<notin> set client_msg" "client_msg \<noteq> []" "length client_msg \<le> 79"
    by (simp_all add: client_msg_def str_def)
  have "cd_ok ?e" using d(2) by (simp add: cd_ok_def)
  then have sm: "ioctl_set_msg (client_msg @ [0]) ?e = Some (Inr (?e\<lparr>cd_Message :=
      client_msg @ 0 # drop (Suc (length client_msg)) (cd_Message ?e), Message_Ptr := Some 0\<rparr>))"
    using device_set_msg [OF m, of ?e 0 "[]"] by (simp add: ioctl_set_msg_def)
  show ?thesis
    using d(2) m(3) by (simp add: client_main_def op nb gm sm device_release_def cd_ok_def)
qed

end
