(* ===== verification/Char_Hello.thy ===== *)
theory Char_Hello
  imports Char_Device
begin

text \<open>
  The counting device (\<open>lkm3_char/chardev.c\<close>): every open makes a new message with the number of
  opens before it; \<open>counter\<close> is the function's static variable.
\<close>

record hello =
  h_Device_Open :: int
  h_counter :: int
  h_msg :: "byte list"
  h_ptr :: "nat option"
  h_refs :: int

definition hello_text :: "int \<Rightarrow> byte list" where
  "hello_text n = str ''I already told you '' @ dec n @ str '' times Hello world!'' @ [10]"

text \<open>\<open>sprintf\<close> into the 80 bytes of \<open>msg\<close>.\<close>

definition hello_open :: "hello \<Rightarrow> (int \<times> hello) option" where
  "hello_open d =
     (if h_Device_Open d \<noteq> 0 then Some (- EBUSY, d)
      else do {
        m \<leftarrow> mem_put 0 (hello_text (h_counter d) @ [0]) (h_msg d);
        Some (SUCCESS, d\<lparr>h_Device_Open := h_Device_Open d + 1, h_counter := h_counter d + 1,
          h_msg := m, h_ptr := Some 0, h_refs := h_refs d + 1\<rparr>)
      })"

definition hello_release :: "hello \<Rightarrow> int \<times> hello" where
  "hello_release d = (0, d\<lparr>h_Device_Open := h_Device_Open d - 1, h_refs := h_refs d - 1\<rparr>)"

definition hello_read :: "nat \<Rightarrow> byte list \<Rightarrow> hello \<Rightarrow> (int \<times> byte list \<times> hello) option" where
  "hello_read len ubuf d =
     (case h_ptr d of
        None \<Rightarrow> None
      | Some p \<Rightarrow>
          if length (h_msg d) \<le> p then None
          else if h_msg d ! p = 0 then Some (0, ubuf, d)
          else do {
            (n, ubuf) \<leftarrow> device_read_loop (drop p (h_msg d)) len 0 ubuf;
            Some (int n, ubuf, d\<lparr>h_ptr := Some (p + n)\<rparr>)
          })"

definition hello_write :: "nat \<Rightarrow> byte list \<Rightarrow> hello \<Rightarrow> int \<times> hello" where
  "hello_write len ubuf d = (- EINVAL, d)"

section \<open>Loading\<close>

record hello_mod =
  Major :: int
  majors :: chr_tab

definition char_init :: "int \<Rightarrow> hello_mod \<Rightarrow> int \<times> hello_mod" where
  "char_init ans m =
     (let (major, tab) = register_chrdev 0 ''chardev'' ans (majors m);
          m = m\<lparr>Major := major, majors := tab\<rparr>
      in if Major m < 0 then (Major m, m) else (SUCCESS, m))"

definition char_exit :: "hello_mod \<Rightarrow> hello_mod" where
  "char_exit m = m\<lparr>majors := snd (unregister_chrdev (Major m) (majors m))\<rparr>"

interpretation hello_life: module_life char_init char_exit majors "\<lambda>_. True" "\<lambda>_. True"
  by unfold_locales
    (auto simp: char_init_def char_exit_def register_chrdev_def unregister_chrdev_def Let_def
      split: if_splits)

section \<open>The message\<close>

definition hello_ok :: "hello \<Rightarrow> bool" where
  "hello_ok d \<longleftrightarrow> length (h_msg d) = 80 \<and> 0 \<le> h_counter d \<and> h_counter d < 2 ^ 31 \<and>
     h_refs d = h_Device_Open d \<and> (h_Device_Open d = 0 \<or> h_Device_Open d = 1)"

lemma hello_text_facts:
  assumes "0 \<le> n" "n < 2 ^ 31"
  shows "0 \<notin> set (hello_text n)" "length (hello_text n) \<le> 50" "0 < length (hello_text n)"
proof -
  have "length (digits (nat n)) \<le> 10" using assms by (intro length_digits) simp_all
  then show "length (hello_text n) \<le> 50"
    using assms by (simp add: hello_text_def dec_def str_def)
  show "0 \<notin> set (hello_text n)"
    using assms digits_no_nul by (simp add: hello_text_def dec_def str_def)
  show "0 < length (hello_text n)" by (simp add: hello_text_def)
qed

text \<open>Opening: the text with the count; until the release, every other open is refused.\<close>

lemma hello_open_reads:
  assumes ok: "hello_ok d" "h_Device_Open d = 0" and len: "50 \<le> len" "len \<le> length ubuf"
  defines "t \<equiv> hello_text (h_counter d)"
  shows "\<exists>d' d''. hello_open d = Some (0, d') \<and> h_counter d' = h_counter d + 1 \<and>
    hello_open d' = Some (- EBUSY, d') \<and>
    hello_read len ubuf d' = Some (int (length t), put_bytes 0 t ubuf, d'') \<and>
    hello_read len ubuf d'' = Some (0, ubuf, d'') \<and>
    h_Device_Open (snd (hello_release d'')) = 0"
proof -
  have "0 \<le> h_counter d" "h_counter d < 2 ^ 31" using ok(1) by (simp_all add: hello_ok_def)
  note t = hello_text_facts [OF this, folded t_def]
  let ?m = "t @ 0 # drop (Suc (length t)) (h_msg d)"
  let ?d = "d\<lparr>h_Device_Open := 1, h_counter := h_counter d + 1, h_msg := ?m, h_ptr := Some 0,
    h_refs := h_refs d + 1\<rparr>"
  let ?e = "?d\<lparr>h_ptr := Some (length t)\<rparr>"
  have op: "hello_open d = Some (0, ?d)"
    using ok t(2) by (simp add: hello_open_def hello_ok_def mem_put_def put_bytes_def t_def [symmetric])
  have "?m ! 0 \<noteq> 0" using t(1,3) by (cases t) auto
  then have rd: "hello_read len ubuf ?d = Some (int (length t), put_bytes 0 t ubuf, ?e)"
    using t device_read_loop_eq [OF t(1), of 0 len ubuf "drop (Suc (length t)) (h_msg d)"] len
    by (simp add: hello_read_def)
  have "hello_read len ubuf ?e = Some (0, ubuf, ?e)"
    by (simp add: hello_read_def)
  then show ?thesis
    using op rd by (intro exI [of _ ?d] exI [of _ ?e]) (simp add: hello_open_def hello_release_def)
qed

end
