(* ===== verification/Char_Hello_Log.thy ===== *)
theory Char_Hello_Log
  imports Char_Hello
begin

text \<open>
  The counting device once more (\<open>lkm3_char/chardrv1.c\<close>), with the text it prints: it differs from
  \<open>chardev.c\<close> in a message at the end of each read that gave something, and is shown to do the same.
\<close>

record chardrv = hello +
  c_log :: "byte list"

definition c_print :: "byte list \<Rightarrow> chardrv \<Rightarrow> chardrv" where
  "c_print s d = d\<lparr>c_log := c_log d @ s\<rparr>"

definition chardrv_open :: "chardrv \<Rightarrow> (int \<times> chardrv) option" where
  "chardrv_open d =
     (if h_Device_Open d \<noteq> 0 then Some (- EBUSY, d)
      else do {
        m \<leftarrow> mem_put 0 (hello_text (h_counter d) @ [0]) (h_msg d);
        Some (SUCCESS, d\<lparr>h_Device_Open := h_Device_Open d + 1, h_counter := h_counter d + 1,
          h_msg := m, h_ptr := Some 0, h_refs := h_refs d + 1\<rparr>)
      })"

definition chardrv_release :: "chardrv \<Rightarrow> int \<times> chardrv" where
  "chardrv_release d = (0, d\<lparr>h_Device_Open := h_Device_Open d - 1, h_refs := h_refs d - 1\<rparr>)"

definition chardrv_read :: "nat \<Rightarrow> byte list \<Rightarrow> chardrv \<Rightarrow> (int \<times> byte list \<times> chardrv) option" where
  "chardrv_read len ubuf d =
     (case h_ptr d of
        None \<Rightarrow> None
      | Some p \<Rightarrow>
          if length (h_msg d) \<le> p then None
          else if h_msg d ! p = 0 then Some (0, ubuf, d)
          else do {
            (n, ubuf) \<leftarrow> device_read_loop (drop p (h_msg d)) len 0 ubuf;
            Some (int n, ubuf, c_print (str ''read operation'') (d\<lparr>h_ptr := Some (p + n)\<rparr>))
          })"

definition chardrv_write :: "nat \<Rightarrow> byte list \<Rightarrow> chardrv \<Rightarrow> int \<times> chardrv" where
  "chardrv_write len ubuf d =
     (- EINVAL, c_print (str ''Sorry, this operation isn'' @ 39 # str ''t supported.'' @ [10]) d)"

section \<open>Loading\<close>

definition chardrv_failed :: "int \<Rightarrow> byte list" where
  "chardrv_failed m = str ''Registering char device failed with '' @ dec m @ [10]"

definition chardrv_greeting :: "int \<Rightarrow> byte list" where
  "chardrv_greeting m =
     str ''I was assigned major number '' @ dec m @ str ''. To talk to'' @ [10] @
     str ''the driver, create a dev file with'' @ [10] @
     39 # str ''mknod /dev/chardev c '' @ dec m @ str '' 0'' @ 39 # str ''.'' @ [10] @
     str ''Try various minor numbers. Try to cat and echo to'' @ [10] @
     str ''the device file.'' @ [10] @
     str ''Remove the device file and module when done.'' @ [10]"

text \<open>The result and the text printed.\<close>

definition chardrv_init :: "int \<Rightarrow> hello_mod \<Rightarrow> (int \<times> byte list) \<times> hello_mod" where
  "chardrv_init ans m =
     (let (major, tab) = register_chrdev 0 ''chardev'' ans (majors m);
          m = m\<lparr>Major := major, majors := tab\<rparr>
      in if Major m < 0 then ((Major m, chardrv_failed (Major m)), m)
         else ((SUCCESS, chardrv_greeting (Major m)), m))"

definition chardrv_exit :: "hello_mod \<Rightarrow> hello_mod" where
  "chardrv_exit m = m\<lparr>majors := snd (unregister_chrdev (Major m) (majors m))\<rparr>"

interpretation chardrv_life: module_life "\<lambda>ans m. let ((r, s), m) = chardrv_init ans m in (r, m)"
  chardrv_exit majors "\<lambda>_. True" "\<lambda>_. True"
  by unfold_locales
    (auto simp: chardrv_init_def chardrv_exit_def register_chrdev_def unregister_chrdev_def Let_def
      split: if_splits)

section \<open>The same device\<close>

lemma truncate_simps [simp]:
  "h_Device_Open (hello.truncate d) = h_Device_Open d" "h_counter (hello.truncate d) = h_counter d"
  "h_msg (hello.truncate d) = h_msg d" "h_ptr (hello.truncate d) = h_ptr d" "h_refs (hello.truncate d) = h_refs d"
  "hello.truncate (c_print s d) = hello.truncate d"
  "hello.truncate (d\<lparr>h_ptr := p\<rparr>) = (hello.truncate d)\<lparr>h_ptr := p\<rparr>"
  by (simp_all add: hello.truncate_def c_print_def)

lemma chardrv_same:
  "hello_open (hello.truncate d) = map_option (\<lambda>(r, d). (r, hello.truncate d)) (chardrv_open d)"
  "hello_release (hello.truncate d) = (\<lambda>(r, d). (r, hello.truncate d)) (chardrv_release d)"
  "hello_read len ubuf (hello.truncate d) =
     map_option (\<lambda>(r, ubuf, d). (r, ubuf, hello.truncate d)) (chardrv_read len ubuf d)"
  "hello_write len ubuf (hello.truncate d) = (\<lambda>(r, d). (r, hello.truncate d)) (chardrv_write len ubuf d)"
  "char_init ans m = (\<lambda>((r, s), m). (r, m)) (chardrv_init ans m)" "char_exit m = chardrv_exit m"
proof -
  show "hello_open (hello.truncate d) = map_option (\<lambda>(r, d). (r, hello.truncate d)) (chardrv_open d)"
    unfolding hello_open_def chardrv_open_def
    by (auto simp: hello.truncate_def mem_put_def split: Option.bind_split)
  show "hello_release (hello.truncate d) = (\<lambda>(r, d). (r, hello.truncate d)) (chardrv_release d)"
    by (simp add: hello_release_def chardrv_release_def hello.truncate_def)
  show "hello_read len ubuf (hello.truncate d) =
     map_option (\<lambda>(r, ubuf, d). (r, ubuf, hello.truncate d)) (chardrv_read len ubuf d)"
    by (auto simp: hello_read_def chardrv_read_def split: option.split Option.bind_split)
  show "hello_write len ubuf (hello.truncate d) = (\<lambda>(r, d). (r, hello.truncate d)) (chardrv_write len ubuf d)"
    by (simp add: hello_write_def chardrv_write_def)
  show "char_init ans m = (\<lambda>((r, s), m). (r, m)) (chardrv_init ans m)" "char_exit m = chardrv_exit m"
    by (auto simp: char_init_def chardrv_init_def char_exit_def chardrv_exit_def Let_def split: prod.split)
qed

text \<open>A read is reported unless the message was at its end.\<close>

lemma chardrv_read_log:
  assumes "chardrv_read len ubuf d = Some (r, ubuf', d')" "h_ptr d = Some p"
  shows "c_log d' = c_log d @ (if h_msg d ! p = 0 then [] else str ''read operation'')"
  using assms by (auto simp: chardrv_read_def c_print_def split: if_splits Option.bind_splits)

end
