(* ===== verification/Char_Regions.thy ===== *)
theory Char_Regions
  imports Kernel_Services
begin

text \<open>
  Three drivers on character-device regions: the null driver (\<open>lfy2_ocd_ex/ocd.c\<close>), the video-RAM
  driver (\<open>lfy3_video_ra/vdrv.c\<close>) and the driver behind \<open>ioctl\<close> queries
  (\<open>lfy4_ioctl/query_ioctl.c\<close>). Their init functions acquire a region, a class, a device and a
  character device in turn and give back what they have when a step fails.
\<close>

section \<open>The null driver\<close>

definition ocd_read :: "nat \<Rightarrow> int" where "ocd_read len = 0"

definition ocd_write :: "nat \<Rightarrow> int" where "ocd_write len = int len"

text \<open>The pointers are compared with NULL and \<open>cdev_add\<close> with -1, as the code does.\<close>

definition ofcd_init :: "kanswers \<Rightarrow> kres set \<Rightarrow> int \<times> kres set" where
  "ofcd_init k h =
     (if a_region k < 0 then (-1, h)
      else
        let h = insert K_region h in
        if a_class k = P_null then (-1, h - {K_region})
        else
          let h = got (a_class k = P_valid) K_class h in
          if a_device k = P_null then (-1, h - {K_class} - {K_region})
          else
            let h = got (a_device k = P_valid) K_device h in
            if a_cdev k = -1 then (-1, h - {K_device} - {K_class} - {K_region})
            else (0, got (a_cdev k = 0) K_cdev h))"

definition ofcd_exit :: "kres set \<Rightarrow> kres set" where
  "ofcd_exit h = h - {K_cdev} - {K_device} - {K_class} - {K_region}"

text \<open>The answers the tests are written for.\<close>

definition null_answers :: "kanswers \<Rightarrow> bool" where
  "null_answers k \<longleftrightarrow> (a_class k = P_valid \<or> a_class k = P_null) \<and>
     (a_device k = P_valid \<or> a_device k = P_null) \<and> (a_cdev k = 0 \<or> a_cdev k = -1)"

definition ofcd_res :: "kres set" where "ofcd_res = {K_region, K_class, K_device, K_cdev}"

interpretation ofcd: module_life ofcd_init ofcd_exit id "\<lambda>h. h \<inter> ofcd_res = {}" null_answers
proof unfold_locales
  fix k h r h'
  assume f: "id h \<inter> ofcd_res = {}" and i: "ofcd_init k h = (r, h')" and k: "null_answers k"
  have n: "K_region \<notin> h" "K_class \<notin> h" "K_device \<notin> h" "K_cdev \<notin> h"
    using f by (auto simp: ofcd_res_def)
  show "r < 0 \<Longrightarrow> id h' = id h"
    using i n k by (auto simp: ofcd_init_def got_def Let_def null_answers_def split: if_splits)
  show "\<not> r < 0 \<Longrightarrow> id (ofcd_exit h') = id h"
    using i n k
    by (auto simp: ofcd_init_def ofcd_exit_def got_def Let_def null_answers_def split: if_splits)
qed

text \<open>The error values the kernel does return are taken for success.\<close>

lemma ofcd_init_undetected:
  assumes "0 \<le> a_region k" "a_class k = P_err e" "a_device k = P_err e'" "a_cdev k < -1"
  shows "ofcd_init k {} = (0, {K_region})"
  using assms by (auto simp: ofcd_init_def got_def)

section \<open>Video RAM\<close>

definition VRAM_SIZE :: u64 where "VRAM_SIZE = 0x20000"

text \<open>
  The loop of \<open>my_read\<close> from byte \<open>i\<close> on, \<open>n\<close> bytes left: false when a copy fails. \<open>off\<close> is
  the file position; an access outside the mapping has no result.
\<close>

fun vram_read_loop ::
  "byte list \<Rightarrow> nat \<Rightarrow> nat \<Rightarrow> nat \<Rightarrow> byte list \<Rightarrow> (bool \<times> byte list) option" where
  "vram_read_loop vram off i 0 ubuf = Some (True, ubuf)"
| "vram_read_loop vram off i (Suc n) ubuf =
     (if off + i < length vram then
        let (left, ubuf) = copy_to_user i [vram ! (off + i)] ubuf
        in if left \<noteq> 0 then Some (False, ubuf) else vram_read_loop vram off (Suc i) n ubuf
      else None)"

fun vram_write_loop ::
  "byte list \<Rightarrow> nat \<Rightarrow> nat \<Rightarrow> nat \<Rightarrow> byte list \<Rightarrow> (bool \<times> byte list) option" where
  "vram_write_loop ubuf off i 0 vram = Some (True, vram)"
| "vram_write_loop ubuf off i (Suc n) vram =
     (let (left, byte) = copy_from_user i 1 ubuf
      in if left \<noteq> 0 then Some (False, vram)
         else if off + i < length vram
              then vram_write_loop ubuf off (Suc i) n (vram[off + i := byte ! 0])
              else None)"

text \<open>\<open>*off + len\<close> is an unsigned 64-bit sum. Result, position, and the memory written.\<close>

definition vram_clip :: "u64 \<Rightarrow> u64 \<Rightarrow> u64" where
  "vram_clip off len = (if off + len > VRAM_SIZE then VRAM_SIZE - off else len)"

definition vram_read ::
  "byte list \<Rightarrow> u64 \<Rightarrow> u64 \<Rightarrow> byte list \<Rightarrow> (int \<times> u64 \<times> byte list) option" where
  "vram_read vram off len ubuf =
     (if off \<ge> VRAM_SIZE then Some (0, off, ubuf)
      else
        let len = vram_clip off len in do {
          (ok, ubuf) \<leftarrow> vram_read_loop vram (unat off) 0 (unat len) ubuf;
          Some (if ok then (int (unat len), off + len, ubuf) else (- EFAULT, off, ubuf))
        })"

definition vram_write ::
  "byte list \<Rightarrow> u64 \<Rightarrow> u64 \<Rightarrow> byte list \<Rightarrow> (int \<times> u64 \<times> byte list) option" where
  "vram_write ubuf off len vram =
     (if off \<ge> VRAM_SIZE then Some (0, off, vram)
      else
        let len = vram_clip off len in do {
          (ok, vram) \<leftarrow> vram_write_loop ubuf (unat off) 0 (unat len) vram;
          Some (if ok then (int (unat len), off + len, vram) else (- EFAULT, off, vram))
        })"

definition vram_init :: "kanswers \<Rightarrow> kres set \<Rightarrow> int \<times> kres set" where
  "vram_init k h =
     (if \<not> a_map k then (-1, h)
      else
        let h = insert K_map h in
        if a_region k < 0 then (-1, h)
        else
          let h = insert K_region h in
          if a_class k = P_null then (-1, h - {K_region})
          else
            let h = got (a_class k = P_valid) K_class h in
            if a_device k = P_null then (-1, h - {K_class} - {K_region})
            else
              let h = got (a_device k = P_valid) K_device h in
              if a_cdev k = -1 then (-1, h - {K_device} - {K_class} - {K_region})
              else (0, got (a_cdev k = 0) K_cdev h))"

definition vram_exit :: "kres set \<Rightarrow> kres set" where
  "vram_exit h = h - {K_cdev} - {K_device} - {K_class} - {K_region} - {K_map}"

text \<open>The bytes transferred.\<close>

lemma unat_vram_clip:
  assumes "off < VRAM_SIZE" "unat len < 2 ^ 63"
  shows "unat (vram_clip off len) = min (unat len) (0x20000 - unat off)"
proof -
  have o: "unat off < 0x20000" using assms(1) by (simp add: word_less_nat_alt VRAM_SIZE_def)
  have "unat (off + len) = unat off + unat len"
    using o assms(2) by (subst unat_add_lem [THEN iffD1]) simp_all
  moreover have "unat (VRAM_SIZE - off) = 0x20000 - unat off"
    using assms(1) by (simp add: unat_sub VRAM_SIZE_def word_less_nat_alt word_le_nat_alt)
  ultimately show ?thesis
    using o by (auto simp: vram_clip_def word_less_nat_alt VRAM_SIZE_def)
qed

lemma vram_read_loop_eq:
  "off + i + n \<le> length vram \<Longrightarrow> i + n \<le> length ubuf \<Longrightarrow>
   vram_read_loop vram off i n ubuf = Some (True, put_bytes i (get_bytes (off + i) n vram) ubuf)"
proof (induction n arbitrary: i ubuf)
  case 0
  then show ?case by (simp add: get_bytes_def put_bytes_def)
next
  case (Suc n)
  have "get_bytes (off + i) (Suc n) vram = vram ! (off + i) # get_bytes (Suc (off + i)) n vram"
    using Suc.prems by (simp add: get_bytes_def Cons_nth_drop_Suc [symmetric])
  moreover have "put_bytes i [x] ubuf = ubuf[i := x]" for x
    using Suc.prems by (simp add: put_bytes_def list_update_take_drop)
  ultimately show ?case
    using Suc by (simp add: put_bytes_Cons)
qed

lemma vram_write_loop_eq:
  "off + i + n \<le> length vram \<Longrightarrow> i + n \<le> length ubuf \<Longrightarrow>
   vram_write_loop ubuf off i n vram = Some (True, put_bytes (off + i) (get_bytes i n ubuf) vram)"
proof (induction n arbitrary: i vram)
  case 0
  then show ?case by (simp add: get_bytes_def put_bytes_def)
next
  case (Suc n)
  have "get_bytes i (Suc n) ubuf = ubuf ! i # get_bytes (Suc i) n ubuf"
    using Suc.prems by (simp add: get_bytes_def Cons_nth_drop_Suc [symmetric])
  moreover have "get_bytes i (Suc 0) ubuf ! 0 = ubuf ! i"
    using Suc.prems by (simp add: get_bytes_def)
  ultimately show ?case
    using Suc by (simp add: put_bytes_Cons)
qed

definition vram_bytes :: "u64 \<Rightarrow> u64 \<Rightarrow> nat" where
  "vram_bytes off len = min (unat len) (0x20000 - unat off)"

lemma vram_read_eq:
  assumes v: "length vram = 0x20000" and off: "off < VRAM_SIZE" and len: "unat len < 2 ^ 63"
    and u: "vram_bytes off len \<le> length ubuf"
  shows "vram_read vram off len ubuf = Some (int (vram_bytes off len), off + vram_clip off len,
    put_bytes 0 (get_bytes (unat off) (vram_bytes off len) vram) ubuf)"
proof -
  have o: "unat off < 0x20000" using off by (simp add: word_less_nat_alt VRAM_SIZE_def)
  note c = unat_vram_clip [OF off len, folded vram_bytes_def]
  have "unat off + vram_bytes off len \<le> length vram" using o v by (simp add: vram_bytes_def)
  then show ?thesis
    using off u by (simp add: vram_read_def vram_read_loop_eq c flip: linorder_not_less)
qed

lemma vram_write_eq:
  assumes v: "length vram = 0x20000" and off: "off < VRAM_SIZE" and len: "unat len < 2 ^ 63"
    and u: "vram_bytes off len \<le> length ubuf"
  shows "vram_write ubuf off len vram = Some (int (vram_bytes off len), off + vram_clip off len,
    put_bytes (unat off) (take (vram_bytes off len) ubuf) vram)"
proof -
  have o: "unat off < 0x20000" using off by (simp add: word_less_nat_alt VRAM_SIZE_def)
  note c = unat_vram_clip [OF off len, folded vram_bytes_def]
  have "unat off + vram_bytes off len \<le> length vram" using o v by (simp add: vram_bytes_def)
  then show ?thesis
    using off u by (simp add: vram_write_def vram_write_loop_eq c get_bytes_def flip: linorder_not_less)
qed

text \<open>When the region cannot be had, the mapping stays.\<close>

lemma vram_init_leaks:
  "a_map k \<Longrightarrow> fst (vram_init k {}) < 0 \<Longrightarrow> null_answers k \<Longrightarrow> snd (vram_init k {}) = {K_map}"
  by (auto simp: vram_init_def got_def Let_def null_answers_def split: if_splits)

section \<open>Query variables\<close>

text \<open>Three \<open>int\<close> variables, and their image in \<open>query_arg_t\<close>.\<close>

record query =
  status :: u32
  dignity :: u32
  ego :: u32

datatype query_cmd = QUERY_GET_VARIABLES | QUERY_CLR_VARIABLES | QUERY_SET_VARIABLES | Query_Other

definition encode_query :: "query \<Rightarrow> byte list" where
  "encode_query q = le32s [status q, dignity q, ego q]"

definition decode_query :: "byte list \<Rightarrow> query" where
  "decode_query bs =
     (let ws = un_le32s 3 bs in \<lparr>status = ws ! 0, dignity = ws ! 1, ego = ws ! 2\<rparr>)"

definition query_start :: query where
  "query_start = \<lparr>status = 1, dignity = 3, ego = 5\<rparr>"

definition query_ioctl :: "query_cmd \<Rightarrow> byte list \<Rightarrow> query \<Rightarrow> int \<times> byte list \<times> query" where
  "query_ioctl cmd ubuf q =
     (case cmd of
        QUERY_GET_VARIABLES \<Rightarrow>
          let (left, ubuf) = copy_to_user 0 (encode_query q) ubuf
          in if left \<noteq> 0 then (- EACCES, ubuf, q) else (0, ubuf, q)
      | QUERY_CLR_VARIABLES \<Rightarrow> (0, ubuf, \<lparr>status = 0, dignity = 0, ego = 0\<rparr>)
      | QUERY_SET_VARIABLES \<Rightarrow>
          let (left, bs) = copy_from_user 0 12 ubuf
          in if left \<noteq> 0 then (- EACCES, ubuf, q) else (0, ubuf, decode_query bs)
      | Query_Other \<Rightarrow> (- EINVAL, ubuf, q))"

definition query_ioctl_init :: "kanswers \<Rightarrow> kres set \<Rightarrow> int \<times> kres set" where
  "query_ioctl_init k h =
     (if a_region k < 0 then (a_region k, h)
      else
        let h = insert K_region h in
        if a_cdev k < 0 then (a_cdev k, h)
        else
          let h = insert K_cdev h in
          if IS_ERR (a_class k) then (PTR_ERR (a_class k), h - {K_cdev} - {K_region})
          else
            let h = insert K_class h in
            if IS_ERR (a_device k)
            then (PTR_ERR (a_device k), h - {K_class} - {K_cdev} - {K_region})
            else (0, insert K_device h))"

definition query_ioctl_exit :: "kres set \<Rightarrow> kres set" where
  "query_ioctl_exit h = h - {K_device} - {K_class} - {K_cdev} - {K_region}"

text \<open>A negative error in the pointer, and a \<open>cdev_add\<close> that does not fail.\<close>

definition query_answers :: "kanswers \<Rightarrow> bool" where
  "query_answers k \<longleftrightarrow> 0 \<le> a_cdev k \<and> (\<forall>e. a_class k = P_err e \<longrightarrow> 0 < e) \<and>
     (\<forall>e. a_device k = P_err e \<longrightarrow> 0 < e)"

interpretation query_life: module_life query_ioctl_init query_ioctl_exit id
  "\<lambda>h. h \<inter> ofcd_res = {}" query_answers
proof unfold_locales
  fix k h r h'
  assume f: "id h \<inter> ofcd_res = {}" and i: "query_ioctl_init k h = (r, h')" and k: "query_answers k"
  have n: "K_region \<notin> h" "K_class \<notin> h" "K_device \<notin> h" "K_cdev \<notin> h"
    using f by (auto simp: ofcd_res_def)
  show "r < 0 \<Longrightarrow> id h' = id h"
    using i n k by (auto simp: query_ioctl_init_def Let_def query_answers_def split: if_splits)
  show "\<not> r < 0 \<Longrightarrow> id (query_ioctl_exit h') = id h"
  proof -
    assume r: "\<not> r < 0"
    have "\<not> IS_ERR (a_class k)" "\<not> IS_ERR (a_device k)"
      using i k r by (cases "a_class k"; cases "a_device k";
          auto simp: query_ioctl_init_def query_answers_def Let_def split: if_splits)+
    then show ?thesis
      using i n k r by (auto simp: query_ioctl_init_def query_ioctl_exit_def Let_def
          query_answers_def split: if_splits)
  qed
qed

lemma query_cdev_leaks:
  "0 \<le> a_region k \<Longrightarrow> a_cdev k < 0 \<Longrightarrow> query_ioctl_init k {} = (a_cdev k, {K_region})"
  by (simp add: query_ioctl_init_def)

lemma decode_encode_query [simp]: "decode_query (encode_query q) = q"
  using un_le32s_le32s [of 3 "[status q, dignity q, ego q]" "[]"]
  by (simp add: decode_query_def encode_query_def Let_def)

lemma length_encode_query [simp]: "length (encode_query q) = 12"
  by (simp add: encode_query_def)

lemma query_set: "query_ioctl QUERY_SET_VARIABLES (encode_query v) q = (0, encode_query v, v)"
  using get_bytes_all [of "encode_query v"] by (simp add: query_ioctl_def)

lemma query_get: "length ubuf = 12 \<Longrightarrow> query_ioctl QUERY_GET_VARIABLES ubuf q = (0, encode_query q, q)"
  by (simp add: query_ioctl_def put_bytes_def)

lemma query_fault:
  "length ubuf < 12 \<Longrightarrow> fst (query_ioctl QUERY_GET_VARIABLES ubuf q) = - EACCES"
  "length ubuf < 12 \<Longrightarrow> query_ioctl QUERY_SET_VARIABLES ubuf q = (- EACCES, ubuf, q)"
  by (simp_all add: query_ioctl_def copy_to_user_def copy_from_user_def Let_def)

end
