(* ===== verification/Query_App.thy ===== *)
theory Query_App
  imports Char_Regions
begin

text \<open>
  The program \<open>lfy4_ioctl/query_app.c\<close>, run against the driver of \<open>Char_Regions\<close>: its output,
  its exit status and the driver's variables. Standard input is a list of characters.
\<close>

section \<open>Reading a number\<close>

definition is_space :: "byte \<Rightarrow> bool" where
  "is_space b \<longleftrightarrow> b = 32 \<or> (9 \<le> b \<and> b \<le> 13)"

definition is_digit :: "byte \<Rightarrow> bool" where
  "is_digit b \<longleftrightarrow> 48 \<le> b \<and> b \<le> 57"

fun digits_value :: "nat \<Rightarrow> byte list \<Rightarrow> nat" where
  "digits_value n [] = n"
| "digits_value n (b # bs) = digits_value (10 * n + (unat b - 48)) bs"

text \<open>
  \<open>scanf("%d", &v)\<close>: blanks, a sign, digits. Without digits \<open>v\<close> keeps its value, \<open>v0\<close>, and
  the first character that does not fit stays in the input.
\<close>

definition scan_int :: "u32 \<Rightarrow> byte list \<Rightarrow> u32 \<times> byte list" where
  "scan_int v0 inp =
     (let s = dropWhile is_space inp;
          neg = (s \<noteq> [] \<and> hd s = 45);
          t = (if s \<noteq> [] \<and> (hd s = 45 \<or> hd s = 43) then tl s else s);
          ds = takeWhile is_digit t; rest = dropWhile is_digit t;
          n = int (digits_value 0 ds)
      in if ds = [] then (v0, t) else (word_of_int (if neg then - n else n), rest))"

text \<open>\<open>getchar()\<close>.\<close>

definition skip_char :: "byte list \<Rightarrow> byte list" where
  "skip_char inp = drop 1 inp"

section \<open>The program\<close>

text \<open>\<open>%d\<close> of an \<open>int\<close>.\<close>

definition dec_word :: "u32 \<Rightarrow> byte list" where
  "dec_word w = dec (sint w)"

definition vars_text :: "query \<Rightarrow> byte list" where
  "vars_text q = str ''Status : '' @ dec_word (status q) @ [10] @
     str ''Dignity: '' @ dec_word (dignity q) @ [10] @ str ''Ego    : '' @ dec_word (ego q) @ [10]"

text \<open>
  \<open>stack\<close>: the bytes of the uninitialised \<open>q\<close>. The driver's \<open>-1\<close> is any negative result. Of a
  \<open>perror\<close> message only the prefix is kept, not the text of the C library for \<open>errno\<close>.
\<close>

definition get_vars :: "byte list \<Rightarrow> query \<Rightarrow> byte list \<times> query" where
  "get_vars stack q =
     (let (r, bs, q) = query_ioctl QUERY_GET_VARIABLES stack q
      in if r < 0 then (str ''query_apps ioctl get'', q) else (vars_text (decode_query bs), q))"

definition clr_vars :: "query \<Rightarrow> byte list \<times> query" where
  "clr_vars q =
     (let (r, _, q) = query_ioctl QUERY_CLR_VARIABLES [] q
      in if r < 0 then (str ''query_apps ioctl clr'', q) else ([], q))"

definition set_vars :: "u32 \<Rightarrow> byte list \<Rightarrow> query \<Rightarrow> byte list \<times> byte list \<times> query" where
  "set_vars v inp q =
     (let (v1, inp) = scan_int v inp; inp = skip_char inp;
          (v2, inp) = scan_int v1 inp; inp = skip_char inp;
          (v3, inp) = scan_int v2 inp; inp = skip_char inp;
          (r, _, q) = query_ioctl QUERY_SET_VARIABLES
             (encode_query \<lparr>status = v1, dignity = v2, ego = v3\<rparr>) q;
          out = str ''Enter Status: Enter Dignity: Enter Ego: ''
      in (if r < 0 then out @ str ''query_apps ioctl set'' else out, inp, q))"

datatype option_arg = e_get | e_clr | e_set

definition app_option :: "byte list list \<Rightarrow> option_arg option" where
  "app_option argv =
     (if length argv = 1 then Some e_get
      else if length argv = 2 then
        if argv ! 1 = str ''-g'' then Some e_get
        else if argv ! 1 = str ''-c'' then Some e_clr
        else if argv ! 1 = str ''-s'' then Some e_set
        else None
      else None)"

definition query_main ::
  "byte list list \<Rightarrow> bool \<Rightarrow> byte list \<Rightarrow> u32 \<Rightarrow> byte list \<Rightarrow> query \<Rightarrow> int \<times> byte list \<times> query" where
  "query_main argv open_ok stack v inp q =
     (case app_option argv of
        None \<Rightarrow> (1, str ''Usage: '' @ argv ! 0 @ str '' [-g | -c | -s]'' @ [10], q)
      | Some opt \<Rightarrow>
          if \<not> open_ok then (2, str ''query_apps open'', q)
          else (case opt of
            e_get \<Rightarrow> let (out, q) = get_vars stack q in (0, out, q)
          | e_clr \<Rightarrow> let (out, q) = clr_vars q in (0, out, q)
          | e_set \<Rightarrow> let (out, _, q) = set_vars v inp q in (0, out, q)))"

section \<open>Setting and getting\<close>

text \<open>A number printed by \<open>%d\<close> and a newline is read back.\<close>

lemma digit_byte:
  assumes "k < 10"
  shows "is_digit (48 + of_nat k)" "unat (48 + of_nat k :: byte) - 48 = k"
proof -
  have "(48 + of_nat k :: byte) = of_nat (48 + k)" by simp
  then have u: "unat (48 + of_nat k :: byte) = 48 + k"
    using assms by (simp add: unat_of_nat del: of_nat_add)
  then show "unat (48 + of_nat k :: byte) - 48 = k" by simp
  show "is_digit (48 + of_nat k)"
    using u assms by (simp add: is_digit_def word_le_nat_alt)
qed

lemma digits_value_append: "digits_value n (xs @ ys) = digits_value (digits_value n xs) ys"
  by (induction xs arbitrary: n) auto

lemma digits_facts: "(\<forall>b \<in> set (digits n). is_digit b) \<and> digits n \<noteq> [] \<and> digits_value 0 (digits n) = n"
proof (induction n rule: digits.induct)
  case (1 n)
  show ?case
  proof (cases "n < 10")
    case True
    then show ?thesis using digit_byte [OF True] by (subst (1 2 3) digits.simps) simp
  next
    case False
    have "n mod 10 < 10" by simp
    note d = digit_byte [OF this]
    show ?thesis
      using 1 [OF False] False d by (subst (1 2 3) digits.simps) (auto simp: digits_value_append)
  qed
qed

lemma digit_not_space: "is_digit b \<Longrightarrow> \<not> is_space b \<and> b \<noteq> 45 \<and> b \<noteq> 43"
  by (auto simp: is_digit_def is_space_def word_le_nat_alt)

lemma scan_int_dec: "scan_int v (dec_word w @ 10 # r) = (w, 10 # r)"
proof -
  have nl: "\<not> is_digit 10" by (simp add: is_digit_def)
  have sp: "takeWhile is_digit (digits n @ 10 # r) = digits n"
    "dropWhile is_digit (digits n @ 10 # r) = 10 # r" for n
    using digits_facts [of n] nl by simp_all
  show ?thesis
  proof (cases "sint w < 0")
    case True
    have "\<not> is_space 45" by (simp add: is_space_def word_le_nat_alt)
    then show ?thesis
      using True sp digits_facts [of "nat (- sint w)"]
      by (simp add: scan_int_def dec_word_def dec_def Let_def)
  next
    case False
    obtain d ds where d: "digits (nat (sint w)) = d # ds" "is_digit d"
      using digits_facts [of "nat (sint w)"] by (cases "digits (nat (sint w))") auto
    then have "\<not> is_space d" "d \<noteq> 45" "d \<noteq> 43" using digit_not_space by auto
    then show ?thesis
      using False d sp [of "nat (sint w)"] digits_facts [of "nat (sint w)"]
      by (simp add: scan_int_def dec_word_def dec_def Let_def)
  qed
qed

text \<open>What \<open>-s\<close> is given, \<open>-g\<close> prints.\<close>

lemma query_set_get:
  assumes inp: "inp = dec_word (status n) @ [10] @ dec_word (dignity n) @ [10] @ dec_word (ego n) @ [10]"
    and stack: "length stack = 12"
  shows "query_main [a, str ''-s''] True s' v inp q = (0, str ''Enter Status: Enter Dignity: Enter Ego: '', n)"
    and "query_main [a, str ''-g''] True stack v inp' n = (0, vars_text n, n)"
    and "query_main [a, str ''-c''] True s' v inp' q = (0, [], \<lparr>status = 0, dignity = 0, ego = 0\<rparr>)"
proof -
  have ne: "str ''-s'' \<noteq> str ''-g''" "str ''-s'' \<noteq> str ''-c''" "str ''-c'' \<noteq> str ''-g''"
    by (simp_all add: str_def)
  have n: "\<lparr>status = status n, dignity = dignity n, ego = ego n\<rparr> = n" by simp
  show "query_main [a, str ''-s''] True s' v inp q = (0, str ''Enter Status: Enter Dignity: Enter Ego: '', n)"
    using ne by (simp add: query_main_def app_option_def inp set_vars_def scan_int_dec skip_char_def
        query_set n Let_def)
  show "query_main [a, str ''-g''] True stack v inp' n = (0, vars_text n, n)"
    using stack by (simp add: query_main_def app_option_def get_vars_def query_get)
  show "query_main [a, str ''-c''] True s' v inp' q = (0, [], \<lparr>status = 0, dignity = 0, ego = 0\<rparr>)"
    using ne by (simp add: query_main_def app_option_def clr_vars_def query_ioctl_def)
qed

end
