(* ===== verification/Parallel_Port.thy ===== *)
theory Parallel_Port
  imports Kernel_Services
begin

unbundle bit_operations_syntax

text \<open>
  The parallel-port drivers \<open>mod4/module4.c\<close> (bytes written and read back) and
  \<open>mod5/module5_fops.c\<close>, \<open>mod5/module5_init.c\<close> (an LED driven by \<open>ioctl\<close>), with the programs
  \<open>mod4_test.c\<close> and \<open>t.c\<close>. What \<open>outb\<close> sends to the port is recorded in order.
\<close>

record pport =
  flagopen :: int
  lastbytewritten :: byte
  port_out :: "byte list"

definition outb :: "byte \<Rightarrow> pport \<Rightarrow> pport" where
  "outb b p = p\<lparr>port_out := port_out p @ [b]\<rparr>"

section \<open>module4\<close>

definition module4_open :: "pport \<Rightarrow> int \<times> pport" where
  "module4_open p =
     (if flagopen p \<noteq> 0 then (- EBUSY, p)
      else (0, p\<lparr>flagopen := flagopen p + 1, lastbytewritten := 0\<rparr>))"

text \<open>One byte is copied whatever \<open>len\<close> is, and 1 returned whatever the copy did.\<close>

definition module4_read :: "nat \<Rightarrow> byte list \<Rightarrow> pport \<Rightarrow> int \<times> byte list" where
  "module4_read len ubuf p = (1, snd (copy_to_user 0 [lastbytewritten p] ubuf))"

text \<open>
  The last byte of the buffer, \<open>buffer + len - 1\<close>; for an empty one the byte in front of it,
  \<open>before\<close>. A failing copy clears \<open>ch\<close>.
\<close>

definition module4_write :: "byte \<Rightarrow> nat \<Rightarrow> byte list \<Rightarrow> pport \<Rightarrow> int \<times> pport" where
  "module4_write before len ubuf p =
     (let ch = (if len = 0 then before else snd (copy_from_user (len - 1) 1 ubuf) ! 0)
      in (1, (outb ch p)\<lparr>lastbytewritten := ch\<rparr>))"

definition module4_release :: "pport \<Rightarrow> int \<times> pport" where
  "module4_release p = (0, p\<lparr>flagopen := flagopen p - 1\<rparr>)"

text \<open>\<open>held\<close> and the pointer \<open>module4_region\<close>, NULL or not.\<close>

record port_mod =
  pm_held :: "kres set"
  pm_region :: bool

definition initialize_module4 :: "kanswers \<Rightarrow> port_mod \<Rightarrow> int \<times> port_mod" where
  "initialize_module4 k m =
     (if a_region k < 0 then (a_region k, m)
      else
        let m = m\<lparr>pm_held := insert K_region (pm_held m)\<rparr> in
        if a_cdev k \<noteq> 0 then (a_cdev k, m\<lparr>pm_held := pm_held m - {K_region}\<rparr>)
        else
          let m = m\<lparr>pm_held := insert K_cdev (pm_held m)\<rparr>
          in (0, m\<lparr>pm_held := got (a_io_region k) K_io_region (pm_held m),
                   pm_region := a_io_region k\<rparr>))"

definition cleanup_module4 :: "port_mod \<Rightarrow> port_mod" where
  "cleanup_module4 m =
     (let h = (if pm_region m then pm_held m - {K_io_region} else pm_held m)
      in m\<lparr>pm_held := h - {K_cdev} - {K_region}\<rparr>)"

definition port_res :: "kres set" where "port_res = {K_region, K_cdev, K_io_region}"

interpretation module4: module_life initialize_module4 cleanup_module4 pm_held
  "\<lambda>h. h \<inter> port_res = {}" "\<lambda>k. a_cdev k \<le> 0"
  by unfold_locales
    (auto simp: initialize_module4_def cleanup_module4_def port_res_def got_def Let_def
      split: if_splits)

section \<open>The test program of module4\<close>

text \<open>
  \<open>mod4_test.c\<close>: the pairs it prints. \<open>val\<close> starts with what is on the stack. The result is the
  exit status; the handle is closed at the end.
\<close>

fun mod4_test_loop :: "nat list \<Rightarrow> byte \<Rightarrow> pport \<Rightarrow> (byte \<times> byte) list \<times> pport" where
  "mod4_test_loop [] val p = ([], p)"
| "mod4_test_loop (x # xs) val p =
     (let ch = of_nat x;
          (_, p) = module4_write 0 1 [ch] p;
          (_, mem) = module4_read 1 [val] p;
          (out, p) = mod4_test_loop xs (mem ! 0) p
      in ((ch, mem ! 0) # out, p))"

definition mod4_test_main :: "byte \<Rightarrow> pport \<Rightarrow> int \<times> (byte \<times> byte) list \<times> pport" where
  "mod4_test_main val p =
     (let (h, p) = module4_open p in
      if h < 0 then (1, [], p)
      else
        let (out, p) = mod4_test_loop [0..<10] val p;
            (_, p) = module4_write 0 1 [0] p
        in (0, out, snd (module4_release p)))"

lemma module4_write_eq:
  "0 < len \<Longrightarrow> len \<le> length ubuf \<Longrightarrow>
   module4_write b len ubuf p = (1, p\<lparr>port_out := port_out p @ [ubuf ! (len - 1)],
      lastbytewritten := ubuf ! (len - 1)\<rparr>)"
  by (simp add: module4_write_def outb_def get_bytes_def Let_def)

lemma module4_read_eq:
  "ubuf \<noteq> [] \<Longrightarrow> module4_read len ubuf p = (1, ubuf[0 := lastbytewritten p])"
  by (simp add: module4_read_def put_bytes_def list_update_take_drop Suc_le_eq)

lemma mod4_test_loop_eq:
  "mod4_test_loop xs val p =
    (map (\<lambda>x. (of_nat x, of_nat x)) xs,
     p\<lparr>port_out := port_out p @ map of_nat xs,
       lastbytewritten := (if xs = [] then lastbytewritten p else of_nat (last xs))\<rparr>)"
proof (induction xs arbitrary: val p)
  case Nil
  then show ?case by (cases p) simp
next
  case (Cons x xs)
  then show ?case by (simp add: module4_write_eq module4_read_eq Let_def)
qed

section \<open>module5\<close>

text \<open>The fields that the \<open>_IOC\<close> macros extract from a command number.\<close>

record ioc =
  ioc_read :: bool
  ioc_write :: bool
  ioc_type :: nat
  ioc_nr :: nat
  ioc_size :: nat

definition MODULE5_IOCRESET :: ioc where
  "MODULE5_IOCRESET = \<lparr>ioc_read = False, ioc_write = False, ioc_type = 0xC0, ioc_nr = 0, ioc_size = 0\<rparr>"

definition MODULE5_IOCSPATTERN :: ioc where
  "MODULE5_IOCSPATTERN = \<lparr>ioc_read = False, ioc_write = True, ioc_type = 0xC0, ioc_nr = 1, ioc_size = 4\<rparr>"

definition MODULE5_IOCSGLYPH :: ioc where
  "MODULE5_IOCSGLYPH = \<lparr>ioc_read = False, ioc_write = True, ioc_type = 0xC0, ioc_nr = 2, ioc_size = 4\<rparr>"

definition MODULE5_IOCGVALUE :: ioc where
  "MODULE5_IOCGVALUE = \<lparr>ioc_read = True, ioc_write = False, ioc_type = 0xC0, ioc_nr = 3, ioc_size = 4\<rparr>"

lemmas module5_cmds = MODULE5_IOCRESET_def MODULE5_IOCSPATTERN_def MODULE5_IOCSGLYPH_def
  MODULE5_IOCGVALUE_def

definition module5_open :: "pport \<Rightarrow> int \<times> pport" where
  "module5_open p =
     (if flagopen p \<noteq> 0 then (- EBUSY, p)
      else (0, p\<lparr>flagopen := flagopen p + 1, lastbytewritten := 0\<rparr>))"

text \<open>\<open>__get_user(val, (int *)arg)\<close> and \<open>__put_user\<close>, their results ignored.\<close>

definition get_user_int :: "byte list \<Rightarrow> u32" where
  "get_user_int ubuf = (if 4 \<le> length ubuf then un_le32 (take 4 ubuf) else 0)"

definition put_user_int :: "u32 \<Rightarrow> byte list \<Rightarrow> byte list" where
  "put_user_int v ubuf = (if 4 \<le> length ubuf then put_bytes 0 (le32 v) ubuf else ubuf)"

text \<open>
  \<open>err0\<close> is the uninitialised \<open>err\<close>, which a command without data leaves as it is; \<open>access_ok\<close>
  answers for the user pointer. The glyph table is all zeros.
\<close>

definition module5_ioctl ::
  "int \<Rightarrow> bool \<Rightarrow> ioc \<Rightarrow> byte list \<Rightarrow> pport \<Rightarrow> int \<times> byte list \<times> pport" where
  "module5_ioctl err0 access_ok cmd ubuf p =
     (if ioc_type cmd \<noteq> 0xC0 then (- ENOTTY, ubuf, p)
      else if 4 \<le> ioc_nr cmd then (- ENOTTY, ubuf, p)
      else
        let err = (if ioc_read cmd then (if access_ok then 0 else 1)
                   else if ioc_write cmd then (if access_ok then 0 else 1)
                   else err0);
            glyphs = replicate 16 (0 :: byte)
        in if err \<noteq> 0 then (- EFAULT, ubuf, p)
           else if cmd = MODULE5_IOCRESET then (0, ubuf, outb 0x80 p)
           else if cmd = MODULE5_IOCSPATTERN
                then (0, ubuf, outb (ucast (get_user_int ubuf OR 0x80)) p)
           else if cmd = MODULE5_IOCSGLYPH
                then (0, ubuf, outb (glyphs ! unat (get_user_int ubuf AND 0x0F) OR 0x80) p)
           else if cmd = MODULE5_IOCGVALUE
                then (0, put_user_int (scast (lastbytewritten p)) ubuf, p)
           else (- ENOTTY, ubuf, p))"

definition module5_release :: "pport \<Rightarrow> int \<times> pport" where
  "module5_release p = (0, p\<lparr>flagopen := flagopen p - 1\<rparr>)"

definition initialize_module5 :: "kanswers \<Rightarrow> port_mod \<Rightarrow> int \<times> port_mod" where
  "initialize_module5 k m =
     (if a_region k < 0 then (a_region k, m)
      else
        let m = m\<lparr>pm_held := insert K_region (pm_held m)\<rparr> in
        if a_cdev k \<noteq> 0 then (a_cdev k, m\<lparr>pm_held := pm_held m - {K_region}\<rparr>)
        else
          let m = m\<lparr>pm_held := insert K_cdev (pm_held m)\<rparr>
          in (0, m\<lparr>pm_held := got (a_io_region k) K_io_region (pm_held m),
                   pm_region := a_io_region k\<rparr>))"

definition cleanup_module5 :: "port_mod \<Rightarrow> port_mod" where
  "cleanup_module5 m =
     (let h = (if pm_region m then pm_held m - {K_io_region} else pm_held m)
      in m\<lparr>pm_held := h - {K_cdev} - {K_region}\<rparr>)"

interpretation module5: module_life initialize_module5 cleanup_module5 pm_held
  "\<lambda>h. h \<inter> port_res = {}" "\<lambda>k. a_cdev k \<le> 0"
  by unfold_locales
    (auto simp: initialize_module5_def cleanup_module5_def port_res_def got_def Let_def
      split: if_splits)

text \<open>\<open>t.c\<close>: reset, then the patterns 0 to 15. The results of the \<open>ioctl\<close> calls are ignored.\<close>

fun t_loop :: "int \<Rightarrow> nat list \<Rightarrow> pport \<Rightarrow> pport" where
  "t_loop err0 [] p = p"
| "t_loop err0 (x # xs) p =
     t_loop err0 xs (snd (snd (module5_ioctl err0 True MODULE5_IOCSPATTERN (le32 (of_nat x)) p)))"

definition t_main :: "int \<Rightarrow> pport \<Rightarrow> int \<times> pport" where
  "t_main err0 p =
     (let (h, p) = module5_open p in
      if h < 0 then (1, p)
      else
        let (_, _, p) = module5_ioctl err0 True MODULE5_IOCRESET [] p
        in (0, snd (module5_release (t_loop err0 [0..<16] p))))"

section \<open>Facts\<close>

text \<open>What each command does when the pointer is good; the value read is never a value written.\<close>

lemma module5_pattern:
  "module5_ioctl e True MODULE5_IOCSPATTERN (le32 v @ r) p = (0, le32 v @ r, outb (ucast (v OR 0x80)) p)"
  by (simp add: module5_ioctl_def module5_cmds get_user_int_def Let_def)

lemma module5_keeps_last:
  "lastbytewritten (snd (snd (module5_ioctl e a c ubuf p))) = lastbytewritten p"
  by (simp add: module5_ioctl_def outb_def Let_def)

lemma module5_value:
  fixes cmds :: "(int \<times> bool \<times> ioc \<times> byte list) list"
  assumes "module5_open p0 = (0, p)" "4 \<le> length ubuf"
  defines "q \<equiv> fold (\<lambda>(e, a, c, u) p. snd (snd (module5_ioctl e a c u p))) cmds p"
  shows "module5_ioctl e True MODULE5_IOCGVALUE ubuf q = (0, put_bytes 0 (le32 0) ubuf, q)"
proof -
  have "lastbytewritten (fold (\<lambda>(e, a, c, u) p. snd (snd (module5_ioctl e a c u p))) cs p) =
      lastbytewritten p" for cs p
    by (induction cs arbitrary: p) (auto simp: module5_keeps_last)
  moreover have "lastbytewritten p = 0"
    using assms(1) by (auto simp: module5_open_def split: if_splits)
  ultimately have "lastbytewritten q = 0" by (simp add: q_def)
  then show ?thesis
    using assms(2) by (simp add: module5_ioctl_def module5_cmds put_user_int_def Let_def)
qed

text \<open>A reset fails or not by what the stack holds; a glyph shows nothing.\<close>

lemma module5_reset_garbage:
  "err0 \<noteq> 0 \<Longrightarrow> module5_ioctl err0 a MODULE5_IOCRESET ubuf p = (- EFAULT, ubuf, p)"
  by (simp add: module5_ioctl_def module5_cmds Let_def)

lemma module5_glyph_blank:
  "module5_ioctl e True MODULE5_IOCSGLYPH ubuf p = (0, ubuf, outb 0x80 p)"
proof -
  have "unat (get_user_int ubuf AND 0x0F) < 16"
    using word_and_le1 [of "get_user_int ubuf" "0x0F"] by (simp add: word_le_nat_alt)
  then show ?thesis by (simp add: module5_ioctl_def module5_cmds Let_def)
qed

lemma t_loop_eq:
  "t_loop e xs p = p\<lparr>port_out := port_out p @ map (\<lambda>x. ucast (of_nat x OR 0x80 :: u32)) xs\<rparr>"
proof (induction xs arbitrary: p)
  case (Cons x xs)
  then show ?case
    using module5_pattern [of e "of_nat x" "[]" p] by (simp add: outb_def)
qed simp

end
