(* ===== verification/Proc_Modules.thy ===== *)
theory Proc_Modules
  imports Kernel_Services "HOL-Library.Signed_Division"
begin

text \<open>
  Three modules with \<open>/proc\<close> files: the greeting of \<open>lkm4_procfs/procfs1.c\<close>, the small
  directory of \<open>bfin1/procex.c\<close> and the clock of \<open>16_proc_window_sys/proc_window.c\<close>. A read
  handler's result is the text it puts into the page, whose length it returns.
\<close>

section \<open>The greeting\<close>

definition procfile_read :: "int \<Rightarrow> byte list" where
  "procfile_read offset = (if offset > 0 then [] else str ''HelloWorld!'' @ [10])"

definition procfs_name :: path where "procfs_name = [''helloworld'']"

text \<open>\<open>NULL\<close> and \<open>&proc_root\<close> are both the root of \<open>/proc\<close>.\<close>

definition procfs1_init :: "bool \<Rightarrow> proc_tab \<Rightarrow> int \<times> proc_tab" where
  "procfs1_init ok tab =
     (let (made, tab) = create_proc ok procfs_name (mk_entry P_file 0x1A4) tab
      in if \<not> made then (- ENOMEM, remove_proc_entry procfs_name tab)
         else (0, tab(procfs_name \<mapsto> (mk_entry P_file 0x8124)\<lparr>pe_size := 37\<rparr>)))"

definition procfs1_cleanup :: "proc_tab \<Rightarrow> proc_tab" where
  "procfs1_cleanup tab = remove_proc_entry procfs_name tab"

interpretation procfs1: module_life procfs1_init procfs1_cleanup id
  "\<lambda>tab. tab procfs_name = None" "\<lambda>_. True"
  by unfold_locales
    (auto simp: procfs1_init_def procfs1_cleanup_def create_proc_def split: if_splits)

section \<open>The directory\<close>

definition FOOBAR_LEN :: nat where [simp]: "FOOBAR_LEN = 8"

record fb_data =
  fb_name :: "byte list"
  fb_value :: "byte list"

definition proc_read_jiffies :: "int \<Rightarrow> byte list" where
  "proc_read_jiffies jiffies = str ''jiffies = '' @ dec jiffies @ [10]"

definition proc_read_foobar :: "fb_data \<Rightarrow> byte list option" where
  "proc_read_foobar d = do {
     n \<leftarrow> cstr (fb_name d);
     v \<leftarrow> cstr (fb_value d);
     Some (n @ str '' = '' @ [39] @ v @ [39, 10])
   }"

text \<open>The bytes that \<open>copy_from_user\<close> got stay in \<open>value\<close> when it fails.\<close>

definition proc_write_foobar :: "nat \<Rightarrow> byte list \<Rightarrow> fb_data \<Rightarrow> int \<times> fb_data" where
  "proc_write_foobar count ubuf d =
     (let len = (if count > FOOBAR_LEN then FOOBAR_LEN else count);
          (left, bs) = copy_from_user 0 len ubuf;
          d = d\<lparr>fb_value := put_bytes 0 bs (fb_value d)\<rparr>
      in if left \<noteq> 0 then (- EFAULT, d)
         else (int len, d\<lparr>fb_value := (fb_value d)[len := 0]\<rparr>))"

definition MODULE_NAME :: string where "MODULE_NAME = ''procfs_example''"

text \<open>\<open>strcpy\<close> of a string of three characters into nine bytes.\<close>

definition fb_set :: "string \<Rightarrow> fb_data \<Rightarrow> fb_data" where
  "fb_set s d = d\<lparr>fb_name := put_bytes 0 (str s @ [0]) (fb_name d),
                   fb_value := put_bytes 0 (str s @ [0]) (fb_value d)\<rparr>"

text \<open>The module: the entries of \<open>/proc\<close> and the data of the two files.\<close>

record procex =
  px_tab :: proc_tab
  foo_data :: fb_data
  bar_data :: fb_data

record procex_answers =
  ok_dir :: bool
  ok_jiffies :: bool
  ok_foo :: bool
  ok_bar :: bool
  ok_link :: bool

definition remove_in :: "path \<Rightarrow> procex \<Rightarrow> procex" where
  "remove_in p m = m\<lparr>px_tab := remove_proc_entry p (px_tab m)\<rparr>"

definition create_in :: "bool \<Rightarrow> path \<Rightarrow> proc_entry \<Rightarrow> procex \<Rightarrow> bool \<times> procex" where
  "create_in ok p e m = (let (made, tab) = create_proc ok p e (px_tab m) in (made, m\<lparr>px_tab := tab\<rparr>))"

definition init_procfs_example :: "procex_answers \<Rightarrow> procex \<Rightarrow> int \<times> procex" where
  "init_procfs_example k m =
     (let out = (\<lambda>m. (- ENOMEM, m));
          no_jiffies = (\<lambda>m. out (remove_in [MODULE_NAME] m));
          no_foo = (\<lambda>m. no_jiffies (remove_in [MODULE_NAME, ''jiffies''] m));
          no_bar = (\<lambda>m. no_foo (remove_in [MODULE_NAME, ''foo''] m));
          no_symlink = (\<lambda>m. no_bar (remove_in [MODULE_NAME, ''bar''] m));
          (made, m) = create_in (ok_dir k) [MODULE_NAME] (mk_entry P_dir 0x16D) m
      in if \<not> made then out m else
      let (made, m) = create_in (ok_jiffies k) [MODULE_NAME, ''jiffies''] (mk_entry P_file 0x124) m
      in if \<not> made then no_jiffies m else
      let (made, m) = create_in (ok_foo k) [MODULE_NAME, ''foo'']
            ((mk_entry P_file 0x1A4)\<lparr>pe_data := ''foo''\<rparr>) m
      in if \<not> made then no_foo m else
      let m = m\<lparr>foo_data := fb_set ''foo'' (foo_data m)\<rparr>;
          (made, m) = create_in (ok_bar k) [MODULE_NAME, ''bar'']
            ((mk_entry P_file 0x1A4)\<lparr>pe_data := ''bar''\<rparr>) m
      in if \<not> made then no_bar m else
      let m = m\<lparr>bar_data := fb_set ''bar'' (bar_data m)\<rparr>;
          (made, m) = create_in (ok_link k) [MODULE_NAME, ''jiffies_too'']
            (mk_entry (P_link ''jiffies'') 0x1FF) m
      in if \<not> made then no_symlink m else (0, m))"

definition cleanup_procfs_example :: "procex \<Rightarrow> procex" where
  "cleanup_procfs_example m =
     remove_in [MODULE_NAME] (remove_in [MODULE_NAME, ''jiffies'']
       (remove_in [MODULE_NAME, ''foo''] (remove_in [MODULE_NAME, ''bar'']
         (remove_in [MODULE_NAME, ''jiffies_too''] m))))"

definition procex_paths :: "path list" where
  "procex_paths = [MODULE_NAME] # map (\<lambda>n. [MODULE_NAME, n]) [''jiffies'', ''foo'', ''bar'', ''jiffies_too'']"

interpretation procex: module_life init_procfs_example cleanup_procfs_example px_tab
  "\<lambda>tab. \<forall>p \<in> set procex_paths. tab p = None" "\<lambda>_. True"
proof unfold_locales
  fix k m r m'
  assume f: "\<forall>p \<in> set procex_paths. px_tab m p = None" and i: "init_procfs_example k m = (r, m')"
  show "r < 0 \<Longrightarrow> px_tab m' = px_tab m"
    using i f
    by (auto simp: init_procfs_example_def create_in_def create_proc_def remove_in_def Let_def
        remove_created_other procex_paths_def split: if_splits)
  show "\<not> r < 0 \<Longrightarrow> px_tab (cleanup_procfs_example m') = px_tab m"
    using i f
    by (auto simp: init_procfs_example_def cleanup_procfs_example_def create_in_def create_proc_def
        remove_in_def Let_def remove_created_other procex_paths_def split: if_splits)
qed

text \<open>What is written, up to eight bytes, is what is read back.\<close>

definition fb_ok :: "fb_data \<Rightarrow> bool" where
  "fb_ok d \<longleftrightarrow> length (fb_name d) = 9 \<and> length (fb_value d) = 9 \<and> 0 \<in> set (fb_name d) \<and>
     fb_value d ! 8 = 0"

lemma proc_write_read:
  assumes d: "fb_ok d" "cstr (fb_name d) = Some n" and s: "0 \<notin> set s"
  shows "\<exists>d'. proc_write_foobar (length s) s d = (int (min 8 (length s)), d') \<and> fb_ok d' \<and>
    proc_read_foobar d' = Some (n @ str '' = '' @ [39] @ take 8 s @ [39, 10])"
proof -
  let ?l = "min 8 (length s)"
  let ?v = "(put_bytes 0 (take ?l s) (fb_value d))[?l := 0]"
  have t: "take ?l s = take 8 s" "length (take 8 s) = ?l" by (cases "length s \<le> 8"; simp)+
  have v: "?v = take 8 s @ 0 # drop (Suc ?l) (fb_value d)"
    using d by (simp add: put_bytes_def list_update_append fb_ok_def t
        Cons_nth_drop_Suc [symmetric] del: length_take)
  have "copy_from_user 0 ?l s = (0, take ?l s)" by (simp add: get_bytes_def)
  then have w: "proc_write_foobar (length s) s d = (int ?l, d\<lparr>fb_value := ?v\<rparr>)"
    by (auto simp: proc_write_foobar_def Let_def min_def)
  have "0 \<notin> set (take 8 s)" using s by (auto dest: in_set_takeD)
  then have r: "proc_read_foobar (d\<lparr>fb_value := ?v\<rparr>) = Some (n @ str '' = '' @ [39] @ take 8 s @ [39, 10])"
    unfolding v using d(2) by (simp add: proc_read_foobar_def)
  have "length ?v = 9" "?v ! 8 = 0"
    using d(1) by (auto simp: fb_ok_def nth_list_update nth_put_bytes min_def)
  then have "fb_ok (d\<lparr>fb_value := ?v\<rparr>)" using d(1) by (simp add: fb_ok_def)
  then show ?thesis using w r by blast
qed

text \<open>A write whose buffer cannot be read reports an error, and has changed the value.\<close>

lemma proc_write_fault:
  assumes "fb_ok d" "length ubuf < 8" "8 \<le> count"
  shows "proc_write_foobar count ubuf d =
    (- EFAULT, d\<lparr>fb_value := ubuf @ replicate (8 - length ubuf) 0 @ [0]\<rparr>)"
proof -
  have "drop 8 (fb_value d) = [0]"
    using assms(1) Cons_nth_drop_Suc [of 8 "fb_value d"] by (simp add: fb_ok_def)
  then show ?thesis
    using assms by (simp add: proc_write_foobar_def copy_from_user_def get_bytes_def put_bytes_def Let_def)
qed

section \<open>The clock\<close>

text \<open>
  \<open>msecs\<close> is \<open>jiffies_to_msecs\<close>, whose result is cut to \<open>int\<close>; \<open>act\<close> is
  \<open>jiffies - INITIAL_JIFFIES\<close>. Division of an \<open>int\<close> rounds to zero.
\<close>

definition time_text :: "nat \<Rightarrow> u64 \<Rightarrow> int \<Rightarrow> byte list" where
  "time_text state act val =
     (if state = 0 then str ''time = '' @ dec (sint act) @ str '' jiffies'' @ [10]
      else if state = 1 then str ''time = '' @ dec val @ str '' msecs'' @ [10]
      else if state = 2
        then str ''time = '' @ dec (val sdiv 1000) @ str ''s '' @ dec (val smod 1000) @ str ''ms'' @ [10]
      else if state = 3
        then let val = val sdiv 1000
             in str ''time = '' @ dec02 (val sdiv 3600) @ str '':'' @ dec02 ((val sdiv 60) smod 60) @
                str '':'' @ dec02 (val smod 60) @ [10]
      else str ''<not implemented>'' @ [10])"

definition time_read :: "(u64 \<Rightarrow> u32) \<Rightarrow> u64 \<Rightarrow> u64 \<Rightarrow> int \<Rightarrow> int \<Rightarrow> nat \<Rightarrow> byte list" where
  "time_read msecs jiffies initial off count state =
     (let act = jiffies - initial; val = sint (msecs act)
      in str ''state = '' @ dec (int state) @ [10] @ time_text state act val @
         str ''{offset = '' @ dec off @ str ''; count = '' @ dec count @ str '';}'' @ [10])"

text \<open>The buffer is read directly; \<open>count\<close> bytes of it can be. The result is \<open>count\<close> always.\<close>

definition time_write :: "nat \<Rightarrow> byte list \<Rightarrow> nat \<Rightarrow> (int \<times> nat) option" where
  "time_write count buffer state =
     (if count > 2 then Some (int count, state)
      else do {
        bad \<leftarrow> (if count = 2 then map_option (\<lambda>b. b ! 0 \<noteq> 10) (mem_get 1 1 buffer) else Some False);
        if bad then Some (int count, state)
        else do {
          b \<leftarrow> mem_get 0 1 buffer;
          if b ! 0 < 48 \<or> 57 < b ! 0 then Some (int count, state)
          else Some (int count, unat (b ! 0 - 48))
        }
      })"

definition win_dir :: path where "win_dir = [''anil'']"
definition win_file :: path where "win_file = [''anil'', ''rel_time'']"
definition win_link :: path where "win_link = [''anil'', ''rel_time_l'']"

lemmas win_paths = win_dir_def win_file_def win_link_def

definition proc_win_init :: "bool \<times> bool \<times> bool \<Rightarrow> proc_tab \<Rightarrow> int \<times> proc_tab" where
  "proc_win_init k tab =
     (let (ok_dir, ok_file, ok_link) = k;
          (made, tab) = create_proc ok_dir win_dir (mk_entry P_dir 0x16D) tab
      in if \<not> made then (-1, tab) else
      let (made, tab) = create_proc ok_file win_file (mk_entry P_file 0x1B6) tab
      in if \<not> made then (-1, remove_proc_entry win_dir tab) else
      let (made, tab) = create_proc ok_link win_link (mk_entry (P_link ''rel_time'') 0x1FF) tab
      in if \<not> made then (-1, remove_proc_entry win_dir (remove_proc_entry win_file tab))
         else (0, tab))"

definition proc_win_exit :: "proc_tab \<Rightarrow> proc_tab" where
  "proc_win_exit tab =
     remove_proc_entry win_dir (remove_proc_entry win_file (remove_proc_entry win_link tab))"

interpretation proc_win: module_life proc_win_init proc_win_exit id
  "\<lambda>tab. tab win_dir = None \<and> tab win_file = None \<and> tab win_link = None" "\<lambda>_. True"
  by unfold_locales
    (auto simp: proc_win_init_def proc_win_exit_def create_proc_def Let_def remove_created_other
      win_paths split: if_splits prod.splits)

text \<open>Only a digit, alone or with a newline, changes the state.\<close>

lemma time_write_digit:
  assumes "k < 10"
  shows "time_write 1 [48 + of_nat k] state = Some (1, k)"
    and "time_write 2 [48 + of_nat k, 10] state = Some (2, k)"
proof -
  have e: "(48 + of_nat k :: byte) = of_nat (48 + k)" by simp
  have u: "unat (48 + of_nat k :: byte) = 48 + k"
    unfolding e using assms by (simp add: unat_of_nat del: of_nat_add)
  have n: "unat (of_nat k :: byte) = k" using assms by (simp add: unat_of_nat)
  have r: "\<not> (48 + of_nat k :: byte) < 48" "\<not> (57 :: byte) < 48 + of_nat k"
    using u assms by (simp_all add: word_less_nat_alt)
  show "time_write 1 [48 + of_nat k] state = Some (1, k)"
    "time_write 2 [48 + of_nat k, 10] state = Some (2, k)"
    using r n by (simp_all add: time_write_def mem_get_def get_bytes_def)
qed

lemma time_write_total: "count \<le> length buffer \<Longrightarrow> 0 < count \<Longrightarrow>
  \<exists>s. time_write count buffer state = Some (int count, s) \<and> (s = state \<or> s < 10)"
proof -
  assume c: "count \<le> length buffer" "0 < count"
  have d: "unat (b - 48 :: byte) < 10" if "\<not> b < 48" "\<not> 57 < b" for b
  proof -
    have "unat b \<le> 57" "48 \<le> unat b" using that by (simp_all add: word_less_nat_alt)
    then show ?thesis by (simp add: unat_sub word_le_nat_alt)
  qed
  show ?thesis using c d by (auto simp: time_write_def mem_get_def)
qed

text \<open>In state 3 hours, minutes and seconds.\<close>

lemma signed_nonneg:
  assumes "(0::int) \<le> v" "0 < k"
  shows "v sdiv k = v div k" "v smod k = v mod k"
  using assms by (cases "v = 0"; simp add: signed_divide_int_def signed_modulo_int_def)+

lemma hms_sum: "3600 * (v div 3600) + 60 * ((v div 60) mod 60) + v mod 60 = (v :: int)"
proof -
  have "v div 3600 = v div 60 div 60" using zdiv_zmult2_eq [of 60 v 60] by simp
  then show ?thesis
    using mult_div_mod_eq [of 60 v] mult_div_mod_eq [of 60 "v div 60"] by linarith
qed

lemma time_text_clock:
  assumes "0 \<le> val"
  shows "\<exists>h m s. time_text 3 act val =
      str ''time = '' @ dec02 h @ str '':'' @ dec02 m @ str '':'' @ dec02 s @ [10] \<and>
    3600 * h + 60 * m + s = val div 1000 \<and> 0 \<le> m \<and> m < 60 \<and> 0 \<le> s \<and> s < 60"
proof -
  let ?v = "val div 1000"
  have "0 \<le> ?v" using assms by simp
  then have d: "val sdiv 1000 = ?v" "?v sdiv 3600 = ?v div 3600" "?v sdiv 60 = ?v div 60"
    "?v smod 60 = ?v mod 60" "(?v div 60) smod 60 = (?v div 60) mod 60"
    using assms by (simp_all add: signed_nonneg)
  have "time_text 3 act val = str ''time = '' @ dec02 (?v div 3600) @ str '':'' @
      dec02 ((?v div 60) mod 60) @ str '':'' @ dec02 (?v mod 60) @ [10]"
    by (simp only: time_text_def Let_def d) simp
  moreover have "3600 * (?v div 3600) + 60 * ((?v div 60) mod 60) + ?v mod 60 = ?v"
    by (rule hms_sum)
  moreover have "0 \<le> (?v div 60) mod 60 \<and> (?v div 60) mod 60 < 60 \<and> 0 \<le> ?v mod 60 \<and> ?v mod 60 < 60"
    by simp
  ultimately show ?thesis by blast
qed

end
