(* ===== verification/Sleep_Proc.thy ===== *)
theory Sleep_Proc
  imports Kernel_Services
begin

unbundle bit_operations_syntax

text \<open>
  The blocking \<open>/proc\<close> file (\<open>lkm5/sleep.c\<close>): the message buffer, the permission check, and
  opening and closing by several processes, one shared access per step, with signals, wake-ups
  and the module's use count. \<open>preempt\<close> says whether a process can be interrupted between the
  test of \<open>Already_Open\<close> and its assignment. Last, the program \<open>cat_noblock.c\<close> that opens
  such a file without waiting.
\<close>

section \<open>The message\<close>

definition MESSAGE_LENGTH :: nat where [simp]: "MESSAGE_LENGTH = 80"

record sleep_dev =
  Message :: "byte list"
  finished :: bool

text \<open>\<open>None\<close> when \<open>Message\<close> is not terminated or \<open>message\<close> (110 bytes) overflows.\<close>

definition module_output ::
  "nat \<Rightarrow> byte list \<Rightarrow> sleep_dev \<Rightarrow> (int \<times> byte list \<times> sleep_dev) option" where
  "module_output len ubuf d =
     (if finished d then Some (0, ubuf, d\<lparr>finished := False\<rparr>)
      else do {
        m \<leftarrow> cstr (Message d);
        let message = str ''Last input:'' @ m @ [10, 0];
        if MESSAGE_LENGTH + 30 < length message then None
        else let (i, ubuf) = put_string message len 0 ubuf
             in Some (int i, ubuf, d\<lparr>finished := True\<rparr>)
      })"

definition module_input :: "nat \<Rightarrow> byte list \<Rightarrow> sleep_dev \<Rightarrow> int \<times> sleep_dev" where
  "module_input len ubuf d =
     (let i = min (MESSAGE_LENGTH - 1) len
      in (int i, d\<lparr>Message := (get_users 0 i ubuf (Message d))[i := 0]\<rparr>))"

definition module_permission :: "nat \<Rightarrow> nat \<Rightarrow> int" where
  "module_permission op euid = (if op = 4 \<or> op = 2 \<and> euid = 0 then 0 else - EACCES)"

definition msg_ok :: "sleep_dev \<Rightarrow> bool" where
  "msg_ok d \<longleftrightarrow> length (Message d) = 80 \<and> 0 \<in> set (Message d)"

lemma module_input_ok: "msg_ok d \<Longrightarrow> msg_ok (snd (module_input n ubuf d))"
  by (auto simp: msg_ok_def module_input_def Let_def set_update_memI)

lemma module_output_ok:
  assumes "msg_ok d"
  shows "\<exists>r ubuf' d'. module_output len ubuf d = Some (r, ubuf', d') \<and> msg_ok d'"
proof -
  let ?m = "takeWhile (\<lambda>b. b \<noteq> 0) (Message d)"
  have c: "cstr (Message d) = Some ?m" using assms by (simp add: cstr_def msg_ok_def)
  have "length ?m \<le> 80" using assms length_takeWhile_le [of "\<lambda>b. b \<noteq> 0" "Message d"]
    by (simp add: msg_ok_def)
  then show ?thesis
    using assms c by (auto simp: module_output_def str_def msg_ok_def Let_def split: prod.split)
qed

text \<open>What was written, up to a NUL or 79 bytes, is what the next read gives; then end of file.\<close>

lemma module_input_output:
  assumes d: "length (Message d) = 80" "\<not> finished d" and s: "0 \<notin> set s" "length s \<le> 79"
    and len: "length s + 12 \<le> len" "len \<le> length ubuf"
  shows "module_output len ubuf (snd (module_input (length s) s d)) =
      Some (int (length s) + 12, put_bytes 0 (str ''Last input:'' @ s @ [10]) ubuf,
        d\<lparr>Message := (s @ drop (length s) (Message d))[length s := 0], finished := True\<rparr>)"
    and "module_output len ubuf (d\<lparr>finished := True\<rparr>) = Some (0, ubuf, d)"
proof -
  have i: "min 79 (length s) = length s" using s by simp
  have msg: "Message (snd (module_input (length s) s d)) = s @ 0 # drop (Suc (length s)) (Message d)"
    using s d by (simp add: module_input_def Let_def i get_users_0 list_update_append
        Cons_nth_drop_Suc [symmetric])
  then have c: "cstr (Message (snd (module_input (length s) s d))) = Some s"
    using s by simp
  have f: "\<not> finished (snd (module_input (length s) s d))"
    using d by (simp add: module_input_def Let_def)
  let ?t = "str ''Last input:'' @ s @ [10]"
  have t: "0 \<notin> set ?t" "length ?t = length s + 12" using s by (simp_all add: str_def)
  have out: "put_string (?t @ 0 # []) len 0 ubuf = (length ?t, put_bytes 0 ?t ubuf)"
    using put_string_eq [OF t(1), of 0 len ubuf "[]"] t(2) len by simp
  have upd: "snd (module_input (length s) s d) = d\<lparr>Message := (s @ drop (length s) (Message d))[length s := 0]\<rparr>"
    using s d by (simp add: module_input_def Let_def i get_users_0)
  show "module_output len ubuf (snd (module_input (length s) s d)) =
      Some (int (length s) + 12, put_bytes 0 ?t ubuf,
        d\<lparr>Message := (s @ drop (length s) (Message d))[length s := 0], finished := True\<rparr>)"
    using out t f s by (simp add: module_output_def c Let_def) (simp add: upd)
  show "module_output len ubuf (d\<lparr>finished := True\<rparr>) = Some (0, ubuf, d)"
    using d by (cases d) (simp add: module_output_def)
qed

section \<open>Signals\<close>

text \<open>
  The loop over the \<open>_NSIG_WORDS\<close> words of pending and blocked signals. \<open>is_sig\<close> is an
  \<open>int\<close>: of a 64-bit word only the low 32 bits are kept.
\<close>

fun is_sig :: "(u64 \<times> u64) list \<Rightarrow> bool" where
  "is_sig [] = False"
| "is_sig ((pending, blocked) # ws) =
     ((ucast (pending AND NOT blocked) :: u32) \<noteq> 0 \<or> is_sig ws)"

section \<open>Opening and closing\<close>

datatype open_pc =
    Out
  | Enter bool \<comment> \<open>called \<open>open\<close>, with \<open>O_NONBLOCK\<close> or not\<close>
  | Get_Module \<comment> \<open>before \<open>try_module_get\<close>\<close>
  | Test \<comment> \<open>at \<open>while (Already_Open)\<close>\<close>
  | At_Wait \<comment> \<open>at the first test of the condition in \<open>wait_event_interruptible\<close>\<close>
  | Prepare \<comment> \<open>in its loop, before entering the wait queue\<close>
  | Queued \<comment> \<open>in the wait queue and marked asleep, before the condition is tested again\<close>
  | Sleeping \<comment> \<open>has given up the processor: runs again when no longer marked asleep\<close>
  | Woken \<comment> \<open>after \<open>wait_event_interruptible\<close>, before looking at signals\<close>
  | Interrupted \<comment> \<open>about to \<open>module_put\<close> and return \<open>-EINTR\<close>\<close>
  | Found_Free \<comment> \<open>left the loop, about to set \<open>Already_Open\<close>\<close>
  | Opened \<comment> \<open>\<open>open\<close> returned 0\<close>
  | Closing \<comment> \<open>\<open>Already_Open\<close> cleared, before \<open>wake_up\<close>\<close>
  | Putting \<comment> \<open>before \<open>module_put\<close>\<close>

text \<open>
  \<open>asleep\<close>: the processes in \<open>WaitQ\<close> that are marked not to run; \<open>sigs\<close>: the signal words of
  a process.
\<close>

record sleep_state =
  Already_Open :: bool
  use_count :: int
  pc_of :: "nat \<Rightarrow> open_pc"
  asleep :: "nat \<Rightarrow> bool"
  sigs :: "nat \<Rightarrow> (u64 \<times> u64) list"

definition go :: "nat \<Rightarrow> open_pc \<Rightarrow> sleep_state \<Rightarrow> sleep_state" where
  "go t p s = s\<lparr>pc_of := (pc_of s)(t := p)\<rparr>"

definition mark :: "nat \<Rightarrow> bool \<Rightarrow> sleep_state \<Rightarrow> sleep_state" where
  "mark t b s = s\<lparr>asleep := (asleep s)(t := b)\<rparr>"

definition any_signal :: "(u64 \<times> u64) list \<Rightarrow> bool" where
  "any_signal ws \<longleftrightarrow> (\<exists>(p, b) \<in> set ws. p AND NOT b \<noteq> 0)"

text \<open>
  One step of process \<open>t\<close>. \<open>wait_event_interruptible\<close> is the kernel's loop: enter the queue,
  test the condition and then the pending signals, and give up the processor; \<open>wake_up\<close> is what
  lets the processes in the queue run again. \<open>try_module_get\<close> succeeds: it fails only while the
  module is being removed, and the file is removed first.
\<close>

inductive open_step :: "bool \<Rightarrow> nat \<Rightarrow> sleep_state \<Rightarrow> sleep_state \<Rightarrow> bool" for preempt t where
  call: "pc_of s t = Out \<Longrightarrow> open_step preempt t s (go t (Enter nb) s)"
| again: "pc_of s t = Enter True \<Longrightarrow> Already_Open s \<Longrightarrow> open_step preempt t s (go t Out s)"
| enter: "pc_of s t = Enter nb \<Longrightarrow> \<not> (nb \<and> Already_Open s) \<Longrightarrow>
    open_step preempt t s (go t Get_Module s)"
| module_get: "pc_of s t = Get_Module \<Longrightarrow>
    open_step preempt t s (go t Test (s\<lparr>use_count := use_count s + 1\<rparr>))"
| busy: "pc_of s t = Test \<Longrightarrow> Already_Open s \<Longrightarrow> open_step preempt t s (go t At_Wait s)"
| wait_not: "pc_of s t = At_Wait \<Longrightarrow> \<not> Already_Open s \<Longrightarrow> open_step preempt t s (go t Woken s)"
| wait: "pc_of s t = At_Wait \<Longrightarrow> Already_Open s \<Longrightarrow> open_step preempt t s (go t Prepare s)"
| prepare: "pc_of s t = Prepare \<Longrightarrow> open_step preempt t s (go t Queued (mark t True s))"
| wait_done: "pc_of s t = Queued \<Longrightarrow> \<not> Already_Open s \<or> any_signal (sigs s t) \<Longrightarrow>
    open_step preempt t s (go t Woken (mark t False s))"
| schedule: "pc_of s t = Queued \<Longrightarrow> Already_Open s \<Longrightarrow> \<not> any_signal (sigs s t) \<Longrightarrow>
    open_step preempt t s (go t Sleeping s)"
| run_again: "pc_of s t = Sleeping \<Longrightarrow> \<not> asleep s t \<Longrightarrow> open_step preempt t s (go t Prepare s)"
| sig: "pc_of s t = Woken \<Longrightarrow> is_sig (sigs s t) \<Longrightarrow> open_step preempt t s (go t Interrupted s)"
| no_sig: "pc_of s t = Woken \<Longrightarrow> \<not> is_sig (sigs s t) \<Longrightarrow> open_step preempt t s (go t Test s)"
| eintr: "pc_of s t = Interrupted \<Longrightarrow>
    open_step preempt t s (go t Out (s\<lparr>use_count := use_count s - 1\<rparr>))"
| found_free: "preempt \<Longrightarrow> pc_of s t = Test \<Longrightarrow> \<not> Already_Open s \<Longrightarrow>
    open_step preempt t s (go t Found_Free s)"
| set_open: "pc_of s t = Found_Free \<Longrightarrow> open_step preempt t s (go t Opened (s\<lparr>Already_Open := True\<rparr>))"
| test_and_set: "\<not> preempt \<Longrightarrow> pc_of s t = Test \<Longrightarrow> \<not> Already_Open s \<Longrightarrow>
    open_step preempt t s (go t Opened (s\<lparr>Already_Open := True\<rparr>))"
| close: "pc_of s t = Opened \<Longrightarrow> open_step preempt t s (go t Closing (s\<lparr>Already_Open := False\<rparr>))"
| wake_up: "pc_of s t = Closing \<Longrightarrow> open_step preempt t s (go t Putting (s\<lparr>asleep := (\<lambda>_. False)\<rparr>))"
| module_put: "pc_of s t = Putting \<Longrightarrow>
    open_step preempt t s (go t Out (s\<lparr>use_count := use_count s - 1\<rparr>))"

text \<open>A change of the signal words of a process; one that is pending makes a sleeper run again.\<close>

definition send_signal :: "nat \<Rightarrow> (u64 \<times> u64) list \<Rightarrow> sleep_state \<Rightarrow> sleep_state" where
  "send_signal t ws s =
     (let s = s\<lparr>sigs := (sigs s)(t := ws)\<rparr> in if any_signal ws then mark t False s else s)"

text \<open>Steps of the processes of \<open>A\<close> only, without signals; and all that can happen.\<close>

inductive open_run :: "bool \<Rightarrow> nat set \<Rightarrow> sleep_state \<Rightarrow> sleep_state \<Rightarrow> bool" for preempt A s0 where
  stay: "open_run preempt A s0 s0"
| move: "open_run preempt A s0 s \<Longrightarrow> t \<in> A \<Longrightarrow> open_step preempt t s s' \<Longrightarrow> open_run preempt A s0 s'"

inductive open_reach :: "bool \<Rightarrow> sleep_state \<Rightarrow> sleep_state \<Rightarrow> bool" for preempt s0 where
  here: "open_reach preempt s0 s0"
| step: "open_reach preempt s0 s \<Longrightarrow> open_step preempt t s s' \<Longrightarrow> open_reach preempt s0 s'"
| signal: "open_reach preempt s0 s \<Longrightarrow> open_reach preempt s0 (send_signal t ws s)"

definition sleep_init :: sleep_state where
  "sleep_init = \<lparr>Already_Open = False, use_count = 0, pc_of = (\<lambda>_. Out), asleep = (\<lambda>_. False),
     sigs = (\<lambda>_. [])\<rparr>"

inductive_cases open_stepE: "open_step preempt t s s'"

lemma go_simps [simp]:
  "pc_of (go t p s) = (pc_of s)(t := p)" "Already_Open (go t p s) = Already_Open s"
  "use_count (go t p s) = use_count s" "sigs (go t p s) = sigs s" "asleep (go t p s) = asleep s"
  by (simp_all add: go_def)

lemma mark_simps [simp]:
  "pc_of (mark t b s) = pc_of s" "Already_Open (mark t b s) = Already_Open s"
  "use_count (mark t b s) = use_count s" "sigs (mark t b s) = sigs s"
  "asleep (mark t b s) = (asleep s)(t := b)"
  by (simp_all add: mark_def)

lemma send_signal_simps [simp]:
  "pc_of (send_signal t ws s) = pc_of s" "Already_Open (send_signal t ws s) = Already_Open s"
  "use_count (send_signal t ws s) = use_count s"
  "asleep (send_signal t ws s) t' \<longleftrightarrow> asleep s t' \<and> (t' = t \<longrightarrow> \<not> any_signal ws)"
  by (auto simp: send_signal_def Let_def)

lemma is_sig_pending: "is_sig ws \<Longrightarrow> any_signal ws"
  by (induction ws rule: is_sig.induct) (auto simp: any_signal_def)

section \<open>The use count\<close>

text \<open>Between \<open>try_module_get\<close> and \<open>module_put\<close>.\<close>

fun counted :: "open_pc \<Rightarrow> bool" where
  "counted Out = False"
| "counted (Enter nb) = False"
| "counted Get_Module = False"
| "counted p = True"

definition count_inv :: "sleep_state \<Rightarrow> bool" where
  "count_inv s \<longleftrightarrow> finite {t. counted (pc_of s t)} \<and> use_count s = int (card {t. counted (pc_of s t)})"

lemma counted_same:
  "counted p = counted (pc_of s t) \<Longrightarrow> {t'. counted (((pc_of s)(t := p)) t')} = {t'. counted (pc_of s t')}"
  by auto

lemma counted_enter:
  "counted p \<Longrightarrow> {t'. counted (((pc_of s)(t := p)) t')} = insert t {t'. counted (pc_of s t')}"
  by auto

lemma counted_leave:
  "\<not> counted p \<Longrightarrow> {t'. counted (((pc_of s)(t := p)) t')} = {t'. counted (pc_of s t')} - {t}"
  by auto

lemma counted_pos: "finite {t. counted (pc_of s t)} \<Longrightarrow> counted (pc_of s t) \<Longrightarrow>
   0 < card {t. counted (pc_of s t)}"
  by (auto simp: card_gt_0_iff)

lemma count_inv_step: "open_step preempt t s s' \<Longrightarrow> count_inv s \<Longrightarrow> count_inv s'"
proof (erule open_stepE, goal_cases)
  case 4
  then show ?case by (simp add: count_inv_def counted_enter card_insert_if del: fun_upd_apply)
next
  case 14
  then have "0 < card {t. counted (pc_of s t)}" by (intro counted_pos [of s t]) (simp_all add: count_inv_def)
  then show ?case using 14 by (simp add: count_inv_def counted_leave card_Diff_singleton_if del: fun_upd_apply)
next
  case 20
  then have "0 < card {t. counted (pc_of s t)}" by (intro counted_pos [of s t]) (simp_all add: count_inv_def)
  then show ?case using 20 by (simp add: count_inv_def counted_leave card_Diff_singleton_if del: fun_upd_apply)
qed (simp_all add: count_inv_def counted_same del: fun_upd_apply)

lemma count_inv_signal: "count_inv s \<Longrightarrow> count_inv (send_signal t ws s)"
  by (simp add: count_inv_def)

lemma count_inv_reach: "open_reach preempt s0 s \<Longrightarrow> count_inv s0 \<Longrightarrow> count_inv s"
  by (induction rule: open_reach.induct) (auto dest: count_inv_step count_inv_signal)

lemma sleep_init_count: "count_inv sleep_init"
  by (simp add: count_inv_def sleep_init_def)

section \<open>Who holds the file\<close>

text \<open>When the test and the assignment cannot be separated, one process at a time.\<close>

definition excl_inv :: "sleep_state \<Rightarrow> bool" where
  "excl_inv s \<longleftrightarrow> (\<forall>t. pc_of s t = Opened \<longrightarrow> Already_Open s) \<and> (\<forall>t. pc_of s t \<noteq> Found_Free) \<and>
     (\<forall>t t'. pc_of s t = Opened \<longrightarrow> pc_of s t' = Opened \<longrightarrow> t = t')"

lemma excl_inv_step: "open_step False t s s' \<Longrightarrow> excl_inv s \<Longrightarrow> excl_inv s'"
  by (erule open_stepE) (auto simp: excl_inv_def)

lemma excl_inv_signal: "excl_inv s \<Longrightarrow> excl_inv (send_signal t ws s)"
  by (simp add: excl_inv_def)

lemma excl_inv_reach: "open_reach False s0 s \<Longrightarrow> excl_inv s0 \<Longrightarrow> excl_inv s"
  by (induction rule: open_reach.induct) (auto dest: excl_inv_step excl_inv_signal)

lemma sleep_init_excl: "excl_inv sleep_init"
  by (simp add: excl_inv_def sleep_init_def)

text \<open>
  No wake-up is lost: whoever sleeps marked asleep has a holder of the file that will close it,
  or a process that has closed it and is about to wake the queue.
\<close>

definition wait_inv :: "sleep_state \<Rightarrow> bool" where
  "wait_inv s \<longleftrightarrow> (Already_Open s \<longrightarrow> (\<exists>h. pc_of s h = Opened)) \<and>
     (\<forall>t. pc_of s t = Sleeping \<longrightarrow> asleep s t \<longrightarrow> Already_Open s \<or> (\<exists>h. pc_of s h = Closing))"

lemma open_step_other: "open_step p t s s' \<Longrightarrow> t' \<noteq> t \<Longrightarrow> pc_of s' t' = pc_of s t'"
  by (erule open_stepE) auto

lemma open_step_held:
  "open_step p t s s' \<Longrightarrow> Already_Open s' \<Longrightarrow>
   pc_of s' t = Opened \<or> Already_Open s \<and> pc_of s t \<noteq> Opened"
  by (erule open_stepE) auto

lemma open_step_asleep:
  "open_step p t s s' \<Longrightarrow> pc_of s' u = Sleeping \<Longrightarrow> asleep s' u \<Longrightarrow>
   Already_Open s' \<or> pc_of s' t = Closing \<or>
   pc_of s u = Sleeping \<and> asleep s u \<and> \<not> Already_Open s \<and> pc_of s t \<noteq> Closing"
  by (erule open_stepE) (auto split: if_splits)

lemma wait_inv_step:
  assumes "open_step p t s s'" "wait_inv s"
  shows "wait_inv s'"
proof -
  have "\<exists>h. pc_of s' h = Opened" if "Already_Open s'"
    using open_step_held [OF assms(1) that] assms open_step_other [OF assms(1)]
    unfolding wait_inv_def by metis
  moreover have "Already_Open s' \<or> (\<exists>h. pc_of s' h = Closing)"
    if "pc_of s' u = Sleeping" "asleep s' u" for u
    using open_step_asleep [OF assms(1) that] assms(2) open_step_other [OF assms(1)]
    unfolding wait_inv_def by metis
  ultimately show ?thesis by (simp add: wait_inv_def)
qed

lemma wait_inv_signal: "wait_inv s \<Longrightarrow> wait_inv (send_signal t ws s)"
  by (auto simp: wait_inv_def)

lemma wait_inv_reach: "open_reach preempt s0 s \<Longrightarrow> wait_inv s0 \<Longrightarrow> wait_inv s"
  by (induction rule: open_reach.induct) (auto dest: wait_inv_step wait_inv_signal)

lemma sleep_init_wait: "wait_inv sleep_init"
  by (simp add: wait_inv_def sleep_init_def)

section \<open>Runs\<close>

lemma open_run_trans: "open_run p A b c \<Longrightarrow> open_run p A a b \<Longrightarrow> open_run p A a c"
  by (induction rule: open_run.induct) (auto intro: open_run.move)

lemma open_run_step: "open_step p t s s' \<Longrightarrow> t \<in> A \<Longrightarrow> open_run p A s s'"
  by (blast intro: open_run.intros)

lemma open_run_mono: "open_run p A s s' \<Longrightarrow> A \<subseteq> B \<Longrightarrow> open_run p B s s'"
  by (induction rule: open_run.induct) (auto intro: open_run.intros)

lemma open_run_reach: "open_run p A s s' \<Longrightarrow> open_reach p s s'"
  by (induction rule: open_run.induct) (auto intro: open_reach.intros)

lemma open_reach_trans: "open_reach p b c \<Longrightarrow> open_reach p a b \<Longrightarrow> open_reach p a c"
  by (induction rule: open_reach.induct) (auto intro: open_reach.intros)

lemma go_go [simp]: "go t q (go t p s) = go t q s"
  by (simp add: go_def)

lemma go_same: "pc_of s t = q \<Longrightarrow> go t q s = s"
  by (cases s) (auto simp: go_def)

lemma go_upd [simp]:
  "go t q (s\<lparr>use_count := n\<rparr>) = (go t q s)\<lparr>use_count := n\<rparr>"
  "go t q (s\<lparr>Already_Open := b\<rparr>) = (go t q s)\<lparr>Already_Open := b\<rparr>"
  "go t q (mark t' b s) = mark t' b (go t q s)"
  by (simp_all add: go_def mark_def)

text \<open>A step with the state it leads to written out.\<close>

lemma open_run_next:
  "open_run p A s0 s \<Longrightarrow> open_step p t s s' \<Longrightarrow> t \<in> A \<Longrightarrow> s' = s'' \<Longrightarrow> open_run p A s0 s''"
  by (blast intro: open_run.move)

text \<open>From outside to the loop, and from there to the file when it is free.\<close>

lemma run_test:
  assumes "pc_of s t = Out"
  shows "open_run p {t} s (go t Test (s\<lparr>use_count := use_count s + 1\<rparr>))"
proof -
  have "open_run p {t} s (go t (Enter False) s)"
    by (rule open_run_step [OF open_step.call [OF assms]]) simp
  then have "open_run p {t} s (go t Get_Module s)"
    by (rule open_run_next [OF _ open_step.enter [where nb = False and t = t]]) simp_all
  then show ?thesis
    by (rule open_run_next [OF _ open_step.module_get [where t = t]]) simp_all
qed

lemma run_opened:
  assumes "pc_of s t = Test" "\<not> Already_Open s"
  shows "open_run p {t} s (go t Opened (s\<lparr>Already_Open := True\<rparr>))"
proof (cases p)
  case True
  have "open_run p {t} s (go t Found_Free s)"
    by (rule open_run_step [OF open_step.found_free [OF True assms]]) simp
  then show ?thesis
    by (rule open_run_next [OF _ open_step.set_open [where t = t]]) simp_all
next
  case False
  show ?thesis by (rule open_run_step [OF open_step.test_and_set [OF False assms]]) simp
qed

lemma run_prepared:
  assumes "pc_of s t = Test" "Already_Open s"
  shows "open_run p {t} s (go t Queued (mark t True s))"
proof -
  have "open_run p {t} s (go t At_Wait s)"
    by (rule open_run_step [OF open_step.busy [OF assms]]) simp
  then have "open_run p {t} s (go t Prepare s)"
    by (rule open_run_next [OF _ open_step.wait [where t = t]]) (use assms in simp_all)
  then show ?thesis
    by (rule open_run_next [OF _ open_step.prepare [where t = t]]) simp_all
qed

lemma run_asleep:
  assumes "pc_of s t = Test" "Already_Open s" "\<not> any_signal (sigs s t)"
  shows "open_run p {t} s (go t Sleeping (mark t True s))"
  by (rule open_run_next [OF run_prepared open_step.schedule [where t = t]]) (use assms in simp_all)

text \<open>Where a process waits for the file, in the loop of \<open>module_open\<close>.\<close>

fun waits :: "open_pc \<Rightarrow> bool" where
  "waits Test = True"
| "waits At_Wait = True"
| "waits Prepare = True"
| "waits Queued = True"
| "waits Sleeping = True"
| "waits Woken = True"
| "waits p = False"

text \<open>A waiting process that may run gets the file, by steps of its own, once nobody has it.\<close>

lemma woken_opens:
  assumes "pc_of s t = Woken" "\<not> Already_Open s" "\<not> is_sig (sigs s t)"
  shows "\<exists>s'. open_run p {t} s s' \<and> pc_of s' t = Opened"
proof -
  have "open_run p {t} s (go t Test s)"
    by (rule open_run_step [OF open_step.no_sig [OF assms(1,3)]]) simp
  then have "open_run p {t} s (go t Opened (s\<lparr>Already_Open := True\<rparr>))"
    using open_run_trans [OF run_opened [of "go t Test s" t p]] assms by simp
  then show ?thesis by (intro exI) (auto simp: go_def)
qed

lemma run_then:
  "open_step p t s s1 \<Longrightarrow> t \<in> A \<Longrightarrow> \<exists>s'. open_run p A s1 s' \<and> P s' \<Longrightarrow> \<exists>s'. open_run p A s s' \<and> P s'"
  by (blast intro: open_run_step open_run_trans)

lemma waiter_opens:
  assumes "waits (pc_of s t)" "\<not> Already_Open s" "\<not> is_sig (sigs s t)"
    and "pc_of s t = Sleeping \<Longrightarrow> \<not> asleep s t"
  shows "\<exists>s'. open_run p {t} s s' \<and> pc_of s' t = Opened"
proof -
  have queued: "\<exists>s'. open_run p {t} u s' \<and> pc_of s' t = Opened"
    if "pc_of u t = Queued" "\<not> Already_Open u" "\<not> is_sig (sigs u t)" for u
    by (rule run_then [OF open_step.wait_done [where t = t]]) (use that in \<open>simp_all add: woken_opens\<close>)
  have prep: "\<exists>s'. open_run p {t} u s' \<and> pc_of s' t = Opened"
    if "pc_of u t = Prepare" "\<not> Already_Open u" "\<not> is_sig (sigs u t)" for u
    by (rule run_then [OF open_step.prepare [where t = t]]) (use that in \<open>simp_all add: queued\<close>)
  show ?thesis
  proof (cases "pc_of s t")
    case Test
    then show ?thesis using run_opened [of s t p] assms by (intro exI) (auto simp: go_def)
  next
    case At_Wait
    show ?thesis
      by (rule run_then [OF open_step.wait_not [where t = t]]) (use At_Wait assms in \<open>simp_all add: woken_opens\<close>)
  next
    case Sleeping
    show ?thesis
      by (rule run_then [OF open_step.run_again [where t = t]]) (use Sleeping assms in \<open>simp_all add: prep\<close>)
  qed (use assms in \<open>simp_all add: woken_opens queued prep\<close>)
qed

text \<open>\<open>module_close\<close> clears the variable and wakes the queue, and touches nothing else of others.\<close>

definition closed_by :: "nat \<Rightarrow> sleep_state \<Rightarrow> sleep_state" where
  "closed_by h s = go h Putting (s\<lparr>Already_Open := False, asleep := (\<lambda>_. False)\<rparr>)"

lemma close_runs:
  assumes "pc_of s h = Opened \<or> pc_of s h = Closing \<and> \<not> Already_Open s"
  shows "open_run p {h} s (closed_by h s)"
proof -
  have wake: "open_run p {h} u (closed_by h u)" if "pc_of u h = Closing" "\<not> Already_Open u" for u
    using that by (intro open_run_next [OF open_run.stay open_step.wake_up [of _ h]])
      (auto simp: closed_by_def go_def)
  show ?thesis
  proof (cases "pc_of s h = Opened")
    case True
    let ?u = "go h Closing (s\<lparr>Already_Open := False\<rparr>)"
    have "open_run p {h} s ?u" by (rule open_run_step [OF open_step.close [OF True]]) simp
    moreover have "open_run p {h} ?u (closed_by h ?u)" by (rule wake) simp_all
    moreover have "closed_by h ?u = closed_by h s" by (simp add: closed_by_def go_def)
    ultimately show ?thesis by (auto intro: open_run_trans)
  qed (use assms wake in auto)
qed

text \<open>
  Once a holder has closed the file, which wakes the queue, a waiting process without a signal
  gets it; and in every state there is a holder to wait for, unless nothing is in the way.
\<close>

lemma waiter_after_close:
  assumes h: "pc_of s h = Opened \<or> pc_of s h = Closing \<and> \<not> Already_Open s"
    and t: "waits (pc_of s t)" "\<not> any_signal (sigs s t)"
  shows "\<exists>s'. open_run p {h, t} s s' \<and> pc_of s' t = Opened"
proof -
  have "\<not> is_sig (sigs s t)" using t(2) is_sig_pending by blast
  moreover have "h \<noteq> t" using h t(1) by auto
  ultimately have "\<exists>s'. open_run p {t} (closed_by h s) s' \<and> pc_of s' t = Opened"
    using t(1) by (intro waiter_opens) (simp_all add: closed_by_def)
  moreover have "open_run p {h} s (closed_by h s)" by (rule close_runs [OF h])
  ultimately show ?thesis by (blast intro: open_run_trans open_run_mono)
qed

lemma waiter_served:
  assumes "wait_inv s" "waits (pc_of s t)" "\<not> any_signal (sigs s t)"
  shows "\<exists>h s'. open_run p {h, t} s s' \<and> pc_of s' t = Opened"
proof (cases "Already_Open s \<or> pc_of s t = Sleeping \<and> asleep s t")
  case False
  have "\<not> is_sig (sigs s t)" using assms(3) is_sig_pending by blast
  then have "\<exists>s'. open_run p {t} s s' \<and> pc_of s' t = Opened"
    using assms(2) False by (intro waiter_opens) simp_all
  then show ?thesis by (blast intro: open_run_mono)
next
  case True
  then obtain h where "pc_of s h = Opened \<or> pc_of s h = Closing \<and> \<not> Already_Open s"
    using assms(1) by (auto simp: wait_inv_def)
  then show ?thesis using waiter_after_close assms by blast
qed

text \<open>Nothing but \<open>wake_up\<close> in \<open>module_close\<close> (or a signal) lets a sleeping process run.\<close>

lemma sleeper_stays:
  assumes "open_step p t' s s'" "pc_of s t = Sleeping" "asleep s t"
  shows "pc_of s' t = Sleeping \<and> (asleep s' t \<or> pc_of s t' = Closing)"
  using assms by (auto elim!: open_stepE)

text \<open>
  A process interrupted between the test and the assignment: a second one passes the test too,
  and both have the file open.
\<close>

lemma double_open:
  assumes "t \<noteq> t'"
  shows "\<exists>s. open_reach True sleep_init s \<and> pc_of s t = Opened \<and> pc_of s t' = Opened"
proof -
  define s1 where "s1 = go t Test (sleep_init\<lparr>use_count := 1\<rparr>)"
  define s2 where "s2 = go t' Test ((go t Found_Free s1)\<lparr>use_count := 2\<rparr>)"
  let ?A = "{t, t'}"
  have r1: "open_run True ?A sleep_init s1"
    using open_run_mono [OF run_test [of sleep_init t True], of ?A] by (simp add: s1_def sleep_init_def)
  have r2: "open_run True ?A s1 (go t Found_Free s1)"
    by (rule open_run_step [OF open_step.found_free [where t = t]]) (simp_all add: s1_def sleep_init_def)
  have r3: "open_run True ?A (go t Found_Free s1) s2"
    using open_run_mono [OF run_test [of "go t Found_Free s1" t' True], of ?A] assms
    by (simp add: s2_def s1_def sleep_init_def)
  have r4: "open_run True ?A s2 (go t' Opened (s2\<lparr>Already_Open := True\<rparr>))" (is "open_run True _ s2 ?s3")
    by (rule open_run_mono [OF run_opened]) (simp_all add: s2_def s1_def sleep_init_def)
  have r5: "open_run True ?A ?s3 (go t Opened (?s3\<lparr>Already_Open := True\<rparr>))"
    by (rule open_run_step [OF open_step.set_open [where t = t]]) (use assms in \<open>simp_all add: s2_def\<close>)
  have "open_run True ?A sleep_init (go t Opened (?s3\<lparr>Already_Open := True\<rparr>))"
    using r1 r2 r3 r4 r5 by (blast intro: open_run_trans)
  moreover have "pc_of (go t Opened (?s3\<lparr>Already_Open := True\<rparr>)) t = Opened"
    "pc_of (go t Opened (?s3\<lparr>Already_Open := True\<rparr>)) t' = Opened"
    using assms by (simp_all add: go_def)
  ultimately show ?thesis by (blast intro: open_run_reach)
qed

text \<open>
  A pending signal whose number is above 32 ends the wait, but \<open>is_sig\<close> does not see it: the
  process goes round the loop, never giving up the processor, with nothing changed.
\<close>

lemma high_signal_spins:
  assumes "pc_of s t = Test" "Already_Open s" "any_signal (sigs s t)" "\<not> is_sig (sigs s t)"
    and "\<not> asleep s t"
  shows "open_run p {t} s (go t Woken s)" "open_step p t (go t Woken s) s"
    and "open_step p t u u' \<Longrightarrow> Already_Open u \<Longrightarrow> any_signal (sigs u t) \<Longrightarrow> \<not> is_sig (sigs u t) \<Longrightarrow>
      waits (pc_of u t) \<Longrightarrow> pc_of u t \<noteq> Sleeping \<Longrightarrow> waits (pc_of u' t) \<and> pc_of u' t \<noteq> Sleeping"
proof -
  show "open_run p {t} s (go t Woken s)"
    by (rule open_run_next [OF run_prepared open_step.wait_done [where t = t]])
      (use assms in \<open>simp_all add: go_def mark_def fun_upd_idem\<close>)
  show "open_step p t (go t Woken s) s"
    using open_step.no_sig [of "go t Woken s" t p] assms by (simp add: go_same)
  show "open_step p t u u' \<Longrightarrow> Already_Open u \<Longrightarrow> any_signal (sigs u t) \<Longrightarrow> \<not> is_sig (sigs u t) \<Longrightarrow>
      waits (pc_of u t) \<Longrightarrow> pc_of u t \<noteq> Sleeping \<Longrightarrow> waits (pc_of u' t) \<and> pc_of u' t \<noteq> Sleeping"
    by (erule open_stepE) auto
qed

section \<open>Setting up\<close>

definition sleep_name :: path where "sleep_name = [''sleep'']"

definition sleep_init_module :: "bool \<Rightarrow> proc_tab \<Rightarrow> int \<times> proc_tab" where
  "sleep_init_module ok tab =
     (let (made, tab) = create_proc ok sleep_name (mk_entry P_file 0x1A4) tab
      in if \<not> made then (- ENOMEM, remove_proc_entry sleep_name tab)
         else (0, tab(sleep_name \<mapsto> (mk_entry P_file 0x81A4)\<lparr>pe_size := 80\<rparr>)))"

definition sleep_cleanup_module :: "proc_tab \<Rightarrow> proc_tab" where
  "sleep_cleanup_module tab = remove_proc_entry sleep_name tab"

interpretation sleep_mod: module_life sleep_init_module sleep_cleanup_module id
  "\<lambda>tab. tab sleep_name = None" "\<lambda>_. True"
  by unfold_locales
    (auto simp: sleep_init_module_def sleep_cleanup_module_def create_proc_def split: if_splits)

section \<open>The reader that does not wait\<close>

text \<open>
  \<open>cat_noblock.c\<close>: what \<open>main\<close> prints and its exit status. \<open>open_file\<close> and the results of the
  successive calls of \<open>read\<close> are parameters, an error is the value of \<open>errno\<close>. The conditions
  \<open>errno = EAGAIN\<close> assign: the branch taken is that of \<open>EAGAIN\<close> whatever the error was. The
  \<open>do\<close> loop ends at the first empty read; \<open>None\<close>: the list of results ends before it does.
\<close>

fun cat_loop :: "(int + byte list) list \<Rightarrow> (int \<times> byte list) option" where
  "cat_loop [] = None"
| "cat_loop (Inl errno # rs) =
     (let errno = EAGAIN
      in Some (-1, if errno \<noteq> 0 then str ''Normally I'd block, but you told me not to'' @ [10]
                   else str ''Another read error'' @ [10]))"
| "cat_loop (Inr xs # rs) =
     (if xs = [] then Some (0, [])
      else map_option (map_prod id ((@) xs)) (cat_loop rs))"

definition cat_main :: "byte list list \<Rightarrow> (int + (int + byte list) list) \<Rightarrow> (int \<times> byte list) option" where
  "cat_main argv fd =
     (if length argv \<noteq> 2
      then Some (-1, str ''Usage: '' @ argv ! 0 @ str '' <filename>'' @ [10] @
             str ''Reads the content of a file, but doesn't wait for input'' @ [10])
      else (case fd of
        Inl errno \<Rightarrow>
          let errno = EAGAIN
          in Some (-1, if errno \<noteq> 0 then str ''Open would block'' @ [10] else str ''Open failed'' @ [10])
      | Inr rs \<Rightarrow> cat_loop rs))"

lemma cat_prints:
  "[] \<notin> set xss \<Longrightarrow> cat_main [a, f] (Inr (map Inr xss @ Inr [] # rs)) = Some (0, concat xss)"
  by (induction xss) (auto simp: cat_main_def)

lemma cat_open_error: "cat_main [a, f] (Inl e) = Some (-1, str ''Open would block'' @ [10])"
  by (simp add: cat_main_def)

end
