(* ===== verification/Driver_Properties.thy ===== *)
theory Driver_Properties
  imports Char_Client Char_Hello_Log Query_App Parallel_Port Proc_Modules Sleep_Proc
begin

unbundle bit_operations_syntax

text \<open>
  Properties of the drivers and of the programs that use them: the blocking \<open>/proc\<close> file, the
  message device, the query driver, video RAM, the parallel port, and loading and unloading.
\<close>

section \<open>The blocking file\<close>

text \<open>
  C31. When a process cannot be interrupted between its test of \<open>Already_Open\<close> and the assignment,
  at most one process has the file open, and then \<open>Already_Open\<close> is set.
\<close>

theorem open_is_exclusive:
  assumes "open_reach False sleep_init s" "pc_of s t = Opened" "pc_of s t' = Opened"
  shows "t = t' \<and> Already_Open s"
  using excl_inv_reach [OF assms(1) sleep_init_excl] assms(2,3) by (auto simp: excl_inv_def)

lemma run_one_open:
  "\<exists>s. open_run p {t} sleep_init s \<and> pc_of s t = Opened \<and> use_count s = 1"
proof -
  let ?s = "go t Test (sleep_init\<lparr>use_count := 1\<rparr>)"
  have "open_run p {t} sleep_init ?s"
    using run_test [of sleep_init t p] by (simp add: sleep_init_def)
  moreover have "open_run p {t} ?s (go t Opened (?s\<lparr>Already_Open := True\<rparr>))"
    by (rule run_opened) (simp_all add: sleep_init_def)
  moreover have "use_count (go t Opened (?s\<lparr>Already_Open := True\<rparr>)) = 1"
    "pc_of (go t Opened (?s\<lparr>Already_Open := True\<rparr>)) t = Opened"
    by (simp_all add: go_def)
  ultimately show ?thesis by (blast intro: open_run_trans)
qed

lemma reach_one_open:
  "\<exists>s. open_reach p sleep_init s \<and> pc_of s t = Opened \<and> use_count s = 1"
  using run_one_open [of p t] by (blast intro: open_run_reach)

lemma open_is_exclusive_witness:
  "\<exists>s. open_reach False sleep_init s \<and> pc_of s 7 = Opened \<and> Already_Open s"
proof -
  obtain s where "open_reach False sleep_init s" "pc_of s 7 = Opened"
    using reach_one_open by blast
  then show ?thesis using open_is_exclusive [of s 7 7] by blast
qed

text \<open>
  C32. On a preemptible kernel two processes can have the file open at once: the comment "If we got
  here, Already_Open must be zero" does not hold at the assignment.
\<close>

theorem open_race:
  assumes "t \<noteq> t'"
  shows "\<exists>s. open_reach True sleep_init s \<and> pc_of s t = Opened \<and> pc_of s t' = Opened"
  by (rule double_open [OF assms])

lemma open_race_witness:
  "\<exists>s. open_reach True sleep_init s \<and> pc_of s 1 = Opened \<and> pc_of s 2 = Opened"
  using open_race [of 1 2] by simp

text \<open>
  C33. In every reachable state the module's use count is the number of processes between
  \<open>try_module_get\<close> and \<open>module_put\<close>, interrupted ones included: it is never negative, and zero
  when nobody is inside.
\<close>

theorem use_count_exact:
  assumes "open_reach preempt sleep_init s"
  shows "finite {t. counted (pc_of s t)} \<and> use_count s = int (card {t. counted (pc_of s t)}) \<and>
    0 \<le> use_count s \<and> (use_count s = 0 \<longleftrightarrow> (\<forall>t. \<not> counted (pc_of s t)))"
  using count_inv_reach [OF assms sleep_init_count] by (auto simp: count_inv_def)

lemma use_count_exact_witness:
  "\<exists>s. open_reach True sleep_init s \<and> use_count s = 1 \<and> card {t. counted (pc_of s t)} = 1"
proof -
  obtain s where s: "open_reach True sleep_init s" "use_count s = 1" using reach_one_open by blast
  then show ?thesis using use_count_exact [OF s(1)] by auto
qed

text \<open>
  C34. No wake-up is lost: from every reachable state a process in the waiting loop without a
  pending signal can go on to open the file, by steps of its own and of one other process; any
  process that has the file open can be that one, by closing it. A process asleep in the queue
  stays there until some process wakes the queue from \<open>module_close\<close>, or a signal comes.
\<close>

theorem waiter_gets_file:
  assumes "open_reach p sleep_init s" "waits (pc_of s t)" "\<not> any_signal (sigs s t)"
  shows "(\<exists>h s'. open_run p {h, t} s s' \<and> pc_of s' t = Opened) \<and>
    (\<forall>h. pc_of s h = Opened \<longrightarrow> (\<exists>s'. open_run p {h, t} s s' \<and> pc_of s' t = Opened)) \<and>
    (\<forall>t' s'. open_step p t' s s' \<longrightarrow> pc_of s t = Sleeping \<longrightarrow> asleep s t \<longrightarrow>
       pc_of s' t = Sleeping \<and> (asleep s' t \<or> pc_of s t' = Closing))"
  using waiter_served [OF wait_inv_reach [OF assms(1) sleep_init_wait] assms(2,3)]
    waiter_after_close [OF _ assms(2,3)] sleeper_stays
  by blast

text \<open>Process 1 has the file open; process 2 goes to sleep.\<close>

lemma reach_sleeping:
  "\<exists>s. open_reach False sleep_init s \<and> pc_of s 1 = Opened \<and> pc_of s 2 = Sleeping \<and> asleep s 2 \<and>
    \<not> any_signal (sigs s 2)"
proof -
  define s1 where "s1 = go 1 Opened (sleep_init\<lparr>use_count := 1, Already_Open := True\<rparr>)"
  define s2 where "s2 = go 2 Test (s1\<lparr>use_count := 2\<rparr>)"
  let ?A = "{1, 2}"
  have "open_run False ?A sleep_init (go 1 Test (sleep_init\<lparr>use_count := 1\<rparr>))"
    using open_run_mono [OF run_test [of sleep_init 1], of ?A] by (simp add: sleep_init_def)
  moreover have "open_run False ?A (go 1 Test (sleep_init\<lparr>use_count := 1\<rparr>)) s1"
    using open_run_mono [OF run_opened [of "go 1 Test (sleep_init\<lparr>use_count := 1\<rparr>)" 1], of ?A]
    by (simp add: s1_def sleep_init_def go_def)
  moreover have "open_run False ?A s1 s2"
    using open_run_mono [OF run_test [of s1 2], of ?A] by (simp add: s2_def s1_def sleep_init_def)
  moreover have "open_run False ?A s2 (go 2 Sleeping (mark 2 True s2))"
    by (rule open_run_mono [OF run_asleep]) (simp_all add: s2_def s1_def sleep_init_def any_signal_def)
  ultimately have "open_reach False sleep_init (go 2 Sleeping (mark 2 True s2))"
    by (blast intro: open_run_trans open_run_reach)
  then show ?thesis
    by (intro exI [of _ "go 2 Sleeping (mark 2 True s2)"])
      (simp add: s2_def s1_def sleep_init_def any_signal_def)
qed

lemma waiter_gets_file_witness:
  "\<exists>s s'. open_reach False sleep_init s \<and> pc_of s 2 = Sleeping \<and> asleep s 2 \<and>
    open_run False {1, 2} s s' \<and> pc_of s' 2 = Opened"
proof -
  obtain s where s: "open_reach False sleep_init s" "pc_of s 1 = Opened" "pc_of s 2 = Sleeping"
    "asleep s 2" "\<not> any_signal (sigs s 2)"
    using reach_sleeping by blast
  then have "waits (pc_of s 2)" by simp
  then show ?thesis using waiter_gets_file [OF s(1) _ s(5)] s by blast
qed

section \<open>The message device\<close>

text \<open>
  C35. Setting a message of 1 to 79 bytes by \<open>ioctl\<close> and getting it by \<open>ioctl\<close> gives the message
  and its NUL, and every byte of it on its own by \<open>IOCTL_GET_NTH_BYTE\<close>; getting once more gives
  the empty string.
\<close>

theorem message_round_trip:
  assumes "0 \<notin> set s" "s \<noteq> []" "length s \<le> 79" "length (cd_Message d) = 80" "length ubuf = 100"
  shows "\<exists>d1 d2. device_ioctl IOCTL_SET_MSG p (s @ [0]) d = Some (0, s @ [0], d1) \<and>
    device_ioctl IOCTL_GET_MSG p ubuf d1 = Some (0, s @ 0 # drop (Suc (length s)) ubuf, d2) \<and>
    device_ioctl IOCTL_GET_MSG p ubuf d2 = Some (0, 0 # drop 1 ubuf, d2) \<and>
    (\<forall>i < length s. device_ioctl IOCTL_GET_NTH_BYTE i [] d1 = Some (sint (s ! i), [], d1))"
proof -
  let ?r = "drop (Suc (length s)) (cd_Message d)"
  let ?d1 = "d\<lparr>cd_Message := s @ 0 # ?r, Message_Ptr := Some 0\<rparr>"
  let ?d2 = "?d1\<lparr>Message_Ptr := Some (length s)\<rparr>"
  have "cd_ok d" using assms(4) by (simp add: cd_ok_def)
  then have 1: "device_ioctl IOCTL_SET_MSG p (s @ [0]) d = Some (0, s @ [0], ?d1)"
    using device_set_msg [OF assms(1-3), of d p "[]"] by simp
  have 2: "device_ioctl IOCTL_GET_MSG p ubuf ?d1 = Some (0, s @ 0 # drop (Suc (length s)) ubuf, ?d2)"
    using device_get_msg [of ?d1 "[]" s ?r ubuf p] assms by simp
  have 3: "device_ioctl IOCTL_GET_MSG p ubuf ?d2 = Some (0, 0 # drop 1 ubuf, ?d2)"
    using device_get_msg [of ?d2 s "[]" ?r ubuf p] assms by simp
  have "device_ioctl IOCTL_GET_NTH_BYTE i [] ?d1 = Some (sint (s ! i), [], ?d1)" if "i < length s" for i
    using that by (simp add: device_ioctl_def nth_append)
  then show ?thesis using 1 2 3 by blast
qed

definition blank_dev :: chardev where
  "blank_dev = \<lparr>Device_Open = 0, cd_Message = replicate 80 0, Message_Ptr = None, module_refs = 0\<rparr>"

lemma message_round_trip_witness:
  "\<exists>d1 d2. device_ioctl IOCTL_SET_MSG 0 [104, 105, 0] blank_dev = Some (0, [104, 105, 0], d1) \<and>
    device_ioctl IOCTL_GET_MSG 0 (replicate 100 9) d1 = Some (0, [104, 105] @ 0 # replicate 97 9, d2)"
proof -
  have a: "0 \<notin> set [104, 105 :: byte]" "[104, 105 :: byte] \<noteq> []" "length [104, 105 :: byte] \<le> 79"
    "length (cd_Message blank_dev) = 80" "length (replicate 100 (9 :: byte)) = 100"
    by (simp_all add: blank_dev_def)
  from message_round_trip [OF a, of 0] show ?thesis by fastforce
qed

text \<open>
  C36. The client program, on a closed device whose message \<open>s\<close> has seven-bit characters, prints
  \<open>s\<close> byte by byte with its NUL and once more as a string, leaves its own message in the device,
  and leaves the device closed with the module's use count as it was.
\<close>

theorem client_prints_message:
  assumes "Device_Open d = 0" "cd_ok d" "cd_Message d = s @ 0 # r" "ascii s" "length s \<le> 79"
    and "length stack = 100"
  shows "\<exists>d' r'. client_main stack d = Some (True,
      str ''get_nth_byte message:'' @ s @ [0, 10] @ str ''get_msg message:'' @ s @ [10], d') \<and>
    Device_Open d' = 0 \<and> cd_ok d' \<and> cd_Message d' = client_msg @ 0 # r' \<and>
    module_refs d' = module_refs d"
  by (rule client_main_prints [OF assms])

lemma client_prints_message_witness:
  "\<exists>d' r'. client_main (replicate 100 9) (blank_dev\<lparr>cd_Message := [104, 105] @ 0 # replicate 77 0\<rparr>) =
      Some (True, str ''get_nth_byte message:'' @ [104, 105] @ [0, 10] @
        str ''get_msg message:'' @ [104, 105] @ [10], d') \<and> cd_Message d' = client_msg @ 0 # r'"
proof -
  let ?d = "blank_dev\<lparr>cd_Message := [104, 105] @ 0 # replicate 77 0\<rparr>"
  have a: "Device_Open ?d = 0" "cd_ok ?d" "cd_Message ?d = [104, 105] @ 0 # replicate 77 0"
    "ascii [104, 105]" "length [104, 105 :: byte] \<le> 79" "length (replicate 100 (9 :: byte)) = 100"
    by (simp_all add: blank_dev_def cd_ok_def ascii_def)
  from client_prints_message [OF a] show ?thesis by blast
qed

text \<open>
  A write of 80 bytes or more without a NUL fills the message buffer with no terminator: a
  read of more than 80 bytes afterwards runs past the end of the buffer.
\<close>

theorem full_write_unterminated:
  assumes "0 \<notin> set xs" "80 \<le> length xs" "cd_ok d" "80 < len"
  shows "fst (device_write (length xs) xs d) = 80 \<and>
    device_read len ubuf (snd (device_write (length xs) xs d)) = None"
  using write_full_unterminated [OF assms] assms(2) by (simp add: device_write_def Let_def)

section \<open>Query variables and video RAM\<close>

text \<open>
  C37. Numbers typed into \<open>query_app -s\<close> become the driver's variables, as 32-bit integers of
  either sign; \<open>query_app -g\<close> prints them in decimal and changes nothing; \<open>query_app -c\<close> clears
  them.
\<close>

theorem query_app_round_trip:
  fixes n q :: query
  assumes "length stack = 12"
  shows "query_main [a, str ''-s''] True stack v
      (dec_word (status n) @ [10] @ dec_word (dignity n) @ [10] @ dec_word (ego n) @ [10]) q =
      (0, str ''Enter Status: Enter Dignity: Enter Ego: '', n) \<and>
    query_main [a, str ''-g''] True stack v inp n = (0, vars_text n, n) \<and>
    query_main [a, str ''-c''] True stack v inp n = (0, [], \<lparr>status = 0, dignity = 0, ego = 0\<rparr>)"
  using query_set_get(1) [OF refl assms] query_set_get(2,3) [OF refl assms] by blast

lemma query_app_round_trip_witness:
  "query_main [[], str ''-s''] True (replicate 12 0) 0
      (dec_word 7 @ [10] @ dec_word (- 1) @ [10] @ dec_word 0 @ [10]) query_start =
    (0, str ''Enter Status: Enter Dignity: Enter Ego: '', \<lparr>status = 7, dignity = - 1, ego = 0\<rparr>)"
proof -
  have "length (replicate 12 (0 :: byte)) = 12" by simp
  from query_app_round_trip [OF this, of "[]" 0 "\<lparr>status = 7, dignity = - 1, ego = 0\<rparr>" query_start]
  show ?thesis by simp
qed

text \<open>
  A write to video RAM at a position inside it followed by a read at the same position: both
  move as many bytes as asked for, or as there are up to the end, advance the position alike, and
  the read returns what was written; bytes outside the range keep their values.
\<close>

theorem vram_write_then_read:
  assumes "length vram = 0x20000" "off < VRAM_SIZE" "unat len < 2 ^ 63"
    and "vram_bytes off len \<le> length src" "vram_bytes off len \<le> length dst"
  shows "\<exists>pos vram'. vram_write src off len vram = Some (int (vram_bytes off len), pos, vram') \<and>
    vram_read vram' off len dst =
      Some (int (vram_bytes off len), pos, take (vram_bytes off len) src @ drop (vram_bytes off len) dst) \<and>
    length vram' = 0x20000 \<and>
    (\<forall>i < 0x20000. i < unat off \<or> unat off + vram_bytes off len \<le> i \<longrightarrow> vram' ! i = vram ! i)"
proof -
  let ?n = "vram_bytes off len" and ?o = "unat off"
  let ?v = "put_bytes ?o (take ?n src) vram"
  have fits: "?o + ?n \<le> length vram"
    using assms(1,2) by (simp add: vram_bytes_def word_less_nat_alt VRAM_SIZE_def)
  have tl: "length (take ?n src) = ?n" using assms(4) by simp
  have lv: "length ?v = 0x20000" using fits assms(1) tl by simp
  note w = vram_write_eq [OF assms(1-4)]
  note r = vram_read_eq [OF lv assms(2,3,5)]
  have "get_bytes ?o ?n ?v = take ?n src" using fits tl by (metis get_put_same)
  then have "put_bytes 0 (get_bytes ?o ?n ?v) dst = take ?n src @ drop ?n dst"
    using tl by (simp add: put_bytes_def)
  moreover have "?v ! i = vram ! i" if "i < 0x20000" "i < ?o \<or> ?o + ?n \<le> i" for i
    using that fits tl assms(1) by (auto simp: nth_put_bytes)
  ultimately show ?thesis using w r lv by auto
qed

section \<open>The parallel port\<close>

text \<open>
  The test program of module4 on a closed device prints that the driver says just what was
  written, for the bytes 0 to 9; those ten bytes and a zero go to the port in order, and the
  device is closed again. A second opener is refused while the device is open.
\<close>

theorem module4_test_passes:
  assumes "flagopen p = 0"
  shows "\<exists>p'. mod4_test_main val p = (0, map (\<lambda>x. (of_nat x, of_nat x)) [0..<10], p') \<and>
    port_out p' = port_out p @ map of_nat [0..<10] @ [0] \<and> flagopen p' = 0 \<and>
    module4_open (snd (module4_open p)) = (- EBUSY, snd (module4_open p))"
proof -
  have u: "[0..<10] = [0, 1, 2, 3, 4, 5, 6, 7, 8, 9::nat]" by (simp add: upt_conv_Cons)
  show ?thesis
    using assms unfolding mod4_test_main_def
    by (simp add: module4_open_def mod4_test_loop_eq module4_write_eq module4_release_def Let_def)
qed

section \<open>Loading and unloading\<close>

text \<open>
  Loading and unloading the \<open>/proc\<close> tree example any number of times, whichever of its entries
  the kernel cannot make each time, leaves \<open>/proc\<close> as it was; the same of the resources of the
  query driver when \<open>cdev_add\<close> does not fail.
\<close>

theorem reloading_leaves_nothing:
  assumes "\<forall>p \<in> set procex_paths. px_tab m p = None"
    and "\<forall>k \<in> set qs. query_answers k" "h \<inter> ofcd_res = {}"
  shows "px_tab (fold (\<lambda>k m. let (r, m') = init_procfs_example k m
      in if r < 0 then m' else cleanup_procfs_example m') ks m) = px_tab m \<and>
    fold (\<lambda>k h. let (r, h') = query_ioctl_init k h
      in if r < 0 then h' else query_ioctl_exit h') qs h = h"
proof
  have "procex.cycle = (\<lambda>k m. let (r, m') = init_procfs_example k m
      in if r < 0 then m' else cleanup_procfs_example m')"
    by (intro ext) (simp add: procex.cycle_def)
  then show "px_tab (fold (\<lambda>k m. let (r, m') = init_procfs_example k m
      in if r < 0 then m' else cleanup_procfs_example m') ks m) = px_tab m"
    using procex.cycles_view [OF _ assms(1), of ks] by simp
  have "query_life.cycle = (\<lambda>k h. let (r, h') = query_ioctl_init k h
      in if r < 0 then h' else query_ioctl_exit h')"
    by (intro ext) (simp add: query_life.cycle_def)
  then show "fold (\<lambda>k h. let (r, h') = query_ioctl_init k h
      in if r < 0 then h' else query_ioctl_exit h') qs h = h"
    using query_life.cycles_view [OF assms(2), of h] assms(3) by simp
qed

section \<open>Values under \<open>/proc\<close>\<close>

text \<open>
  Bytes without NUL written to \<open>foo\<close> or \<open>bar\<close> are read back, cut to eight, quoted behind the
  entry's name; the buffers stay terminated. A write whose user buffer is shorter than it says
  fails with -EFAULT.
\<close>

theorem proc_value_round_trip:
  assumes "fb_ok d" "cstr (fb_name d) = Some n" "0 \<notin> set s" "length short < 8" "8 \<le> count"
  shows "\<exists>d'. proc_write_foobar (length s) s d = (int (min 8 (length s)), d') \<and> fb_ok d' \<and>
    proc_read_foobar d' = Some (n @ str '' = '' @ [39] @ take 8 s @ [39, 10]) \<and>
    fst (proc_write_foobar count short d) = - EFAULT"
  using proc_write_read [OF assms(1-3)] proc_write_fault [OF assms(1,4,5)] by auto

end
