(* ===== verification/Platform_Bus.thy ===== *)
theory Platform_Bus
  imports Kernel_Services
begin

text \<open>
  The platform driver example (\<open>platform_device_driver/AVR32743/platform/platform_driver.c\<close>) on a
  platform bus: the device objects, the devices registered, and the messages printed. A device is
  bound to the driver when their names are equal and probing returns zero. \<open>klog\<close> is the kernel
  log, oldest first.
\<close>

datatype bus_msg =
    Probe_called int int | Remove_called int | Suspend_called int | Resume_called int
  | Registering string int | Removing "string option"

record platform_example_data =
  value_of :: int

record pdevice =
  pd_name :: string
  pd_id :: int
  pd_init_name :: "string option"
  pd_data :: "platform_example_data option"
  pd_refs :: nat
  pd_bound :: bool

record bus =
  bmem :: "nat \<Rightarrow> pdevice option"
  bnext :: nat
  on_bus :: "nat list"
  example_driver :: bool
  klog :: "bus_msg list"

definition bus_print :: "bus_msg list \<Rightarrow> bus \<Rightarrow> bus" where
  "bus_print ms s = s\<lparr>klog := klog s @ ms\<rparr>"

section \<open>The driver\<close>

definition platform_example_name :: string where
  "platform_example_name = ''platform_example''"

definition platform_example_probe :: "pdevice \<Rightarrow> int \<times> bus_msg list" where
  "platform_example_probe d =
     (0, [Probe_called (pd_id d) (case pd_data d of Some pdata \<Rightarrow> value_of pdata | None \<Rightarrow> - 1)])"

definition platform_example_remove :: "pdevice \<Rightarrow> int \<times> bus_msg list" where
  "platform_example_remove d = (0, [Remove_called (pd_id d)])"

definition platform_example_suspend :: "pdevice \<Rightarrow> int \<times> bus_msg list" where
  "platform_example_suspend d = (0, [Suspend_called (pd_id d)])"

definition platform_example_resume :: "pdevice \<Rightarrow> int \<times> bus_msg list" where
  "platform_example_resume d = (0, [Resume_called (pd_id d)])"

section \<open>Binding\<close>

text \<open>What the bus does with the driver when a device or the driver comes or goes.\<close>

definition bind_dev :: "nat \<Rightarrow> bus \<Rightarrow> bus" where
  "bind_dev a s =
     (case bmem s a of
        Some d \<Rightarrow>
          if example_driver s \<and> pd_name d = platform_example_name \<and> \<not> pd_bound d then
            (let (ret, ms) = platform_example_probe d
             in bus_print ms
                  (if ret = 0 then s\<lparr>bmem := (bmem s)(a \<mapsto> d\<lparr>pd_bound := True\<rparr>)\<rparr> else s))
          else s
      | None \<Rightarrow> s)"

definition unbind_dev :: "nat \<Rightarrow> bus \<Rightarrow> bus" where
  "unbind_dev a s =
     (case bmem s a of
        Some d \<Rightarrow>
          if pd_bound d then
            bus_print (snd (platform_example_remove d))
              (s\<lparr>bmem := (bmem s)(a \<mapsto> d\<lparr>pd_bound := False\<rparr>)\<rparr>)
          else s
      | None \<Rightarrow> s)"

text \<open>\<open>ans\<close>: the kernel's answer to the registration.\<close>

definition platform_driver_register :: "int \<Rightarrow> bus \<Rightarrow> int \<times> bus" where
  "platform_driver_register ans s =
     (if ans < 0 then (ans, s) else (0, fold bind_dev (on_bus s) (s\<lparr>example_driver := True\<rparr>)))"

definition platform_driver_unregister :: "bus \<Rightarrow> bus" where
  "platform_driver_unregister s = (fold unbind_dev (on_bus s) s)\<lparr>example_driver := False\<rparr>"

definition platform_example_init :: "int \<Rightarrow> bus \<Rightarrow> int \<times> bus" where
  "platform_example_init ans s = platform_driver_register ans s"

definition platform_example_exit :: "bus \<Rightarrow> bus" where
  "platform_example_exit s = platform_driver_unregister s"

section \<open>Binding many devices\<close>

lemmas bind_simps = bind_dev_def unbind_dev_def bus_print_def platform_example_probe_def
  platform_example_remove_def

lemma bind_keeps [simp]:
  "on_bus (bind_dev a s) = on_bus s" "example_driver (bind_dev a s) = example_driver s"
  "bnext (bind_dev a s) = bnext s"
  "on_bus (unbind_dev a s) = on_bus s" "example_driver (unbind_dev a s) = example_driver s"
  "bnext (unbind_dev a s) = bnext s"
  by (auto simp: bind_simps split: option.split)

lemma binds_keep [simp]:
  "on_bus (fold bind_dev l s) = on_bus s" "example_driver (fold bind_dev l s) = example_driver s"
  "bnext (fold bind_dev l s) = bnext s"
  "on_bus (fold unbind_dev l s) = on_bus s" "example_driver (fold unbind_dev l s) = example_driver s"
  "bnext (fold unbind_dev l s) = bnext s"
  by (induction l arbitrary: s) simp_all

definition bound_by :: "bus \<Rightarrow> pdevice \<Rightarrow> pdevice" where
  "bound_by s d =
     (if example_driver s \<and> pd_name d = platform_example_name then d\<lparr>pd_bound := True\<rparr> else d)"

lemma bound_by_bound [simp]: "pd_bound d \<Longrightarrow> bound_by s d = d"
  by (cases d) (simp add: bound_by_def)

lemma bound_by_twice [simp]: "bound_by s (bound_by s d) = bound_by s d"
  by (simp add: bound_by_def)

lemma bound_by_cong: "example_driver s = example_driver t \<Longrightarrow> bound_by s = bound_by t"
  by (auto simp: bound_by_def)

lemma bind_mem:
  "bmem (bind_dev a s) = (bmem s)(a := map_option (bound_by s) (bmem s a))"
  by (cases "bmem s a") (auto simp: bind_dev_def bus_print_def platform_example_probe_def bound_by_def
      fun_eq_iff split: if_splits)

lemma binds_mem:
  "bmem (fold bind_dev l s) =
     (\<lambda>a. if a \<in> set l then map_option (bound_by s) (bmem s a) else bmem s a)"
proof (induction l arbitrary: s)
  case (Cons b l)
  have [simp]: "bound_by (bind_dev b s) = bound_by s" by (rule bound_by_cong) simp
  show ?case
    by (auto simp: Cons.IH bind_mem fun_eq_iff option.map_comp comp_def)
qed simp

lemma unbind_mem:
  "bmem (unbind_dev a s) = (bmem s)(a := map_option (pd_bound_update (\<lambda>_. False)) (bmem s a))"
proof (cases "bmem s a")
  case (Some d)
  then show ?thesis by (cases d) (auto simp: unbind_dev_def bus_print_def fun_eq_iff)
qed (auto simp: unbind_dev_def)

lemma unbinds_mem:
  "bmem (fold unbind_dev l s) =
     (\<lambda>a. if a \<in> set l then map_option (pd_bound_update (\<lambda>_. False)) (bmem s a) else bmem s a)"
  by (induction l arbitrary: s) (auto simp: unbind_mem fun_eq_iff option.map_comp comp_def)

lemma unbound_device [simp]: "\<not> pd_bound d \<Longrightarrow> (bound_by s d)\<lparr>pd_bound := False\<rparr> = d"
  by (cases d) (simp add: bound_by_def)

text \<open>Loading and unloading the driver, whatever devices are there, changes nothing but the log.\<close>

definition bus_view :: "bus \<Rightarrow> (nat \<Rightarrow> pdevice option) \<times> nat list \<times> bool" where
  "bus_view s = (bmem s, on_bus s, example_driver s)"

definition no_driver :: "(nat \<Rightarrow> pdevice option) \<times> nat list \<times> bool \<Rightarrow> bool" where
  "no_driver v \<longleftrightarrow> (case v of (m, l, d) \<Rightarrow> \<not> d \<and> (\<forall>a x. m a = Some x \<longrightarrow> \<not> pd_bound x))"

lemma unbind_after_bind:
  assumes "\<forall>a x. bmem s a = Some x \<longrightarrow> \<not> pd_bound x"
  shows "bmem (fold unbind_dev l (fold bind_dev l s)) = bmem s"
proof
  fix a
  show "bmem (fold unbind_dev l (fold bind_dev l s)) a = bmem s a"
    using assms by (cases "bmem s a") (auto simp: unbinds_mem binds_mem)
qed

interpretation platform_life:
  module_life platform_example_init platform_example_exit bus_view no_driver "\<lambda>_. True"
proof unfold_locales
  fix k s r s'
  assume f: "no_driver (bus_view s)" and i: "platform_example_init k s = (r, s')" and "\<not> r < 0"
  then have s': "s' = fold bind_dev (on_bus s) (s\<lparr>example_driver := True\<rparr>)"
    by (auto simp: platform_example_init_def platform_driver_register_def split: if_splits)
  have "\<forall>a x. bmem (s\<lparr>example_driver := True\<rparr>) a = Some x \<longrightarrow> \<not> pd_bound x"
    using f by (simp add: no_driver_def bus_view_def)
  from unbind_after_bind [OF this] show "bus_view (platform_example_exit s') = bus_view s"
    using f by (simp add: s' platform_example_exit_def platform_driver_unregister_def bus_view_def
        no_driver_def)
qed (auto simp: platform_example_init_def platform_driver_register_def split: if_splits)

end
