(* ===== verification/Platform_Test.thy ===== *)
theory Platform_Test
  imports Platform_Bus
begin

text \<open>
  The module that puts devices on the platform bus
  (\<open>platform_device_driver/AVR32743/platform/platform_test.c\<close>). The result \<open>None\<close> of the calls
  of the bus is the use of an object that has been freed or was never registered. A device object
  is freed by the kernel when its last reference is dropped; registering and unregistering keep
  the reference of the allocation.
\<close>

section \<open>The calls of the bus\<close>

definition platform_device_alloc :: "bool \<Rightarrow> string \<Rightarrow> int \<Rightarrow> bus \<Rightarrow> nat option \<times> bus" where
  "platform_device_alloc ok name i s =
     (if ok then
        (Some (bnext s),
         s\<lparr>bmem := (bmem s)(bnext s \<mapsto> \<lparr>pd_name = name, pd_id = i, pd_init_name = None,
             pd_data = None, pd_refs = 1, pd_bound = False\<rparr>),
           bnext := bnext s + 1\<rparr>)
      else (None, s))"

definition platform_device_add_data ::
    "int \<Rightarrow> platform_example_data \<Rightarrow> nat \<Rightarrow> bus \<Rightarrow> (int \<times> bus) option" where
  "platform_device_add_data ans x a s =
     (case bmem s a of
        None \<Rightarrow> None
      | Some d \<Rightarrow>
          Some (if ans = 0 then (0, s\<lparr>bmem := (bmem s)(a \<mapsto> d\<lparr>pd_data := Some x\<rparr>)\<rparr>) else (ans, s)))"

definition platform_device_add :: "int \<Rightarrow> nat \<Rightarrow> bus \<Rightarrow> (int \<times> bus) option" where
  "platform_device_add ans a s =
     (case bmem s a of
        None \<Rightarrow> None
      | Some d \<Rightarrow>
          Some (if ans = 0 then (0, bind_dev a (s\<lparr>on_bus := on_bus s @ [a]\<rparr>)) else (ans, s)))"

definition platform_device_put :: "nat option \<Rightarrow> bus \<Rightarrow> bus option" where
  "platform_device_put p s =
     (case p of
        None \<Rightarrow> Some s
      | Some a \<Rightarrow>
          (case bmem s a of
             None \<Rightarrow> None
           | Some d \<Rightarrow>
               Some (s\<lparr>bmem := (bmem s)(a := if pd_refs d \<le> 1 then None
                   else Some (d\<lparr>pd_refs := pd_refs d - 1\<rparr>))\<rparr>)))"

definition platform_device_del :: "nat option \<Rightarrow> bus \<Rightarrow> bus option" where
  "platform_device_del p s =
     (case p of
        None \<Rightarrow> Some s
      | Some a \<Rightarrow>
          if bmem s a \<noteq> None \<and> a \<in> set (on_bus s)
          then Some ((unbind_dev a s)\<lparr>on_bus := remove1 a (on_bus s)\<rparr>) else None)"

section \<open>The module\<close>

text \<open>The kernel's answers for device \<open>i\<close>.\<close>

record test_answers =
  k_alloc :: "nat \<Rightarrow> bool"
  k_data :: "nat \<Rightarrow> int"
  k_add :: "nat \<Rightarrow> int"

definition PLATFORM_DEVICE_NAME :: string where
  "PLATFORM_DEVICE_NAME = ''platform_example''"

definition id_of :: "nat \<Rightarrow> int" where
  "id_of i = sint (of_nat i :: u32)"

text \<open>The body of the loop: \<open>ret\<close>, \<open>pdev\<close> and \<open>devices\<close> when it is left.\<close>

definition add_one ::
    "test_answers \<Rightarrow> int \<Rightarrow> nat \<Rightarrow> nat option list \<Rightarrow> bus \<Rightarrow>
     (int \<times> nat option \<times> nat option list \<times> bus) option" where
  "add_one k value i devices s =
     (let (pdev, s) = platform_device_alloc (k_alloc k i) PLATFORM_DEVICE_NAME (id_of i) s
      in case pdev of
           None \<Rightarrow> Some (- ENOMEM, None, devices, s)
         | Some a \<Rightarrow> do {
             (ret, s) \<leftarrow> platform_device_add_data (k_data k i) \<lparr>value_of = value\<rparr> a s;
             if ret \<noteq> 0 then Some (ret, Some a, devices, s)
             else do {
               (ret, s) \<leftarrow> platform_device_add (k_add k i) a
                 (bus_print [Registering PLATFORM_DEVICE_NAME (id_of i)] s);
               if ret \<noteq> 0 then Some (ret, Some a, devices, s)
               else if i < length devices then Some (0, Some a, devices[i := Some a], s)
               else None
             }
           })"

text \<open>\<open>n\<close> devices to go from \<open>i\<close>. \<open>Inl\<close>: the jump to \<open>fail\<close> with \<open>ret\<close>, \<open>pdev\<close> and \<open>i\<close>.\<close>

fun add_devices ::
    "test_answers \<Rightarrow> int \<Rightarrow> nat \<Rightarrow> nat \<Rightarrow> nat option list \<Rightarrow> bus \<Rightarrow>
     (((int \<times> nat option \<times> nat) + unit) \<times> nat option list \<times> bus) option" where
  "add_devices k value 0 i devices s = Some (Inr (), devices, s)"
| "add_devices k value (Suc n) i devices s = do {
     (ret, pdev, devices, s) \<leftarrow> add_one k value i devices s;
     if ret \<noteq> 0 then Some (Inl (ret, pdev, i), devices, s)
     else add_devices k value n (Suc i) devices s
   }"

text \<open>\<open>while (i--) platform_device_del(devices[i])\<close>\<close>

fun del_devices :: "nat \<Rightarrow> nat option list \<Rightarrow> bus \<Rightarrow> bus option" where
  "del_devices 0 devices s = Some s"
| "del_devices (Suc i) devices s =
     (if i < length devices then do {
        s \<leftarrow> platform_device_del (devices ! i) s;
        del_devices i devices s
      } else None)"

text \<open>
  \<open>devices\<close> is cleared memory for as many pointers of \<open>psz\<close> bytes as its size, computed in
  \<open>size_t\<close> of the same width, holds. The array is \<open>[]\<close> once it is freed.
\<close>

definition devices_size :: "nat \<Rightarrow> u32 \<Rightarrow> nat" where
  "devices_size psz nr_devices = (unat nr_devices * psz) mod 2 ^ (8 * psz)"

definition platform_test_init ::
    "nat \<Rightarrow> bool \<Rightarrow> test_answers \<Rightarrow> u32 \<Rightarrow> int \<Rightarrow> bus \<Rightarrow> (int \<times> nat option list \<times> bus) option" where
  "platform_test_init psz mem_ok k nr_devices value s =
     (if \<not> mem_ok then Some (- ENOMEM, [], s)
      else do {
        (r, devices, s) \<leftarrow> add_devices k value (unat nr_devices) 0
          (replicate (devices_size psz nr_devices div psz) None) s;
        (case r of
           Inr _ \<Rightarrow> Some (0, devices, s)
         | Inl (ret, pdev, i) \<Rightarrow> do {
             s \<leftarrow> platform_device_put pdev s;
             s \<leftarrow> del_devices i devices s;
             Some (ret, [], s)
           })
      })"

text \<open>\<open>for (i = nr_devices; i > 0; i--)\<close>\<close>

fun remove_devices :: "nat \<Rightarrow> nat option list \<Rightarrow> bus \<Rightarrow> bus option" where
  "remove_devices 0 devices s = Some s"
| "remove_devices (Suc i) devices s =
     (if i < length devices then do {
        s \<leftarrow> (case devices ! i of
                None \<Rightarrow> Some s
              | Some a \<Rightarrow>
                  (case bmem s a of
                     None \<Rightarrow> None
                   | Some d \<Rightarrow> Some (bus_print [Removing (pd_init_name d)] s)));
        s \<leftarrow> platform_device_del (devices ! i) s;
        remove_devices i devices s
      } else None)"

definition platform_test_exit :: "u32 \<Rightarrow> nat option list \<Rightarrow> bus \<Rightarrow> bus option" where
  "platform_test_exit nr_devices devices s = remove_devices (unat nr_devices) devices s"

section \<open>The devices that are added\<close>

text \<open>The abstract effect of adding device \<open>i\<close>, and of \<open>n\<close> devices from \<open>i\<close> on.\<close>

definition test_dev :: "int \<Rightarrow> nat \<Rightarrow> bool \<Rightarrow> pdevice" where
  "test_dev value i b = \<lparr>pd_name = PLATFORM_DEVICE_NAME, pd_id = id_of i, pd_init_name = None,
     pd_data = Some \<lparr>value_of = value\<rparr>, pd_refs = 1, pd_bound = b\<rparr>"

definition one_added :: "int \<Rightarrow> nat \<Rightarrow> bus \<Rightarrow> bus" where
  "one_added value i s = s\<lparr>
     bmem := (bmem s)(bnext s \<mapsto> test_dev value i (example_driver s)), bnext := Suc (bnext s),
     on_bus := on_bus s @ [bnext s],
     klog := klog s @ Registering PLATFORM_DEVICE_NAME (id_of i) #
       (if example_driver s then [Probe_called (id_of i) value] else [])\<rparr>"

fun added :: "int \<Rightarrow> nat \<Rightarrow> nat \<Rightarrow> bus \<Rightarrow> bus" where
  "added value 0 i s = s"
| "added value (Suc n) i s = added value n (Suc i) (one_added value i s)"

definition all_answers :: "test_answers \<Rightarrow> nat \<Rightarrow> nat \<Rightarrow> bool" where
  "all_answers k i n \<longleftrightarrow> (\<forall>j \<in> {i ..< i + n}. k_alloc k j \<and> k_data k j = 0 \<and> k_add k j = 0)"

lemma all_answers_Suc [simp]:
  "all_answers k i (Suc n) \<longleftrightarrow>
     k_alloc k i \<and> k_data k i = 0 \<and> k_add k i = 0 \<and> all_answers k (Suc i) n"
proof -
  have "{i ..< i + Suc n} = insert i {Suc i ..< Suc i + n}" by auto
  then show ?thesis by (simp add: all_answers_def)
qed

lemma name_eq [simp]: "PLATFORM_DEVICE_NAME = platform_example_name"
  by (simp add: PLATFORM_DEVICE_NAME_def platform_example_name_def)

lemmas bus_calls = platform_device_alloc_def platform_device_add_data_def platform_device_add_def
  platform_device_put_def platform_device_del_def bind_simps

lemma add_one_ok:
  assumes "k_alloc k i" "k_data k i = 0" "k_add k i = 0" "i < length devices"
  shows "add_one k value i devices s =
    Some (0, Some (bnext s), devices[i := Some (bnext s)], one_added value i s)"
  using assms by (simp add: add_one_def one_added_def test_dev_def bus_calls)

lemma added_keeps [simp]:
  "example_driver (one_added value i s) = example_driver s"
  "bnext (one_added value i s) = Suc (bnext s)"
  "example_driver (added value n i s) = example_driver s"
  "bnext (added value n i s) = bnext s + n"
  by (simp_all add: one_added_def) (induction n arbitrary: i s; simp add: one_added_def)+

lemma added_on_bus: "on_bus (added value n i s) = on_bus s @ [bnext s ..< bnext s + n]"
  by (induction n arbitrary: i s) (simp_all add: one_added_def upt_conv_Cons del: upt_Suc)

lemma added_mem:
  "bmem (added value n i s) a =
     (if bnext s \<le> a \<and> a < bnext s + n then Some (test_dev value (i + a - bnext s) (example_driver s))
      else bmem s a)"
  by (induction n arbitrary: i s) (auto simp: one_added_def not_less_eq_eq le_antisym Suc_diff_le)

lemma added_log:
  "klog (added value n i s) = klog s @ concat (map (\<lambda>j. Registering PLATFORM_DEVICE_NAME (id_of j) #
     (if example_driver s then [Probe_called (id_of j) value] else [])) [i ..< i + n])"
  by (induction n arbitrary: i s) (simp_all add: one_added_def upt_conv_Cons del: upt_Suc)

text \<open>The array: the addresses in a row.\<close>

lemma add_devices_ok:
  assumes "all_answers k i n" "i + n \<le> length devices"
  shows "add_devices k value n i devices s =
    Some (Inr (), take i devices @ map Some [bnext s ..< bnext s + n] @ drop (i + n) devices,
      added value n i s)"
  using assms
proof (induction n arbitrary: i devices s)
  case (Suc n)
  then show ?case
    by (simp add: add_one_ok upt_conv_Cons take_Suc_conv_app_nth nth_list_update drop_update_cancel
        del: upt_Suc)
qed simp

section \<open>Removing devices\<close>

text \<open>The \<open>n\<close> devices from address \<open>b\<close> on are on the bus behind \<open>pre\<close>.\<close>

definition test_devs :: "nat list \<Rightarrow> nat \<Rightarrow> int \<Rightarrow> nat \<Rightarrow> bus \<Rightarrow> bool" where
  "test_devs pre b value n s \<longleftrightarrow> on_bus s = pre @ [b ..< b + n] \<and> (\<forall>a \<in> set pre. a < b) \<and>
     (\<forall>j < n. bmem s (b + j) = Some (test_dev value j (example_driver s)))"

definition one_deleted :: "int \<Rightarrow> nat \<Rightarrow> nat \<Rightarrow> bus \<Rightarrow> bus" where
  "one_deleted value b n s = s\<lparr>
     bmem := (bmem s)(b + n \<mapsto> test_dev value n False), on_bus := butlast (on_bus s),
     klog := klog s @ (if example_driver s then [Remove_called (id_of n)] else [])\<rparr>"

lemma del_last:
  assumes "test_devs pre b value (Suc n) s"
  shows "platform_device_del (Some (b + n)) s = Some (one_deleted value b n s)"
    and "test_devs pre b value n (one_deleted value b n s)"
proof -
  have s: "on_bus s = pre @ [b ..< b + n] @ [b + n]" "b + n \<notin> set pre"
      "bmem s (b + n) = Some (test_dev value n (example_driver s))"
    using assms by (auto simp: test_devs_def)
  have "remove1 (b + n) (on_bus s) = butlast (on_bus s)"
    using s(2) by (simp add: s(1) remove1_append butlast_append)
  moreover have "(bmem s)(b + n \<mapsto> test_dev value n False) = bmem s" if "\<not> example_driver s"
    using s(3) that by auto
  ultimately show "platform_device_del (Some (b + n)) s = Some (one_deleted value b n s)"
    using s by (auto simp: bus_calls one_deleted_def test_dev_def)
  show "test_devs pre b value n (one_deleted value b n s)"
    using assms by (simp add: test_devs_def one_deleted_def butlast_append)
qed

text \<open>Removing \<open>n\<close> devices, the last first, with the messages \<open>ms\<close> of each.\<close>

fun deleted :: "(nat \<Rightarrow> bus_msg list) \<Rightarrow> int \<Rightarrow> nat \<Rightarrow> nat \<Rightarrow> bus \<Rightarrow> bus" where
  "deleted ms value b 0 s = s"
| "deleted ms value b (Suc n) s = deleted ms value b n (one_deleted value b n (bus_print (ms n) s))"

lemma test_devs_print [simp]: "test_devs pre b value n (bus_print ms s) = test_devs pre b value n s"
  by (simp add: test_devs_def bus_print_def)

lemma del_devices_ok:
  assumes "test_devs pre b value n s" "n \<le> length devices" "\<forall>j < n. devices ! j = Some (b + j)"
  shows "del_devices n devices s = Some (deleted (\<lambda>_. []) value b n s)"
  using assms
proof (induction n arbitrary: s)
  case (Suc n)
  have "bus_print [] s = s" by (simp add: bus_print_def)
  then show ?case using Suc del_last [OF Suc.prems(1)] by simp
qed simp

lemma remove_devices_ok:
  assumes "test_devs pre b value n s" "n \<le> length devices" "\<forall>j < n. devices ! j = Some (b + j)"
  shows "remove_devices n devices s = Some (deleted (\<lambda>_. [Removing None]) value b n s)"
  using assms
proof (induction n arbitrary: s)
  case (Suc n)
  have "test_devs pre b value (Suc n) (bus_print [Removing None] s)" using Suc.prems(1) by simp
  note d = del_last [OF this]
  have "bmem s (b + n) = Some (test_dev value n (example_driver s))"
    using Suc.prems(1) by (simp add: test_devs_def)
  then show ?case using Suc d by (simp add: test_dev_def)
qed simp

lemma deleted_keeps [simp]:
  "example_driver (deleted ms value b n s) = example_driver s"
  "bnext (deleted ms value b n s) = bnext s"
  by (induction n arbitrary: s) (simp_all add: one_deleted_def bus_print_def)

lemma deleted_on_bus:
  "test_devs pre b value n s \<Longrightarrow> on_bus (deleted ms value b n s) = pre"
proof (induction n arbitrary: s)
  case (Suc n)
  then show ?case using del_last(2) [of pre b _ n "bus_print (ms n) s"] by simp
qed (simp add: test_devs_def)

lemma deleted_mem:
  "bmem (deleted ms value b n s) a =
     (if b \<le> a \<and> a < b + n then Some (test_dev value (a - b) False) else bmem s a)"
  by (induction n arbitrary: s) (auto simp: one_deleted_def bus_print_def less_Suc_eq)

lemma deleted_log:
  "klog (deleted ms value b n s) = klog s @ concat (map (\<lambda>j. ms j @
     (if example_driver s then [Remove_called (id_of j)] else [])) (rev [0 ..< n]))"
  by (induction n arbitrary: s) (simp_all add: one_deleted_def bus_print_def)

section \<open>Loading and unloading\<close>

text \<open>New objects are allocated behind all others.\<close>

definition bus_ok :: "bus \<Rightarrow> bool" where
  "bus_ok s \<longleftrightarrow> (\<forall>a \<in> set (on_bus s). a < bnext s) \<and> (\<forall>a \<ge> bnext s. bmem s a = None)"

lemma test_devs_added: "bus_ok s \<Longrightarrow> test_devs (on_bus s) (bnext s) value n (added value n 0 s)"
  by (simp add: test_devs_def bus_ok_def added_on_bus added_mem)

lemma bus_ok_added: "bus_ok s \<Longrightarrow> bus_ok (added value n i s)"
  by (auto simp: bus_ok_def added_on_bus added_mem)

text \<open>The array is large enough when its size is computed without wrap-around.\<close>

lemma devices_size_fits:
  assumes "0 < psz" "unat nr * psz < 2 ^ (8 * psz)"
  shows "devices_size psz nr div psz = unat nr"
  using assms by (simp add: devices_size_def)

lemma devices_size_64: "devices_size 8 nr div 8 = unat nr"
proof (rule devices_size_fits)
  have "unat nr < 2 ^ 32" using unsigned_less [of nr] by simp
  then show "unat nr * 8 < 2 ^ (8 * 8)" by simp
qed simp

lemma init_ok:
  assumes "all_answers k 0 (unat nr)" "devices_size psz nr div psz = unat nr"
  shows "platform_test_init psz True k nr value s =
    Some (0, map Some [bnext s ..< bnext s + unat nr], added value (unat nr) 0 s)"
  using assms by (simp add: platform_test_init_def add_devices_ok)

lemma exit_ok:
  assumes "bus_ok s"
  shows "platform_test_exit nr (map Some [bnext s ..< bnext s + unat nr]) (added value (unat nr) 0 s) =
    Some (deleted (\<lambda>_. [Removing None]) value (bnext s) (unat nr) (added value (unat nr) 0 s))"
  unfolding platform_test_exit_def
  by (rule remove_devices_ok [OF test_devs_added [OF assms]]) (simp_all del: upt_Suc)

text \<open>The first device that cannot be added.\<close>

definition add_fails :: "test_answers \<Rightarrow> nat \<Rightarrow> bool" where
  "add_fails k i \<longleftrightarrow> \<not> k_alloc k i \<or> k_data k i < 0 \<or> k_data k i = 0 \<and> k_add k i < 0"

lemma add_devices_append:
  "add_devices k value (n + m) i devices s = do {
     (r, devices, s) \<leftarrow> add_devices k value n i devices s;
     (case r of Inl _ \<Rightarrow> Some (r, devices, s) | Inr _ \<Rightarrow> add_devices k value m (i + n) devices s)
   }"
  by (induction n arbitrary: i devices s) (auto split: option.split bind_split sum.split)

lemma add_one_fails:
  assumes "add_fails k i" "bus_ok s"
  shows "\<exists>ret pdev s' ms. add_one k value i devices s = Some (ret, pdev, devices, s') \<and> ret < 0 \<and>
    platform_device_put pdev s' = Some (s\<lparr>bnext := bnext s', klog := klog s @ ms\<rparr>)"
proof -
  have "bmem s (bnext s) = None" using assms(2) by (simp add: bus_ok_def)
  then have m: "(bmem s)(bnext s := None) = bmem s" by auto
  consider "\<not> k_alloc k i" | "k_alloc k i" "k_data k i < 0"
    | "k_alloc k i" "k_data k i = 0" "k_add k i < 0"
    using assms(1) by (auto simp: add_fails_def)
  then show ?thesis
    by cases (auto simp: add_one_def bus_calls m intro: exI [of _ "[]"])
qed

text \<open>A failure at device \<open>i\<close>: the bus is as before, the first \<open>i\<close> objects stay allocated.\<close>

lemma init_fails:
  assumes "all_answers k 0 i" "add_fails k i" "i < unat nr" "devices_size psz nr div psz = unat nr"
    and ok: "bus_ok s"
  shows "\<exists>ret s'. platform_test_init psz True k nr value s = Some (ret, [], s') \<and> ret < 0 \<and>
    on_bus s' = on_bus s \<and> example_driver s' = example_driver s \<and>
    bmem s' = (\<lambda>a. if bnext s \<le> a \<and> a < bnext s + i then Some (test_dev value (a - bnext s) False)
                    else bmem s a)"
proof -
  let ?d = "map Some [bnext s ..< bnext s + i] @ replicate (unat nr - i) None"
  let ?t = "added value i 0 s"
  obtain ret pdev u ms where f: "add_one k value i ?d ?t = Some (ret, pdev, ?d, u)" "ret < 0"
      "platform_device_put pdev u = Some (?t\<lparr>bnext := bnext u, klog := klog ?t @ ms\<rparr>)"
    using add_one_fails [OF assms(2) bus_ok_added [OF ok], of "value" ?d "value" i 0] by blast
  let ?v = "?t\<lparr>bnext := bnext u, klog := klog ?t @ ms\<rparr>"
  have "test_devs (on_bus s) (bnext s) value i ?v"
    using test_devs_added [OF ok, of "value" i] by (simp add: test_devs_def)
  then have del: "del_devices i ?d ?v = Some (deleted (\<lambda>_. []) value (bnext s) i ?v)"
    and bus: "on_bus (deleted (\<lambda>_. []) value (bnext s) i ?v) = on_bus s"
    by (simp_all add: del_devices_ok deleted_on_bus nth_append del: upt_Suc)
  have "unat nr = i + Suc (unat nr - Suc i)" using assms(3) by simp
  then have "add_devices k value (unat nr) 0 (replicate (unat nr) None) s =
      add_devices k value (i + Suc (unat nr - Suc i)) 0 (replicate (unat nr) None) s" by simp
  also have "\<dots> = Some (Inl (ret, pdev, i), ?d, u)"
    using f assms(1,3) by (subst add_devices_append) (simp add: add_devices_ok del: upt_Suc)
  finally have "platform_test_init psz True k nr value s =
      Some (ret, [], deleted (\<lambda>_. []) value (bnext s) i ?v)"
    using f(3) del assms(4) by (simp add: platform_test_init_def)
  moreover have "bmem (deleted (\<lambda>_. []) value (bnext s) i ?v) =
      (\<lambda>a. if bnext s \<le> a \<and> a < bnext s + i then Some (test_dev value (a - bnext s) False) else bmem s a)"
    by (auto simp: deleted_mem added_mem fun_eq_iff)
  ultimately show ?thesis
    using f(2) bus by (intro exI [of _ ret] exI [of _ "deleted (\<lambda>_. []) value (bnext s) i ?v"]) simp
qed

text \<open>Loading the devices and then the driver, or the driver first: the same bus.\<close>

definition probes :: "int \<Rightarrow> nat \<Rightarrow> bus_msg list" where
  "probes value n = map (\<lambda>i. Probe_called (id_of i) value) [0 ..< n]"

definition is_probe :: "bus_msg \<Rightarrow> bool" where
  "is_probe m \<longleftrightarrow> (case m of Probe_called i v \<Rightarrow> True | _ \<Rightarrow> False)"

lemma is_probe_simps [simp]: "is_probe (Probe_called i v)" "\<not> is_probe (Registering n i)"
  by (simp_all add: is_probe_def)

lemma concat_singles [simp]: "concat (map (\<lambda>x. [f x]) l) = map f l"
  by (induction l) simp_all

lemma added_probes:
  "filter is_probe (klog (added value n 0 s)) =
     filter is_probe (klog s) @ (if example_driver s then probes value n else [])"
  by (simp add: added_log probes_def filter_concat comp_def)

text \<open>Probing the \<open>n\<close> devices from address \<open>b\<close> on, when none of them is bound.\<close>

lemma binds_log:
  assumes "\<forall>j. i \<le> j \<and> j < i + n \<longrightarrow> bmem s (b + j) = Some (test_dev value j False)" "example_driver s"
  shows "klog (fold bind_dev [b + i ..< b + i + n] s) =
    klog s @ map (\<lambda>j. Probe_called (id_of j) value) [i ..< i + n]"
  using assms
proof (induction n arbitrary: i s)
  case (Suc n)
  have "bmem s (b + i) = Some (test_dev value i False)" using Suc.prems(1) by simp
  then have "klog (bind_dev (b + i) s) = klog s @ [Probe_called (id_of i) value]"
    using Suc.prems(2) by (simp add: bind_simps test_dev_def)
  moreover have "\<forall>j. Suc i \<le> j \<and> j < Suc i + n \<longrightarrow>
      bmem (bind_dev (b + i) s) (b + j) = Some (test_dev value j False)"
    using Suc.prems(1) by (auto simp: bind_mem)
  ultimately show ?case
    using Suc.IH [of "Suc i" "bind_dev (b + i) s"] Suc.prems(2)
    by (simp add: upt_conv_Cons del: upt_Suc)
qed simp

lemma driver_then_devices:
  fixes v :: int and n :: nat
  assumes "on_bus s = []" "\<not> example_driver s" "bus_ok s"
  defines "t \<equiv> added v n 0 (snd (platform_example_init 0 s))"
    and "u \<equiv> snd (platform_example_init 0 (added v n 0 s))"
  shows "bmem t = bmem u" "on_bus t = on_bus u" "example_driver t" "example_driver u"
    and "\<forall>j < n. bmem t (bnext s + j) = Some (test_dev v j True)"
    and "filter is_probe (klog t) = filter is_probe (klog s) @ probes v n"
    and "filter is_probe (klog u) = filter is_probe (klog s) @ probes v n"
proof -
  let ?w = "(added v n 0 s)\<lparr>example_driver := True\<rparr>"
  have t: "t = added v n 0 (s\<lparr>example_driver := True\<rparr>)"
    using assms(1) by (simp add: t_def platform_example_init_def platform_driver_register_def)
  have u: "u = fold bind_dev [bnext s ..< bnext s + n] ?w"
    using assms(1) by (simp add: u_def platform_example_init_def platform_driver_register_def added_on_bus)
  have "\<forall>j. 0 \<le> j \<and> j < 0 + n \<longrightarrow> bmem ?w (bnext s + j) = Some (test_dev v j False)"
    using assms(2) by (simp add: added_mem)
  from binds_log [OF this] have "klog u = klog ?w @ probes v n"
    by (simp add: u probes_def)
  then show "filter is_probe (klog u) = filter is_probe (klog s) @ probes v n"
    using assms(2) by (auto simp: added_probes probes_def)
  show "filter is_probe (klog t) = filter is_probe (klog s) @ probes v n"
    by (simp add: t added_probes)
  show "bmem t = bmem u"
    using assms(2) by (auto simp: t u binds_mem added_mem fun_eq_iff bound_by_def test_dev_def)
  show "on_bus t = on_bus u" "example_driver t" "example_driver u"
    by (simp_all add: t u added_on_bus)
  show "\<forall>j < n. bmem t (bnext s + j) = Some (test_dev v j True)"
    by (simp add: t added_mem)
qed

end
