(* ===== verification/Spi_Example.thy ===== *)
theory Spi_Example
  imports Kernel_Services
begin

text \<open>
  The SPI driver example (\<open>platform_device_driver/AVR32743/spi/spi_example.c\<close>). The controller and
  the chip behind it are the parameter \<open>sync\<close>: for the chip select of a device and the bytes
  sent, the result of \<open>spi_sync\<close> and the bytes received. \<open>kmem\<close> is what \<open>kmalloc\<close> gives when the
  device is probed: nothing, or a buffer with whatever it held before. \<open>s_allocs\<close> counts the
  buffers not yet freed; \<open>s_log\<close> is the kernel log, oldest first.
\<close>

datatype spi_msg =
    Spi_probe int | Sending "byte list" | Received "byte list" | Spi_remove | Spi_suspend | Spi_resume

record spi_example_data =
  spi_value :: int

record spi_device =
  sd_name :: string
  sd_cs :: nat
  sd_data :: "spi_example_data option"
  sd_bound :: bool

record spi_sys =
  s_log :: "spi_msg list"
  s_allocs :: int

type_synonym spi_sync = "nat \<Rightarrow> byte list \<Rightarrow> int \<times> byte list"

definition spi_print :: "spi_msg \<Rightarrow> spi_sys \<Rightarrow> spi_sys" where
  "spi_print m s = s\<lparr>s_log := s_log s @ [m]\<rparr>"

definition spi_example_transfer ::
    "spi_sync \<Rightarrow> byte list option \<Rightarrow> spi_device \<Rightarrow> spi_sys \<Rightarrow> (int \<times> spi_sys) option" where
  "spi_example_transfer sync mem spi s =
     (case mem of
        None \<Rightarrow> Some (- ENOMEM, s)
      | Some buf \<Rightarrow> do {
          let s = s\<lparr>s_allocs := s_allocs s + 1\<rparr>;
          buf \<leftarrow> mem_put 0 [0x55, 0x56, 0x57, 0x58] buf;
          tx \<leftarrow> mem_get 0 4 buf;
          let s = spi_print (Sending tx) s;
          let (ret, rx) = sync (sd_cs spi) tx;
          buf \<leftarrow> mem_put 4 rx buf;
          s \<leftarrow> (if ret = 0 then do {
                  r \<leftarrow> mem_get 4 4 buf;
                  Some (spi_print (Received r) s)
                } else Some s);
          Some (ret, s\<lparr>s_allocs := s_allocs s - 1\<rparr>)
        })"

definition spi_example_probe ::
    "spi_sync \<Rightarrow> byte list option \<Rightarrow> spi_device \<Rightarrow> spi_sys \<Rightarrow> (int \<times> spi_sys) option" where
  "spi_example_probe sync mem spi s =
     spi_example_transfer sync mem spi
       (spi_print (Spi_probe (case sd_data spi of Some pdata \<Rightarrow> spi_value pdata | None \<Rightarrow> - 1)) s)"

definition spi_example_remove :: "spi_device \<Rightarrow> spi_sys \<Rightarrow> int \<times> spi_sys" where
  "spi_example_remove spi s = (0, spi_print Spi_remove s)"

definition spi_example_suspend :: "spi_device \<Rightarrow> spi_sys \<Rightarrow> int \<times> spi_sys" where
  "spi_example_suspend spi s = (0, spi_print Spi_suspend s)"

definition spi_example_resume :: "spi_device \<Rightarrow> spi_sys \<Rightarrow> int \<times> spi_sys" where
  "spi_example_resume spi s = (0, spi_print Spi_resume s)"

section \<open>Loading: the bus probes the devices of the driver's name\<close>

definition spi_driver_name :: string where
  "spi_driver_name = ''spi_example''"

fun spi_bind ::
    "spi_sync \<Rightarrow> (nat \<Rightarrow> byte list option) \<Rightarrow> spi_device list \<Rightarrow> spi_sys \<Rightarrow>
     (spi_device list \<times> spi_sys) option" where
  "spi_bind sync kmem [] s = Some ([], s)"
| "spi_bind sync kmem (d # ds) s =
     (if sd_name d = spi_driver_name \<and> \<not> sd_bound d then do {
        (ret, s) \<leftarrow> spi_example_probe sync (kmem (sd_cs d)) d s;
        (ds, s) \<leftarrow> spi_bind sync kmem ds s;
        Some (d\<lparr>sd_bound := (ret = 0)\<rparr> # ds, s)
      } else do {
        (ds, s) \<leftarrow> spi_bind sync kmem ds s;
        Some (d # ds, s)
      })"

fun spi_unbind :: "spi_device list \<Rightarrow> spi_sys \<Rightarrow> spi_device list \<times> spi_sys" where
  "spi_unbind [] s = ([], s)"
| "spi_unbind (d # ds) s =
     (if sd_bound d then
        (let (_, s) = spi_example_remove d s; (ds, s) = spi_unbind ds s
         in (d\<lparr>sd_bound := False\<rparr> # ds, s))
      else (let (ds, s) = spi_unbind ds s in (d # ds, s)))"

definition spi_example_init ::
    "int \<Rightarrow> spi_sync \<Rightarrow> (nat \<Rightarrow> byte list option) \<Rightarrow> spi_device list \<Rightarrow> spi_sys \<Rightarrow>
     (int \<times> spi_device list \<times> spi_sys) option" where
  "spi_example_init ans sync kmem ds s =
     (if ans < 0 then Some (ans, ds, s)
      else do {
        (ds, s) \<leftarrow> spi_bind sync kmem ds s;
        Some (0, ds, s)
      })"

definition spi_example_exit :: "spi_device list \<Rightarrow> spi_sys \<Rightarrow> spi_device list \<times> spi_sys" where
  "spi_example_exit ds s = spi_unbind ds s"

section \<open>What a transfer does\<close>

text \<open>The controller receives as many bytes as it sends; \<open>kmalloc\<close> gives eight bytes.\<close>

definition sync_ok :: "spi_sync \<Rightarrow> bool" where
  "sync_ok sync \<longleftrightarrow> (\<forall>cs tx. length (snd (sync cs tx)) = length tx)"

definition kmem_ok :: "byte list option \<Rightarrow> bool" where
  "kmem_ok m \<longleftrightarrow> (case m of None \<Rightarrow> True | Some b \<Rightarrow> length b = 8)"

abbreviation (input) greeting :: "byte list" where
  "greeting \<equiv> [0x55, 0x56, 0x57, 0x58]"

definition transfer_result :: "spi_sync \<Rightarrow> byte list option \<Rightarrow> spi_device \<Rightarrow> int" where
  "transfer_result sync mem d =
     (case mem of None \<Rightarrow> - ENOMEM | Some b \<Rightarrow> fst (sync (sd_cs d) greeting))"

definition transfer_log :: "spi_sync \<Rightarrow> byte list option \<Rightarrow> spi_device \<Rightarrow> spi_msg list" where
  "transfer_log sync mem d =
     (case mem of
        None \<Rightarrow> []
      | Some b \<Rightarrow> Sending greeting #
          (if fst (sync (sd_cs d) greeting) = 0 then [Received (snd (sync (sd_cs d) greeting))] else []))"

text \<open>In every case the transfer is memory safe and its buffer is freed.\<close>

lemma spi_transfer:
  assumes "sync_ok sync" "kmem_ok mem"
  shows "spi_example_transfer sync mem d s =
    Some (transfer_result sync mem d, s\<lparr>s_log := s_log s @ transfer_log sync mem d\<rparr>)"
proof (cases mem)
  case (Some b)
  obtain ret rx where r: "sync (sd_cs d) greeting = (ret, rx)" by fastforce
  have "length (snd (sync (sd_cs d) greeting)) = length greeting"
    using assms(1) by (simp only: sync_ok_def)
  then have rx: "length rx = 4" by (simp add: r)
  have b: "length b = 8" using assms(2) Some by (simp add: kmem_ok_def)
  have g: "get_bytes 0 4 (put_bytes 0 greeting b) = greeting" using b by (simp)
  have "get_bytes 4 4 (put_bytes 4 rx (put_bytes 0 greeting b)) = rx" using b rx by simp
  then show ?thesis
    using Some r b rx g
    by (simp add: spi_example_transfer_def transfer_result_def transfer_log_def mem_put_def mem_get_def
        spi_print_def)
qed (simp add: spi_example_transfer_def transfer_result_def transfer_log_def)

definition spi_probed :: "spi_sync \<Rightarrow> (nat \<Rightarrow> byte list option) \<Rightarrow> spi_device \<Rightarrow> spi_device" where
  "spi_probed sync kmem d =
     (if sd_name d = spi_driver_name \<and> \<not> sd_bound d
      then d\<lparr>sd_bound := (transfer_result sync (kmem (sd_cs d)) d = 0)\<rparr> else d)"

definition probe_log :: "spi_sync \<Rightarrow> (nat \<Rightarrow> byte list option) \<Rightarrow> spi_device \<Rightarrow> spi_msg list" where
  "probe_log sync kmem d =
     (if sd_name d = spi_driver_name \<and> \<not> sd_bound d
      then Spi_probe (case sd_data d of Some pdata \<Rightarrow> spi_value pdata | None \<Rightarrow> - 1) #
        transfer_log sync (kmem (sd_cs d)) d else [])"

lemma spi_bind_all:
  assumes "sync_ok sync" "\<forall>cs. kmem_ok (kmem cs)"
  shows "spi_bind sync kmem ds s =
    Some (map (spi_probed sync kmem) ds, s\<lparr>s_log := s_log s @ concat (map (probe_log sync kmem) ds)\<rparr>)"
  using assms(2)
  by (induction ds arbitrary: s)
    (simp_all add: spi_example_probe_def spi_transfer [OF assms(1)] spi_probed_def probe_log_def spi_print_def)

lemma spi_unbind_all:
  "spi_unbind ds s = (map (sd_bound_update (\<lambda>_. False)) ds,
     s\<lparr>s_log := s_log s @ replicate (length (filter sd_bound ds)) Spi_remove\<rparr>)"
proof (induction ds arbitrary: s)
  case (Cons d ds)
  show ?case
    by (cases d) (simp add: Cons.IH spi_example_remove_def spi_print_def)
qed simp

lemma spi_unprobed:
  "\<not> sd_bound d \<Longrightarrow> (spi_probed sync kmem d)\<lparr>sd_bound := False\<rparr> = d"
  by (cases d) (simp add: spi_probed_def)

text \<open>Loading and unloading leaves every device and every buffer as it was.\<close>

lemma spi_cycle:
  assumes "sync_ok sync" "\<forall>cs. kmem_ok (kmem cs)" "\<forall>d \<in> set ds. \<not> sd_bound d" "0 \<le> ans"
  shows "\<exists>ds' s' s''. spi_example_init ans sync kmem ds s = Some (0, ds', s') \<and>
    ds' = map (spi_probed sync kmem) ds \<and> s_allocs s' = s_allocs s \<and>
    spi_example_exit ds' s' = (ds, s'') \<and> s_allocs s'' = s_allocs s"
  using assms(3,4)
  by (simp add: spi_example_init_def spi_bind_all [OF assms(1,2)] spi_example_exit_def spi_unbind_all
      map_idI spi_unprobed)

text \<open>With the output wired to the input, the driver reads what it sent.\<close>

lemma spi_loopback:
  assumes "length b = 8"
  shows "spi_example_transfer (\<lambda>cs tx. (0, tx)) (Some b) d s =
    Some (0, s\<lparr>s_log := s_log s @ [Sending greeting, Received greeting]\<rparr>)"
  using spi_transfer [of "\<lambda>cs tx. (0, tx)" "Some b" d s] assms
  by (simp add: sync_ok_def kmem_ok_def transfer_result_def transfer_log_def)

end
