(* ===== verification/Object_Lists.thy ===== *)
theory Object_Lists
  imports Prelude
begin

unbundle bit_operations_syntax

text \<open>
  The list example (\<open>ibm6_list/listex.c\<close>): ten objects, each on a full list and some on two more.
  A list head is the sequence of the addresses its entries have, first entry first; \<open>l_heap\<close> has
  the value of every allocated object. \<open>None\<close> as a result is the use of an object that was not
  allocated or is freed already.
\<close>

datatype list_msg = Emit_full | Emit_odd | Emit_even | Emit int | Cleaning_up

record listex =
  l_heap :: "nat \<Rightarrow> int option"
  my_full_list :: "nat list"
  my_odd_list :: "nat list"
  my_even_list :: "nat list"
  l_log :: "list_msg list"

definition list_add :: "nat \<Rightarrow> nat list \<Rightarrow> nat list" where
  "list_add a l = a # l"

definition list_del :: "nat \<Rightarrow> nat list \<Rightarrow> nat list" where
  "list_del a l = remove1 a l"

text \<open>The body of the loop, \<open>km\<close> the result of \<open>kmalloc\<close>.\<close>

definition add_object :: "nat option \<Rightarrow> nat \<Rightarrow> listex \<Rightarrow> listex option" where
  "add_object km count s =
     (case km of
        None \<Rightarrow> None
      | Some obj \<Rightarrow>
          let s = s\<lparr>l_heap := (l_heap s)(obj \<mapsto> int count)\<rparr>;
              s = s\<lparr>my_full_list := list_add obj (my_full_list s)\<rparr>
          in Some (if int count AND 0x1 \<noteq> 0 then
                     let s = s\<lparr>my_odd_list := list_add obj (my_odd_list s)\<rparr>
                     in if int count AND 0x2 \<noteq> 0
                        then s\<lparr>my_even_list := list_add obj (my_even_list s)\<rparr> else s
                   else s))"

text \<open>\<open>n\<close> rounds from \<open>count\<close> on.\<close>

fun add_objects :: "(nat \<Rightarrow> nat option) \<Rightarrow> nat \<Rightarrow> nat \<Rightarrow> listex \<Rightarrow> listex option" where
  "add_objects km 0 count s = Some s"
| "add_objects km (Suc n) count s = do {
     s \<leftarrow> add_object (km count) count s;
     add_objects km n (Suc count) s
   }"

definition list_init :: "(nat \<Rightarrow> nat option) \<Rightarrow> listex \<Rightarrow> (int \<times> listex) option" where
  "list_init km s = do {
     s \<leftarrow> add_objects km 10 1 s;
     Some (0, s)
   }"

definition list_print :: "list_msg \<Rightarrow> listex \<Rightarrow> listex" where
  "list_print m s = s\<lparr>l_log := l_log s @ [m]\<rparr>"

fun emit_list :: "nat list \<Rightarrow> listex \<Rightarrow> listex option" where
  "emit_list [] s = Some s"
| "emit_list (a # l) s = do {
     v \<leftarrow> l_heap s a;
     emit_list l (list_print (Emit v) s)
   }"

text \<open>\<open>list_for_each_safe\<close> with \<open>list_del\<close> and \<open>kfree\<close>: the next entry is read first.\<close>

fun free_objects :: "nat list \<Rightarrow> listex \<Rightarrow> listex option" where
  "free_objects [] s = Some s"
| "free_objects (pos # q) s =
     (if l_heap s pos = None then None
      else free_objects q
        (s\<lparr>my_full_list := list_del pos (my_full_list s), l_heap := (l_heap s)(pos := None)\<rparr>))"

definition list_cleanup :: "listex \<Rightarrow> listex option" where
  "list_cleanup s = do {
     s \<leftarrow> emit_list (my_full_list s) (list_print Emit_full s);
     s \<leftarrow> emit_list (my_odd_list s) (list_print Emit_odd s);
     s \<leftarrow> emit_list (my_even_list s) (list_print Emit_even s);
     let s = list_print Cleaning_up s;
     free_objects (my_full_list s) s
   }"

section \<open>The lists that are built\<close>

text \<open>\<open>addr\<close>: where the object of each count is.\<close>

definition chosen :: "(nat \<Rightarrow> bool) \<Rightarrow> (nat \<Rightarrow> nat) \<Rightarrow> nat \<Rightarrow> nat \<Rightarrow> nat list" where
  "chosen P addr c n = map addr (filter P (rev [c ..< c + n]))"

lemma chosen_0 [simp]: "chosen P addr c 0 = []"
  by (simp add: chosen_def)

lemma chosen_Suc:
  "chosen P addr c (Suc n) = chosen P addr (Suc c) n @ (if P c then [addr c] else [])"
  by (simp add: chosen_def upt_conv_Cons del: upt_Suc)

definition full_val :: "nat \<Rightarrow> bool" where "full_val c \<longleftrightarrow> True"
definition odd_val :: "nat \<Rightarrow> bool" where "odd_val c \<longleftrightarrow> c mod 2 = 1"
definition even_val :: "nat \<Rightarrow> bool" where "even_val c \<longleftrightarrow> c mod 4 = 3"

lemma chosen_full:
  "chosen full_val addr c (Suc n) = chosen full_val addr (Suc c) n @ [addr c]"
  by (simp add: chosen_Suc full_val_def)

lemma val_tests:
  "int c AND 1 \<noteq> 0 \<longleftrightarrow> odd_val c"
  "int c AND 1 \<noteq> 0 \<and> int c AND 2 \<noteq> 0 \<longleftrightarrow> even_val c"
proof -
  have 1: "int c AND 1 = int c mod 2" by (simp add: and_one_eq)
  have "(2 :: int) = push_bit 1 1" by (simp add: push_bit_eq_mult)
  then have 2: "int c AND 2 \<noteq> 0 \<longleftrightarrow> odd (int c div 2)"
    by (metis One_nat_def and_exp_eq_0_iff_not_bit bit_iff_odd power_one_right push_bit_of_1)
  show "int c AND 1 \<noteq> 0 \<longleftrightarrow> odd_val c" using 1 by (simp add: odd_val_def) presburger
  show "int c AND 1 \<noteq> 0 \<and> int c AND 2 \<noteq> 0 \<longleftrightarrow> even_val c"
    unfolding 1 2 even_val_def by presburger
qed

lemma add_object_ok:
  "add_object (Some a) c s = Some (s\<lparr>l_heap := (l_heap s)(a \<mapsto> int c),
     my_full_list := a # my_full_list s,
     my_odd_list := (if odd_val c then [a] else []) @ my_odd_list s,
     my_even_list := (if even_val c then [a] else []) @ my_even_list s\<rparr>)"
  by (auto simp: add_object_def list_add_def Let_def val_tests(1) val_tests(2) [symmetric])

lemma add_objects_ok:
  assumes "\<forall>j \<in> {c ..< c + n}. km j = Some (addr j)" "inj_on addr {c ..< c + n}"
  shows "\<exists>h. add_objects km n c s = Some (s\<lparr>l_heap := h,
      my_full_list := chosen full_val addr c n @ my_full_list s,
      my_odd_list := chosen odd_val addr c n @ my_odd_list s,
      my_even_list := chosen even_val addr c n @ my_even_list s\<rparr>) \<and>
    (\<forall>j \<in> {c ..< c + n}. h (addr j) = Some (int j)) \<and>
    (\<forall>a. a \<notin> addr ` {c ..< c + n} \<longrightarrow> h a = l_heap s a)"
  using assms
proof (induction n arbitrary: c s)
  case (Suc n)
  have I: "{c ..< c + Suc n} = insert c {Suc c ..< Suc c + n}" by auto
  let ?s = "s\<lparr>l_heap := (l_heap s)(addr c \<mapsto> int c),
     my_full_list := addr c # my_full_list s,
     my_odd_list := (if odd_val c then [addr c] else []) @ my_odd_list s,
     my_even_list := (if even_val c then [addr c] else []) @ my_even_list s\<rparr>"
  from Suc.prems have "\<forall>j \<in> {Suc c ..< Suc c + n}. km j = Some (addr j)"
    "inj_on addr {Suc c ..< Suc c + n}" "addr c \<notin> addr ` {Suc c ..< Suc c + n}" "km c = Some (addr c)"
    unfolding I by auto
  moreover from Suc.IH [OF this(1,2), of ?s] obtain h where
    "add_objects km n (Suc c) ?s = Some (?s\<lparr>l_heap := h,
      my_full_list := chosen full_val addr (Suc c) n @ my_full_list ?s,
      my_odd_list := chosen odd_val addr (Suc c) n @ my_odd_list ?s,
      my_even_list := chosen even_val addr (Suc c) n @ my_even_list ?s\<rparr>)"
    "\<forall>j \<in> {Suc c ..< Suc c + n}. h (addr j) = Some (int j)"
    "\<forall>a. a \<notin> addr ` {Suc c ..< Suc c + n} \<longrightarrow> h a = l_heap ?s a" by blast
  ultimately show ?case
    unfolding I
    by (intro exI [of _ h]) (simp add: add_object_ok chosen_full chosen_Suc [of odd_val] chosen_Suc [of even_val])
next
  case (0 c s)
  show ?case by (intro exI [of _ "l_heap s"]) simp
qed

section \<open>Cleaning up\<close>

lemma emit_list_ok:
  "\<forall>a \<in> set l. l_heap s a = Some (f a) \<Longrightarrow>
   emit_list l s = Some (s\<lparr>l_log := l_log s @ map (\<lambda>a. Emit (f a)) l\<rparr>)"
  by (induction l arbitrary: s) (simp_all add: list_print_def)

lemma free_objects_ok:
  assumes "distinct l" "my_full_list s = l" "\<forall>a \<in> set l. l_heap s a \<noteq> None"
  shows "free_objects l s = Some (s\<lparr>my_full_list := [],
    l_heap := (\<lambda>a. if a \<in> set l then None else l_heap s a)\<rparr>)"
  using assms
proof (induction l arbitrary: s)
  case (Cons a l)
  let ?s = "s\<lparr>my_full_list := l, l_heap := (l_heap s)(a := None)\<rparr>"
  have "free_objects l ?s = Some (?s\<lparr>my_full_list := [],
      l_heap := (\<lambda>b. if b \<in> set l then None else l_heap ?s b)\<rparr>)"
    using Cons.prems by (intro Cons.IH) auto
  moreover have "(\<lambda>b. if b \<in> set l then None else l_heap ?s b) =
      (\<lambda>b. if b \<in> set (a # l) then None else l_heap s b)"
    using Cons.prems(1) by auto
  ultimately show ?case using Cons.prems by (auto simp: list_del_def)
qed simp

text \<open>Loading and unloading: what is printed, and that every object is freed once.\<close>

lemma chosen_sub: "set (chosen P addr c n) \<subseteq> addr ` {c ..< c + n}"
  by (auto simp: chosen_def)

lemma distinct_chosen: "inj_on addr {c ..< c + n} \<Longrightarrow> distinct (chosen P addr c n)"
  by (auto simp: chosen_def distinct_map intro: inj_on_subset)

lemma emit_chosen:
  assumes "\<forall>j \<in> {c ..< c + n}. l_heap s (addr j) = Some (int j)" "inj_on addr {c ..< c + n}"
  shows "emit_list (chosen P addr c n) s =
    Some (s\<lparr>l_log := l_log s @ map (\<lambda>j. Emit (int j)) (filter P (rev [c ..< c + n]))\<rparr>)"
proof -
  let ?f = "\<lambda>a. int (the_inv_into {c ..< c + n} addr a)"
  have "\<forall>a \<in> set (chosen P addr c n). l_heap s a = Some (?f a)"
    using assms by (auto simp: chosen_def the_inv_into_f_f)
  moreover have "map (\<lambda>a. Emit (?f a)) (chosen P addr c n) =
      map (\<lambda>j. Emit (int j)) (filter P (rev [c ..< c + n]))"
    using assms(2) by (simp add: chosen_def the_inv_into_f_f)
  ultimately show ?thesis using emit_list_ok [of "chosen P addr c n" s ?f] by simp
qed

definition list_loaded :: "(nat \<Rightarrow> nat) \<Rightarrow> (nat \<Rightarrow> int option) \<Rightarrow> listex \<Rightarrow> bool" where
  "list_loaded addr h s \<longleftrightarrow>
     (\<forall>j \<in> {1 ..< 11}. l_heap s (addr j) = Some (int j)) \<and>
     (\<forall>a. a \<notin> addr ` {1 ..< 11} \<longrightarrow> l_heap s a = h a) \<and>
     my_full_list s = chosen full_val addr 1 10 \<and> my_odd_list s = chosen odd_val addr 1 10 \<and>
     my_even_list s = chosen even_val addr 1 10"

definition no_lists :: "listex \<Rightarrow> bool" where
  "no_lists s \<longleftrightarrow> my_full_list s = [] \<and> my_odd_list s = [] \<and> my_even_list s = []"

lemma list_init_ok:
  assumes "\<forall>j \<in> {1 ..< 11}. km j = Some (addr j)" "inj_on addr {1 ..< 11}" "no_lists s"
  shows "\<exists>s'. list_init km s = Some (0, s') \<and> list_loaded addr (l_heap s) s' \<and> l_log s' = l_log s"
proof -
  obtain h where "add_objects km 10 1 s = Some (s\<lparr>l_heap := h,
      my_full_list := chosen full_val addr 1 10 @ my_full_list s,
      my_odd_list := chosen odd_val addr 1 10 @ my_odd_list s,
      my_even_list := chosen even_val addr 1 10 @ my_even_list s\<rparr>)"
    "\<forall>j \<in> {1 ..< 11}. h (addr j) = Some (int j)"
    "\<forall>a. a \<notin> addr ` {1 ..< 11} \<longrightarrow> h a = l_heap s a"
    using add_objects_ok [of 1 10 km addr s] assms(1,2) by auto
  then show ?thesis
    using assms(3) by (simp add: list_init_def list_loaded_def no_lists_def)
qed

lemma list_cleanup_ok:
  assumes "list_loaded addr h s" "inj_on addr {1 ..< 11}" "\<forall>j \<in> {1 ..< 11}. h (addr j) = None"
  shows "\<exists>s'. list_cleanup s = Some s' \<and> l_heap s' = h \<and> my_full_list s' = [] \<and>
    l_log s' = l_log s @ Emit_full # map Emit [10, 9, 8, 7, 6, 5, 4, 3, 2, 1] @
      Emit_odd # map Emit [9, 7, 5, 3, 1] @ Emit_even # map Emit [7, 3] @ [Cleaning_up]"
proof -
  have inj: "inj_on addr {1 ..< 1 + 10}" using assms(2) by simp
  have v: "\<forall>j \<in> {1 ..< 1 + 10}. l_heap s (addr j) = Some (int j)"
    using assms(1) by (simp add: list_loaded_def)
  have e: "emit_list (chosen P addr 1 10) (s\<lparr>l_log := ms\<rparr>) =
      Some (s\<lparr>l_log := ms @ map (\<lambda>j. Emit (int j)) (filter P (rev [1 ..< 11]))\<rparr>)" for P ms
    using emit_chosen [of 1 10 "s\<lparr>l_log := ms\<rparr>" addr P] v inj by simp
  have s: "chosen full_val addr 1 10 = my_full_list s" "chosen odd_val addr 1 10 = my_odd_list s"
      "chosen even_val addr 1 10 = my_even_list s"
    using assms(1) by (simp_all add: list_loaded_def)
  have f: "filter full_val (rev [1 ..< 11]) = [10, 9, 8, 7, 6, 5, 4, 3, 2, 1]"
      "filter odd_val (rev [1 ..< 11]) = [9, 7, 5, 3, 1]" "filter even_val (rev [1 ..< 11]) = [7, 3]"
    by code_simp+
  have m: "set (my_full_list s) = addr ` {1 ..< 11}"
    by (auto simp: s(1) [symmetric] chosen_def full_val_def)
  have r: "(\<lambda>a. if a \<in> set (my_full_list s) then None else l_heap s a) = h"
    using assms(1,3) unfolding m list_loaded_def by (auto simp: fun_eq_iff)
  have "\<forall>a \<in> set (my_full_list s). l_heap s a \<noteq> None" using v by (auto simp: m)
  moreover have "distinct (my_full_list s)"
    unfolding s(1) [symmetric] by (rule distinct_chosen [OF inj])
  ultimately have "free_objects (my_full_list s) (s\<lparr>l_log := ms\<rparr>) =
      Some (s\<lparr>l_log := ms, my_full_list := [], l_heap := h\<rparr>)" for ms
    using free_objects_ok [of "my_full_list s" "s\<lparr>l_log := ms\<rparr>"] by (simp add: r cong: if_cong)
  note steps = e [of full_val, unfolded s f] e [of odd_val, unfolded s f] e [of even_val, unfolded s f] this
  show ?thesis
    using steps by (simp add: list_cleanup_def list_print_def)
qed

end
