(* ===== verification/Deferred_Work.thy ===== *)
theory Deferred_Work
  imports Kernel_Services
begin

text \<open>
  The modules whose code the kernel calls later: the interrupt handler (\<open>ibm2_irq/myirqtest.c\<close>), the
  timer (\<open>ibm3_timer/timer1.c\<close>), the high-resolution timer (\<open>ibm4_hrtimer/hrtimer1.c\<close>) and the
  tasklet (\<open>ibm5_tasklet/taskletex.c\<close>). A piece of deferred work is idle, armed (queued until its
  time has come) or running. Time, expiry, the callback's return and the unloading of the module
  are the steps of \<open>work_step\<close>.
\<close>

section \<open>The modules\<close>

datatype phase = Idle | Armed | Running

datatype work_msg =
    Installing | Starting nat nat | Mod_timer_error | Called nat | Function_called
  | In_use | Uninstalling

record work =
  w_phase :: phase
  w_due :: nat
  w_now :: nat
  w_loaded :: bool
  w_calls :: nat
  w_log :: "work_msg list"

definition work_print :: "work_msg \<Rightarrow> work \<Rightarrow> work" where
  "work_print m s = s\<lparr>w_log := w_log s @ [m]\<rparr>"

subsection \<open>Timer\<close>

text \<open>
  The clock is \<open>jiffies\<close>; \<open>m2j\<close> is \<open>msecs_to_jiffies\<close>. \<open>setup_timer\<close> initialises a timer without
  arming it; \<open>mod_timer\<close> arms it and tells whether it was armed; \<open>del_timer\<close> disarms it, does not
  wait for a running callback, and tells whether it was armed.
\<close>

definition setup_timer :: "work \<Rightarrow> work" where
  "setup_timer s = (if w_phase s = Armed then s\<lparr>w_phase := Idle\<rparr> else s)"

definition mod_timer :: "nat \<Rightarrow> work \<Rightarrow> int \<times> work" where
  "mod_timer due s =
     (if w_phase s = Armed then 1 else 0, s\<lparr>w_phase := Armed, w_due := due\<rparr>)"

definition del_timer :: "phase \<Rightarrow> (phase \<times> int) option" where
  "del_timer p = Some (if p = Armed then (Idle, 1) else (p, 0))"

definition my_timer_callback :: "work \<Rightarrow> work" where
  "my_timer_callback s = setup_timer (work_print (Called (w_now s)) s)"

definition timer_init :: "(nat \<Rightarrow> nat) \<Rightarrow> work \<Rightarrow> int \<times> work" where
  "timer_init m2j s =
     (let s = work_print Installing s;
          s = setup_timer s;
          s = work_print (Starting 200 (w_now s)) s;
          (ret, s) = mod_timer (w_now s + m2j 5000) s;
          s = (if ret \<noteq> 0 then work_print Mod_timer_error s else s)
      in (0, s))"

definition timer_exit :: "work \<Rightarrow> work option" where
  "timer_exit s = do {
     (p, ret) \<leftarrow> del_timer (w_phase s);
     let s = s\<lparr>w_phase := p\<rparr>;
     let s = (if ret \<noteq> 0 then work_print In_use s else s);
     Some (work_print Uninstalling s)
   }"

subsection \<open>High-resolution timer\<close>

text \<open>
  The clock is in nanoseconds, \<open>jiffies_at\<close> its reading in jiffies. \<open>hrtimer_cancel\<close> waits (no
  result) while the callback runs. A callback that returns \<open>HRTIMER_NORESTART\<close> is not queued again.
\<close>

definition MS_TO_NS :: "nat \<Rightarrow> nat" where
  "MS_TO_NS x = x * 10 ^ 6"

definition my_hrtimer_callback :: "(nat \<Rightarrow> nat) \<Rightarrow> work \<Rightarrow> work" where
  "my_hrtimer_callback jiffies_at s = work_print (Called (jiffies_at (w_now s))) s"

definition hrtimer_init :: "(nat \<Rightarrow> nat) \<Rightarrow> work \<Rightarrow> int \<times> work" where
  "hrtimer_init jiffies_at s =
     (let delay_in_ms = 400;
          s = work_print Installing s;
          ktime = MS_TO_NS delay_in_ms;
          s = work_print (Starting delay_in_ms (jiffies_at (w_now s))) s
      in (0, s\<lparr>w_phase := Armed, w_due := w_now s + ktime\<rparr>))"

definition hrtimer_cancel :: "phase \<Rightarrow> (phase \<times> int) option" where
  "hrtimer_cancel p =
     (case p of Running \<Rightarrow> None | Armed \<Rightarrow> Some (Idle, 1) | Idle \<Rightarrow> Some (Idle, 0))"

definition hrtimer_exit :: "work \<Rightarrow> work option" where
  "hrtimer_exit s = do {
     (p, ret) \<leftarrow> hrtimer_cancel (w_phase s);
     let s = s\<lparr>w_phase := p\<rparr>;
     let s = (if ret \<noteq> 0 then work_print In_use s else s);
     Some (work_print Uninstalling s)
   }"

subsection \<open>Tasklet\<close>

text \<open>\<open>tasklet_kill\<close> waits until a scheduled tasklet has run.\<close>

definition my_tasklet_function :: "work \<Rightarrow> work" where
  "my_tasklet_function s = work_print Function_called s"

definition tasklet_init :: "work \<Rightarrow> int \<times> work" where
  "tasklet_init s = (0, s\<lparr>w_phase := Armed, w_due := w_now s\<rparr>)"

definition tasklet_kill :: "phase \<Rightarrow> (phase \<times> int) option" where
  "tasklet_kill p = (if p = Idle then Some (Idle, 0) else None)"

definition tasklet_exit :: "work \<Rightarrow> work option" where
  "tasklet_exit s = do {
     (p, _) \<leftarrow> tasklet_kill (w_phase s);
     Some (s\<lparr>w_phase := p\<rparr>)
   }"

section \<open>Steps\<close>

text \<open>
  \<open>cb\<close> is the callback, \<open>ex\<close> the exit function. Expiry takes the work off the queue; the effects of
  the callback are those of its last moment.
\<close>

inductive work_step :: "(work \<Rightarrow> work) \<Rightarrow> (work \<Rightarrow> work option) \<Rightarrow> work \<Rightarrow> work \<Rightarrow> bool"
  for cb ex where
  tick: "work_step cb ex s (s\<lparr>w_now := w_now s + 1\<rparr>)"
| expire: "w_phase s = Armed \<Longrightarrow> w_due s \<le> w_now s \<Longrightarrow>
    work_step cb ex s (s\<lparr>w_phase := Running, w_calls := w_calls s + 1\<rparr>)"
| finish: "w_phase s = Running \<Longrightarrow> work_step cb ex s (cb (s\<lparr>w_phase := Idle\<rparr>))"
| unload: "w_loaded s \<Longrightarrow> ex s = Some s' \<Longrightarrow> work_step cb ex s (s'\<lparr>w_loaded := False\<rparr>)"

definition work_reach :: "(work \<Rightarrow> work) \<Rightarrow> (work \<Rightarrow> work option) \<Rightarrow> work \<Rightarrow> work \<Rightarrow> bool" where
  "work_reach cb ex = (work_step cb ex)\<^sup>*\<^sup>*"

text \<open>A module just before its init function runs.\<close>

definition new_module :: "nat \<Rightarrow> work" where
  "new_module t = \<lparr>w_phase = Idle, w_due = 0, w_now = t, w_loaded = True, w_calls = 0, w_log = []\<rparr>"

section \<open>Work that is stopped before the module goes\<close>

text \<open>
  The contract of a module with one piece of work: its init function arms it for \<open>delay\<close> later,
  its callback and its exit function do not arm it, and the exit function disarms it.
\<close>

locale armed_once =
  fixes init :: "work \<Rightarrow> int \<times> work" and cb :: "work \<Rightarrow> work" and ex :: "work \<Rightarrow> work option"
    and delay :: nat
  assumes init_arms: "init s = (r, s') \<Longrightarrow> w_phase s' = Armed \<and> w_due s' = w_now s + delay \<and>
      w_now s' = w_now s \<and> w_loaded s' = w_loaded s \<and> w_calls s' = w_calls s"
    and cb_keeps: "w_due (cb s) = w_due s" "w_now (cb s) = w_now s" "w_loaded (cb s) = w_loaded s"
      "w_calls (cb s) = w_calls s" "w_phase s = Idle \<Longrightarrow> w_phase (cb s) = Idle"
    and ex_disarms: "ex s = Some s' \<Longrightarrow> w_phase s' \<noteq> Armed \<and> w_due s' = w_due s \<and>
      w_now s' = w_now s \<and> w_calls s' = w_calls s"
begin

definition once :: "nat \<Rightarrow> work \<Rightarrow> bool" where
  "once t s \<longleftrightarrow> w_due s = t + delay \<and> (\<not> w_loaded s \<longrightarrow> w_phase s \<noteq> Armed) \<and>
     w_calls s \<le> 1 \<and> (w_phase s = Armed \<longrightarrow> w_calls s = 0) \<and>
     (0 < w_calls s \<longrightarrow> w_due s \<le> w_now s)"

lemma once_step: "work_step cb ex s s' \<Longrightarrow> once t s \<Longrightarrow> once t s'"
  by (induction rule: work_step.induct) (auto simp: once_def cb_keeps dest: ex_disarms)

lemma started:
  obtains s where "snd (init (new_module t)) = s" "w_phase s = Armed" "w_due s = t + delay"
    "w_now s = t" "w_loaded s" "w_calls s = 0"
proof -
  obtain r s where "init (new_module t) = (r, s)" by fastforce
  then show ?thesis using init_arms [of "new_module t" r s] that [of s] by (simp add: new_module_def)
qed

lemma once_reach: "work_reach cb ex (snd (init (new_module t))) s \<Longrightarrow> once t s"
  unfolding work_reach_def
proof (induction rule: rtranclp_induct)
  case base
  show ?case by (rule started [of t]) (simp add: once_def)
qed (auto intro: once_step)

lemma called_once_in_time:
  assumes "work_reach cb ex (snd (init (new_module t))) s"
  shows "w_calls s \<le> 1" "0 < w_calls s \<longrightarrow> t + delay \<le> w_now s" "\<not> w_loaded s \<longrightarrow> w_phase s \<noteq> Armed"
  using once_reach [OF assms] by (auto simp: once_def)

end

locale deferred_work = armed_once +
  assumes ex_stops: "ex s = Some s' \<Longrightarrow> w_phase s' = Idle"
begin

lemma idle_step:
  "work_step cb ex s s' \<Longrightarrow> \<not> w_loaded s \<longrightarrow> w_phase s = Idle \<Longrightarrow> \<not> w_loaded s' \<longrightarrow> w_phase s' = Idle"
  by (induction rule: work_step.induct) (auto simp: cb_keeps dest: ex_stops)

lemma not_after_unload:
  "work_reach cb ex (snd (init (new_module t))) s \<Longrightarrow> \<not> w_loaded s \<longrightarrow> w_phase s = Idle"
  unfolding work_reach_def
proof (induction rule: rtranclp_induct)
  case base
  show ?case by (rule started [of t]) simp
qed (rule idle_step)

end

text \<open>Work whose exit function waits for it has run by the time the module is gone.\<close>

locale awaited_work = deferred_work +
  assumes ex_waits: "ex s = Some s' \<Longrightarrow> w_phase s = Idle"
begin

lemma ex_after:
  "ex s = Some s' \<Longrightarrow> w_phase s = Idle \<and> w_phase s' = Idle \<and> w_calls s' = w_calls s"
  using ex_waits ex_stops ex_disarms by blast

lemma runs_step:
  "work_step cb ex s s' \<Longrightarrow> (w_phase s = Idle \<longrightarrow> w_calls s = 1) \<and> (w_phase s = Running \<longrightarrow> w_calls s = 1) \<and>
     (w_phase s = Armed \<longrightarrow> w_calls s = 0) \<Longrightarrow>
   (w_phase s' = Idle \<longrightarrow> w_calls s' = 1) \<and> (w_phase s' = Running \<longrightarrow> w_calls s' = 1) \<and>
     (w_phase s' = Armed \<longrightarrow> w_calls s' = 0)"
  by (induction rule: work_step.induct) (auto simp: cb_keeps dest: ex_after)

lemma runs_once:
  "work_reach cb ex (snd (init (new_module t))) s \<Longrightarrow>
   (w_phase s = Idle \<longrightarrow> w_calls s = 1) \<and> (w_phase s = Running \<longrightarrow> w_calls s = 1) \<and>
     (w_phase s = Armed \<longrightarrow> w_calls s = 0)"
  unfolding work_reach_def
proof (induction rule: rtranclp_induct)
  case base
  show ?case by (rule started [of t]) simp
qed (rule runs_step)

lemma unloaded_has_run:
  "work_reach cb ex (snd (init (new_module t))) s \<Longrightarrow> \<not> w_loaded s \<Longrightarrow> w_phase s = Idle \<and> w_calls s = 1"
  using runs_once not_after_unload by blast

end

lemmas timer_simps = timer_init_def timer_exit_def my_timer_callback_def setup_timer_def mod_timer_def
  del_timer_def work_print_def

interpretation timer: armed_once "timer_init m2j" my_timer_callback timer_exit "m2j 5000" for m2j
  by unfold_locales (auto simp: timer_simps Let_def split: if_splits)

interpretation hr: deferred_work "hrtimer_init j" "my_hrtimer_callback j" hrtimer_exit "MS_TO_NS 400" for j
  by unfold_locales
    (auto simp: hrtimer_init_def my_hrtimer_callback_def hrtimer_exit_def hrtimer_cancel_def work_print_def
      Let_def split: phase.splits)

interpretation tasklet: awaited_work tasklet_init my_tasklet_function tasklet_exit 0
  by unfold_locales
    (auto simp: tasklet_init_def my_tasklet_function_def tasklet_exit_def tasklet_kill_def work_print_def
      split: if_splits bind_splits)

text \<open>
  The exit function of the timer module does not wait: the module can be gone while its callback
  runs.
\<close>

lemma timer_unloaded_running:
  "\<exists>s. work_reach my_timer_callback timer_exit (snd (timer_init m2j (new_module t))) s \<and>
     \<not> w_loaded s \<and> w_phase s = Running"
proof -
  let ?R = "work_step my_timer_callback timer_exit"
  let ?s = "snd (timer_init m2j (new_module t))"
  have ticks: "?R\<^sup>*\<^sup>* s (s\<lparr>w_now := w_now s + n\<rparr>)" for s n
  proof (induction n)
    case (Suc n)
    have "?R (s\<lparr>w_now := w_now s + n\<rparr>) (s\<lparr>w_now := w_now s + Suc n\<rparr>)"
      using work_step.tick [of my_timer_callback timer_exit "s\<lparr>w_now := w_now s + n\<rparr>"] by simp
    then show ?case by (rule rtranclp.rtrancl_into_rtrancl [OF Suc])
  qed simp
  let ?a = "?s\<lparr>w_now := w_now ?s + m2j 5000\<rparr>"
  let ?b = "?a\<lparr>w_phase := Running, w_calls := w_calls ?a + 1\<rparr>"
  have b: "?R ?a ?b" by (rule work_step.expire) (simp_all add: timer_simps new_module_def)
  obtain c where c: "timer_exit ?b = Some c" "w_phase c = Running" by (simp add: timer_simps)
  have "w_loaded ?b" by (simp add: timer_simps new_module_def)
  from work_step.unload [OF this, of timer_exit c my_timer_callback] c(1)
  have "?R ?b (c\<lparr>w_loaded := False\<rparr>)" .
  then have "?R\<^sup>*\<^sup>* ?s (c\<lparr>w_loaded := False\<rparr>)"
    using ticks b by (meson rtranclp.rtrancl_into_rtrancl)
  then show ?thesis
    unfolding work_reach_def using c(2) by (intro exI [of _ "c\<lparr>w_loaded := False\<rparr>"]) simp
qed

section \<open>The interrupt handler\<close>

text \<open>
  \<open>q_lines\<close> are the interrupt lines on which the kernel has our handler; \<open>q_count\<close> is the
  function's static variable. The handler prints at most 100 times and never claims the interrupt.
\<close>

datatype irqreturn = IRQ_NONE | IRQ_HANDLED

datatype irq_msg = Interrupt_msg | Cannot_register int | Request_ok int | Freeing int

record irq_mod =
  irq :: int
  q_lines :: "int set"
  q_count :: int
  q_log :: "irq_msg list"

definition irq_print :: "irq_msg \<Rightarrow> irq_mod \<Rightarrow> irq_mod" where
  "irq_print m s = s\<lparr>q_log := q_log s @ [m]\<rparr>"

definition myinterrupt :: "irq_mod \<Rightarrow> irqreturn \<times> irq_mod" where
  "myinterrupt s =
     (IRQ_NONE,
      if q_count s < 100 then (irq_print Interrupt_msg s)\<lparr>q_count := q_count s + 1\<rparr> else s)"

text \<open>\<open>ans\<close>: what \<open>request_irq\<close> returns.\<close>

definition request_irq :: "int \<Rightarrow> int \<Rightarrow> irq_mod \<Rightarrow> int \<times> irq_mod" where
  "request_irq ans i s = (if ans = 0 then (0, s\<lparr>q_lines := insert i (q_lines s)\<rparr>) else (ans, s))"

definition free_irq :: "int \<Rightarrow> irq_mod \<Rightarrow> irq_mod" where
  "free_irq i s = s\<lparr>q_lines := q_lines s - {i}\<rparr>"

definition myirqtest_init :: "int \<Rightarrow> irq_mod \<Rightarrow> int \<times> irq_mod" where
  "myirqtest_init ans s =
     (let (r, s) = request_irq ans (irq s) s
      in if r \<noteq> 0 then (- EIO, irq_print (Cannot_register (irq s)) s)
         else (0, irq_print (Request_ok (irq s)) s))"

definition myirqtest_exit :: "irq_mod \<Rightarrow> irq_mod" where
  "myirqtest_exit s = irq_print (Freeing (irq s)) (free_irq (irq s) s)"

lemmas irq_simps = myirqtest_init_def myirqtest_exit_def request_irq_def free_irq_def irq_print_def

interpretation irq_life: module_life myirqtest_init myirqtest_exit "\<lambda>s. (irq s, q_lines s)"
  "\<lambda>(i, l). i \<notin> l" "\<lambda>_. True"
  by unfold_locales (auto simp: irq_simps split: if_splits)

text \<open>\<open>n\<close> interrupts from a fresh load: the first hundred are printed.\<close>

lemma interrupts_printed:
  assumes "0 \<le> q_count s" "q_count s \<le> 100"
  shows "((snd \<circ> myinterrupt) ^^ n) s =
    s\<lparr>q_count := min 100 (q_count s + int n),
      q_log := q_log s @ replicate (min n (nat (100 - q_count s))) Interrupt_msg\<rparr>"
proof (induction n)
  case (Suc n)
  show ?case
  proof (cases "q_count s + int n < 100")
    case True
    then have "min n (nat (100 - q_count s)) = n" "min (Suc n) (nat (100 - q_count s)) = Suc n" by auto
    then show ?thesis
      using True Suc by (simp add: myinterrupt_def irq_print_def replicate_append_same)
  next
    case False
    then have "min n (nat (100 - q_count s)) = nat (100 - q_count s)"
      "min (Suc n) (nat (100 - q_count s)) = nat (100 - q_count s)" by auto
    then show ?thesis using False Suc assms by (simp add: myinterrupt_def)
  qed
qed (use assms in simp)

text \<open>
  The parameter \<open>irq\<close> may be written while the module is loaded: then unloading frees another line
  and the kernel keeps the handler.
\<close>

lemma irq_changed:
  assumes "i \<noteq> irq s"
  shows "irq s \<in> q_lines (myirqtest_exit ((snd (myirqtest_init 0 s))\<lparr>irq := i\<rparr>))"
  using assms by (simp add: irq_simps)

end
