(* ===== verification/Debugfs_Text.thy ===== *)
theory Debugfs_Text
  imports Kernel_Services "HOL-Library.Sublist"
begin

text \<open>
  The \<open>debugfs\<close> example (\<open>lfy_kernel_series/debugfs/exp_debugfs.c\<close>): a file over a buffer of 200
  bytes, two number files, and the directory they are in.
\<close>

section \<open>Buffers behind a file (fs/libfs.c)\<close>

text \<open>
  \<open>simple_read_from_buffer\<close> and \<open>simple_write_to_buffer\<close> at position \<open>pos\<close>: the result, the
  destination, and the new position. A copy that moves nothing is \<open>-EFAULT\<close>.
\<close>

definition simple_read_from_buffer ::
    "byte list \<Rightarrow> nat \<Rightarrow> int \<Rightarrow> byte list \<Rightarrow> nat \<Rightarrow> int \<times> byte list \<times> int" where
  "simple_read_from_buffer ubuf count pos from_buf available =
     (if pos < 0 then (- EINVAL, ubuf, pos)
      else if int available \<le> pos \<or> count = 0 then (0, ubuf, pos)
      else
        let count = min count (available - nat pos);
            (left, ubuf) = copy_to_user 0 (get_bytes (nat pos) count from_buf) ubuf
        in if left = count then (- EFAULT, ubuf, pos)
           else (int (count - left), ubuf, pos + int (count - left)))"

definition simple_write_to_buffer ::
    "byte list \<Rightarrow> nat \<Rightarrow> int \<Rightarrow> byte list \<Rightarrow> nat \<Rightarrow> int \<times> byte list \<times> int" where
  "simple_write_to_buffer to_buf available pos ubuf count =
     (if pos < 0 then (- EINVAL, to_buf, pos)
      else if int available \<le> pos \<or> count = 0 then (0, to_buf, pos)
      else
        let count = min count (available - nat pos);
            (left, bs) = copy_from_user 0 count ubuf;
            to_buf = put_bytes (nat pos) bs to_buf
        in if left = count then (- EFAULT, to_buf, pos)
           else (int (count - left), to_buf, pos + int (count - left)))"

section \<open>The text file\<close>

definition dbg_len :: nat where
  "dbg_len = 200"

definition myreader :: "byte list \<Rightarrow> nat \<Rightarrow> int \<Rightarrow> byte list \<Rightarrow> int \<times> byte list \<times> int" where
  "myreader user_buffer count position ker_buf =
     simple_read_from_buffer user_buffer count position ker_buf dbg_len"

definition mywriter :: "byte list \<Rightarrow> nat \<Rightarrow> int \<Rightarrow> byte list \<Rightarrow> int \<times> byte list \<times> int" where
  "mywriter user_buffer count position ker_buf =
     (if dbg_len < count then (- EINVAL, ker_buf, position)
      else simple_write_to_buffer ker_buf dbg_len position user_buffer count)"

lemma myreader_inside:
  assumes "p < 200" "0 < count" "count \<le> length ubuf" "length kb = 200"
  defines "n \<equiv> min count (200 - p)"
  shows "myreader ubuf count (int p) kb =
    (int n, put_bytes 0 (get_bytes p n kb) ubuf, int (p + n))"
proof -
  have "length (get_bytes p n kb) = n" "n \<le> length ubuf" "0 < n"
    using assms by (simp_all add: n_def get_bytes_def)
  then show ?thesis
    using assms(1-4) by (simp add: myreader_def simple_read_from_buffer_def dbg_len_def n_def [symmetric])
qed

lemma myreader_end: "myreader ubuf count (int p) kb = (0, ubuf, int p)" if "200 \<le> p" for p
  using that by (simp add: myreader_def simple_read_from_buffer_def dbg_len_def)

lemma mywriter_inside:
  assumes "p < 200" "xs \<noteq> []" "length xs \<le> 200"
  defines "n \<equiv> min (length xs) (200 - p)"
  shows "mywriter xs (length xs) (int p) kb = (int n, put_bytes p (take n xs) kb, int (p + n))"
proof -
  have "0 < n" "n \<le> length xs" using assms by (simp_all add: n_def)
  then show ?thesis
    using assms(1-3)
    by (simp add: mywriter_def simple_write_to_buffer_def dbg_len_def n_def [symmetric] get_bytes_def)
qed

text \<open>A program that reads the file to its end in pieces of \<open>k\<close> bytes.\<close>

function read_file :: "nat \<Rightarrow> nat \<Rightarrow> byte list \<Rightarrow> byte list" where
  "read_file k p kb =
     (let (r, ubuf, pos) = myreader (replicate k 0) k (int p) kb
      in if r \<le> 0 then [] else take (nat r) ubuf @ read_file k (p + nat r) kb)"
  by pat_completeness auto
termination
proof (relation "measure (\<lambda>(k, p, kb). 200 - p)")
  fix k p and kb :: "byte list" and x r y ubuf pos
  assume x: "x = myreader (replicate k 0) k (int p) kb" "(r, y) = x" "(ubuf, pos) = y" "\<not> r \<le> 0"
  then have "p < 200" using myreader_end [of p "replicate k 0" k kb] by (cases "p < 200") auto
  then show "((k, p + nat r, kb), k, p, kb) \<in> measure (\<lambda>(k, p, kb). 200 - p)"
    using x(4) by simp
qed simp

declare read_file.simps [simp del]

lemma read_file_eq:
  assumes "0 < k" "length kb = 200"
  shows "read_file k p kb = drop p kb"
  using assms
proof (induction k p kb rule: read_file.induct)
  case (1 k p kb)
  show ?case
  proof (cases "p < 200")
    case True
    let ?n = "min k (200 - p)"
    let ?u = "put_bytes 0 (get_bytes p ?n kb) (replicate k 0)"
    have r: "myreader (replicate k 0) k (int p) kb = (int ?n, ?u, int (p + ?n))"
      using True 1(2,3) by (simp add: myreader_inside)
    have n: "length (get_bytes p ?n kb) = ?n" using 1(3) by (simp add: get_bytes_def)
    then have "take ?n ?u = get_bytes p ?n kb" by (simp add: put_bytes_def)
    moreover have "read_file k (p + ?n) kb = drop (p + ?n) kb"
      using 1(1) [OF r [symmetric] refl] True 1(2,3) by simp
    moreover have "get_bytes p ?n kb @ drop (p + ?n) kb = drop p kb"
      using append_take_drop_id [of ?n "drop p kb"] by (simp add: get_bytes_def add.commute)
    ultimately show ?thesis
      using True 1(2) by (subst read_file.simps) (simp add: r del: of_nat_add)
  qed (use 1(3) in \<open>subst read_file.simps, simp add: myreader_end\<close>)
qed

text \<open>What is written at the start of the file is read back, before the rest of the old content.\<close>

lemma write_then_read:
  assumes "length xs \<le> 200" "0 < k" "length kb = 200"
  shows "\<exists>kb'. mywriter xs (length xs) 0 kb = (int (length xs), kb', int (length xs)) \<and>
    length kb' = 200 \<and> read_file k 0 kb' = xs @ drop (length xs) kb"
proof (cases "xs = []")
  case True
  then have "mywriter xs (length xs) 0 kb = (0, kb, 0)"
    by (simp add: mywriter_def simple_write_to_buffer_def)
  then show ?thesis using True assms by (simp add: read_file_eq)
next
  case False
  have "mywriter xs (length xs) 0 kb = (int (length xs), put_bytes 0 xs kb, int (length xs))"
    using mywriter_inside [of 0 xs kb] False assms by (simp add: min_def)
  then show ?thesis using assms by (simp add: read_file_eq) (simp add: put_bytes_def)
qed

section \<open>The directory\<close>

datatype dbg_entry = Dir | Text_file | Number_file | Hex_file

type_synonym dbg_tab = "path \<Rightarrow> dbg_entry option"

text \<open>What the kernel has memory for.\<close>

record dbg_answers =
  ok_dell :: bool
  ok_text :: bool
  ok_number :: bool
  ok_hex :: bool

record dbg_mod =
  dirret :: "path option"
  fileret :: "path option"
  u64int :: "path option"
  u64hex :: "path option"
  dbg_tab :: dbg_tab

text \<open>Without a parent the entry is in the root of the file system.\<close>

definition debugfs_create ::
    "bool \<Rightarrow> string \<Rightarrow> path option \<Rightarrow> dbg_entry \<Rightarrow> dbg_tab \<Rightarrow> path option \<times> dbg_tab" where
  "debugfs_create ok name parent e tab =
     (let p = (case parent of None \<Rightarrow> [] | Some d \<Rightarrow> d) @ [name]
      in if ok then (Some p, tab(p \<mapsto> e)) else (None, tab))"

definition debugfs_remove_recursive :: "path option \<Rightarrow> dbg_tab \<Rightarrow> dbg_tab" where
  "debugfs_remove_recursive p tab =
     (case p of None \<Rightarrow> tab | Some d \<Rightarrow> (\<lambda>q. if prefix d q then None else tab q))"

definition init_debug :: "dbg_answers \<Rightarrow> dbg_mod \<Rightarrow> int \<times> dbg_mod" where
  "init_debug k m =
     (let (d, tab) = debugfs_create (ok_dell k) ''dell'' None Dir (dbg_tab m);
          m = m\<lparr>dirret := d, dbg_tab := tab\<rparr>;
          (f, tab) = debugfs_create (ok_text k) ''text'' (dirret m) Text_file (dbg_tab m);
          m = m\<lparr>fileret := f, dbg_tab := tab\<rparr>;
          (u, tab) = debugfs_create (ok_number k) ''number'' (dirret m) Number_file (dbg_tab m);
          m = m\<lparr>u64int := u, dbg_tab := tab\<rparr>
      in if u64int m = None then (- ENODEV, m)
         else
           let (x, tab) = debugfs_create (ok_hex k) ''hexnum'' (dirret m) Hex_file (dbg_tab m);
               m = m\<lparr>u64hex := x, dbg_tab := tab\<rparr>
           in if u64hex m = None then (- ENODEV, m) else (0, m))"

definition exit_debug :: "dbg_mod \<Rightarrow> dbg_mod" where
  "exit_debug m = m\<lparr>dbg_tab := debugfs_remove_recursive (dirret m) (dbg_tab m)\<rparr>"

lemmas dbg_simps = init_debug_def exit_debug_def debugfs_create_def debugfs_remove_recursive_def

definition no_dell :: "dbg_tab \<Rightarrow> bool" where
  "no_dell tab \<longleftrightarrow> (\<forall>q. tab (''dell'' # q) = None)"

lemma prefix_dell: "prefix [''dell''] q \<Longrightarrow> no_dell tab \<Longrightarrow> tab q = None"
  by (auto simp: no_dell_def prefix_def)

interpretation debug_life: module_life init_debug exit_debug dbg_tab no_dell
  "\<lambda>k. ok_dell k \<and> ok_number k \<and> ok_hex k"
proof unfold_locales
  fix k s r s'
  assume k: "ok_dell k \<and> ok_number k \<and> ok_hex k" and f: "no_dell (dbg_tab s)"
    and i: "init_debug k s = (r, s')"
  have "dbg_tab (exit_debug s') q = dbg_tab s q" for q
    using k i prefix_dell [OF _ f, of q]
    by (auto simp: dbg_simps Let_def split: if_splits)
  then show "dbg_tab (exit_debug s') = dbg_tab s" by (rule ext)
qed (auto simp: dbg_simps Let_def split: if_splits)

text \<open>
  The other answers: without the directory the files are made in the root and unloading removes
  nothing; a failure after that of \<open>number\<close> leaves \<open>text\<close>, whose operations are the module's.
\<close>

lemma debug_without_dir:
  assumes "\<not> ok_dell k" "ok_text k"
  shows "dbg_tab (exit_debug (snd (init_debug k m))) [''text''] = Some Text_file"
  using assms by (auto simp: dbg_simps Let_def)

lemma debug_failure_leaves_text:
  assumes "ok_dell k" "ok_text k" "\<not> ok_number k"
  shows "fst (init_debug k m) = - ENODEV"
    and "dbg_tab (snd (init_debug k m)) [''dell'', ''text''] = Some Text_file"
  using assms by (auto simp: dbg_simps Let_def)

end
