(* ===== verification/Probes.thy ===== *)
theory Probes
  imports Kernel_Services
begin

text \<open>
  The probe examples (\<open>kprobes\<close>, \<open>jprobe\<close>): a kprobe and a jprobe on \<open>ip_rcv\<close>, and the kernel's
  own two examples on \<open>do_fork\<close>. \<open>p_probes\<close> are the symbols at which the kernel calls the module;
  \<open>p_log\<close> is the kernel log, oldest first. A registration fails with a negative number.
\<close>

datatype arch = X86 | PPC | MIPS | Other_arch

datatype probe_msg =
    Module_inserted | Module_removed | Pre_count u32 | Post_count u32
  | Registering_probe | Register_successful | Inside_handler | Source_IP "byte list" | Dest_IP "byte list"
  | Pre_at u64 u64 u64 | Post_at u64 u64 | Fault_at u64 int
  | Fork u64 u64 u64 | Register_failed int | Planted | Unregistered

record probe_mod =
  p_probes :: "string set"
  p_counter :: u32
  p_log :: "probe_msg list"

definition probe_print :: "probe_msg \<Rightarrow> probe_mod \<Rightarrow> probe_mod" where
  "probe_print x s = s\<lparr>p_log := p_log s @ [x]\<rparr>"

definition register_probe :: "int \<Rightarrow> string \<Rightarrow> probe_mod \<Rightarrow> int \<times> probe_mod" where
  "register_probe ans symb s =
     (if ans < 0 then (ans, s) else (0, s\<lparr>p_probes := insert symb (p_probes s)\<rparr>))"

definition unregister_probe :: "string \<Rightarrow> probe_mod \<Rightarrow> probe_mod" where
  "unregister_probe symb s = s\<lparr>p_probes := p_probes s - {symb}\<rparr>"

section \<open>Counting packets (\<open>kprobes/kprobe.c\<close>)\<close>

definition Pre_Handler :: "probe_mod \<Rightarrow> int \<times> probe_mod" where
  "Pre_Handler s = (0, (probe_print (Pre_count (p_counter s)) s)\<lparr>p_counter := p_counter s + 1\<rparr>)"

definition Post_Handler :: "probe_mod \<Rightarrow> probe_mod" where
  "Post_Handler s = (probe_print (Post_count (p_counter s)) s)\<lparr>p_counter := p_counter s + 1\<rparr>"

definition count_init :: "int \<Rightarrow> probe_mod \<Rightarrow> int \<times> probe_mod" where
  "count_init ans s =
     (let s = probe_print Module_inserted s;
          (_, s) = register_probe ans ''ip_rcv'' s
      in (0, s))"

definition count_exit :: "probe_mod \<Rightarrow> probe_mod" where
  "count_exit s = probe_print Module_removed (unregister_probe ''ip_rcv'' s)"

text \<open>A packet arrives: the probed function is called.\<close>

definition packet :: "probe_mod \<Rightarrow> probe_mod" where
  "packet s = (if ''ip_rcv'' \<in> p_probes s then Post_Handler (snd (Pre_Handler s)) else s)"

section \<open>Addresses of packets (\<open>jprobe/jprobe.c\<close>)\<close>

text \<open>The bytes of an address as they are in memory, and on the wire.\<close>

definition ip_bytes :: "u32 \<Rightarrow> byte list" where
  "ip_bytes a = le32 a"

definition my_handler :: "u32 \<Rightarrow> u32 \<Rightarrow> probe_mod \<Rightarrow> probe_mod" where
  "my_handler saddr daddr s =
     (let s = probe_print Inside_handler s;
          s = probe_print (Source_IP (ip_bytes saddr)) s
      in probe_print (Dest_IP (ip_bytes daddr)) s)"

text \<open>The function has no \<open>return\<close>: the result is what the register held.\<close>

definition addr_init :: "int \<times> int \<Rightarrow> probe_mod \<Rightarrow> int \<times> probe_mod" where
  "addr_init k s =
     (let (ans, reg) = k;
          s = probe_print Module_inserted s;
          s = probe_print Registering_probe s;
          (_, s) = register_probe ans ''ip_rcv'' s
      in (reg, probe_print Register_successful s))"

definition addr_exit :: "probe_mod \<Rightarrow> probe_mod" where
  "addr_exit s = probe_print Module_removed (unregister_probe ''ip_rcv'' s)"

section \<open>The kernel's examples (\<open>kprobes/kprobe_example.c\<close>, \<open>kprobes/jprobe_example.c\<close>)\<close>

text \<open>\<open>pc\<close> and \<open>status\<close> are the registers printed: on another architecture nothing is.\<close>

definition handler_pre :: "arch \<Rightarrow> u64 \<Rightarrow> u64 \<Rightarrow> u64 \<Rightarrow> probe_mod \<Rightarrow> int \<times> probe_mod" where
  "handler_pre a addr pc status s =
     (0, if a = X86 \<or> a = PPC \<or> a = MIPS then probe_print (Pre_at addr pc status) s else s)"

definition handler_post :: "arch \<Rightarrow> u64 \<Rightarrow> u64 \<Rightarrow> probe_mod \<Rightarrow> probe_mod" where
  "handler_post a addr status s =
     (if a = X86 \<or> a = PPC \<or> a = MIPS then probe_print (Post_at addr status) s else s)"

definition handler_fault :: "u64 \<Rightarrow> int \<Rightarrow> probe_mod \<Rightarrow> int \<times> probe_mod" where
  "handler_fault addr trapnr s = (0, probe_print (Fault_at addr trapnr) s)"

definition kprobe_init :: "int \<Rightarrow> probe_mod \<Rightarrow> int \<times> probe_mod" where
  "kprobe_init ans s =
     (let (ret, s) = register_probe ans ''do_fork'' s
      in if ret < 0 then (ret, probe_print (Register_failed ret) s) else (0, probe_print Planted s))"

definition kprobe_exit :: "probe_mod \<Rightarrow> probe_mod" where
  "kprobe_exit s = probe_print Unregistered (unregister_probe ''do_fork'' s)"

definition jdo_fork :: "u64 \<Rightarrow> u64 \<Rightarrow> u64 \<Rightarrow> probe_mod \<Rightarrow> int \<times> probe_mod" where
  "jdo_fork clone_flags stack_size regs s = (0, probe_print (Fork clone_flags stack_size regs) s)"

definition jprobe_init :: "int \<Rightarrow> probe_mod \<Rightarrow> int \<times> probe_mod" where
  "jprobe_init ans s =
     (let (ret, s) = register_probe ans ''do_fork'' s
      in if ret < 0 then (- 1, probe_print (Register_failed ret) s) else (0, probe_print Planted s))"

definition jprobe_exit :: "probe_mod \<Rightarrow> probe_mod" where
  "jprobe_exit s = probe_print Unregistered (unregister_probe ''do_fork'' s)"

section \<open>Loading and unloading\<close>

lemmas probe_simps = probe_print_def register_probe_def unregister_probe_def count_init_def
  count_exit_def addr_init_def addr_exit_def kprobe_init_def kprobe_exit_def jprobe_init_def
  jprobe_exit_def

interpretation count_life: module_life count_init count_exit p_probes "\<lambda>l. ''ip_rcv'' \<notin> l" "\<lambda>_. True"
  by unfold_locales (auto simp: probe_simps Let_def split: if_splits prod.splits)

interpretation kprobe_life: module_life kprobe_init kprobe_exit p_probes "\<lambda>l. ''do_fork'' \<notin> l" "\<lambda>_. True"
  by unfold_locales (auto simp: probe_simps Let_def split: if_splits)

interpretation jprobe_life: module_life jprobe_init jprobe_exit p_probes "\<lambda>l. ''do_fork'' \<notin> l" "\<lambda>_. True"
  by unfold_locales (auto simp: probe_simps Let_def split: if_splits)

text \<open>The address module only when the register happens to hold no error number.\<close>

interpretation addr_life: module_life addr_init addr_exit p_probes "\<lambda>l. ''ip_rcv'' \<notin> l"
  "\<lambda>(ans, reg). \<not> reg < 0"
  by unfold_locales (auto simp: probe_simps Let_def split: if_splits prod.splits)

lemma addr_init_garbage:
  assumes "0 \<le> ans" "reg < 0"
  shows "fst (addr_init (ans, reg) s) < 0" "''ip_rcv'' \<in> p_probes (snd (addr_init (ans, reg) s))"
  using assms by (simp_all add: probe_simps)

section \<open>What is printed\<close>

text \<open>\<open>n\<close> packets: the counter numbers the handler calls, two for each packet.\<close>

definition packet_msgs :: "u32 \<Rightarrow> nat \<Rightarrow> probe_msg list" where
  "packet_msgs c n =
     concat (map (\<lambda>i. [Pre_count (c + of_nat (2 * i)), Post_count (c + of_nat (2 * i + 1))]) [0 ..< n])"

lemma packets_counted:
  assumes "''ip_rcv'' \<in> p_probes s"
  shows "(packet ^^ n) s = s\<lparr>p_counter := p_counter s + of_nat (2 * n),
    p_log := p_log s @ packet_msgs (p_counter s) n\<rparr>"
proof (induction n)
  case 0
  then show ?case by (simp add: packet_msgs_def)
next
  case (Suc n)
  then show ?case
    using assms by (simp add: packet_def Pre_Handler_def Post_Handler_def probe_print_def packet_msgs_def)
qed

text \<open>The bytes of an address are printed in the order they have on the wire.\<close>

lemma ip_bytes_wire: "ip_bytes (un_le32 [a, b, c, d]) = [a, b, c, d]"
  by (simp add: ip_bytes_def)

end
