(* ===== verification/Param_Modules.thy ===== *)
theory Param_Modules
  imports Kernel_Services "HOL-Library.Signed_Division"
begin

text \<open>
  Modules with parameters and exported symbols: \<open>lkm2_paramerter/hello5.c\<close>, \<open>mod1\<close> (a module that
  adds and one that uses it to average), \<open>17_module_interaction\<close>, the AVR32 \<open>simple.c\<close> and the
  hello modules. What a function prints is a byte string, without the log level; an \<open>int\<close> that
  is computed with is a \<open>32 word\<close>, as the kernel is built with wrapping signed arithmetic.
\<close>

section \<open>All kinds of parameters (\<open>lkm2_paramerter/hello5.c\<close>)\<close>

record hello5_params =
  myshort :: "16 word"
  myint :: u32
  mylong :: u64
  mystring :: "byte list"
  myintArray :: "u32 list"
  arr_argc :: u32

definition hello5_defaults :: hello5_params where
  "hello5_defaults = \<lparr>myshort = 1, myint = 420, mylong = 9999, mystring = str ''blah'',
     myintArray = [- 1, - 1], arr_argc = 0\<rparr>"

definition array_line :: "nat \<Rightarrow> u32 \<Rightarrow> byte list" where
  "array_line i x = str ''myintArray['' @ dec (int i) @ str ''] = '' @ dec (sint x) @ [10]"

fun array_lines :: "nat \<Rightarrow> u32 list \<Rightarrow> byte list" where
  "array_lines i [] = []"
| "array_lines i (x # xs) = array_line i x @ array_lines (Suc i) xs"

definition hello_5_init :: "hello5_params \<Rightarrow> int \<times> byte list" where
  "hello_5_init p =
     (0, str ''Hello, world 5'' @ [10] @ str ''============='' @ [10] @
         str ''myshort is a short integer: '' @ dec (sint (myshort p)) @ [10] @
         str ''myint is an integer: '' @ dec (sint (myint p)) @ [10] @
         str ''mylong is a long integer: '' @ dec (sint (mylong p)) @ [10] @
         str ''mystring is a string: '' @ mystring p @ [10] @
         array_lines 0 (myintArray p) @
         str ''got '' @ dec (sint (arr_argc p)) @ str '' arguments for myintArray.'' @ [10])"

definition hello_5_exit :: "byte list" where
  "hello_5_exit = str ''Goodbye, world 5'' @ [10]"

section \<open>A module that uses another (\<open>mod1\<close>)\<close>

record sum_params =
  par1 :: u32
  par2 :: u32
  result :: u32

definition add_numbers :: "u32 \<Rightarrow> u32 \<Rightarrow> u32" where
  "add_numbers p p2 = p + p2"

definition add_init :: "sum_params \<Rightarrow> int \<times> byte list \<times> sum_params" where
  "add_init m =
     (let m = m\<lparr>result := add_numbers (par1 m) (par2 m)\<rparr>
      in (0, str ''I am in init module'' @ [10] @
             str ''sum of numbers is:'' @ dec (sint (result m)) @ [10], m))"

definition add_exit :: "byte list" where
  "add_exit = str ''bye every one!'' @ [10] @ str ''I am in the clean up module'' @ [10]"

text \<open>\<open>/\<close> on signed machine integers rounds towards zero.\<close>

instantiation word :: (len) signed_divide
begin

definition signed_divide_word :: "'a word \<Rightarrow> 'a word \<Rightarrow> 'a word" where
  "signed_divide_word a b = word_of_int (sint a sdiv sint b)"

instance ..

end

definition avg :: "u32 \<Rightarrow> u32 \<Rightarrow> u32" where
  "avg p1 p2 = (let r = add_numbers p1 p2 in r sdiv 2)"

definition avg_init :: "sum_params \<Rightarrow> int \<times> byte list \<times> sum_params" where
  "avg_init m =
     (let m = m\<lparr>result := avg (par1 m) (par2 m)\<rparr>
      in (0, str ''I am in init module'' @ [10] @
             str ''avg of numbers is:'' @ dec (sint (result m)) @ [10], m))"

definition avg_exit :: "byte list" where
  "avg_exit = str ''bye every one!'' @ [10] @ str ''I am in the clean up module'' @ [10]"

lemma signed_fits: "- (2 ^ 31) \<le> k \<Longrightarrow> k < 2 ^ 31 \<Longrightarrow> sint (word_of_int k :: u32) = k"
  by (simp add: sint_sbintrunc' signed_take_bit_int_eq_self)

lemma sint_add_numbers:
  assumes "- (2 ^ 31) \<le> sint p + sint q" "sint p + sint q < 2 ^ 31"
  shows "sint (add_numbers p q) = sint p + sint q"
  using assms by (simp add: add_numbers_def sint_word_add signed_take_bit_int_eq_self)

text \<open>The average, rounded towards zero, as long as the sum is an \<open>int\<close>.\<close>

lemma avg_is_average:
  assumes "- (2 ^ 31) \<le> sint p + sint q" "sint p + sint q < 2 ^ 31"
  shows "sint (avg p q) = (sint p + sint q) sdiv 2"
proof -
  let ?r = "sint p + sint q"
  have "sint (2 :: u32) = 2" by simp
  then have "avg p q = word_of_int (?r sdiv 2)"
    using sint_add_numbers [OF assms] by (simp add: avg_def signed_divide_word_def)
  moreover have "\<bar>?r\<bar> \<le> 2 ^ 31" using assms by (simp add: abs_le_iff)
  then have "\<bar>?r\<bar> div 2 \<le> 2 ^ 31 div 2" by (intro zdiv_mono1) simp_all
  then have "- (2 ^ 31) \<le> ?r sdiv 2" "?r sdiv 2 < 2 ^ 31"
    by (auto simp: signed_divide_int_def sgn_if)
  ultimately show ?thesis by (simp add: signed_fits)
qed

text \<open>Of the largest \<open>int\<close> and itself the average printed is \<open>-1\<close>.\<close>

lemma avg_overflows: "sint (avg (2 ^ 31 - 1) (2 ^ 31 - 1)) = - 1"
proof -
  have "add_numbers (2 ^ 31 - 1) (2 ^ 31 - 1) = (- 2 :: u32)" by (simp add: add_numbers_def)
  then show ?thesis by (simp add: avg_def signed_divide_word_def signed_divide_int_def)
qed

section \<open>Parameters and symbols of a module (\<open>17_module_interaction\<close>)\<close>

text \<open>\<open>cfg_value\<close> may be written while the module is loaded: each function prints the current value.\<close>

definition mod_par_init :: "int \<Rightarrow> int \<times> byte list" where
  "mod_par_init cfg_value = (0, str ''Loaded with '' @ dec cfg_value @ [10])"

definition mod_par_exit :: "int \<Rightarrow> byte list" where
  "mod_par_exit cfg_value = str ''Unloaded cfg value: '' @ dec cfg_value @ [10]"

record glob_mod =
  cool_cl :: ptr_res
  classes :: "string set"

definition get_cool_cl :: "glob_mod \<Rightarrow> ptr_res" where
  "get_cool_cl m = cool_cl m"

definition class_create :: "ptr_res \<Rightarrow> string \<Rightarrow> glob_mod \<Rightarrow> ptr_res \<times> glob_mod" where
  "class_create ans name m = (ans, if ans = P_valid then m\<lparr>classes := insert name (classes m)\<rparr> else m)"

definition class_destroy :: "ptr_res \<Rightarrow> string \<Rightarrow> glob_mod \<Rightarrow> glob_mod" where
  "class_destroy cl name m = (if cl = P_valid then m\<lparr>classes := classes m - {name}\<rparr> else m)"

definition glob_sym_init :: "ptr_res \<Rightarrow> glob_mod \<Rightarrow> int \<times> glob_mod" where
  "glob_sym_init ans m =
     (let (cl, m) = class_create ans ''cool'' m;
          m = m\<lparr>cool_cl := cl\<rparr>
      in if IS_ERR (cool_cl m) then (PTR_ERR (cool_cl m), m) else (0, m))"

definition glob_sym_exit :: "glob_mod \<Rightarrow> glob_mod" where
  "glob_sym_exit m = class_destroy (cool_cl m) ''cool'' m"

interpretation glob_life: module_life glob_sym_init glob_sym_exit classes "\<lambda>c. ''cool'' \<notin> c" "\<lambda>_. True"
  by unfold_locales
    (auto simp: glob_sym_init_def glob_sym_exit_def class_create_def class_destroy_def Let_def
      split: if_splits)

text \<open>A loaded module hands out the class it has created.\<close>

lemma get_cool_cl_loaded:
  "glob_sym_init P_valid m = (r, m') \<Longrightarrow> r = 0 \<and> get_cool_cl m' = P_valid \<and> ''cool'' \<in> classes m'"
  by (auto simp: glob_sym_init_def class_create_def get_cool_cl_def)

section \<open>Hello modules\<close>

definition simple_init :: "u32 \<Rightarrow> int \<times> byte list" where
  "simple_init number =
     (0, str ''Hello World!'' @ [10] @ str ''The number is: '' @ dec (sint number) @ [10])"

definition simple_exit :: "byte list" where
  "simple_exit = str ''Goodbye World!'' @ [10]"

definition mymodule_init :: "int \<times> byte list" where
  "mymodule_init = (0, str ''My module worked!'' @ [10])"

definition mymodule_exit :: "byte list" where
  "mymodule_exit = str ''Unloading my module.'' @ [10]"

definition ofd_init :: "int \<times> byte list" where
  "ofd_init = (0, str ''Namaskar: ofd registered'')"

definition ofd_exit :: "byte list" where
  "ofd_exit = str ''Alvida: ofd unregistered''"

text \<open>The initial value does not fit an \<open>int\<close>.\<close>

definition gokul_testing :: u32 where
  "gokul_testing = 4294967295"

definition hello_3_init :: "int \<times> byte list" where
  "hello_3_init = (0, str ''Hello, world '' @ dec (sint gokul_testing) @ [10])"

definition hello_3_exit :: "byte list" where
  "hello_3_exit = str ''Goodbye, world 3'' @ [10]"

definition start_init :: "int \<times> byte list" where
  "start_init =
     (let a = 10 in
      (0, str ''Hello, world - this is the kernel speaking'' @ [10] @ str ''the value of a is'' @ dec a @ [10]))"

definition stop_cleanup :: "byte list" where
  "stop_cleanup = str ''Short is the life of a kernel module'' @ [10]"

lemma hello_3_prints_minus_1: "snd hello_3_init = str ''Hello, world '' @ [45, 49, 10]"
proof -
  have "dec (sint gokul_testing) = dec (- 1)" by (simp add: gokul_testing_def)
  also have "\<dots> = [45, 49]" by (simp add: dec_def digits.simps)
  finally show ?thesis by (simp add: hello_3_init_def)
qed

section \<open>Function pointers (\<open>cprogramming/functionpointers\<close>)\<close>

definition sayhello :: "byte list" where
  "sayhello = str ''hello gokul'' @ [10]"

definition hello_main :: "byte list" where
  "hello_main = sayhello"

text \<open>The same through a pointer (\<open>hello_ptr.c\<close>).\<close>

definition hello_ptr_main :: "byte list" where
  "hello_ptr_main = (let sayhelloptr = sayhello in sayhelloptr)"

definition fp_add :: "u32 \<Rightarrow> u32 \<Rightarrow> u32" where
  "fp_add x y = x + y"

definition fp_subtract :: "u32 \<Rightarrow> u32 \<Rightarrow> u32" where
  "fp_subtract x y = x - y"

definition domath :: "(u32 \<Rightarrow> u32 \<Rightarrow> u32) \<Rightarrow> u32 \<Rightarrow> u32 \<Rightarrow> u32" where
  "domath mathop x y = mathop x y"

definition domath_main :: "byte list" where
  "domath_main =
     (let a = domath fp_add 10 3; b = domath fp_subtract 10 4
      in str ''the value of add is ='' @ dec (sint a) @ [10] @
         str ''the value of subtract is ='' @ dec (sint b) @ [10])"

definition named_add :: "byte list \<Rightarrow> u32 \<Rightarrow> u32 \<Rightarrow> byte list" where
  "named_add name x y = name @ str '' gives value of='' @ dec (sint (x + y)) @ [10]"

text \<open>A function, its address and what its address points to are the same pointer.\<close>

definition names_main :: "byte list" where
  "names_main =
     (let add1ptr = named_add; add2ptr = named_add; add3ptr = named_add;
          add4ptr = named_add; add5ptr = named_add
      in add1ptr (str ''add1ptr'') 10 2 @ add2ptr (str ''add2ptr'') 11 2 @
         add3ptr (str ''add3ptr'') 12 2 @ add4ptr (str ''add4ptr'') 13 2 @
         add5ptr (str ''add5ptr'') 14 2 @
         add1ptr (str ''addr1func'') 10 2 @ add2ptr (str ''addr2func'') 11 2 @
         add3ptr (str ''addr3func'') 12 2 @ add4ptr (str ''addr4func'') 13 2 @
         add5ptr (str ''addr5func'') 14 2)"

definition subtractandprint :: "u32 \<Rightarrow> u32 \<Rightarrow> byte list" where
  "subtractandprint x y = (let z = x - y in str ''The value of z is = '' @ dec (sint z) @ [10])"

definition print_main :: "byte list" where
  "print_main = (let sap_ptr = subtractandprint in sap_ptr 10 2 @ sap_ptr 10 2)"

definition return_main :: "byte list" where
  "return_main =
     (let sub_ret = fp_subtract; y = sub_ret 10 3; z = sub_ret 10 3
      in str ''the value of y is ='' @ dec (sint y) @ [10] @
         str ''the value of z is ='' @ dec (sint z) @ [10])"

lemma domath_prints:
  "domath_main = str ''the value of add is =13'' @ [10] @ str ''the value of subtract is =6'' @ [10]"
  by (simp add: domath_main_def domath_def fp_add_def fp_subtract_def dec_def digits.simps str_def)

end
