(* ===== verification/Module_Properties.thy ===== *)
theory Module_Properties
  imports Platform_Test Spi_Example Object_Lists Deferred_Work Debugfs_Text Probes Param_Modules
begin

text \<open>
  Properties of the platform bus modules and of the modules whose code the kernel calls later.
\<close>

section \<open>Platform devices\<close>

definition empty_bus :: bus where
  "empty_bus = \<lparr>bmem = (\<lambda>_. None), bnext = 0, on_bus = [], example_driver = False, klog = []\<rparr>"

lemma empty_bus_ok [simp]: "bus_ok empty_bus" "on_bus empty_bus = []" "\<not> example_driver empty_bus"
    "bnext empty_bus = 0"
  by (simp_all add: bus_ok_def empty_bus_def)

text \<open>
  C38. When the kernel cannot add device \<open>i\<close>, loading the test module fails, and no device it has
  added is left on the bus or bound; the \<open>i\<close> device objects themselves are not given back, since
  \<open>platform_device_del\<close> drops no reference.
\<close>

theorem failed_load_leaves_bus:
  assumes "bus_ok s" "all_answers k 0 i" "add_fails k i" "i < unat nr" "0 < psz"
    and "unat nr * psz < 2 ^ (8 * psz)"
  shows "\<exists>ret s'. platform_test_init psz True k nr value s = Some (ret, [], s') \<and> ret < 0 \<and>
    on_bus s' = on_bus s \<and> example_driver s' = example_driver s \<and>
    bmem s' = (\<lambda>a. if bnext s \<le> a \<and> a < bnext s + i then Some (test_dev value (a - bnext s) False)
                    else bmem s a)"
  by (rule init_fails [OF assms(2,3,4) devices_size_fits [OF assms(5,6)] assms(1)])

lemma failed_load_leaves_bus_witness:
  "\<exists>ret s'. platform_test_init 8 True \<lparr>k_alloc = (\<lambda>i. True), k_data = (\<lambda>i. 0),
      k_add = (\<lambda>i. if i = 2 then - EBUSY else 0)\<rparr> 3 7 empty_bus = Some (ret, [], s') \<and>
    on_bus s' = [] \<and> bmem s' 1 = Some (test_dev 7 1 False)"
proof -
  let ?k = "\<lparr>k_alloc = (\<lambda>i. True), k_data = (\<lambda>i. 0), k_add = (\<lambda>i. if i = 2 then - EBUSY else 0)\<rparr>"
  have "all_answers ?k 0 2" "add_fails ?k 2" by (auto simp: all_answers_def add_fails_def)
  from failed_load_leaves_bus [OF empty_bus_ok(1) this, of 3 8 7] show ?thesis by fastforce
qed

text \<open>
  C39. The order in which the driver and the module with \<open>n\<close> devices are loaded does not matter:
  in both orders the driver is asked about each of the devices once, in the order of their numbers
  and with the module's value, and all are bound in the end.
\<close>

theorem load_order_irrelevant:
  assumes "bus_ok s" "on_bus s = []" "\<not> example_driver s" "all_answers k 0 (unat nr)"
  shows "\<exists>s1 s2 u. platform_test_init 8 True k nr value (snd (platform_example_init 0 s)) =
      Some (0, map Some [bnext s ..< bnext s + unat nr], s1) \<and>
    platform_test_init 8 True k nr value s =
      Some (0, map Some [bnext s ..< bnext s + unat nr], s2) \<and> platform_example_init 0 s2 = (0, u) \<and>
    bmem s1 = bmem u \<and> on_bus s1 = on_bus u \<and> example_driver s1 \<and> example_driver u \<and>
    (\<forall>j < unat nr. bmem s1 (bnext s + j) = Some (test_dev value j True)) \<and>
    filter is_probe (klog s1) = filter is_probe (klog s) @ probes value (unat nr) \<and>
    filter is_probe (klog u) = filter is_probe (klog s) @ probes value (unat nr)"
proof -
  let ?s1 = "snd (platform_example_init 0 s)" and ?s2 = "added value (unat nr) 0 s"
  have "bnext ?s1 = bnext s"
    using assms(2) by (simp add: platform_example_init_def platform_driver_register_def)
  moreover have "fst (platform_example_init 0 ?s2) = 0"
    by (simp add: platform_example_init_def platform_driver_register_def)
  ultimately show ?thesis
    using init_ok [OF assms(4) devices_size_64] driver_then_devices [OF assms(2,3,1), where n = "unat nr" and v = "value"]
    by (intro exI [of _ "added value (unat nr) 0 ?s1"] exI [of _ ?s2]
        exI [of _ "snd (platform_example_init 0 ?s2)"])
      (simp add: prod_eq_iff)
qed

lemma load_order_irrelevant_witness:
  "\<exists>(s1 :: bus) s2 u. platform_test_init 8 True \<lparr>k_alloc = (\<lambda>i. True), k_data = (\<lambda>i. 0), k_add = (\<lambda>i. 0)\<rparr> 2 5 empty_bus =
      Some (0, [Some 0, Some 1], s2) \<and> platform_example_init 0 s2 = (0, u) \<and>
    bmem s1 = bmem u \<and> bmem s1 1 = Some (test_dev 5 1 True)"
proof -
  let ?k = "\<lparr>k_alloc = (\<lambda>i. True), k_data = (\<lambda>i. 0), k_add = (\<lambda>i. 0)\<rparr>"
  have n: "map Some [bnext empty_bus ..< bnext empty_bus + unat (2 :: u32)] = [Some 0, Some 1]"
    by (simp add: upt_rec)
  have "all_answers ?k 0 (unat (2 :: u32))" by (simp add: all_answers_def)
  from load_order_irrelevant [OF empty_bus_ok(1-3) this, of 5, unfolded n]
  obtain s1 s2 u :: bus where s: "platform_test_init 8 True ?k 2 5 empty_bus = Some (0, [Some 0, Some 1], s2)"
    "platform_example_init 0 s2 = (0, u)" "bmem s1 = bmem u"
    "\<forall>j < unat (2 :: u32). bmem s1 (bnext empty_bus + j) = Some (test_dev 5 j True)" by blast
  have "1 < unat (2 :: u32)" by simp
  from s(4) [rule_format, OF this] have "bmem s1 1 = Some (test_dev 5 1 True)" by simp
  then show ?thesis using s(1-3) by blast
qed

section \<open>Deferred work\<close>

text \<open>
  C40. Once the module of the high-resolution timer or of the tasklet is unloaded, its callback
  neither runs nor will run: the timer's has been called at most once and not before its 400
  milliseconds were over, the tasklet's exactly once. The module of the plain timer, whose exit
  function does not wait, can be gone while its callback runs.
\<close>

theorem callbacks_and_unloading:
  assumes "work_reach (my_hrtimer_callback j) hrtimer_exit (snd (hrtimer_init j (new_module t))) s"
    and "work_reach my_tasklet_function tasklet_exit (snd (tasklet_init (new_module t))) s'"
  shows "(\<not> w_loaded s \<longrightarrow> w_phase s = Idle) \<and> w_calls s \<le> 1 \<and>
    (0 < w_calls s \<longrightarrow> t + MS_TO_NS 400 \<le> w_now s) \<and>
    (\<not> w_loaded s' \<longrightarrow> w_phase s' = Idle \<and> w_calls s' = 1) \<and>
    (\<exists>u. work_reach my_timer_callback timer_exit (snd (timer_init m2j (new_module t))) u \<and>
       \<not> w_loaded u \<and> w_phase u = Running)"
  using hr.not_after_unload [OF assms(1)] hr.called_once_in_time [OF assms(1)]
    tasklet.unloaded_has_run [OF assms(2)] timer_unloaded_running [of m2j t] by blast

lemma callbacks_and_unloading_witness:
  "\<exists>s. work_reach my_tasklet_function tasklet_exit (snd (tasklet_init (new_module 0))) s \<and>
    \<not> w_loaded s \<and> w_phase s = Idle \<and> w_calls s = 1"
proof -
  let ?R = "work_step my_tasklet_function tasklet_exit"
  let ?a = "snd (tasklet_init (new_module 0))"
  let ?b = "?a\<lparr>w_phase := Running, w_calls := w_calls ?a + 1\<rparr>"
  let ?c = "my_tasklet_function (?b\<lparr>w_phase := Idle\<rparr>)"
  have "w_phase ?a = Armed" "w_due ?a \<le> w_now ?a" by (simp_all add: tasklet_init_def new_module_def)
  then have 1: "?R ?a ?b" by (rule work_step.expire)
  have 2: "?R ?b ?c" by (rule work_step.finish) simp
  have "w_loaded ?c" "tasklet_exit ?c = Some ?c"
    by (simp_all add: tasklet_init_def new_module_def my_tasklet_function_def work_print_def
        tasklet_exit_def tasklet_kill_def)
  from work_step.unload [OF this(1), of tasklet_exit ?c my_tasklet_function] this(2)
  have 3: "?R ?c (?c\<lparr>w_loaded := False\<rparr>)" by simp
  have r: "work_reach my_tasklet_function tasklet_exit ?a (?c\<lparr>w_loaded := False\<rparr>)"
    unfolding work_reach_def using 1 2 3 by (meson converse_rtranclp_into_rtranclp r_into_rtranclp)
  have h: "work_reach (my_hrtimer_callback id) hrtimer_exit (snd (hrtimer_init id (new_module 0)))
      (snd (hrtimer_init id (new_module 0)))" by (simp add: work_reach_def)
  have "\<not> w_loaded (?c\<lparr>w_loaded := False\<rparr>)" by simp
  then show ?thesis using callbacks_and_unloading [OF h r, of id] r by blast
qed

end
