(* ===== verification/Spec2Isabelle.thy ===== *)
theory Spec2Isabelle
  imports Sfs_Properties Sfs_Data_Properties Sfs_File_Properties Sfs_Register Browser_Properties
    Session_Properties Disk_Properties Driver_Properties Module_Properties
begin

text \<open>
  A model of the Linux driver and file-system tutorials of this repository.

  \<^bold>\<open>The program.\<close> The repository holds the code of a series of articles. Its core is the Simula
  file system (\<open>src/lfy_dd_series/18-25-Filesystem\<close>) in six monthly releases: a user-space browser
  over a file (June to August), and kernel modules (September to November) that mount the same
  on-disk format over a block device. Beside it stand the disk-on-RAM block driver
  (\<open>src/lfy_dd_series/15_diskonrom\<close>), on which the file system is formatted and mounted, and the
  character, parallel-port and \<open>/proc\<close> drivers of \<open>src/device_driver_examples\<close> and
  \<open>src/lfy_dd_series/16_proc_window_sys\<close> with the programs that use them, the platform and SPI
  drivers of \<open>src/platform_device_driver\<close>, and small modules: timers, interrupts, lists, probes,
  \<open>debugfs\<close>, parameters.

  \<^bold>\<open>Conventions.\<close> \<open>Prelude\<close> has the machine integers, byte arrays, C strings and pointers
  (\<open>ptr\<close>: null, valid or dangling). \<open>None\<close> as a result is undefined behaviour of the C code: an
  access outside an array, a use or second release of freed memory, a lock taken twice, an
  unterminated string. A result \<open>Some\<close> therefore says that the call is memory safe and returns.
  Negative results are the kernel's error numbers, as in the code. Loops are structural over a
  count taken from the code's bound or have a termination proof; nothing uses fuel. What a module
  prints is kept, in the order of the calls, where its order or content matters: as values of a
  message type in the state, or as the text itself. What the kernel answers (memory, numbers,
  addresses, whether a registration succeeds) is an argument of the function that asks.

  \<^bold>\<open>The file system.\<close>
  \<^item> \<open>Sfs_Layout\<close>: super block and file entry (\<open>real_sfs_ds.h\<close>) and their byte images.
  \<^item> \<open>Sfs_Device\<close>: \<open>read_from_real_sfs\<close> and \<open>write_to_real_sfs\<close> over a buffer cache. The cache
    (\<open>sb_bread\<close>, \<open>mark_buffer_dirty\<close>) is kernel code: a parameter, with the laws of the locale
    \<open>buffer_cache\<close> (a block read after a write is the block written, other blocks keep their
    content, a block has the device's block size).
  \<^item> \<open>Sfs_Table\<close>, \<open>Sfs_Files\<close>: the entry table as a list, the abstract side of every operation.
  \<^item> \<open>Sfs_Ops\<close>, \<open>Sfs_Used\<close>: the functions of \<open>real_sfs_ops.c\<close> in their order, and the flags of
    used blocks. The kernel's spin lock is a flag; taking it twice is \<open>None\<close>.
  \<^item> \<open>Sfs_Concurrent\<close>: allocation by several threads as a step relation, one step per access to
    the lock or the flags. That a thread frees only blocks it holds is a condition on runs.
  \<^item> \<open>Sfs_Vfs\<close>, \<open>Sfs_Vfs_Facts\<close>: the functions of \<open>real_sfs.c\<close> that the VFS calls. What the VFS
    answers (new inodes, cached inodes) is an argument.
  \<^item> \<open>Sfs_Pages\<close>: \<open>sfs_readpage\<close>, \<open>sfs_write_begin\<close> and \<open>sfs_writepage\<close>, which hand \<open>sfs_get_block\<close>
    to the kernel's page functions. These are kernel code; \<open>Kernel_Pages\<close> states their documented
    behaviour for any \<open>get_block\<close> function: which calls they make, what they do with a new buffer,
    with a block not written whole, and with what is behind the end of the file.
    \<open>Sfs_Page_Data\<close>: what a reader gets after a write, in the blocks written and in all others;
    \<open>Sfs_Write_Back\<close>: the same after the inode is written back.
  \<^item> \<open>Sfs_Spec\<close>: the abstract file system (files with the positions that hold data, a number of
    free blocks), what its calls keep, and that the calls of \<open>Sfs_Calls\<close> refine it.
  \<^item> \<open>Sfs_Register\<close>: \<open>sfs_init\<close>, \<open>sfs_exit\<close> and \<open>sfs_mount\<close> of the three kernel releases, with
    the locale \<open>safe_mount\<close> (a mount returns, and unmounting after it is safe).
  \<^item> \<open>Sfs_Mount\<close>, \<open>Sfs_Invariant\<close>, \<open>Sfs_Calls\<close>: the invariant \<open>fs_inv\<close> (table readable, names
    terminated, every block of a live entry inside the data area, flagged, and owned once, lock
    free), that mounting a clean disk establishes it, and that every call keeps it.
  \<^item> \<open>Sfs_Types\<close>: the types of an entry's fields (arrays of the right length, permissions of three
    bits, block numbers of the data area, a terminated name), which every call keeps, and the modes
    of the inodes that typed entries give.
  \<^item> \<open>Sfs_Format\<close>: \<open>format_real_sfs.c\<close>, with the \<open>double\<close> product rounded as IEEE 754 does; the
    formatting programs of August and October beside it; what mounting finds on the disk they write.
  \<^item> \<open>Sfs_Releases\<close>: the operations and the mounting code of September and October; those that
    are November's text are proved equal to November's (\<open>oct_same\<close>), the others are used as they are.
  \<^item> \<open>File_Handle\<close>, \<open>Stdin\<close>, \<open>Sfs_Browser\<close>: the browser of August, with standard input through
    \<open>scanf\<close> and \<open>read\<close>; \<open>Sfs_July\<close> the operations of July and June, \<open>Sfs_Shell\<close> the three
    command loops; \<open>Sfs_Browser_Facts\<close> relates the browser's operations to the table of the file,
    \<open>Sfs_Browser_Data\<close> to its data blocks, with what is typed coming in pieces of any size.
  \<^item> \<open>Sfs_Session\<close>: the state \<open>session_ok\<close> of a browser session (no file has a hole, the flags are
    exactly the blocks of the files), which \<open>init_browsing\<close> establishes on a clean disk and writing
    keeps; \<open>Sfs_Commands\<close>: every command and every round of the shell returns and keeps it, and the
    whole program ends with it. The conditions are on the lines (shorter
    than the buffer), on \<open>create\<close> (a 32-bit \<open>off_t\<close>; C25 shows what happens with one of 64 bits) and on
    \<open>write\<close> (the data fits, and needs no fewer blocks than the file had; C16 shows what happens
    otherwise). \<open>Sfs_Store\<close>: the files of a session as a map from names to bytes, which the shell's
    commands change as the function \<open>store_exec\<close> says.
  \<^item> \<open>Sfs_Exchange\<close>: browser and kernel module on one disk. A disk the browser has left satisfies
    what the module's mount needs, the module finds the entries the browser wrote, and a page it
    reads is the block that the browser stored or prints; the browser prints what the module wrote.

  \<^bold>\<open>The disk on RAM.\<close> \<open>Ram_Device\<close>, \<open>Disk_Partition\<close> (the boot records it writes), \<open>Ram_Block\<close>
  (requests, loading and unloading), and \<open>Ram_Cache\<close>: the kernel's buffer cache and block layer, which
  turn a block inside the announced capacity into a request, with the interpretation of
  \<open>buffer_cache\<close>. So the file-system theorems hold of the repository's own disk.

  \<^bold>\<open>The drivers.\<close> \<open>Kernel_Services\<close> has copies to and from user memory, \<open>/proc\<close> tables, decimal
  output, and the locale \<open>module_life\<close> (a failed load and an unload give the resources back), which
  is interpreted for every module. \<open>Sleep_Proc\<close> (\<open>sleep.c\<close>, processes, the wait queue
  and signals as a step relation; \<open>cat_noblock.c\<close>), \<open>Char_Device\<close> and \<open>Char_Client\<close> (\<open>charexample\<close>), \<open>Char_Hello\<close>
  and \<open>Char_Hello_Log\<close> (\<open>lkm3_char\<close>), \<open>Char_Regions\<close> (\<open>ocd.c\<close>, \<open>vdrv.c\<close>, \<open>query_ioctl.c\<close>), \<open>Query_App\<close>
  (\<open>query_app.c\<close>), \<open>Parallel_Port\<close> (\<open>mod4\<close>, \<open>mod5\<close>) and \<open>Proc_Modules\<close> (\<open>procfs1.c\<close>,
  \<open>procex.c\<close>, \<open>proc_window.c\<close>).

  \<^bold>\<open>Platform devices.\<close> \<open>Platform_Bus\<close> has the driver of \<open>AVR32743/platform/platform_driver.c\<close> on a
  bus of device objects with reference counts, and how binding calls its functions; \<open>Platform_Test\<close>
  the module \<open>platform_test.c\<close> that adds devices to the bus, its loop and its error path;
  \<open>Spi_Example\<close> the driver of \<open>AVR32743/spi\<close> with the controller as an argument.

  \<^bold>\<open>Small modules.\<close> \<open>Deferred_Work\<close> (\<open>ibm2_irq\<close> to \<open>ibm5_tasklet\<close>): the clock, the firing of the
  work, its end and unloading are a step relation shared by the timer, the high-resolution timer and
  the tasklet. \<open>Object_Lists\<close> (\<open>ibm6_list\<close>), \<open>Debugfs_Text\<close> (\<open>exp_debugfs.c\<close>), \<open>Probes\<close>
  (\<open>kprobes\<close>, \<open>jprobe\<close>) and \<open>Param_Modules\<close> (parameters, exported symbols, the hello modules and the
  function pointer examples).

  \<^bold>\<open>Properties.\<close> \<open>Sfs_Properties\<close> (C1 to C7), \<open>Sfs_Data_Properties\<close> (C8 to C10),
  \<open>Exchange_Properties\<close> (C11, C12), \<open>Session_Properties\<close> (C13 to C16), \<open>Sfs_File_Properties\<close> (C17 to
  C23, C29), \<open>Browser_Properties\<close> (C24, C25), \<open>Disk_Properties\<close> (C26 to C28, C30),
  \<open>Driver_Properties\<close> (C31 to C37) and \<open>Module_Properties\<close> (C38 to C40), each with a witness on a concrete input where it has hypotheses (\<open>Sfs_Sample\<close>: a disk of
  ten blocks behind the RAM-disk driver). The other lemmas of the component theories state what each
  operation does on every branch; some are theorems of their own, such as \<open>readpage_mapped\<close>,
  \<open>sfs_mount_without_root\<close>, \<open>avg_is_average\<close>,
  \<open>same_flags\<close>, \<open>readers_agree\<close>, \<open>get_block_allocates\<close>, \<open>shell_executes_line\<close>,
  \<open>vram_write_then_read\<close>.

  \<^bold>\<open>Not modelled.\<close> Tables of operations, and functions that only return 0. Files that are copies of
  modelled ones: \<open>device_driver_examples/module5\<close> (of \<open>mod5\<close>), the partition and memory files of
  \<open>lfy5_diskonrom\<close> (of \<open>15_diskonrom\<close>; its way to end a request is in \<open>Ram_Block\<close>),
  \<open>ofcd.c\<close> (of \<open>ocd.c\<close>), \<open>proc_window_ori.c\<close>, the headers of the older releases. \<open>15_diskonrom/readme.c\<close> is prose
  around copies of the code. \<open>exp_debugfs.mod.c\<close> is generated, the kernel patch is third-party code.
  The page cache itself (\<open>Kernel_Pages\<close> treats one page at a time), and the kernel's handling of concurrent calls other than those of
  \<open>Sfs_Concurrent\<close>, \<open>Sleep_Proc\<close> and \<open>Deferred_Work\<close>.
\<close>

end
